(* ===== verification/Prelude.thy ===== *)
theory Prelude
  imports Complex_Main "HOL-Library.Word"
begin

text \<open>
  Shared vocabulary of the development: the machine integers of the C++ code, the
  truncating conversion from \<open>double\<close> to \<open>uint64_t\<close>, cache line alignment, and the
  lemmas on half-open address ranges, list scans and filters that the component
  theories use.

  A \<open>uint64_t\<close> is a \<^typ>\<open>64 word\<close> and a \<open>uint32_t\<close> a \<^typ>\<open>32 word\<close>, so that
  wrap-around is the one of the machine. A \<open>double\<close> is a \<^typ>\<open>real\<close>: the latency
  arithmetic is read as exact arithmetic, without rounding, infinities or NaN.
\<close>

unbundle bit_operations_syntax

type_synonym u8 = "8 word"
type_synonym u32 = "32 word"
type_synonym u64 = "64 word"
type_synonym double = real

text \<open>Rules that translate comparisons and arithmetic on words to \<^typ>\<open>nat\<close>.\<close>

named_theorems word_to_nat \<open>reading words as natural numbers\<close>

declare word_le_nat_alt [word_to_nat] word_less_nat_alt [word_to_nat]

declare of_nat_unat [simp del]

abbreviation (input) UINT32_MAX :: u32 where
  "UINT32_MAX \<equiv> 4294967295"

abbreviation (input) UINT64_MAX :: u64 where
  "UINT64_MAX \<equiv> 18446744073709551615"

abbreviation (input) CACHELINE_SIZE :: u64 where
  "CACHELINE_SIZE \<equiv> 64"

text \<open>\<open>addr & ~(CACHELINE_SIZE - 1)\<close>, the key of every coherency directory.\<close>

definition cl_align :: "u64 \<Rightarrow> u64" where
  "cl_align addr = addr AND NOT (CACHELINE_SIZE - 1)"

text \<open>
  \<open>static_cast<uint64_t>\<close> of a \<open>double\<close> drops the fraction; outside the range of
  \<open>uint64_t\<close> the C++ conversion is undefined and this definition wraps.
\<close>

definition u64_of_double :: "double \<Rightarrow> u64" where
  "u64_of_double r = word_of_int (if 0 \<le> r then \<lfloor>r\<rfloor> else \<lceil>r\<rceil>)"

text \<open>\<open>static_cast<double>\<close> of a \<open>uint64_t\<close>.\<close>

definition double_of_u64 :: "u64 \<Rightarrow> double" where
  "double_of_u64 w = real (unat w)"


section \<open>Words\<close>

lemma unat_u64_lt [simp]: "unat (w :: u64) < 18446744073709551616"
  using unsigned_less [of w, where 'a = nat] by simp

lemma unat_u32_lt [simp]: "unat (w :: u32) < 4294967296"
  using unsigned_less [of w, where 'a = nat] by simp

lemma unat_u64_le_max [simp]: "unat (w :: u64) \<le> 18446744073709551615"
  using unat_u64_lt [of w] by linarith

lemma le_unat_u64_lt: "n \<le> unat (w :: u64) \<Longrightarrow> n < 18446744073709551616"
  by (rule le_less_trans [OF _ unat_u64_lt])

lemma unat_add_no_wrap:
  fixes a b :: "'a :: len word"
  assumes "unat a + unat b < 2 ^ LENGTH('a)"
  shows "unat (a + b) = unat a + unat b"
  using assms by (simp add: unat_word_ariths)

lemma unat_add_u64:
  fixes a b :: u64
  assumes "unat a + unat b < 18446744073709551616"
  shows "unat (a + b) = unat a + unat b"
  using assms by (intro unat_add_no_wrap) simp

lemma unat_mult_u64:
  fixes a b :: u64
  assumes "unat a * unat b < 18446744073709551616"
  shows "unat (a * b) = unat a * unat b"
  using assms by (simp add: unat_word_ariths)

lemma unat_diff_word:
  fixes a b :: "'a :: len word"
  assumes "b \<le> a"
  shows "unat (a - b) = unat a - unat b"
  using assms by (rule unat_sub)

lemma unat_uminus_u64:
  assumes "(w :: u64) \<noteq> 0"
  shows "unat (- w) = 18446744073709551616 - unat w"
proof -
  have "unat (- w + w) = (unat (- w) + unat w) mod 2 ^ 64"
    using unat_word_ariths(1) [of "- w" w] by simp
  then have "18446744073709551616 dvd unat (- w) + unat w" by (simp add: dvd_eq_mod_eq_0)
  then obtain k where k: "unat (- w) + unat w = 18446744073709551616 * k" by (elim dvdE)
  have "0 < unat w" using assms by (simp add: unat_gt_0)
  moreover have "unat (- w) + unat w < 18446744073709551616 * 2"
    using unat_u64_le_max [of "- w"] unat_u64_le_max [of w] by linarith
  ultimately have "k = 1" using k by simp
  then show ?thesis using k by simp
qed

lemma unat_pred:
  fixes w :: "'a :: len word"
  assumes "w \<noteq> 0"
  shows "unat (w - 1) = unat w - 1"
proof -
  have "0 < unat w" using assms by (simp add: unat_gt_0)
  then have "1 \<le> w" by (simp add: word_le_nat_alt)
  then show ?thesis by (simp add: unat_diff_word)
qed

lemma word_ge_0_simps [simp]: "(0 :: 'a :: len word) < w \<longleftrightarrow> w \<noteq> 0"
  by (simp add: word_neq_0_conv)

lemma cl_align_idem [simp]: "cl_align (cl_align a) = cl_align a"
  by (simp add: cl_align_def and.assoc)

lemma unat_cl_align: "unat (cl_align a) = unat a div 64 * 64"
proof -
  have m: "(64 :: u64) - 1 = mask 6" by (simp add: mask_eq_exp_minus_1)
  have "cl_align a = push_bit 6 (drop_bit 6 a)"
    unfolding cl_align_def m
    by (rule bit_word_eqI) (auto simp: bit_and_iff bit_not_iff bit_mask_iff bit_push_bit_iff bit_drop_bit_eq)
  then have eq: "cl_align a = a div 64 * 64" by (simp add: push_bit_eq_mult drop_bit_eq_div)
  have d: "unat (a div 64) = unat a div 64" by (simp add: unat_div)
  have "unat a div 64 * 64 < 18446744073709551616"
    by (rule le_unat_u64_lt [of _ a]) (rule div_times_less_eq_dividend)
  then show ?thesis unfolding eq using d by (subst unat_mult_u64) simp_all
qed

lemma cl_align_le: "cl_align a \<le> a"
  by (simp add: word_le_nat_alt unat_cl_align)

lemma cl_align_0 [simp]: "cl_align 0 = 0"
  by (simp add: cl_align_def)

lemma u64_of_double_of_nat [simp]: "u64_of_double (real n) = of_nat n"
  by (simp add: u64_of_double_def)

lemma u64_of_double_0 [simp]: "u64_of_double 0 = 0"
  by (simp add: u64_of_double_def)

lemma unat_u64_of_double:
  assumes "0 \<le> r" and "r < 18446744073709551616"
  shows "unat (u64_of_double r) = nat \<lfloor>r\<rfloor>"
proof -
  have "0 \<le> \<lfloor>r\<rfloor>" and "\<lfloor>r\<rfloor> < 18446744073709551616"
    using assms by (simp_all add: floor_less_iff)
  then show ?thesis
    using assms(1) by (simp add: u64_of_double_def unat_eq_nat_uint uint_word_of_int)
qed

lemma double_of_u64_nonneg [simp]: "0 \<le> double_of_u64 w"
  by (simp add: double_of_u64_def)

lemma double_of_u64_pos [simp]: "0 < double_of_u64 w \<longleftrightarrow> w \<noteq> 0"
  by (simp add: double_of_u64_def unat_gt_0)

lemma double_of_u64_le_iff: "double_of_u64 a \<le> double_of_u64 b \<longleftrightarrow> a \<le> b"
  by (simp add: double_of_u64_def word_le_nat_alt)

lemma double_of_u64_0 [simp]: "double_of_u64 0 = 0"
  by (simp add: double_of_u64_def)


section \<open>Half-open ranges of addresses\<close>

text \<open>
  The addresses of the range that starts at \<^term>\<open>b\<close> and holds \<^term>\<open>s\<close> bytes, as
  natural numbers, so that a range that ends at the top of the address space is not
  folded back to zero.
\<close>

definition range_set :: "u64 \<Rightarrow> u64 \<Rightarrow> nat set" where
  "range_set b s = {unat b ..< unat b + unat s}"

text \<open>The range does not run past the end of the address space.\<close>

definition no_wrap :: "u64 \<Rightarrow> u64 \<Rightarrow> bool" where
  "no_wrap b s \<longleftrightarrow> unat b + unat s < 18446744073709551616"

lemma range_set_empty_iff [simp]: "range_set b s = {} \<longleftrightarrow> s = 0"
  by (simp add: range_set_def unat_eq_0)

lemma finite_range_set [simp]: "finite (range_set b s)"
  by (simp add: range_set_def)

lemma card_range_set [simp]: "card (range_set b s) = unat s"
  by (simp add: range_set_def)

lemma in_range_set [simp]: "x \<in> range_set b s \<longleftrightarrow> unat b \<le> x \<and> x < unat b + unat s"
  by (simp add: range_set_def)

lemma unat_add_range: "no_wrap b s \<Longrightarrow> unat (b + s) = unat b + unat s"
  by (simp add: no_wrap_def unat_add_u64)

lemma no_wrap_range_test:
  assumes "no_wrap b s"
  shows "b \<le> a \<and> a < b + s \<longleftrightarrow> unat a \<in> range_set b s"
  using assms by (auto simp: no_wrap_def word_to_nat unat_add_u64)


section \<open>Lists\<close>

text \<open>
  The first element that satisfies a predicate, replaced; the loops that look for an
  entry, change it and return are this function.
\<close>

fun update_first :: "('a \<Rightarrow> bool) \<Rightarrow> ('a \<Rightarrow> 'a) \<Rightarrow> 'a list \<Rightarrow> 'a list" where
  "update_first P f [] = []"
| "update_first P f (x # xs) = (if P x then f x # xs else x # update_first P f xs)"

lemma length_update_first [simp]: "length (update_first P f xs) = length xs"
  by (induction xs) auto

lemma update_first_none: "\<not> list_ex P xs \<Longrightarrow> update_first P f xs = xs"
  by (induction xs) auto

lemma update_first_split:
  assumes "list_ex P xs"
  obtains us x vs where "xs = us @ x # vs" and "P x" and "\<not> list_ex P us"
    and "update_first P f xs = us @ f x # vs"
  using assms
proof (induction xs arbitrary: thesis)
  case Nil
  then show ?case by simp
next
  case (Cons y ys)
  show ?case
  proof (cases "P y")
    case True
    then show ?thesis using Cons.prems(1) [of "[]" y ys] by simp
  next
    case False
    with Cons.prems(2) have "list_ex P ys" by simp
    then obtain us x vs where "ys = us @ x # vs" "P x" "\<not> list_ex P us"
      "update_first P f ys = us @ f x # vs"
      using Cons.IH by blast
    then show ?thesis using False Cons.prems(1) [of "y # us" x vs] by simp
  qed
qed

lemma set_update_first_subset: "set (update_first P f xs) \<subseteq> set xs \<union> f ` set xs"
  by (induction xs) auto

lemma find_SomeD: "find P xs = Some x \<Longrightarrow> x \<in> set xs \<and> P x"
  by (induction xs) (auto split: if_splits)

lemma find_None_list_ex: "find P xs = None \<longleftrightarrow> \<not> list_ex P xs"
  by (induction xs) auto

lemma sum_list_map_filter_le:
  fixes f :: "'a \<Rightarrow> nat"
  shows "sum_list (map f (filter P xs)) \<le> sum_list (map f xs)"
  by (induction xs) auto

section \<open>Families of pairwise disjoint sets indexed by a list\<close>

definition disjoint_on :: "('a \<Rightarrow> 'b set) \<Rightarrow> 'a list \<Rightarrow> bool" where
  "disjoint_on f xs \<longleftrightarrow> distinct xs \<and>
     (\<forall>x \<in> set xs. \<forall>y \<in> set xs. x \<noteq> y \<longrightarrow> f x \<inter> f y = {})"

lemma disjoint_on_Nil [simp]: "disjoint_on f []"
  by (simp add: disjoint_on_def)

lemma disjoint_on_Cons:
  "disjoint_on f (x # xs) \<longleftrightarrow> x \<notin> set xs \<and> (\<forall>y \<in> set xs. f x \<inter> f y = {}) \<and> disjoint_on f xs"
proof (cases "x \<in> set xs")
  case True
  then show ?thesis by (simp add: disjoint_on_def)
next
  case False
  then have ne: "y \<in> set xs \<Longrightarrow> x \<noteq> y \<and> y \<noteq> x" for y by blast
  then show ?thesis
    unfolding disjoint_on_def by (simp add: Int_commute [of _ "f x"] ball_conj_distrib cong: ball_cong) blast
qed

lemma disjoint_on_sort [simp]: "disjoint_on f (sort_key k xs) = disjoint_on f xs"
  by (simp add: disjoint_on_def)

lemma disjoint_on_unique:
  "disjoint_on f xs \<Longrightarrow> x \<in> set xs \<Longrightarrow> y \<in> set xs \<Longrightarrow> z \<in> f x \<Longrightarrow> z \<in> f y \<Longrightarrow> x = y"
  unfolding disjoint_on_def by (metis disjoint_iff)

lemma disjoint_on_snoc:
  assumes "disjoint_on f xs" and "f x \<noteq> {}" and "\<forall>y \<in> set xs. f x \<inter> f y = {}"
  shows "disjoint_on f (xs @ [x])"
proof -
  have "x \<notin> set xs" using assms(2,3) by auto
  then show ?thesis using assms(1,3) by (auto simp: disjoint_on_def)
qed

lemma disjoint_on_remove:
  "disjoint_on f (xs @ x # ys) \<Longrightarrow> disjoint_on f (xs @ ys)"
  by (auto simp: disjoint_on_def)

lemma disjoint_on_Union_remove:
  "disjoint_on f (xs @ x # ys) \<Longrightarrow>
   \<Union> (f ` set (xs @ ys)) = \<Union> (f ` set (xs @ x # ys)) - f x"
  unfolding disjoint_on_def by fastforce

lemma card_disjoint_on:
  assumes "disjoint_on f xs" and "\<forall>x \<in> set xs. finite (f x)"
  shows "card (\<Union> (f ` set xs)) = (\<Sum>x\<leftarrow>xs. card (f x))"
proof -
  have "card (\<Union> (f ` set xs)) = (\<Sum>x \<in> set xs. card (f x))"
    using assms by (intro card_UN_disjoint) (auto simp: disjoint_on_def)
  also have "\<dots> = (\<Sum>x\<leftarrow>xs. card (f x))"
    using assms(1) by (simp add: disjoint_on_def sum_list_distinct_conv_sum_set)
  finally show ?thesis .
qed

text \<open>Deactivating the first match removes one element from the active sublist.\<close>

lemma filter_update_first_drop:
  assumes "list_ex P xs" and "\<And>x. P x \<Longrightarrow> A x" and "\<And>x. \<not> A (f x)"
  obtains x pre post where "P x" and "x \<in> set xs"
    and "filter A xs = pre @ x # post" and "filter A (update_first P f xs) = pre @ post"
proof -
  obtain us x vs where "xs = us @ x # vs" "P x" "update_first P f xs = us @ f x # vs"
    using update_first_split [OF assms(1), of f] by blast
  then show ?thesis
    using assms(2,3) that [of x "filter A us" "filter A vs"] by simp
qed

end
