(* ===== verification/HDM_Decoder.thy ===== *)
theory HDM_Decoder
  imports Prelude
begin

text \<open>
  The HDM decoder of \<open>include/hdm_decoder.h\<close> and \<open>src/hdm_decoder.cpp\<close>: the address
  map that sends a host physical address to a target (a device or a node), an offset in
  the target's memory and whether the target is remote. Decoding is range based (a list
  of ranges, scanned linearly, or by binary search once sorted), interleaved (blocks
  dealt round-robin to a list of targets) or hybrid (ranges first, then interleaving).
  A miss is the result with target \<open>UINT32_MAX\<close>.
\<close>

datatype HDMDecoderMode = INTERLEAVED | RANGE_BASED | HYBRID

datatype InterleaveGranularity =
  CACHELINE_64B | CACHELINE_256B | PAGE_4K | PAGE_2M | PAGE_1G

text \<open>The enumerators' values, \<open>static_cast<uint64_t>(granularity)\<close>.\<close>

fun granularity_value :: "InterleaveGranularity \<Rightarrow> u64" where
  "granularity_value CACHELINE_64B = 64"
| "granularity_value CACHELINE_256B = 256"
| "granularity_value PAGE_4K = 4096"
| "granularity_value PAGE_2M = 2097152"
| "granularity_value PAGE_1G = 1073741824"

record HDMRange =
  rng_base_addr :: u64
  rng_size :: u64
  rng_target_id :: u32
  rng_is_remote :: bool

record HDMInterleaveConfig =
  il_granularity :: InterleaveGranularity
  il_target_ids :: "u32 list"
  il_base_addr :: u64
  il_total_size :: u64

record DecodeResult =
  res_target_id :: u32
  res_local_offset :: u64
  res_is_remote :: bool
  res_hop_count :: u32

record HDMDecoder =
  hdm_mode :: HDMDecoderMode
  hdm_ranges :: "HDMRange list"
  hdm_interleave_config :: HDMInterleaveConfig
  hdm_ranges_sorted :: bool

definition new_HDMDecoder :: "HDMDecoderMode \<Rightarrow> HDMDecoder" where
  "new_HDMDecoder m =
     \<lparr>hdm_mode = m, hdm_ranges = [],
      hdm_interleave_config = \<lparr>il_granularity = CACHELINE_256B, il_target_ids = [],
                               il_base_addr = 0, il_total_size = 0\<rparr>,
      hdm_ranges_sorted = False\<rparr>"

definition add_range :: "u64 \<Rightarrow> u64 \<Rightarrow> u32 \<Rightarrow> bool \<Rightarrow> HDMDecoder \<Rightarrow> HDMDecoder" where
  "add_range b s t rem d =
     d\<lparr>hdm_ranges := hdm_ranges d @
         [\<lparr>rng_base_addr = b, rng_size = s, rng_target_id = t, rng_is_remote = rem\<rparr>],
       hdm_ranges_sorted := False\<rparr>"

definition configure_interleave ::
  "InterleaveGranularity \<Rightarrow> u32 list \<Rightarrow> u64 \<Rightarrow> u64 \<Rightarrow> HDMDecoder \<Rightarrow> HDMDecoder" where
  "configure_interleave gran targets b sz d =
     d\<lparr>hdm_interleave_config := \<lparr>il_granularity = gran, il_target_ids = targets,
                                 il_base_addr = b, il_total_size = sz\<rparr>\<rparr>"

text \<open>\<open>std::sort\<close> by base address; the ranges of a decoder have distinct bases.\<close>

definition sort_ranges :: "HDMDecoder \<Rightarrow> HDMDecoder" where
  "sort_ranges d = d\<lparr>hdm_ranges := sort_key rng_base_addr (hdm_ranges d),
                     hdm_ranges_sorted := True\<rparr>"

definition decode_miss :: DecodeResult where
  "decode_miss = \<lparr>res_target_id = UINT32_MAX, res_local_offset = 0,
                  res_is_remote = False, res_hop_count = 0\<rparr>"

definition range_hit :: "HDMRange \<Rightarrow> u64 \<Rightarrow> DecodeResult" where
  "range_hit r addr =
     \<lparr>res_target_id = rng_target_id r, res_local_offset = addr - rng_base_addr r,
      res_is_remote = rng_is_remote r, res_hop_count = (if rng_is_remote r then 1 else 0)\<rparr>"

text \<open>The linear scan of an unsorted table; \<open>base + size\<close> wraps as in the code.\<close>

fun decode_linear :: "HDMRange list \<Rightarrow> u64 \<Rightarrow> DecodeResult" where
  "decode_linear [] addr = decode_miss"
| "decode_linear (r # rs) addr =
     (if rng_base_addr r \<le> addr \<and> addr < rng_base_addr r + rng_size r
      then range_hit r addr else decode_linear rs addr)"

text \<open>The binary search loop over \<open>int lo, hi\<close>.\<close>

function decode_bsearch :: "HDMRange list \<Rightarrow> u64 \<Rightarrow> int \<Rightarrow> int \<Rightarrow> DecodeResult" where
  "decode_bsearch rs addr lo hi =
     (if lo \<le> hi then
        let mid = lo + (hi - lo) div 2; r = rs ! nat mid in
        if addr < rng_base_addr r then decode_bsearch rs addr lo (mid - 1)
        else if rng_base_addr r + rng_size r \<le> addr then decode_bsearch rs addr (mid + 1) hi
        else range_hit r addr
      else decode_miss)"
  by pat_completeness auto
termination
  by (relation "measure (\<lambda>(rs, addr, lo, hi). nat (hi - lo + 1))") (auto simp: Let_def)

declare decode_bsearch.simps [simp del]

text \<open>\<open>static_cast<int>(ranges_.size())\<close>, a 32-bit two's complement value.\<close>

definition int_of_size :: "nat \<Rightarrow> int" where
  "int_of_size n = sint (of_nat n :: u32)"

definition decode_range :: "HDMDecoder \<Rightarrow> u64 \<Rightarrow> DecodeResult" where
  "decode_range d addr =
     (if hdm_ranges d = [] then decode_miss
      else if \<not> hdm_ranges_sorted d then decode_linear (hdm_ranges d) addr
      else decode_bsearch (hdm_ranges d) addr 0 (int_of_size (length (hdm_ranges d)) - 1))"

definition decode_interleaved :: "HDMDecoder \<Rightarrow> u64 \<Rightarrow> DecodeResult" where
  "decode_interleaved d addr =
     (let c = hdm_interleave_config d in
      if il_target_ids c = [] then decode_miss
      else if addr < il_base_addr c \<or> il_base_addr c + il_total_size c \<le> addr then decode_miss
      else
        let granularity = granularity_value (il_granularity c);
            relative_addr = addr - il_base_addr c;
            block_index = relative_addr div granularity;
            num_targets = of_nat (length (il_target_ids c));
            target_index = block_index mod num_targets;
            target_id = il_target_ids c ! unat target_index;
            target_block = block_index div num_targets;
            intra_block_offset = relative_addr mod granularity;
            local_offset = target_block * granularity + intra_block_offset;
            is_remote = (case find (\<lambda>r. rng_target_id r = target_id) (hdm_ranges d) of
                           None \<Rightarrow> False | Some r \<Rightarrow> rng_is_remote r)
        in \<lparr>res_target_id = target_id, res_local_offset = local_offset,
            res_is_remote = is_remote, res_hop_count = (if is_remote then 1 else 0)\<rparr>)"

definition decode :: "HDMDecoder \<Rightarrow> u64 \<Rightarrow> DecodeResult" where
  "decode d addr =
     (case hdm_mode d of
        RANGE_BASED \<Rightarrow> decode_range d addr
      | INTERLEAVED \<Rightarrow> decode_interleaved d addr
      | HYBRID \<Rightarrow>
          (let result = decode_range d addr in
           if res_target_id result \<noteq> UINT32_MAX then result else decode_interleaved d addr))"

definition get_home_node :: "HDMDecoder \<Rightarrow> u64 \<Rightarrow> u32" where
  "get_home_node d addr = res_target_id (decode d addr)"

definition is_local :: "HDMDecoder \<Rightarrow> u64 \<Rightarrow> u32 \<Rightarrow> bool" where
  "is_local d addr local_node_id \<longleftrightarrow>
     res_target_id (decode d addr) = local_node_id \<and> \<not> res_is_remote (decode d addr)"


section \<open>Well-formed range tables\<close>

text \<open>
  Every range is non-empty and does not wrap, and no two ranges share an address. The
  binary search relies on it; the linear scan then does not depend on the order.
\<close>

definition range_addrs :: "HDMRange \<Rightarrow> nat set" where
  "range_addrs r = range_set (rng_base_addr r) (rng_size r)"

definition wf_range :: "HDMRange \<Rightarrow> bool" where
  "wf_range r \<longleftrightarrow> rng_size r \<noteq> 0 \<and> no_wrap (rng_base_addr r) (rng_size r)"

definition wf_ranges :: "HDMRange list \<Rightarrow> bool" where
  "wf_ranges rs \<longleftrightarrow> (\<forall>r \<in> set rs. wf_range r) \<and> disjoint_on range_addrs rs"

lemma range_test_iff:
  "wf_range r \<Longrightarrow>
   rng_base_addr r \<le> a \<and> a < rng_base_addr r + rng_size r \<longleftrightarrow> unat a \<in> range_addrs r"
  unfolding wf_range_def range_addrs_def by (blast dest: no_wrap_range_test)

lemma wf_ranges_unique:
  "wf_ranges rs \<Longrightarrow> r \<in> set rs \<Longrightarrow> r' \<in> set rs \<Longrightarrow> x \<in> range_addrs r \<Longrightarrow> x \<in> range_addrs r' \<Longrightarrow> r = r'"
  unfolding wf_ranges_def by (blast intro: disjoint_on_unique)

lemma wf_ranges_nth: "wf_ranges rs \<Longrightarrow> i < length rs \<Longrightarrow> wf_range (rs ! i)"
  by (simp add: wf_ranges_def)

lemma wf_ranges_sort [simp]: "wf_ranges (sort_key f rs) = wf_ranges rs"
  by (simp add: wf_ranges_def)

text \<open>What a table means: the range that holds the address decides, a miss otherwise.\<close>

definition table_meaning :: "HDMRange list \<Rightarrow> u64 \<Rightarrow> DecodeResult" where
  "table_meaning rs a = (case find (\<lambda>r. unat a \<in> range_addrs r) rs of
                           None \<Rightarrow> decode_miss | Some r \<Rightarrow> range_hit r a)"

lemma table_meaning_hit:
  assumes "wf_ranges rs" and "r \<in> set rs" and "unat a \<in> range_addrs r"
  shows "table_meaning rs a = range_hit r a"
proof (cases "find (\<lambda>r. unat a \<in> range_addrs r) rs")
  case None
  then show ?thesis using assms by (auto simp: find_None_iff)
next
  case (Some r')
  then have "r' \<in> set rs" "unat a \<in> range_addrs r'"
    by (auto dest: find_SomeD)
  then have "r' = r" using assms wf_ranges_unique by blast
  then show ?thesis using Some by (simp add: table_meaning_def)
qed

lemma table_meaning_miss:
  "\<forall>r \<in> set rs. unat a \<notin> range_addrs r \<Longrightarrow> table_meaning rs a = decode_miss"
  by (auto simp: table_meaning_def dest: find_SomeD split: option.split)

lemma decode_linear_meaning:
  "\<forall>r \<in> set rs. wf_range r \<Longrightarrow> decode_linear rs a = table_meaning rs a"
  by (induction rs) (auto simp: table_meaning_def range_test_iff split: option.split)

text \<open>
  The search interval of the binary search keeps every range that may hold the address:
  the ranges left of a probed range end before it, those right of it begin after it.
\<close>

definition sorted_table :: "HDMRange list \<Rightarrow> bool" where
  "sorted_table rs \<longleftrightarrow> wf_ranges rs \<and> sorted (map rng_base_addr rs)"

lemma sorted_table_before:
  assumes "sorted_table rs" and "i \<le> m" and "m < length rs"
    and "rng_base_addr (rs ! m) + rng_size (rs ! m) \<le> a"
  shows "unat a \<notin> range_addrs (rs ! i)"
proof
  assume a: "unat a \<in> range_addrs (rs ! i)"
  have wm: "wf_range (rs ! m)" and wi: "wf_range (rs ! i)"
    using assms wf_ranges_nth by (auto simp: sorted_table_def)
  have "rng_base_addr (rs ! i) \<le> rng_base_addr (rs ! m)"
    using assms by (auto simp: sorted_table_def sorted_iff_nth_mono)
  then have le: "unat (rng_base_addr (rs ! i)) \<le> unat (rng_base_addr (rs ! m))"
    by (simp add: word_to_nat)
  have "unat (rng_base_addr (rs ! m)) + unat (rng_size (rs ! m)) \<le> unat a"
    using assms(4) wm by (simp add: wf_range_def unat_add_range word_to_nat)
  moreover have "0 < unat (rng_size (rs ! m))"
    using wm by (simp add: wf_range_def unat_gt_0)
  ultimately have "unat (rng_base_addr (rs ! m)) \<in> range_addrs (rs ! i) \<inter> range_addrs (rs ! m)"
    using a le by (auto simp: range_addrs_def)
  then have "rs ! i = rs ! m"
    using assms wf_ranges_unique [of rs "rs ! i" "rs ! m"] by (auto simp: sorted_table_def)
  then show False using a assms(4) range_test_iff [OF wm, of a] by auto
qed

lemma sorted_table_after:
  assumes "sorted_table rs" and "m \<le> i" and "i < length rs" and "a < rng_base_addr (rs ! m)"
  shows "unat a \<notin> range_addrs (rs ! i)"
proof -
  have "rng_base_addr (rs ! m) \<le> rng_base_addr (rs ! i)"
    using assms by (auto simp: sorted_table_def sorted_iff_nth_mono)
  with assms(4) show ?thesis by (auto simp: range_addrs_def word_to_nat)
qed

lemma decode_bsearch_meaning:
  assumes "sorted_table rs" and "0 \<le> lo" and "hi < int (length rs)"
    and "\<forall>i < length rs. int i < lo \<or> hi < int i \<longrightarrow> unat a \<notin> range_addrs (rs ! i)"
  shows "decode_bsearch rs a lo hi = table_meaning rs a"
  using assms
proof (induction rs a lo hi rule: decode_bsearch.induct)
  case (1 rs a lo hi)
  define mid where "mid = lo + (hi - lo) div 2"
  define r where "r = rs ! nat mid"
  show ?case
  proof (cases "lo \<le> hi")
    case False
    then have "\<forall>i < length rs. unat a \<notin> range_addrs (rs ! i)"
      using "1.prems"(4) by (metis linorder_not_le order.strict_trans2 order.strict_trans1)
    then show ?thesis using False
      by (simp add: decode_bsearch.simps [of rs a lo hi] table_meaning_miss all_set_conv_all_nth)
  next
    case True
    then have mid: "lo \<le> mid" "mid \<le> hi" "0 \<le> mid" "nat mid < length rs"
      using "1.prems"(2,3) by (auto simp: mid_def)
    have step: "decode_bsearch rs a lo hi =
        (if a < rng_base_addr r then decode_bsearch rs a lo (mid - 1)
         else if rng_base_addr r + rng_size r \<le> a then decode_bsearch rs a (mid + 1) hi
         else range_hit r a)"
      using True by (simp add: decode_bsearch.simps [of rs a lo hi] mid_def r_def Let_def)
    consider "a < rng_base_addr r" | "\<not> a < rng_base_addr r" "rng_base_addr r + rng_size r \<le> a"
      | "\<not> a < rng_base_addr r" "\<not> rng_base_addr r + rng_size r \<le> a" by blast
    then show ?thesis
    proof cases
      case 1
      have "decode_bsearch rs a lo (mid - 1) = table_meaning rs a"
        using "1.IH"(1) [OF True mid_def r_def 1] "1.prems" mid 1
          sorted_table_after [of rs "nat mid" _ a] by (force simp: r_def)
      then show ?thesis using step 1 by simp
    next
      case 2
      have "decode_bsearch rs a (mid + 1) hi = table_meaning rs a"
        using "1.IH"(2) [OF True mid_def r_def 2] "1.prems" mid 2
          sorted_table_before [of rs _ "nat mid" a] by (force simp: r_def)
      then show ?thesis using step 2 by simp
    next
      case 3
      have "wf_range r" "r \<in> set rs" "wf_ranges rs"
        using "1.prems"(1) mid wf_ranges_nth by (auto simp: sorted_table_def r_def)
      then show ?thesis
        using step 3 range_test_iff [of r a] table_meaning_hit [of rs r a] by (simp add: not_less not_le)
    qed
  qed
qed

lemma int_of_size_small: "n < 2147483648 \<Longrightarrow> int_of_size n = int n"
  by (simp add: int_of_size_def sint_uint signed_take_bit_int_eq_self unsigned_of_nat take_bit_nat_eq_self)

lemma decode_range_meaning:
  assumes "wf_ranges (hdm_ranges d)" and "length (hdm_ranges d) < 2147483648"
    and "hdm_ranges_sorted d \<longrightarrow> sorted (map rng_base_addr (hdm_ranges d))"
  shows "decode_range d a = table_meaning (hdm_ranges d) a"
proof (cases "hdm_ranges d = [] \<or> \<not> hdm_ranges_sorted d")
  case True
  have "\<forall>r \<in> set (hdm_ranges d). wf_range r" using assms(1) by (simp add: wf_ranges_def)
  then show ?thesis using True
    by (auto simp: decode_range_def decode_linear_meaning table_meaning_def)
next
  case False
  then have "sorted_table (hdm_ranges d)" using assms by (simp add: sorted_table_def)
  then show ?thesis using False assms(2)
    by (simp add: decode_range_def int_of_size_small decode_bsearch_meaning)
qed

lemma table_meaning_sort:
  assumes "wf_ranges rs"
  shows "table_meaning (sort_key f rs) a = table_meaning rs a"
proof (cases "\<exists>r \<in> set rs. unat a \<in> range_addrs r")
  case True
  then obtain r where "r \<in> set rs" "unat a \<in> range_addrs r" by blast
  then show ?thesis
    using assms table_meaning_hit [of rs r a] table_meaning_hit [of "sort_key f rs" r a] by simp
next
  case False
  then show ?thesis by (simp add: table_meaning_miss)
qed


section \<open>Properties of range decoding\<close>

text \<open>
  C20: On a table of non-empty, non-wrapping, pairwise disjoint ranges (fewer than 2^31 of
  them, so that the \<open>int\<close> cast of the size is exact) the binary search over the table
  sorted by \<open>sort_ranges\<close> returns, for every address, what the linear scan of the unsorted
  table returns: sorting changes no decode result.
\<close>

theorem decode_range_sort_ranges:
  assumes "wf_ranges (hdm_ranges d)" and "length (hdm_ranges d) < 2147483648"
    and "\<not> hdm_ranges_sorted d"
  shows "decode_range (sort_ranges d) a = decode_range d a"
  using assms decode_range_meaning [of d a] decode_range_meaning [of "sort_ranges d" a]
  by (simp add: sort_ranges_def table_meaning_sort)

definition example_decoder :: HDMDecoder where
  "example_decoder =
     add_range 8192 4096 2 True (add_range 0 4096 1 False (add_range 4096 4096 3 False
       (new_HDMDecoder RANGE_BASED)))"

lemma example_decoder_ranges:
  "hdm_ranges example_decoder =
     [\<lparr>rng_base_addr = 4096, rng_size = 4096, rng_target_id = 3, rng_is_remote = False\<rparr>,
      \<lparr>rng_base_addr = 0, rng_size = 4096, rng_target_id = 1, rng_is_remote = False\<rparr>,
      \<lparr>rng_base_addr = 8192, rng_size = 4096, rng_target_id = 2, rng_is_remote = True\<rparr>]"
  by (simp add: example_decoder_def add_range_def new_HDMDecoder_def)

lemma example_decoder_wf: "wf_ranges (hdm_ranges example_decoder)"
  by (auto simp: wf_ranges_def wf_range_def example_decoder_ranges no_wrap_def range_addrs_def
      disjoint_on_def)

lemma example_decoder_unsorted: "\<not> hdm_ranges_sorted example_decoder"
  by (simp add: example_decoder_def add_range_def)

lemma example_decoder_small: "length (hdm_ranges example_decoder) < 2147483648"
  by (simp add: example_decoder_ranges)

lemmas example_decoder_ok =
  example_decoder_wf example_decoder_small example_decoder_unsorted

theorem decode_range_sort_ranges_witness:
  "decode_range (sort_ranges example_decoder) 8200 = decode_range example_decoder 8200 \<and>
   res_target_id (decode_range example_decoder 8200) = 2"
proof
  show "decode_range (sort_ranges example_decoder) 8200 = decode_range example_decoder 8200"
    by (rule decode_range_sort_ranges) (rule example_decoder_ok)+
  show "res_target_id (decode_range example_decoder 8200) = 2"
    by (simp add: decode_range_def example_decoder_unsorted example_decoder_ranges range_hit_def)
qed

text \<open>
  Range decoding is exact. For a well-formed table (sorted, or with the flag clear) an
  address inside a range decodes to that range's target, the offset from its base (which is
  below the range's size), its remote flag and one hop exactly when remote; an address in no
  range is a miss.
\<close>

lemma decode_range_exact:
  assumes "wf_ranges (hdm_ranges d)" and "length (hdm_ranges d) < 2147483648"
    and "hdm_ranges_sorted d \<longrightarrow> sorted (map rng_base_addr (hdm_ranges d))"
  shows "(\<forall>r \<in> set (hdm_ranges d). unat a \<in> range_set (rng_base_addr r) (rng_size r) \<longrightarrow>
            decode_range d a =
              \<lparr>res_target_id = rng_target_id r, res_local_offset = a - rng_base_addr r,
               res_is_remote = rng_is_remote r,
               res_hop_count = (if rng_is_remote r then 1 else 0)\<rparr>
            \<and> a - rng_base_addr r < rng_size r)
       \<and> ((\<forall>r \<in> set (hdm_ranges d). unat a \<notin> range_set (rng_base_addr r) (rng_size r)) \<longrightarrow>
            res_target_id (decode_range d a) = UINT32_MAX)"
proof -
  have "a - rng_base_addr r < rng_size r"
    if "unat a \<in> range_set (rng_base_addr r) (rng_size r)" for r :: HDMRange
  proof -
    have "rng_base_addr r \<le> a" using that by (simp add: word_to_nat)
    then show ?thesis using that by (simp add: word_less_nat_alt unat_diff_word) linarith
  qed
  then show ?thesis
    using assms table_meaning_hit [of "hdm_ranges d" _ a] table_meaning_miss [of "hdm_ranges d" a]
    by (simp add: decode_range_meaning range_addrs_def range_hit_def decode_miss_def)
qed

lemma decode_range_exact_witness:
  "res_local_offset (decode_range example_decoder 5000) = 904 \<and>
   res_target_id (decode_range example_decoder 20000) = UINT32_MAX"
proof -
  have "hdm_ranges_sorted example_decoder \<longrightarrow> sorted (map rng_base_addr (hdm_ranges example_decoder))"
    by (simp add: example_decoder_unsorted)
  note exact = decode_range_exact [OF example_decoder_wf example_decoder_small this]
  show ?thesis
    using exact [of 5000] exact [of 20000] by (simp add: example_decoder_ranges)
qed


section \<open>Properties of interleaved decoding\<close>

text \<open>The address that block-interleaving puts at an offset of the i-th target.\<close>

definition interleave_address :: "HDMInterleaveConfig \<Rightarrow> nat \<Rightarrow> u64 \<Rightarrow> nat" where
  "interleave_address c i off =
     (let g = unat (granularity_value (il_granularity c)) in
      unat (il_base_addr c)
      + ((unat off div g) * length (il_target_ids c) + i) * g + unat off mod g)"

definition wf_interleave :: "HDMInterleaveConfig \<Rightarrow> bool" where
  "wf_interleave c \<longleftrightarrow> il_target_ids c \<noteq> [] \<and>
     length (il_target_ids c) < 18446744073709551616 \<and> no_wrap (il_base_addr c) (il_total_size c)"

abbreviation interleave_region :: "HDMInterleaveConfig \<Rightarrow> nat set" where
  "interleave_region c \<equiv> range_set (il_base_addr c) (il_total_size c)"

lemma granularity_pos [simp]: "0 < unat (granularity_value g)"
  by (cases g) simp_all

lemma block_offset_le:
  fixes x g n :: nat
  shows "x div g div n * g + x mod g \<le> x"
proof -
  have "x div g div n * g \<le> x div g * g" by simp
  then show ?thesis using div_mult_mod_eq [of x g] by linarith
qed

lemma decode_interleaved_nat:
  assumes "wf_interleave (hdm_interleave_config d)"
    and "unat a \<in> interleave_region (hdm_interleave_config d)"
  defines "c \<equiv> hdm_interleave_config d"
  defines "g \<equiv> unat (granularity_value (il_granularity c))"
    and "n \<equiv> length (il_target_ids c)" and "x \<equiv> unat a - unat (il_base_addr c)"
  shows "res_target_id (decode_interleaved d a) = il_target_ids c ! (x div g mod n)"
    and "unat (res_local_offset (decode_interleaved d a)) = x div g div n * g + x mod g"
proof -
  have region: "il_base_addr c \<le> a" "\<not> a < il_base_addr c" "\<not> il_base_addr c + il_total_size c \<le> a"
    using assms(1,2) no_wrap_range_test [of "il_base_addr c" "il_total_size c" a]
    by (auto simp: c_def wf_interleave_def)
  have n: "unat (of_nat n :: u64) = n"
    using assms(1) by (simp add: n_def c_def wf_interleave_def unsigned_of_nat take_bit_nat_eq_self)
  have x: "unat (a - il_base_addr c) = x" using region by (simp add: x_def unat_diff_word)
  have ti: "unat ((a - il_base_addr c) div granularity_value (il_granularity c) mod of_nat n)
              = x div g mod n"
    by (simp only: unat_mod unat_div x n g_def)
  have off: "x div g div n * g + x mod g < 18446744073709551616"
    using block_offset_le [of x g n] unat_u64_lt [of "a - il_base_addr c"] x by linarith
  have q: "unat ((a - il_base_addr c) div granularity_value (il_granularity c) div of_nat n)
             = x div g div n"
    by (simp only: unat_div x n g_def)
  have "unat ((a - il_base_addr c) div granularity_value (il_granularity c) div of_nat n
              * granularity_value (il_granularity c)) = x div g div n * g"
    using off unat_mult_u64 [of _ "granularity_value (il_granularity c)", folded g_def] q by simp
  then have lo: "unat ((a - il_base_addr c) div granularity_value (il_granularity c) div of_nat n
              * granularity_value (il_granularity c)
              + (a - il_base_addr c) mod granularity_value (il_granularity c))
              = x div g div n * g + x mod g"
    using off by (subst unat_add_u64) (simp_all only: unat_mod x flip: g_def)
  show "res_target_id (decode_interleaved d a) = il_target_ids c ! (x div g mod n)"
    using region assms(1) ti
    by (simp add: decode_interleaved_def Let_def wf_interleave_def flip: c_def n_def)
  show "unat (res_local_offset (decode_interleaved d a)) = x div g div n * g + x mod g"
    using region assms(1) lo
    by (simp add: decode_interleaved_def Let_def wf_interleave_def flip: c_def n_def)
qed

lemma interleave_recompose:
  fixes x g n :: nat
  assumes "0 < g"
  shows "((x div g div n * g + x mod g) div g * n + x div g mod n) * g
           + (x div g div n * g + x mod g) mod g = x"
  using assms by (simp add: div_mult_mod_eq)

lemma interleave_inj_nat:
  fixes x y g n :: nat
  assumes "0 < g" and "x div g mod n = y div g mod n"
    and "x div g div n * g + x mod g = y div g div n * g + y mod g"
  shows "x = y"
  by (metis assms interleave_recompose)

lemma interleave_decompose:
  fixes q i g n r :: nat
  assumes "i < n" and "r < g"
  shows "((q * n + i) * g + r) div g mod n = i" and "((q * n + i) * g + r) div g div n = q"
    and "((q * n + i) * g + r) mod g = r"
  using assms by simp_all

text \<open>
  C21: Interleaved decoding is a bijection between the region and (target index, offset)
  pairs. Every address of the region decodes to some configured target and an offset from
  which block interleaving recovers the address; and the address that interleaving assigns
  to an offset of the i-th target, when inside the region, decodes to that target and that
  offset.
\<close>

theorem interleave_roundtrip:
  assumes "wf_interleave (hdm_interleave_config d)"
  defines "c \<equiv> hdm_interleave_config d"
  shows "(unat a \<in> interleave_region c \<longrightarrow>
            (\<exists>i < length (il_target_ids c).
               res_target_id (decode_interleaved d a) = il_target_ids c ! i \<and>
               interleave_address c i (res_local_offset (decode_interleaved d a)) = unat a))
       \<and> (i < length (il_target_ids c) \<longrightarrow> interleave_address c i off = unat a \<longrightarrow>
          unat a \<in> interleave_region c \<longrightarrow>
            res_target_id (decode_interleaved d a) = il_target_ids c ! i \<and>
            res_local_offset (decode_interleaved d a) = off)"
proof (intro conjI impI)
  let ?g = "unat (granularity_value (il_granularity c))" and ?n = "length (il_target_ids c)"
  let ?x = "unat a - unat (il_base_addr c)"
  have n: "0 < ?n" using assms(1) by (simp add: c_def wf_interleave_def)
  assume a: "unat a \<in> interleave_region c"
  note nat = decode_interleaved_nat [OF assms(1) a [unfolded c_def], folded c_def]
  have "interleave_address c (?x div ?g mod ?n) (res_local_offset (decode_interleaved d a))
          = unat (il_base_addr c) + ?x"
    unfolding interleave_address_def Let_def nat(2)
    using interleave_recompose [of ?g ?x ?n] by (simp only: granularity_pos add.assoc)
  then show "\<exists>i < ?n. res_target_id (decode_interleaved d a) = il_target_ids c ! i \<and>
               interleave_address c i (res_local_offset (decode_interleaved d a)) = unat a"
    using n nat(1) a by (intro exI [of _ "?x div ?g mod ?n"]) simp
  assume i: "i < ?n" and eq: "interleave_address c i off = unat a"
  have x: "?x = (unat off div ?g * ?n + i) * ?g + unat off mod ?g"
    using eq by (simp add: interleave_address_def Let_def)
  note dec = interleave_decompose [OF i, of "unat off mod ?g" ?g "unat off div ?g", folded x]
  show "res_target_id (decode_interleaved d a) = il_target_ids c ! i"
    using dec(1) by (simp add: nat(1))
  have "unat (res_local_offset (decode_interleaved d a)) = unat off"
    using dec(2,3) by (simp add: nat(2))
  then show "res_local_offset (decode_interleaved d a) = off" by (rule unsigned_word_eqI)
qed

definition example_interleave :: HDMDecoder where
  "example_interleave =
     configure_interleave CACHELINE_256B [1, 2, 3] 4096 1536 (new_HDMDecoder INTERLEAVED)"

lemma example_interleave_config:
  "hdm_interleave_config example_interleave =
     \<lparr>il_granularity = CACHELINE_256B, il_target_ids = [1, 2, 3], il_base_addr = 4096,
      il_total_size = 1536\<rparr>"
  by (simp add: example_interleave_def configure_interleave_def)

lemma example_interleave_wf: "wf_interleave (hdm_interleave_config example_interleave)"
  by (simp add: example_interleave_config wf_interleave_def no_wrap_def)

theorem interleave_roundtrip_witness:
  "res_target_id (decode_interleaved example_interleave 4900) = 1 \<and>
   res_local_offset (decode_interleaved example_interleave 4900) = 292"
  using interleave_roundtrip [OF example_interleave_wf, of 4900 0 292]
  by (simp add: example_interleave_config interleave_address_def Let_def)


section \<open>Decoders as routings of a flat address space\<close>

text \<open>
  What the rest of the system expects of a decoder: on the addresses it maps, distinct
  addresses go to distinct (target, offset) pairs. Under this law a memory kept as one
  store per target behaves as one flat memory.
\<close>

definition route :: "(HDMDecoder \<Rightarrow> u64 \<Rightarrow> DecodeResult) \<Rightarrow> HDMDecoder \<Rightarrow> u64 \<Rightarrow> u32 \<times> u64" where
  "route f d a = (res_target_id (f d a), res_local_offset (f d a))"

locale routing =
  fixes inv :: "'d \<Rightarrow> bool"
    and rt :: "'d \<Rightarrow> u64 \<Rightarrow> 'loc"
    and mapped :: "'d \<Rightarrow> u64 set"
  assumes rt_inj: "inv d \<Longrightarrow> a \<in> mapped d \<Longrightarrow> b \<in> mapped d \<Longrightarrow> rt d a = rt d b \<Longrightarrow> a = b"
begin

lemma routed_read_write:
  "inv d \<Longrightarrow> a \<in> mapped d \<Longrightarrow> b \<in> mapped d \<Longrightarrow>
   (m(rt d a := v)) (rt d b) = (if a = b then v else m (rt d b))"
  using rt_inj by fastforce

lemma routed_writes:
  assumes "inv d" and "set as \<subseteq> mapped d" and "b \<in> mapped d"
  shows "fold (\<lambda>a m. m(rt d a := f a)) as m (rt d b) = (if b \<in> set as then f b else m (rt d b))"
  using assms(2)
  by (induction as rule: rev_induct) (auto dest: rt_inj [OF assms(1) assms(3)])

end

definition wf_range_routing :: "HDMDecoder \<Rightarrow> bool" where
  "wf_range_routing d \<longleftrightarrow> wf_ranges (hdm_ranges d) \<and> length (hdm_ranges d) < 2147483648 \<and>
     (hdm_ranges_sorted d \<longrightarrow> sorted (map rng_base_addr (hdm_ranges d))) \<and>
     distinct (map rng_target_id (hdm_ranges d))"

definition range_mapped :: "HDMDecoder \<Rightarrow> u64 set" where
  "range_mapped d = {a. \<exists>r \<in> set (hdm_ranges d). unat a \<in> range_addrs r}"

definition wf_interleave_routing :: "HDMDecoder \<Rightarrow> bool" where
  "wf_interleave_routing d \<longleftrightarrow> wf_interleave (hdm_interleave_config d) \<and>
     distinct (il_target_ids (hdm_interleave_config d))"

definition interleave_mapped :: "HDMDecoder \<Rightarrow> u64 set" where
  "interleave_mapped d = {a. unat a \<in> interleave_region (hdm_interleave_config d)}"

lemma range_route_inj:
  assumes "wf_range_routing d" and "a \<in> range_mapped d" and "b \<in> range_mapped d"
    and "route decode_range d a = route decode_range d b"
  shows "a = b"
proof -
  note wf = assms(1) [unfolded wf_range_routing_def]
  obtain r r' where r: "r \<in> set (hdm_ranges d)" "unat a \<in> range_addrs r"
    and r': "r' \<in> set (hdm_ranges d)" "unat b \<in> range_addrs r'"
    using assms(2,3) by (auto simp: range_mapped_def)
  have "decode_range d a = range_hit r a" "decode_range d b = range_hit r' b"
    using wf r r' by (simp_all add: decode_range_meaning table_meaning_hit)
  then have "rng_target_id r = rng_target_id r'" "a - rng_base_addr r = b - rng_base_addr r'"
    using assms(4) by (simp_all add: route_def range_hit_def)
  moreover from this have "r = r'" using wf r(1) r'(1) by (simp add: distinct_map inj_on_def)
  ultimately show ?thesis by simp
qed

lemma interleave_route_inj:
  assumes "wf_interleave_routing d" and "a \<in> interleave_mapped d" and "b \<in> interleave_mapped d"
    and "route decode_interleaved d a = route decode_interleaved d b"
  shows "a = b"
proof -
  let ?c = "hdm_interleave_config d" and ?r = "decode_interleaved d"
  let ?g = "unat (granularity_value (il_granularity ?c))" and ?n = "length (il_target_ids ?c)"
  let ?x = "\<lambda>a. unat a - unat (il_base_addr ?c)"
  have wf: "wf_interleave ?c" "0 < ?n" and dist: "distinct (il_target_ids ?c)"
    using assms(1) by (auto simp: wf_interleave_routing_def wf_interleave_def)
  note na = decode_interleaved_nat [OF wf(1), of a] and nb = decode_interleaved_nat [OF wf(1), of b]
  have reg: "unat a \<in> interleave_region ?c" "unat b \<in> interleave_region ?c"
    using assms(2,3) by (auto simp: interleave_mapped_def)
  have i: "?x a div ?g mod ?n = ?x b div ?g mod ?n"
    using na(1) nb(1) reg assms(4) dist wf(2) by (simp add: route_def nth_eq_iff_index_eq)
  have o: "?x a div ?g div ?n * ?g + ?x a mod ?g = ?x b div ?g div ?n * ?g + ?x b mod ?g"
    using na(2) nb(2) reg assms(4) by (simp add: route_def)
  have "?x a = ?x b" by (rule interleave_inj_nat [OF granularity_pos i o])
  then have "unat a = unat b" using reg by simp linarith
  then show ?thesis by (rule unsigned_word_eqI)
qed

interpretation range_routing: routing wf_range_routing "route decode_range" range_mapped
  by unfold_locales (rule range_route_inj)

interpretation interleave_routing:
  routing wf_interleave_routing "route decode_interleaved" interleave_mapped
  by unfold_locales (rule interleave_route_inj)



text \<open>
  Interleaving splits the region evenly: when the region is a whole number of stripes
  (granularity times number of targets), every local offset lies below the region's size
  divided by the number of targets.
\<close>

lemma interleave_even_share:
  assumes "wf_interleave (hdm_interleave_config d)"
  defines "c \<equiv> hdm_interleave_config d"
  assumes "unat a \<in> interleave_region c"
    and "unat (granularity_value (il_granularity c)) * length (il_target_ids c) dvd unat (il_total_size c)"
  shows "unat (res_local_offset (decode_interleaved d a))
           < unat (il_total_size c) div length (il_target_ids c)"
proof -
  let ?g = "unat (granularity_value (il_granularity c))" and ?n = "length (il_target_ids c)"
  let ?x = "unat a - unat (il_base_addr c)"
  have n: "0 < ?n" using assms(1) by (simp add: c_def wf_interleave_def)
  obtain k where k: "unat (il_total_size c) = ?g * ?n * k" using assms(4) by (elim dvdE)
  have "?x < ?g * ?n * k" using assms(3) k by simp linarith
  then have "?x div ?g div ?n < k"
    by (simp add: div_mult2_eq [symmetric] less_mult_imp_div_less mult.commute)
  then have "Suc (?x div ?g div ?n) * ?g \<le> k * ?g" by (intro mult_le_mono1) simp
  moreover have "?x mod ?g < ?g" by simp
  ultimately have "?x div ?g div ?n * ?g + ?x mod ?g < k * ?g"
    by (simp only: mult_Suc)
  moreover have "unat (il_total_size c) div ?n = k * ?g" using k n by (simp add: mult.commute mult.left_commute)
  ultimately show ?thesis
    using decode_interleaved_nat(2) [OF assms(1), of a] assms(3) by (simp add: c_def)
qed

lemma interleave_even_share_witness:
  "unat (res_local_offset (decode_interleaved example_interleave 5631)) < 512"
  using interleave_even_share [OF example_interleave_wf, of 5631]
  by (simp add: example_interleave_config)

end
