(* ===== verification/DCD.thy ===== *)
theory DCD
  imports Prelude
begin

text \<open>
  The dynamic capacity device of \<open>include/dcd_gfam.h\<close> and \<open>src/dcd_gfam.cpp\<close>: capacity is
  added and released at run time as tagged extents. Released extents stay in the list,
  marked inactive. Each method holds the device's mutex, so a method is one step of the
  state; \<open>std::sort\<close> on extents with distinct bases is \<open>sort_key\<close>.
\<close>

datatype DCDStatus =
  DCD_OK | OUT_OF_CAPACITY | OVERLAP | NOT_FOUND | INVALID_REQUEST | ACCESS_DENIED

record DCDExtent =
  ext_base :: u64
  ext_size :: u64
  ext_tag :: u64
  ext_created :: u64
  ext_released :: u64
  ext_active :: bool

record DCDAllocationResult =
  alloc_status :: DCDStatus
  alloc_base :: u64
  alloc_size :: u64
  alloc_tag :: u64

record DCDStats =
  dstat_total_capacity :: u64
  dstat_allocated_capacity :: u64
  dstat_free_capacity :: u64
  dstat_active_extents :: u64
  dstat_allocation_requests :: u64
  dstat_release_requests :: u64
  dstat_failed_requests :: u64

record DynamicCapacityDevice =
  dcd_total :: u64
  dcd_granularity :: u64
  dcd_next_tag :: u64
  dcd_extents :: "DCDExtent list"
  dcd_allocation_requests :: u64
  dcd_release_requests :: u64
  dcd_failed_requests :: u64

definition ranges_overlap :: "u64 \<Rightarrow> u64 \<Rightarrow> u64 \<Rightarrow> u64 \<Rightarrow> bool" where
  "ranges_overlap a_base a_size b_base b_size =
     (if a_size = 0 \<or> b_size = 0 then False
      else if a_base \<le> b_base then b_base - a_base < a_size
      else a_base - b_base < b_size)"

definition range_contains :: "u64 \<Rightarrow> u64 \<Rightarrow> u64 \<Rightarrow> u64 \<Rightarrow> bool" where
  "range_contains outer_base outer_size inner_base inner_size =
     (if inner_size = 0 \<or> outer_size < inner_size \<or> inner_base < outer_base then False
      else inner_base - outer_base \<le> outer_size - inner_size)"

definition new_DCD :: "u64 \<Rightarrow> u64 \<Rightarrow> DynamicCapacityDevice" where
  "new_DCD total_capacity_bytes granularity_bytes =
     \<lparr>dcd_total = total_capacity_bytes, dcd_granularity = max 1 granularity_bytes,
      dcd_next_tag = 1, dcd_extents = [], dcd_allocation_requests = 0,
      dcd_release_requests = 0, dcd_failed_requests = 0\<rparr>"

definition align_up :: "DynamicCapacityDevice \<Rightarrow> u64 \<Rightarrow> u64" where
  "align_up d v =
     (if v = 0 then 0
      else let remainder = v mod dcd_granularity d in
        if remainder = 0 then v
        else if UINT64_MAX - (dcd_granularity d - remainder) < v then 0
        else v + dcd_granularity d - remainder)"

definition range_within_device :: "DynamicCapacityDevice \<Rightarrow> u64 \<Rightarrow> u64 \<Rightarrow> bool" where
  "range_within_device d b s \<longleftrightarrow> 0 < s \<and> b < dcd_total d \<and> s \<le> dcd_total d - b"

definition range_overlaps_active :: "DynamicCapacityDevice \<Rightarrow> u64 \<Rightarrow> u64 \<Rightarrow> bool" where
  "range_overlaps_active d b s \<longleftrightarrow>
     list_ex (\<lambda>e. ext_active e \<and> ranges_overlap b s (ext_base e) (ext_size e)) (dcd_extents d)"

definition active_extents :: "DynamicCapacityDevice \<Rightarrow> DCDExtent list" where
  "active_extents d = sort_key ext_base (filter ext_active (dcd_extents d))"

text \<open>The loop of \<open>find_free_base\<close> over the sorted active extents, with its candidate.\<close>

fun find_free_scan :: "DynamicCapacityDevice \<Rightarrow> u64 \<Rightarrow> u64 \<Rightarrow> DCDExtent list \<Rightarrow> u64 option" where
  "find_free_scan d s candidate [] =
     (if range_within_device d candidate s then Some candidate else None)"
| "find_free_scan d s candidate (e # es) =
     (if candidate + s \<le> ext_base e then Some candidate
      else if UINT64_MAX - ext_size e < ext_base e then None
      else find_free_scan d s (align_up d (ext_base e + ext_size e)) es)"

definition find_free_base :: "DynamicCapacityDevice \<Rightarrow> u64 \<Rightarrow> u64 option" where
  "find_free_base d s =
     find_free_scan d s 0 (sort_key ext_base (filter ext_active (dcd_extents d)))"

definition dcd_fail :: "DynamicCapacityDevice \<Rightarrow> DynamicCapacityDevice" where
  "dcd_fail d = d\<lparr>dcd_failed_requests := dcd_failed_requests d + 1\<rparr>"

definition request_size :: "DynamicCapacityDevice \<Rightarrow> u64 \<Rightarrow> u64" where
  "request_size d s = (if s = dcd_total d then s else align_up d s)"

text \<open>
  The second half of \<open>add_capacity\<close>, once the base is chosen: the bounds check, the
  overlap check and the insertion of the extent.
\<close>

definition add_capacity_at ::
  "u64 \<Rightarrow> u64 \<Rightarrow> u64 \<Rightarrow> u64 \<Rightarrow> DynamicCapacityDevice \<Rightarrow> DCDAllocationResult \<times> DynamicCapacityDevice"
where
  "add_capacity_at b aligned_size tag timestamp d =
     (if \<not> range_within_device d b aligned_size then
        (\<lparr>alloc_status = OUT_OF_CAPACITY, alloc_base = b, alloc_size = aligned_size,
          alloc_tag = tag\<rparr>, dcd_fail d)
      else if range_overlaps_active d b aligned_size then
        (\<lparr>alloc_status = OVERLAP, alloc_base = b, alloc_size = aligned_size,
          alloc_tag = tag\<rparr>, dcd_fail d)
      else
        let extent_tag = (if tag = 0 then dcd_next_tag d else tag) in
        (\<lparr>alloc_status = DCD_OK, alloc_base = b, alloc_size = aligned_size,
          alloc_tag = extent_tag\<rparr>,
         d\<lparr>dcd_next_tag := (if tag = 0 then dcd_next_tag d + 1 else dcd_next_tag d),
           dcd_extents := dcd_extents d @
             [\<lparr>ext_base = b, ext_size = aligned_size, ext_tag = extent_tag,
               ext_created = timestamp, ext_released = 0, ext_active = True\<rparr>]\<rparr>))"

definition add_capacity ::
  "u64 \<Rightarrow> u64 \<Rightarrow> u64 \<Rightarrow> u64 \<Rightarrow> DynamicCapacityDevice \<Rightarrow> DCDAllocationResult \<times> DynamicCapacityDevice"
where
  "add_capacity requested_base s tag timestamp d0 =
     (let d = d0\<lparr>dcd_allocation_requests := dcd_allocation_requests d0 + 1\<rparr>;
          aligned_size = request_size d s in
      if aligned_size = 0 \<or> dcd_total d < aligned_size then
        (\<lparr>alloc_status = INVALID_REQUEST, alloc_base = 0, alloc_size = 0, alloc_tag = tag\<rparr>,
         dcd_fail d)
      else if requested_base = UINT64_MAX then
        (case find_free_base d aligned_size of
           None \<Rightarrow> (\<lparr>alloc_status = OUT_OF_CAPACITY, alloc_base = 0, alloc_size = aligned_size,
                     alloc_tag = tag\<rparr>, dcd_fail d)
         | Some b \<Rightarrow> add_capacity_at b aligned_size tag timestamp d)
      else if requested_base mod dcd_granularity d \<noteq> 0 then
        (\<lparr>alloc_status = INVALID_REQUEST, alloc_base = requested_base,
          alloc_size = aligned_size, alloc_tag = tag\<rparr>, dcd_fail d)
      else add_capacity_at requested_base aligned_size tag timestamp d)"

text \<open>Which extent a release names: active, with the tag if one is given, same range.\<close>

definition release_match :: "u64 \<Rightarrow> u64 \<Rightarrow> u64 \<Rightarrow> DCDExtent \<Rightarrow> bool" where
  "release_match b s tag e \<longleftrightarrow>
     ext_active e \<and> (tag = 0 \<or> ext_tag e = tag) \<and> ext_base e = b \<and> ext_size e = s"

definition release_capacity ::
  "u64 \<Rightarrow> u64 \<Rightarrow> u64 \<Rightarrow> u64 \<Rightarrow> DynamicCapacityDevice \<Rightarrow> DCDStatus \<times> DynamicCapacityDevice"
where
  "release_capacity b s tag timestamp d0 =
     (let d = d0\<lparr>dcd_release_requests := dcd_release_requests d0 + 1\<rparr>;
          aligned_size = request_size d s in
      if \<not> range_within_device d b aligned_size then (INVALID_REQUEST, dcd_fail d)
      else if list_ex (release_match b aligned_size tag) (dcd_extents d) then
        (DCD_OK, d\<lparr>dcd_extents :=
           update_first (release_match b aligned_size tag)
             (\<lambda>e. e\<lparr>ext_active := False, ext_released := timestamp\<rparr>) (dcd_extents d)\<rparr>)
      else (NOT_FOUND, dcd_fail d))"

definition find_extent :: "DynamicCapacityDevice \<Rightarrow> u64 \<Rightarrow> u64 \<Rightarrow> DCDExtent option" where
  "find_extent d addr s =
     (if s = 0 \<or> dcd_total d \<le> addr \<or> dcd_total d - addr < s then None
      else find (\<lambda>e. ext_active e \<and> range_contains (ext_base e) (ext_size e) addr s) (dcd_extents d))"

definition is_allocated :: "DynamicCapacityDevice \<Rightarrow> u64 \<Rightarrow> u64 \<Rightarrow> bool" where
  "is_allocated d addr s \<longleftrightarrow> find_extent d addr s \<noteq> None"

definition dcd_stats :: "DynamicCapacityDevice \<Rightarrow> DCDStats" where
  "dcd_stats d =
     (let active = filter ext_active (dcd_extents d);
          allocated = foldl (\<lambda>acc e. acc + ext_size e) 0 active;
          active_count = foldl (\<lambda>acc e. acc + 1) 0 active in
      \<lparr>dstat_total_capacity = dcd_total d, dstat_allocated_capacity = allocated,
       dstat_free_capacity = (if allocated \<le> dcd_total d then dcd_total d - allocated else 0),
       dstat_active_extents = active_count,
       dstat_allocation_requests = dcd_allocation_requests d,
       dstat_release_requests = dcd_release_requests d,
       dstat_failed_requests = dcd_failed_requests d\<rparr>)"


section \<open>Ranges, alignment and the invariant\<close>

lemma range_set_subset_iff:
  "s \<noteq> 0 \<Longrightarrow> range_set a s \<subseteq> range_set b t \<longleftrightarrow> unat b \<le> unat a \<and> unat a + unat s \<le> unat b + unat t"
  using unat_gt_0 [of s] by (simp add: range_set_def ivl_subset)

lemma range_contains_iff:
  "range_contains b t a s \<longleftrightarrow> s \<noteq> 0 \<and> range_set a s \<subseteq> range_set b t"
proof (cases "s = 0 \<or> t < s \<or> a < b")
  case True
  then show ?thesis
    by (auto simp: range_contains_def range_set_subset_iff word_to_nat)
next
  case False
  then have le: "b \<le> a" "s \<le> t" "s \<noteq> 0" by auto
  then have "unat (a - b) = unat a - unat b" "unat (t - s) = unat t - unat s"
    by (simp_all add: unat_diff_word)
  then show ?thesis
    using le by (auto simp: range_contains_def range_set_subset_iff word_to_nat)
qed

lemma ranges_overlap_iff:
  "ranges_overlap a s b t \<longleftrightarrow> range_set a s \<inter> range_set b t \<noteq> {}"
proof (cases "s = 0 \<or> t = 0")
  case True
  then show ?thesis by (auto simp: ranges_overlap_def)
next
  case False
  then have pos: "0 < unat s" "0 < unat t" by (simp_all add: unat_gt_0)
  have "range_set a s \<inter> range_set b t = {max (unat a) (unat b) ..< min (unat a + unat s) (unat b + unat t)}"
    by (simp add: range_set_def)
  then have "range_set a s \<inter> range_set b t \<noteq> {} \<longleftrightarrow>
          unat a < unat b + unat t \<and> unat b < unat a + unat s"
    using pos by auto
  then show ?thesis using False pos
    by (cases "a \<le> b") (auto simp: ranges_overlap_def word_to_nat unat_diff_word)
qed

lemma range_within_device_iff:
  "range_within_device d b s \<longleftrightarrow> s \<noteq> 0 \<and> unat b + unat s \<le> unat (dcd_total d)"
proof (cases "b < dcd_total d")
  case True
  then have "unat (dcd_total d - b) = unat (dcd_total d) - unat b" by (simp add: unat_diff_word)
  then show ?thesis using True
    by (auto simp: range_within_device_def word_gt_0 word_le_nat_alt word_less_nat_alt [of b])
next
  case False
  then have "unat (dcd_total d) \<le> unat b" by (simp add: word_to_nat)
  then show ?thesis using False unat_gt_0 [of s]
    by (auto simp: range_within_device_def)
qed

definition ext_bytes :: "DCDExtent \<Rightarrow> nat set" where
  "ext_bytes e = range_set (ext_base e) (ext_size e)"

abbreviation active_list :: "DynamicCapacityDevice \<Rightarrow> DCDExtent list" where
  "active_list d \<equiv> filter ext_active (dcd_extents d)"

definition allocated_bytes :: "DynamicCapacityDevice \<Rightarrow> nat set" where
  "allocated_bytes d = \<Union> (ext_bytes ` set (active_list d))"

definition aligned :: "DynamicCapacityDevice \<Rightarrow> u64 \<Rightarrow> bool" where
  "aligned d b \<longleftrightarrow> unat (dcd_granularity d) dvd unat b"

text \<open>
  The invariant: active extents are non-empty, aligned at their base, inside the device
  and pairwise disjoint.
\<close>

definition wf_extent :: "DynamicCapacityDevice \<Rightarrow> DCDExtent \<Rightarrow> bool" where
  "wf_extent d e \<longleftrightarrow> range_within_device d (ext_base e) (ext_size e) \<and> aligned d (ext_base e)"

definition dcd_inv :: "DynamicCapacityDevice \<Rightarrow> bool" where
  "dcd_inv d \<longleftrightarrow> dcd_granularity d \<noteq> 0 \<and> (\<forall>e \<in> set (active_list d). wf_extent d e) \<and>
     disjoint_on ext_bytes (active_list d)"

lemma range_overlaps_active_iff:
  "range_overlaps_active d b s \<longleftrightarrow> range_set b s \<inter> allocated_bytes d \<noteq> {}"
  by (auto simp: range_overlaps_active_def list_ex_iff ranges_overlap_iff allocated_bytes_def ext_bytes_def)

lemma dcd_fail_simps [simp]:
  "dcd_extents (dcd_fail d) = dcd_extents d" "dcd_total (dcd_fail d) = dcd_total d"
  "dcd_granularity (dcd_fail d) = dcd_granularity d"
  by (simp_all add: dcd_fail_def)

text \<open>Everything the proofs see of a device is its extents, capacity and granularity.\<close>

definition same_capacity :: "DynamicCapacityDevice \<Rightarrow> DynamicCapacityDevice \<Rightarrow> bool" where
  "same_capacity d d' \<longleftrightarrow> dcd_extents d' = dcd_extents d \<and> dcd_total d' = dcd_total d \<and>
     dcd_granularity d' = dcd_granularity d"

lemma same_capacity_inv: "same_capacity d d' \<Longrightarrow> dcd_inv d' = dcd_inv d"
  by (simp add: same_capacity_def dcd_inv_def wf_extent_def range_within_device_def aligned_def)

lemma same_capacity_bytes: "same_capacity d d' \<Longrightarrow> allocated_bytes d' = allocated_bytes d"
  by (simp add: same_capacity_def allocated_bytes_def)

lemma dvd_next_multiple:
  fixes v g :: nat
  assumes "0 < g"
  shows "g dvd v + (g - v mod g)"
proof -
  have "v + (g - v mod g) = v div g * g + g"
    using assms div_mult_mod_eq [of v g] mod_less_divisor [of g v] by linarith
  then show ?thesis by simp
qed

lemma next_multiple_le:
  fixes v g b :: nat
  assumes "g dvd b" and "v \<le> b" and "\<not> g dvd v"
  shows "v + (g - v mod g) \<le> b"
proof -
  obtain k where k: "b = k * g" using assms(1) by (metis dvd_def mult.commute)
  have "v \<noteq> b" using assms(1,3) by blast
  then have lt: "v < k * g" using assms(2) k by simp
  then have "v div g < k" by (rule less_mult_imp_div_less)
  then have "Suc (v div g) * g \<le> k * g" by (intro mult_le_mono1) simp
  then have "v div g * g + g \<le> b" using k by simp
  moreover have "0 < g" using lt by (cases g) auto
  ultimately show ?thesis
    using div_mult_mod_eq [of v g] mod_less_divisor [of g v] by linarith
qed

text \<open>\<open>align_up\<close> on naturals, and 0 exactly when the next multiple does not fit in 64 bits.\<close>

lemma unat_align_up:
  assumes "dcd_granularity d \<noteq> 0"
  defines "g \<equiv> unat (dcd_granularity d)"
  shows "unat (align_up d v) =
           (if g dvd unat v then unat v
            else if unat v + (g - unat v mod g) < 18446744073709551616
            then unat v + (g - unat v mod g) else 0)"
proof -
  let ?g = "dcd_granularity d" and ?r = "v mod dcd_granularity d"
  have r: "unat ?r = unat v mod g" by (simp add: g_def unat_mod)
  have rem0: "?r = 0 \<longleftrightarrow> g dvd unat v"
    using r by (simp add: dvd_eq_mod_eq_0 flip: unat_eq_0)
  have "unat v mod g < g" using assms(1) by (simp add: g_def unat_gt_0)
  then have pad: "unat (?g - ?r) = g - unat v mod g"
    using r by (simp add: unat_diff_word word_le_nat_alt g_def)
  have "?g - ?r \<le> UINT64_MAX" using unat_u64_le_max by (simp add: word_le_nat_alt)
  then have lim: "unat (UINT64_MAX - (?g - ?r)) = 18446744073709551615 - (g - unat v mod g)"
    by (simp add: unat_diff_word pad)
  have sum: "v + ?g - ?r = v + (?g - ?r)" by simp
  have "g \<le> 18446744073709551615" using unat_u64_le_max by (simp add: g_def)
  then have fits: "UINT64_MAX - (?g - ?r) < v \<longleftrightarrow>
               \<not> unat v + (g - unat v mod g) < 18446744073709551616"
    using lim by (simp add: word_less_nat_alt) linarith
  have "unat (v + (?g - ?r)) = unat v + (g - unat v mod g)"
    if "unat v + (g - unat v mod g) < 18446744073709551616"
    using that pad by (simp add: unat_add_u64)
  then show ?thesis
    unfolding align_up_def Let_def rem0 fits sum by simp
qed

lemma align_up_aligned:
  assumes "dcd_granularity d \<noteq> 0"
  shows "aligned d (align_up d v)"
  using assms dvd_next_multiple [of "unat (dcd_granularity d)" "unat v"]
  by (simp add: aligned_def unat_align_up unat_gt_0)


section \<open>Preservation and the abstract allocation\<close>

text \<open>
  The abstract device is the set of allocated byte addresses. Adding capacity adds a range
  that was free, releasing removes a range that was allocated, everything else keeps it.
\<close>

definition granted ::
  "DynamicCapacityDevice \<Rightarrow> u64 \<Rightarrow> u64 \<Rightarrow> u64 \<Rightarrow> DynamicCapacityDevice \<Rightarrow> bool" where
  "granted d b s tag d' \<longleftrightarrow>
     range_within_device d b s \<and> range_set b s \<inter> allocated_bytes d = {} \<and>
     dcd_total d' = dcd_total d \<and> dcd_granularity d' = dcd_granularity d \<and>
     (\<exists>e. dcd_extents d' = dcd_extents d @ [e] \<and> ext_base e = b \<and> ext_size e = s \<and>
          ext_tag e = tag \<and> ext_active e)"

lemma same_capacity_granted: "same_capacity d d1 \<Longrightarrow> granted d1 b s tag d' = granted d b s tag d'"
  by (simp add: granted_def same_capacity_def range_within_device_def allocated_bytes_def)

lemma request_size_cong:
  "dcd_total d' = dcd_total d \<Longrightarrow> dcd_granularity d' = dcd_granularity d \<Longrightarrow>
   request_size d' s = request_size d s"
  by (simp add: request_size_def align_up_def Let_def)

lemma same_capacity_size: "same_capacity d d1 \<Longrightarrow> request_size d1 s = request_size d s"
  unfolding same_capacity_def by (blast intro: request_size_cong)

lemma same_capacity_trans: "same_capacity d d1 \<Longrightarrow> same_capacity d1 d2 \<Longrightarrow> same_capacity d d2"
  by (simp add: same_capacity_def)

lemma same_capacity_fail [simp]: "same_capacity d (dcd_fail d1) = same_capacity d d1"
  by (simp add: same_capacity_def)

lemma add_capacity_at_effect:
  assumes "add_capacity_at b s tag ts d = (r, d')"
  shows "alloc_status r \<noteq> DCD_OK \<and> same_capacity d d' \<or>
         alloc_status r = DCD_OK \<and> alloc_base r = b \<and> alloc_size r = s \<and>
         granted d b s (alloc_tag r) d'"
  using assms
  by (auto simp: add_capacity_at_def Let_def same_capacity_def range_overlaps_active_iff granted_def
      split: if_splits)

lemma allocated_bytes_granted:
  "granted d b s tag d' \<Longrightarrow> allocated_bytes d' = allocated_bytes d \<union> range_set b s"
  by (auto simp: allocated_bytes_def granted_def ext_bytes_def)

lemma granted_free:
  "granted d b s tag d' \<Longrightarrow> range_set b s \<subseteq> {..<unat (dcd_total d)} - allocated_bytes d"
  by (auto simp: granted_def range_within_device_iff)

lemma wf_extent_cong:
  "dcd_total d' = dcd_total d \<Longrightarrow> dcd_granularity d' = dcd_granularity d \<Longrightarrow>
   wf_extent d' x = wf_extent d x"
  by (simp add: wf_extent_def range_within_device_def aligned_def)

lemma dcd_inv_granted:
  assumes "dcd_inv d" and "aligned d b" and "granted d b s tag d'"
  shows "dcd_inv d'"
proof -
  obtain e where e: "dcd_extents d' = dcd_extents d @ [e]" "ext_base e = b" "ext_size e = s" "ext_active e"
    using assms(3) by (auto simp: granted_def)
  have wf: "wf_extent d e" using e assms(2,3) by (simp add: wf_extent_def granted_def)
  then have "ext_bytes e \<noteq> {}"
    by (simp add: wf_extent_def ext_bytes_def range_set_empty_iff range_within_device_iff)
  moreover have "\<forall>y \<in> set (active_list d). ext_bytes e \<inter> ext_bytes y = {}"
    using assms(3) e by (auto simp: granted_def allocated_bytes_def ext_bytes_def)
  ultimately have "disjoint_on ext_bytes (active_list d @ [e])"
    using assms(1) by (intro disjoint_on_snoc) (simp_all add: dcd_inv_def)
  then show ?thesis
    using assms(1,3) e wf by (auto simp: dcd_inv_def granted_def wf_extent_cong [of d' d])
qed

text \<open>The base that \<open>add_capacity\<close> chooses is aligned, whoever chose it.\<close>

lemma aligned_0 [simp]: "aligned d 0"
  by (simp add: aligned_def)

lemma find_free_scan_aligned:
  "dcd_granularity d \<noteq> 0 \<Longrightarrow> aligned d c \<Longrightarrow> find_free_scan d s c es = Some b \<Longrightarrow> aligned d b"
  by (induction d s c es rule: find_free_scan.induct)
     (auto simp: align_up_aligned split: if_splits)

lemma find_free_base_aligned:
  "dcd_granularity d \<noteq> 0 \<Longrightarrow> find_free_base d s = Some b \<Longrightarrow> aligned d b"
  unfolding find_free_base_def by (erule find_free_scan_aligned) simp_all

lemma word_mod_aligned: "b mod dcd_granularity d = 0 \<longleftrightarrow> aligned d b"
  by (simp add: aligned_def dvd_eq_mod_eq_0 unat_mod flip: unat_eq_0)

lemma add_capacity_effect:
  assumes "add_capacity rb s tag ts d = (r, d')" and "dcd_granularity d \<noteq> 0"
  shows "alloc_status r \<noteq> DCD_OK \<and> same_capacity d d' \<or>
         alloc_status r = DCD_OK \<and> (rb \<noteq> UINT64_MAX \<longrightarrow> alloc_base r = rb) \<and>
         alloc_size r = request_size d s \<and> aligned d (alloc_base r) \<and>
         granted d (alloc_base r) (alloc_size r) (alloc_tag r) d'"
proof -
  define d1 where "d1 = d\<lparr>dcd_allocation_requests := dcd_allocation_requests d + 1\<rparr>"
  have d1: "same_capacity d d1" by (simp add: d1_def same_capacity_def)
  have g: "dcd_granularity d1 \<noteq> 0" and al: "\<And>b. aligned d1 b = aligned d b"
    using assms(2) by (simp_all add: d1_def aligned_def)
  note add = assms(1) [unfolded add_capacity_def Let_def, folded d1_def]
  have at: ?thesis
    if "add_capacity_at b (request_size d s) tag ts d1 = (r, d')" "aligned d b" "rb \<noteq> UINT64_MAX \<longrightarrow> b = rb"
    for b
    using add_capacity_at_effect [OF that(1)] that(2,3) same_capacity_trans [OF d1]
    by (auto simp: same_capacity_granted [OF d1])
  show ?thesis
    using add at find_free_base_aligned [OF g] d1
    by (auto simp: same_capacity_size [OF d1] word_mod_aligned al split: if_splits option.splits)
qed

lemma release_capacity_effect:
  assumes "release_capacity b s tag ts d = (st, d')" and "dcd_inv d"
  shows "st \<noteq> DCD_OK \<and> same_capacity d d' \<or>
         st = DCD_OK \<and> dcd_inv d' \<and> range_set b (request_size d s) \<subseteq> allocated_bytes d \<and>
         allocated_bytes d' = allocated_bytes d - range_set b (request_size d s)"
proof (cases "st = DCD_OK")
  case True
  define d1 where "d1 = d\<lparr>dcd_release_requests := dcd_release_requests d + 1\<rparr>"
  define P where "P = release_match b (request_size d s) tag"
  define f where "f = (\<lambda>e. e\<lparr>ext_active := False, ext_released := ts\<rparr> :: DCDExtent)"
  have d1: "same_capacity d d1" by (simp add: d1_def same_capacity_def)
  have ex: "list_ex P (dcd_extents d)" and d': "d' = d1\<lparr>dcd_extents := update_first P f (dcd_extents d)\<rparr>"
    using assms(1) True d1 unfolding release_capacity_def Let_def d1_def [symmetric]
    by (auto simp: same_capacity_size [OF d1] same_capacity_def P_def f_def split: if_splits)
  obtain e pre post where e: "P e" "active_list d = pre @ e # post"
    "filter ext_active (update_first P f (dcd_extents d)) = pre @ post"
    by (rule filter_update_first_drop [OF ex, of ext_active f]) (auto simp: P_def release_match_def f_def)
  have bytes: "ext_bytes e = range_set b (request_size d s)"
    using e(1) by (simp add: P_def release_match_def ext_bytes_def)
  have al: "active_list d' = pre @ post" and tg: "dcd_total d' = dcd_total d" "dcd_granularity d' = dcd_granularity d"
    using d' e(3) by (simp_all add: d1_def)
  have inv: "disjoint_on ext_bytes (pre @ e # post)" using assms(2) e(2) by (simp add: dcd_inv_def)
  have "dcd_inv d'"
    using assms(2) e(2) disjoint_on_remove [OF inv]
    by (auto simp: dcd_inv_def al tg wf_extent_cong [OF tg])
  moreover have "allocated_bytes d' = allocated_bytes d - ext_bytes e"
    using disjoint_on_Union_remove [OF inv] unfolding allocated_bytes_def al e(2) .
  moreover have "ext_bytes e \<subseteq> allocated_bytes d" using e(2) by (auto simp: allocated_bytes_def)
  ultimately show ?thesis using True bytes by simp
next
  case False
  then show ?thesis using assms(1)
    by (auto simp: release_capacity_def Let_def same_capacity_def split: if_splits)
qed


section \<open>Properties of the dynamic capacity device\<close>

text \<open>A client's request, and the device after a sequence of requests.\<close>

datatype DCDOp =
  AddCapacity u64 u64 u64 u64
| ReleaseCapacity u64 u64 u64 u64

fun dcd_step :: "DCDOp \<Rightarrow> DynamicCapacityDevice \<Rightarrow> DynamicCapacityDevice" where
  "dcd_step (AddCapacity b s tag ts) d = snd (add_capacity b s tag ts d)"
| "dcd_step (ReleaseCapacity b s tag ts) d = snd (release_capacity b s tag ts d)"

lemma add_capacity_inv:
  assumes "dcd_inv d" and "add_capacity b s tag ts d = (r, d')"
  shows "dcd_inv d'"
proof -
  have "dcd_granularity d \<noteq> 0" using assms(1) by (simp add: dcd_inv_def)
  then show ?thesis
    using add_capacity_effect [OF assms(2)] assms(1) same_capacity_inv dcd_inv_granted by blast
qed

lemma release_capacity_inv:
  "dcd_inv d \<Longrightarrow> release_capacity b s tag ts d = (st, d') \<Longrightarrow> dcd_inv d'"
  using release_capacity_effect [of b s tag ts d st d'] same_capacity_inv by blast

lemma dcd_step_inv: "dcd_inv d \<Longrightarrow> dcd_inv (dcd_step x d)"
  by (cases x) (auto intro: add_capacity_inv release_capacity_inv prod.collapse [symmetric])

lemma dcd_inv_new: "dcd_inv (new_DCD tot gran)"
  by (auto simp: dcd_inv_def new_DCD_def max_def)

lemma dcd_run_inv: "dcd_inv d \<Longrightarrow> dcd_inv (fold dcd_step ops d)"
  by (induction ops arbitrary: d) (simp_all add: dcd_step_inv)

text \<open>
  C22: Whatever sequence of add and release requests a new device serves, with whatever
  sizes, bases and tags (overflowing ones included), the active extents stay inside the
  device, aligned at their base, and no byte belongs to two of them.
\<close>

theorem dcd_extents_disjoint:
  fixes ops :: "DCDOp list" and tot gran :: u64
  defines "d \<equiv> fold dcd_step ops (new_DCD tot gran)"
  shows "(\<forall>e \<in> set (filter ext_active (dcd_extents d)).
            unat (ext_base e) + unat (ext_size e) \<le> unat (dcd_total d) \<and> ext_size e \<noteq> 0 \<and>
            unat (dcd_granularity d) dvd unat (ext_base e)) \<and>
         disjoint_on (\<lambda>e. range_set (ext_base e) (ext_size e)) (filter ext_active (dcd_extents d))"
  using dcd_run_inv [OF dcd_inv_new, of ops tot gran]
  by (auto simp: d_def dcd_inv_def wf_extent_def range_within_device_iff aligned_def
      simp flip: ext_bytes_def)

theorem dcd_extents_disjoint_witness:
  "let d = fold dcd_step [AddCapacity UINT64_MAX 100 0 1, AddCapacity UINT64_MAX 200 0 2,
                          ReleaseCapacity 0 100 1 3] (new_DCD 4096 64) in
   disjoint_on (\<lambda>e. range_set (ext_base e) (ext_size e)) (filter ext_active (dcd_extents d))"
  using dcd_extents_disjoint [of "[AddCapacity UINT64_MAX 100 0 1, AddCapacity UINT64_MAX 200 0 2,
                          ReleaseCapacity 0 100 1 3]" 4096 64]
  by (simp only: Let_def)

text \<open>
  C7: Both operations implement the abstract allocator on sets of bytes. A successful add
  gives a range that lies in the device and was entirely free, and allocates exactly it; a
  successful release frees exactly the named range, all of which was allocated; a request
  that fails changes no allocation.
\<close>

theorem dcd_refines_byte_sets:
  assumes "dcd_inv d"
  shows "(case add_capacity b s tag ts d of (r, d') \<Rightarrow>
            if alloc_status r = DCD_OK
            then range_set (alloc_base r) (alloc_size r) \<subseteq> {..<unat (dcd_total d)} - allocated_bytes d \<and>
                 allocated_bytes d' = allocated_bytes d \<union> range_set (alloc_base r) (alloc_size r)
            else allocated_bytes d' = allocated_bytes d) \<and>
         (case release_capacity b s tag ts d of (st, d') \<Rightarrow>
            if st = DCD_OK
            then range_set b (request_size d s) \<subseteq> allocated_bytes d \<and>
                 allocated_bytes d' = allocated_bytes d - range_set b (request_size d s)
            else allocated_bytes d' = allocated_bytes d)"
proof -
  have g: "dcd_granularity d \<noteq> 0" using assms by (simp add: dcd_inv_def)
  obtain r d1 where add: "add_capacity b s tag ts d = (r, d1)" by fastforce
  obtain st d2 where rel: "release_capacity b s tag ts d = (st, d2)" by fastforce
  show ?thesis
    using add_capacity_effect [OF add g] release_capacity_effect [OF rel assms]
    granted_free [of d "alloc_base r" "alloc_size r" "alloc_tag r" d1]
    allocated_bytes_granted [of d "alloc_base r" "alloc_size r" "alloc_tag r" d1]
    same_capacity_bytes [of d d1] same_capacity_bytes [of d d2]
    by (intro conjI) (simp only: add rel prod.case split: if_split, argo)+
qed

definition example_dcd :: DynamicCapacityDevice where
  "example_dcd = snd (add_capacity 64 100 0 1 (new_DCD 4096 64))"

lemma example_dcd_inv: "dcd_inv example_dcd"
  using dcd_step_inv [OF dcd_inv_new, of "AddCapacity 64 100 0 1" 4096 64] by (simp add: example_dcd_def)

lemmas dcd_eval = add_capacity_def Let_def request_size_def align_up_def add_capacity_at_def
  range_within_device_def range_overlaps_active_def find_free_base_def ranges_overlap_def

lemma example_dcd_eq:
  "example_dcd =
     \<lparr>dcd_total = 4096, dcd_granularity = 64, dcd_next_tag = 2,
      dcd_extents = [\<lparr>ext_base = 64, ext_size = 128, ext_tag = 1, ext_created = 1,
                      ext_released = 0, ext_active = True\<rparr>],
      dcd_allocation_requests = 1, dcd_release_requests = 0, dcd_failed_requests = 0\<rparr>"
  by (simp add: example_dcd_def new_DCD_def dcd_eval max_def)

lemma example_add:
  "fst (add_capacity UINT64_MAX 50 0 2 example_dcd) =
     \<lparr>alloc_status = DCD_OK, alloc_base = 0, alloc_size = 64, alloc_tag = 2\<rparr>"
  by (simp add: example_dcd_eq dcd_eval)

theorem dcd_refines_byte_sets_witness:
  "allocated_bytes (snd (add_capacity UINT64_MAX 50 0 2 example_dcd)) =
     allocated_bytes example_dcd \<union> range_set 0 64"
  using dcd_refines_byte_sets [OF example_dcd_inv, of UINT64_MAX 50 0 2] example_add
  by (cases "add_capacity UINT64_MAX 50 0 2 example_dcd") simp

lemma align_up_of_aligned: "aligned d v \<Longrightarrow> align_up d v = v"
  by (simp add: align_up_def Let_def word_mod_aligned)

lemma request_size_idem:
  "dcd_granularity d \<noteq> 0 \<Longrightarrow> request_size d (request_size d s) = request_size d s"
  by (simp add: request_size_def align_up_of_aligned align_up_aligned)

text \<open>
  Releasing what an add returned undoes it: the release of the returned base, size and
  tag on the resulting device succeeds, whatever other extents are active, and the
  allocated bytes are those from before the add.
\<close>

lemma add_release_roundtrip:
  assumes "dcd_inv d" and "add_capacity b s tag ts d = (r, d')" and "alloc_status r = DCD_OK"
  shows "fst (release_capacity (alloc_base r) (alloc_size r) (alloc_tag r) ts' d') = DCD_OK \<and>
         allocated_bytes (snd (release_capacity (alloc_base r) (alloc_size r) (alloc_tag r) ts' d'))
           = allocated_bytes d"
proof -
  have g: "dcd_granularity d \<noteq> 0" using assms(1) by (simp add: dcd_inv_def)
  have gr: "granted d (alloc_base r) (alloc_size r) (alloc_tag r) d'"
    and sz: "alloc_size r = request_size d s"
    using add_capacity_effect [OF assms(2) g] assms(3) by auto
  have same: "dcd_total d' = dcd_total d" "dcd_granularity d' = dcd_granularity d"
    using gr by (simp_all add: granted_def)
  have rs: "request_size d' (alloc_size r) = alloc_size r"
    using request_size_idem [OF g, of s] sz by (simp add: request_size_cong [OF same])
  obtain st d2 where rel:
    "release_capacity (alloc_base r) (alloc_size r) (alloc_tag r) ts' d' = (st, d2)" by fastforce
  define d1 where "d1 = d'\<lparr>dcd_release_requests := dcd_release_requests d' + 1\<rparr>"
  have d1: "same_capacity d' d1" by (simp add: d1_def same_capacity_def)
  have ok: "st = DCD_OK"
    using rel gr unfolding release_capacity_def Let_def d1_def [symmetric] same_capacity_size [OF d1] rs
    by (auto simp: granted_def d1_def range_within_device_iff release_match_def split: if_splits)
  have "allocated_bytes d2 = allocated_bytes d' - range_set (alloc_base r) (alloc_size r)"
    using release_capacity_effect [OF rel add_capacity_inv [OF assms(1,2)]] ok rs by simp
  also have "\<dots> = allocated_bytes d"
    using allocated_bytes_granted [OF gr] granted_free [OF gr] by auto
  finally show ?thesis using rel ok by simp
qed

lemma add_release_roundtrip_witness:
  "allocated_bytes (snd (release_capacity 0 64 2 9 (snd (add_capacity UINT64_MAX 50 0 2 example_dcd))))
     = allocated_bytes example_dcd"
  using add_release_roundtrip [OF example_dcd_inv, of UINT64_MAX 50 0 2 _ _ 9] example_add
  by (cases "add_capacity UINT64_MAX 50 0 2 example_dcd") simp


section \<open>Automatic placement is first fit and complete\<close>

definition fits :: "DynamicCapacityDevice \<Rightarrow> u64 \<Rightarrow> u64 \<Rightarrow> bool" where
  "fits d s b \<longleftrightarrow> aligned d b \<and> range_within_device d b s \<and> range_set b s \<inter> allocated_bytes d = {}"

lemma align_up_least:
  assumes "dcd_granularity d \<noteq> 0" and "aligned d b" and "unat v \<le> unat b"
  shows "unat v \<le> unat (align_up d v)" and "unat (align_up d v) \<le> unat b"
proof -
  let ?g = "unat (dcd_granularity d)"
  have "unat v + (?g - unat v mod ?g) \<le> unat b" if "\<not> ?g dvd unat v"
    using next_multiple_le [of ?g "unat b" "unat v"] that assms(2,3) by (simp add: aligned_def)
  then show "unat v \<le> unat (align_up d v)" "unat (align_up d v) \<le> unat b"
    using unat_align_up [OF assms(1), of v] le_unat_u64_lt [of _ b] assms(3) by auto
qed

lemma fits_after:
  assumes "fits d s b" and "wf_extent d e" and "ext_bytes e \<subseteq> allocated_bytes d"
    and "unat (ext_base e) < unat b + unat s"
  shows "unat (ext_base e) + unat (ext_size e) \<le> unat b"
proof -
  have "0 < unat s" "0 < unat (ext_size e)"
    using assms(1,2) by (simp_all add: fits_def wf_extent_def range_within_device_iff unat_gt_0)
  moreover have "range_set b s \<inter> ext_bytes e = {}" using assms(1,3) by (auto simp: fits_def)
  then have "max (unat b) (unat (ext_base e)) \<notin> range_set b s \<inter> ext_bytes e" by blast
  ultimately show ?thesis
    using assms(4) by (auto simp: ext_bytes_def max_def split: if_splits)
qed

lemma wf_extent_end:
  assumes "wf_extent d e"
  shows "unat (ext_base e + ext_size e) = unat (ext_base e) + unat (ext_size e)"
    and "\<not> UINT64_MAX - ext_size e < ext_base e"
proof -
  have lt: "unat (ext_base e) + unat (ext_size e) < 18446744073709551616"
    using assms by (auto simp: wf_extent_def range_within_device_iff intro: le_unat_u64_lt)
  then show "unat (ext_base e + ext_size e) = unat (ext_base e) + unat (ext_size e)"
    by (rule unat_add_u64)
  have "ext_size e \<le> UINT64_MAX" using unat_u64_le_max by (simp add: word_le_nat_alt)
  then have "unat (UINT64_MAX - ext_size e) = 18446744073709551615 - unat (ext_size e)"
    by (simp add: unat_diff_word)
  then show "\<not> UINT64_MAX - ext_size e < ext_base e"
    using lt by (simp add: word_less_nat_alt)
qed

text \<open>Sorted by base, disjoint extents end before the next one begins.\<close>

abbreviation before :: "DCDExtent \<Rightarrow> DCDExtent \<Rightarrow> bool" where
  "before e e' \<equiv> unat (ext_base e) + unat (ext_size e) \<le> unat (ext_base e')"

lemma active_extents_before:
  assumes "dcd_inv d"
  shows "sorted_wrt before (active_extents d)"
  unfolding sorted_wrt_iff_nth_less
proof (intro allI impI)
  fix i j assume ij: "i < j" "j < length (active_extents d)"
  let ?x = "active_extents d ! i" and ?y = "active_extents d ! j"
  have dis: "disjoint_on ext_bytes (active_extents d)"
    using assms by (simp add: dcd_inv_def active_extents_def)
  have mem: "?x \<in> set (active_extents d)" "?y \<in> set (active_extents d)" using ij by simp_all
  have "?x \<noteq> ?y" using dis ij by (simp add: disjoint_on_def nth_eq_iff_index_eq)
  moreover have "wf_extent d ?y" using mem(2) assms by (auto simp: active_extents_def dcd_inv_def)
  then have "unat (ext_base ?y) \<in> ext_bytes ?y"
    by (simp add: ext_bytes_def wf_extent_def range_within_device_iff unat_gt_0)
  ultimately have "unat (ext_base ?y) \<notin> ext_bytes ?x"
    using disjoint_on_unique [OF dis mem] by blast
  moreover have "sorted (map ext_base (active_extents d))" by (simp add: active_extents_def)
  then have "ext_base ?x \<le> ext_base ?y" using ij by (simp add: sorted_iff_nth_mono)
  ultimately show "before ?x ?y" by (simp add: ext_bytes_def word_le_nat_alt)
qed

lemma find_free_scan_first_fit:
  assumes "dcd_granularity d \<noteq> 0" and "sorted_wrt before es" and "\<forall>e \<in> set es. wf_extent d e"
    and "allocated_bytes d = D \<union> \<Union> (ext_bytes ` set es)"
    and "\<forall>x \<in> D. x < unat c \<and> (\<forall>e \<in> set es. x < unat (ext_base e))"
    and "aligned d c" and "\<forall>b. fits d s b \<longrightarrow> unat c \<le> unat b" and "fits d s b0"
  shows "\<exists>c'. find_free_scan d s c es = Some c' \<and> fits d s c' \<and> (\<forall>b. fits d s b \<longrightarrow> unat c' \<le> unat b)"
  using assms
proof (induction es arbitrary: c D)
  case Nil
  have "unat c \<le> unat b0" using Nil.prems by blast
  then have "range_within_device d c s"
    using Nil.prems(8) by (auto simp: fits_def range_within_device_iff)
  moreover have "range_set c s \<inter> allocated_bytes d = {}" using Nil.prems(4,5) by fastforce
  ultimately show ?case using Nil.prems(6,7) by (simp add: fits_def)
next
  case (Cons e es)
  have e: "wf_extent d e" "ext_bytes e \<subseteq> allocated_bytes d" using Cons.prems(3,4) by auto
  have c0: "unat c + unat s \<le> unat (dcd_total d)" "s \<noteq> 0"
    using Cons.prems(7,8) by (fastforce simp: fits_def range_within_device_iff)+
  then have cs: "unat (c + s) = unat c + unat s"
    by (blast intro: unat_add_u64 le_unat_u64_lt)
  show ?case
  proof (cases "c + s \<le> ext_base e")
    case True
    then have le: "unat c + unat s \<le> unat (ext_base e)" using cs by (simp add: word_le_nat_alt)
    then have "\<forall>x \<in> set (e # es). unat c + unat s \<le> unat (ext_base x)"
      using Cons.prems(2) by fastforce
    then have "range_set c s \<inter> allocated_bytes d = {}"
      using Cons.prems(4,5) by (fastforce simp: ext_bytes_def)
    then have "fits d s c" using Cons.prems(6) c0 by (simp add: fits_def range_within_device_iff)
    then show ?thesis using True Cons.prems(7) by auto
  next
    case False
    let ?c = "align_up d (ext_base e + ext_size e)"
    have lt: "unat (ext_base e) < unat c + unat s" using False cs by (simp add: word_le_nat_alt)
    have after: "unat (ext_base e + ext_size e) \<le> unat b" if "fits d s b" for b
      using fits_after [OF that e] wf_extent_end(1) [OF e(1)] lt Cons.prems(7) that
      by (metis add_le_mono1 less_le_trans)
    have least: "\<forall>b. fits d s b \<longrightarrow> unat ?c \<le> unat b"
      using align_up_least(2) [OF assms(1) _ after] by (auto simp: fits_def)
    have ge: "unat (ext_base e) + unat (ext_size e) \<le> unat ?c"
      using align_up_least(1) [OF assms(1) _ after [OF assms(8)]] assms(8) wf_extent_end(1) [OF e(1)]
      by (simp add: fits_def)
    then have "\<forall>x \<in> D \<union> ext_bytes e. x < unat ?c \<and> (\<forall>e \<in> set es. x < unat (ext_base e))"
      using Cons.prems(2,5) by (fastforce simp: ext_bytes_def)
    moreover have "allocated_bytes d = (D \<union> ext_bytes e) \<union> \<Union> (ext_bytes ` set es)"
      using Cons.prems(4) by auto
    ultimately have "\<exists>c'. find_free_scan d s ?c es = Some c' \<and> fits d s c' \<and> (\<forall>b. fits d s b \<longrightarrow> unat c' \<le> unat b)"
      using Cons.IH [OF assms(1) _ _ _ _ align_up_aligned [OF assms(1)] least assms(8)] Cons.prems(2,3)
      by simp
    then show ?thesis using False wf_extent_end(2) [OF e(1)] by simp
  qed
qed

lemma find_free_base_first_fit:
  assumes "dcd_inv d" and "fits d s b0"
  shows "\<exists>c. find_free_base d s = Some c \<and> fits d s c \<and> (\<forall>b. fits d s b \<longrightarrow> unat c \<le> unat b)"
  using assms active_extents_before [OF assms(1)] unfolding find_free_base_def
  by (intro find_free_scan_first_fit [where D = "{}"])
     (auto simp: dcd_inv_def allocated_bytes_def active_extents_def)

lemma fits_cong: "same_capacity d d' \<Longrightarrow> fits d' s b = fits d s b"
  by (simp add: same_capacity_def fits_def aligned_def range_within_device_def allocated_bytes_def)

text \<open>
  Automatic placement (\<open>requested_base\<close> all ones) is complete and first fit. The request
  succeeds exactly when some aligned base leaves the aligned size inside the device and clear
  of every active extent, and then the base it returns is the lowest such base. This holds for
  every capacity up to the full 64-bit range, although candidate computations can wrap.
\<close>

lemma auto_placement_complete:
  assumes "dcd_inv d" and "add_capacity UINT64_MAX s tag ts d = (r, d')"
  shows "(alloc_status r = DCD_OK \<longleftrightarrow> (\<exists>b. fits d (request_size d s) b)) \<and>
         (alloc_status r = DCD_OK \<longrightarrow>
            fits d (request_size d s) (alloc_base r) \<and>
            (\<forall>b. fits d (request_size d s) b \<longrightarrow> alloc_base r \<le> b))"
proof -
  have g: "dcd_granularity d \<noteq> 0" using assms(1) by (simp add: dcd_inv_def)
  have sound: "fits d (request_size d s) (alloc_base r)" if "alloc_status r = DCD_OK"
    using add_capacity_effect [OF assms(2) g] that by (auto simp: fits_def granted_def)
  define d1 where "d1 = d\<lparr>dcd_allocation_requests := dcd_allocation_requests d + 1\<rparr>"
  have d1: "same_capacity d d1" by (simp add: d1_def same_capacity_def)
  have "alloc_status r = DCD_OK \<and> (\<forall>b. fits d (request_size d s) b \<longrightarrow> alloc_base r \<le> b)"
    if b: "fits d (request_size d s) b" for b
  proof -
    obtain c where c: "find_free_base d1 (request_size d s) = Some c" "fits d (request_size d s) c"
      "\<forall>b. fits d (request_size d s) b \<longrightarrow> unat c \<le> unat b"
      using find_free_base_first_fit [of d1 "request_size d s" b] assms(1) b
        same_capacity_inv [OF d1] fits_cong [OF d1] by auto
    have "request_size d s \<noteq> 0" "\<not> dcd_total d1 < request_size d s"
      "range_within_device d1 c (request_size d s)" "\<not> range_overlaps_active d1 c (request_size d s)"
      using c(2) b d1 same_capacity_bytes [OF d1]
      by (auto simp: fits_def range_within_device_iff same_capacity_def range_overlaps_active_iff word_less_nat_alt)
    then have "alloc_status r = DCD_OK \<and> alloc_base r = c"
      using assms(2) unfolding add_capacity_def Let_def d1_def [symmetric] same_capacity_size [OF d1] c(1)
      by (auto simp: add_capacity_at_def Let_def c(1))
    then show ?thesis using c(3) by (simp add: word_le_nat_alt)
  qed
  with sound show ?thesis by blast
qed

lemma auto_placement_complete_witness:
  "alloc_base (fst (add_capacity UINT64_MAX 50 0 2 example_dcd)) = 0 \<and>
   fits example_dcd (request_size example_dcd 50) 0"
  using auto_placement_complete [OF example_dcd_inv, of 50 0 2] example_add
  by (cases "add_capacity UINT64_MAX 50 0 2 example_dcd") simp


section \<open>Statistics\<close>

lemma foldl_add_sizes:
  assumes "unat acc + (\<Sum>e\<leftarrow>es. unat (ext_size e)) < 18446744073709551616"
  shows "unat (foldl (\<lambda>acc e. acc + ext_size e) acc es) = unat acc + (\<Sum>e\<leftarrow>es. unat (ext_size e))"
  using assms
proof (induction es arbitrary: acc)
  case (Cons e es)
  then have "unat (acc + ext_size e) = unat acc + unat (ext_size e)" by (intro unat_add_u64) simp
  then show ?case using Cons by simp
qed simp

lemma sum_active_sizes:
  assumes "dcd_inv d"
  shows "(\<Sum>e\<leftarrow>active_list d. unat (ext_size e)) = card (allocated_bytes d)"
    and "card (allocated_bytes d) \<le> unat (dcd_total d)"
proof -
  have "card (allocated_bytes d) = (\<Sum>e\<leftarrow>active_list d. card (ext_bytes e))"
    unfolding allocated_bytes_def using assms
    by (intro card_disjoint_on) (auto simp: dcd_inv_def ext_bytes_def)
  then show "(\<Sum>e\<leftarrow>active_list d. unat (ext_size e)) = card (allocated_bytes d)"
    by (simp add: ext_bytes_def card_range_set)
  have "allocated_bytes d \<subseteq> {..<unat (dcd_total d)}"
    using assms by (fastforce simp: allocated_bytes_def ext_bytes_def dcd_inv_def wf_extent_def range_within_device_iff)
  then show "card (allocated_bytes d) \<le> unat (dcd_total d)"
    using card_mono [of "{..<unat (dcd_total d)}"] by fastforce
qed

text \<open>
  The statistics are exact: the allocated capacity reported is the number of bytes that
  belong to active extents, without wrap-around, it never exceeds the total, and the free
  capacity is the rest.
\<close>

lemma dcd_stats_exact:
  assumes "dcd_inv d"
  shows "unat (dstat_allocated_capacity (dcd_stats d)) = card (allocated_bytes d) \<and>
         dstat_allocated_capacity (dcd_stats d) \<le> dcd_total d \<and>
         unat (dstat_free_capacity (dcd_stats d)) = unat (dcd_total d) - card (allocated_bytes d)"
proof -
  note sum = sum_active_sizes [OF assms]
  have "unat (foldl (\<lambda>acc e. acc + ext_size e) 0 (active_list d)) = card (allocated_bytes d)"
    using foldl_add_sizes [of 0 "active_list d"] sum le_unat_u64_lt [OF sum(2)] by simp
  then show ?thesis
    using sum(2) by (simp add: dcd_stats_def Let_def word_le_nat_alt unat_diff_word)
qed

lemma dcd_stats_exact_witness:
  "unat (dstat_allocated_capacity (dcd_stats example_dcd)) = card (allocated_bytes example_dcd) \<and>
   dstat_allocated_capacity (dcd_stats example_dcd) = 128"
  using dcd_stats_exact [OF example_dcd_inv] by (simp add: dcd_stats_def example_dcd_eq)


section \<open>What the device promises its clients\<close>

text \<open>
  The fabric manager only asks whether a range is allocated. What it may rely on: an
  allocated range is non-empty and all its bytes are allocated, a non-empty part of an
  allocated range is allocated, and a range with an unallocated byte is not.
\<close>

locale capacity_provider =
  fixes inv :: "'d \<Rightarrow> bool"
    and alloc :: "'d \<Rightarrow> u64 \<Rightarrow> u64 \<Rightarrow> bool"
    and bytes :: "'d \<Rightarrow> nat set"
  assumes alloc_bytes: "inv d \<Longrightarrow> alloc d a s \<Longrightarrow> s \<noteq> 0 \<and> range_set a s \<subseteq> bytes d"
    and alloc_sub: "inv d \<Longrightarrow> alloc d a s \<Longrightarrow> t \<noteq> 0 \<Longrightarrow> range_set b t \<subseteq> range_set a s \<Longrightarrow> alloc d b t"
begin

lemma not_alloc_outside:
  "inv d \<Longrightarrow> x \<in> range_set a s \<Longrightarrow> x \<notin> bytes d \<Longrightarrow> \<not> alloc d a s"
  using alloc_bytes by blast

lemma alloc_byte:
  assumes "inv d" and "alloc d a s" and "unat b \<in> range_set a s"
  shows "alloc d b 1"
  using assms by (intro alloc_sub [OF assms(1,2)]) auto

end

lemma find_extent_SomeD:
  "find_extent d a s = Some e \<Longrightarrow>
   e \<in> set (active_list d) \<and> s \<noteq> 0 \<and> range_set a s \<subseteq> ext_bytes e"
  by (auto simp: find_extent_def range_contains_iff ext_bytes_def dest!: find_SomeD split: if_splits)

lemma is_allocated_iff:
  assumes "dcd_inv d"
  shows "is_allocated d a s \<longleftrightarrow> s \<noteq> 0 \<and> (\<exists>e \<in> set (active_list d). range_set a s \<subseteq> ext_bytes e)"
proof
  assume "is_allocated d a s"
  then show "s \<noteq> 0 \<and> (\<exists>e \<in> set (active_list d). range_set a s \<subseteq> ext_bytes e)"
    using find_extent_SomeD by (fastforce simp: is_allocated_def)
next
  assume r: "s \<noteq> 0 \<and> (\<exists>e \<in> set (active_list d). range_set a s \<subseteq> ext_bytes e)"
  then obtain e where e: "e \<in> set (active_list d)" "range_set a s \<subseteq> ext_bytes e" "s \<noteq> 0" by blast
  have "range_within_device d (ext_base e) (ext_size e)"
    using assms e(1) by (auto simp: dcd_inv_def wf_extent_def)
  then have "range_within_device d a s"
    using e(2,3) by (auto simp: range_within_device_iff ext_bytes_def range_set_subset_iff)
  then have "\<not> (s = 0 \<or> dcd_total d \<le> a \<or> dcd_total d - a < s)"
    by (auto simp: range_within_device_def)
  then show "is_allocated d a s"
    using e by (auto simp: is_allocated_def find_extent_def find_None_iff range_contains_iff ext_bytes_def)
qed

interpretation dcd_capacity: capacity_provider dcd_inv is_allocated allocated_bytes
proof
  show "s \<noteq> 0 \<and> range_set a s \<subseteq> allocated_bytes d" if "dcd_inv d" "is_allocated d a s" for d a s
    using that unfolding is_allocated_iff [OF that(1)] by (auto simp: allocated_bytes_def)
  show "is_allocated d b t"
    if "dcd_inv d" "is_allocated d a s" "t \<noteq> 0" "range_set b t \<subseteq> range_set a s" for d a s b t
    using that unfolding is_allocated_iff [OF that(1)] by blast
qed

end
