(* ===== verification/GFAM.thy ===== *)
theory GFAM
  imports DCD "HOL-Library.AList"
begin

text \<open>
  The global fabric-attached memory device of \<open>include/dcd_gfam.h\<close> and
  \<open>src/dcd_gfam.cpp\<close>: hosts register, are granted permissions on ranges of the dynamic
  capacity device and access them under a shared bandwidth. The device holds a pointer to
  the capacity device, which may be null: it is passed as an option. The hash map of hosts
  is an association list with distinct keys, since the code iterates over it.
\<close>

abbreviation (input) DCD_PERM_READ :: u32 where "DCD_PERM_READ \<equiv> 1"
abbreviation (input) DCD_PERM_WRITE :: u32 where "DCD_PERM_WRITE \<equiv> 2"
abbreviation (input) DCD_PERM_ATOMIC :: u32 where "DCD_PERM_ATOMIC \<equiv> 4"
abbreviation (input) DCD_PERM_SHARED :: u32 where "DCD_PERM_SHARED \<equiv> 8"

record GFAMHost =
  host_id :: u32
  host_label :: string
  host_active :: bool
  host_bandwidth_share :: double
  host_reads :: u64
  host_writes :: u64
  host_atomics :: u64

record GFAMMapping =
  map_host_id :: u32
  map_base :: u64
  map_size :: u64
  map_permissions :: u32

record GFAMAccessResult =
  acc_allowed :: bool
  acc_status :: DCDStatus
  acc_latency_ns :: double

record GFAMStats =
  gstat_hosts :: u64
  gstat_mappings :: u64
  gstat_shared_mappings :: u64
  gstat_read_ops :: u64
  gstat_write_ops :: u64
  gstat_atomic_ops :: u64
  gstat_denied_accesses :: u64
  gstat_avg_access_latency_ns :: double

record GFAMDevice =
  gfam_fabric_latency_ns :: double
  gfam_bandwidth_gbps :: double
  gfam_hosts :: "(u32 \<times> GFAMHost) list"
  gfam_mappings :: "GFAMMapping list"
  gfam_denied_accesses :: u64
  gfam_total_latency_ns :: u64
  gfam_total_accesses :: u64

definition new_GFAM :: "double \<Rightarrow> double \<Rightarrow> GFAMDevice" where
  "new_GFAM fabric_latency_ns bandwidth_gbps =
     \<lparr>gfam_fabric_latency_ns = fabric_latency_ns, gfam_bandwidth_gbps = max 1 bandwidth_gbps,
      gfam_hosts = [], gfam_mappings = [], gfam_denied_accesses = 0,
      gfam_total_latency_ns = 0, gfam_total_accesses = 0\<rparr>"

definition new_host :: GFAMHost where
  "new_host = \<lparr>host_id = 0, host_label = [], host_active = True, host_bandwidth_share = 0,
               host_reads = 0, host_writes = 0, host_atomics = 0\<rparr>"

definition count_active :: "(u32 \<times> GFAMHost) list \<Rightarrow> u64" where
  "count_active hs = foldl (\<lambda>n (i, h). if host_active h then n + 1 else n) 0 hs"

definition rebalance_bandwidth_locked :: "GFAMDevice \<Rightarrow> GFAMDevice" where
  "rebalance_bandwidth_locked g =
     (let active_hosts = count_active (gfam_hosts g);
          share = (if 0 < active_hosts then 1 / double_of_u64 active_hosts else 0) in
      g\<lparr>gfam_hosts := map (\<lambda>(i, h). (i, h\<lparr>host_bandwidth_share :=
                                           (if host_active h then share else 0)\<rparr>)) (gfam_hosts g)\<rparr>)"

text \<open>\<open>hosts_[id]\<close> creates a default host when the key is absent.\<close>

definition register_host :: "u32 \<Rightarrow> string \<Rightarrow> GFAMDevice \<Rightarrow> GFAMDevice" where
  "register_host i label g =
     (let host = (case map_of (gfam_hosts g) i of Some h \<Rightarrow> h | None \<Rightarrow> new_host);
          host' = host\<lparr>host_id := i, host_label := label, host_active := True\<rparr> in
      rebalance_bandwidth_locked (g\<lparr>gfam_hosts := AList.update i host' (gfam_hosts g)\<rparr>))"

definition unregister_host :: "u32 \<Rightarrow> GFAMDevice \<Rightarrow> GFAMDevice" where
  "unregister_host i g =
     (let hosts = AList.map_entry i (\<lambda>h. h\<lparr>host_active := False\<rparr>) (gfam_hosts g);
          maps = filter (\<lambda>m. map_host_id m \<noteq> i) (gfam_mappings g) in
      rebalance_bandwidth_locked (g\<lparr>gfam_hosts := hosts, gfam_mappings := maps\<rparr>))"

text \<open>The guard on the capacity device that grants, checks and accesses share.\<close>

definition dcd_allocated :: "DynamicCapacityDevice option \<Rightarrow> u64 \<Rightarrow> u64 \<Rightarrow> bool" where
  "dcd_allocated dcd b s = (case dcd of None \<Rightarrow> False | Some d \<Rightarrow> is_allocated d b s)"

definition host_registered :: "GFAMDevice \<Rightarrow> u32 \<Rightarrow> bool" where
  "host_registered g i = (case map_of (gfam_hosts g) i of None \<Rightarrow> False | Some h \<Rightarrow> host_active h)"

definition grant_access ::
  "DynamicCapacityDevice option \<Rightarrow> u32 \<Rightarrow> u64 \<Rightarrow> u64 \<Rightarrow> u32 \<Rightarrow> GFAMDevice \<Rightarrow> DCDStatus \<times> GFAMDevice"
where
  "grant_access dcd i b s permissions g =
     (if \<not> dcd_allocated dcd b s \<or> permissions = 0 then (INVALID_REQUEST, g)
      else if \<not> host_registered g i then (ACCESS_DENIED, g)
      else
        let same = (\<lambda>m. map_host_id m = i \<and> map_base m = b \<and> map_size m = s) in
        if list_ex same (gfam_mappings g)
        then (DCD_OK, g\<lparr>gfam_mappings :=
                update_first same (\<lambda>m. m\<lparr>map_permissions := permissions\<rparr>) (gfam_mappings g)\<rparr>)
        else (DCD_OK, g\<lparr>gfam_mappings := gfam_mappings g @
                [\<lparr>map_host_id = i, map_base = b, map_size = s, map_permissions = permissions\<rparr>]\<rparr>))"

definition revoke_access :: "u32 \<Rightarrow> u64 \<Rightarrow> u64 \<Rightarrow> GFAMDevice \<Rightarrow> DCDStatus \<times> GFAMDevice" where
  "revoke_access i b s g =
     (let maps = filter (\<lambda>m. \<not> (map_host_id m = i \<and> map_base m = b \<and> map_size m = s)) (gfam_mappings g) in
      (if length maps = length (gfam_mappings g) then NOT_FOUND else DCD_OK,
       g\<lparr>gfam_mappings := maps\<rparr>))"

definition revoke_extent :: "u64 \<Rightarrow> u64 \<Rightarrow> GFAMDevice \<Rightarrow> GFAMDevice" where
  "revoke_extent b s g =
     g\<lparr>gfam_mappings := filter (\<lambda>m. \<not> (map_base m = b \<and> map_size m = s)) (gfam_mappings g)\<rparr>"

definition mapping_covers :: "GFAMMapping \<Rightarrow> u64 \<Rightarrow> u64 \<Rightarrow> bool" where
  "mapping_covers m addr s = range_contains (map_base m) (map_size m) addr s"

definition required_permissions :: "bool \<Rightarrow> bool \<Rightarrow> u32" where
  "required_permissions is_write is_atomic =
     (if is_atomic then DCD_PERM_ATOMIC OR DCD_PERM_READ OR DCD_PERM_WRITE
      else if is_write then DCD_PERM_WRITE else DCD_PERM_READ)"

definition mapping_allows :: "GFAMDevice \<Rightarrow> u32 \<Rightarrow> u64 \<Rightarrow> u64 \<Rightarrow> bool \<Rightarrow> bool \<Rightarrow> bool" where
  "mapping_allows g i addr s is_write is_atomic =
     (let required = required_permissions is_write is_atomic in
      list_ex (\<lambda>m. map_host_id m = i \<and> mapping_covers m addr s \<and>
                   map_permissions m AND required = required) (gfam_mappings g))"

definition check_access ::
  "DynamicCapacityDevice option \<Rightarrow> GFAMDevice \<Rightarrow> u32 \<Rightarrow> u64 \<Rightarrow> u64 \<Rightarrow> bool \<Rightarrow> bool \<Rightarrow> bool" where
  "check_access dcd g i addr s is_write is_atomic =
     (if \<not> dcd_allocated dcd addr s then False
      else if \<not> host_registered g i then False
      else mapping_allows g i addr s is_write is_atomic)"

definition calculate_access_latency :: "GFAMDevice \<Rightarrow> u32 \<Rightarrow> u64 \<Rightarrow> double" where
  "calculate_access_latency g i s =
     (let share0 = (case map_of (gfam_hosts g) i of Some h \<Rightarrow> host_bandwidth_share h | None \<Rightarrow> 0);
          bandwidth_share = (if share0 \<le> 0 then 1 else share0);
          effective_bandwidth_gbps = gfam_bandwidth_gbps g * bandwidth_share;
          transfer_time_ns = (double_of_u64 s * 8) / (effective_bandwidth_gbps * 1000000000) * 1000000000;
          contention_penalty = (if bandwidth_share < 1
                                then gfam_fabric_latency_ns g * (1 / bandwidth_share - 1) * (1/4) else 0) in
      gfam_fabric_latency_ns g + transfer_time_ns + contention_penalty)"

definition access_denied :: "GFAMDevice \<Rightarrow> GFAMAccessResult \<times> GFAMDevice" where
  "access_denied g = (\<lparr>acc_allowed = False, acc_status = ACCESS_DENIED, acc_latency_ns = 0\<rparr>,
                      g\<lparr>gfam_denied_accesses := gfam_denied_accesses g + 1\<rparr>)"

definition count_op :: "bool \<Rightarrow> bool \<Rightarrow> GFAMHost \<Rightarrow> GFAMHost" where
  "count_op is_write is_atomic h =
     (if is_atomic then h\<lparr>host_atomics := host_atomics h + 1\<rparr>
      else if is_write then h\<lparr>host_writes := host_writes h + 1\<rparr>
      else h\<lparr>host_reads := host_reads h + 1\<rparr>)"

definition gfam_record_access ::
  "DynamicCapacityDevice option \<Rightarrow> u32 \<Rightarrow> u64 \<Rightarrow> u64 \<Rightarrow> bool \<Rightarrow> bool \<Rightarrow> GFAMDevice
   \<Rightarrow> GFAMAccessResult \<times> GFAMDevice" where
  "gfam_record_access dcd i addr s is_write is_atomic g =
     (if \<not> dcd_allocated dcd addr s then access_denied g
      else if \<not> host_registered g i then access_denied g
      else if \<not> mapping_allows g i addr s is_write is_atomic then access_denied g
      else
        let g1 = g\<lparr>gfam_hosts := AList.map_entry i (count_op is_write is_atomic) (gfam_hosts g)\<rparr>;
            latency = calculate_access_latency g1 i s in
        (\<lparr>acc_allowed = True, acc_status = DCD_OK, acc_latency_ns = latency\<rparr>,
         g1\<lparr>gfam_total_latency_ns := gfam_total_latency_ns g1 + u64_of_double latency,
            gfam_total_accesses := gfam_total_accesses g1 + 1\<rparr>))"

definition gfam_stats :: "GFAMDevice \<Rightarrow> GFAMStats" where
  "gfam_stats g =
     \<lparr>gstat_hosts = count_active (gfam_hosts g),
      gstat_mappings = of_nat (length (gfam_mappings g)),
      gstat_shared_mappings =
        foldl (\<lambda>n m. if map_permissions m AND DCD_PERM_SHARED \<noteq> 0 then n + 1 else n) 0 (gfam_mappings g),
      gstat_read_ops = foldl (\<lambda>n (i, h). n + host_reads h) 0 (gfam_hosts g),
      gstat_write_ops = foldl (\<lambda>n (i, h). n + host_writes h) 0 (gfam_hosts g),
      gstat_atomic_ops = foldl (\<lambda>n (i, h). n + host_atomics h) 0 (gfam_hosts g),
      gstat_denied_accesses = gfam_denied_accesses g,
      gstat_avg_access_latency_ns =
        (if 0 < gfam_total_accesses g
         then double_of_u64 (gfam_total_latency_ns g) / double_of_u64 (gfam_total_accesses g) else 0)\<rparr>"


section \<open>Invariant: bandwidth shares and live mappings\<close>

definition active_hosts :: "GFAMDevice \<Rightarrow> nat" where
  "active_hosts g = length (filter (\<lambda>(i, h). host_active h) (gfam_hosts g))"

text \<open>
  Keys are distinct, every active host has an equal share of the bandwidth and inactive
  hosts none, and every mapping belongs to an active host and is neither empty nor void.
\<close>

definition shares_even :: "GFAMDevice \<Rightarrow> bool" where
  "shares_even g \<longleftrightarrow> (\<forall>(i, h) \<in> set (gfam_hosts g).
     host_bandwidth_share h = (if host_active h then 1 / real (active_hosts g) else 0))"

definition mappings_live :: "GFAMDevice \<Rightarrow> bool" where
  "mappings_live g \<longleftrightarrow> (\<forall>m \<in> set (gfam_mappings g).
     host_registered g (map_host_id m) \<and> map_size m \<noteq> 0 \<and> map_permissions m \<noteq> 0)"

definition gfam_inv :: "GFAMDevice \<Rightarrow> bool" where
  "gfam_inv g \<longleftrightarrow> distinct (map fst (gfam_hosts g)) \<and> shares_even g \<and> mappings_live g"

lemma count_active_foldl:
  "foldl (\<lambda>n (i, h). if host_active h then n + 1 else n) (k :: u64) hs
     = k + of_nat (length (filter (\<lambda>(i, h). host_active h) hs))"
  by (induction hs arbitrary: k) (auto simp: ac_simps)

lemma count_active_eq: "count_active (gfam_hosts g) = of_nat (active_hosts g)"
  by (simp add: count_active_def count_active_foldl active_hosts_def)

lemma distinct_u32_length:
  assumes "distinct (xs :: u32 list)"
  shows "length xs \<le> 4294967296"
proof -
  have "length xs = card (set xs)" using assms by (simp add: distinct_card)
  also have "\<dots> \<le> card (UNIV :: u32 set)" by (rule card_mono) auto
  also have "\<dots> = 4294967296" by (simp add: card_word)
  finally show ?thesis .
qed

lemma unat_count_active:
  assumes "distinct (map fst (gfam_hosts g))"
  shows "unat (count_active (gfam_hosts g)) = active_hosts g"
proof -
  have "active_hosts g \<le> length (map fst (gfam_hosts g))"
    by (simp add: active_hosts_def)
  also have "\<dots> \<le> 4294967296" by (rule distinct_u32_length [OF assms])
  finally show ?thesis by (simp add: count_active_eq unsigned_of_nat take_bit_nat_eq_self)
qed

lemma active_hosts_rebalance [simp]: "active_hosts (rebalance_bandwidth_locked g) = active_hosts g"
  unfolding active_hosts_def rebalance_bandwidth_locked_def Let_def
  by (simp add: filter_map o_def case_prod_unfold)

lemma rebalance_keys [simp]:
  "map fst (gfam_hosts (rebalance_bandwidth_locked g)) = map fst (gfam_hosts g)"
  by (simp add: rebalance_bandwidth_locked_def Let_def o_def case_prod_unfold)

lemma rebalance_mappings [simp]:
  "gfam_mappings (rebalance_bandwidth_locked g) = gfam_mappings g"
  by (simp add: rebalance_bandwidth_locked_def Let_def)

lemma rebalance_registered [simp]:
  "host_registered (rebalance_bandwidth_locked g) i = host_registered g i"
  by (simp add: rebalance_bandwidth_locked_def Let_def host_registered_def map_of_map
      split: option.split)

lemma rebalance_shares_even:
  assumes "distinct (map fst (gfam_hosts g))"
  shows "shares_even (rebalance_bandwidth_locked g)"
proof -
  have "double_of_u64 (count_active (gfam_hosts g)) = real (active_hosts g)"
    "0 < count_active (gfam_hosts g) \<longleftrightarrow> 0 < active_hosts g"
    using unat_count_active [OF assms] by (simp_all add: double_of_u64_def word_less_nat_alt)
  then show ?thesis
    unfolding shares_even_def active_hosts_rebalance
    by (auto simp: rebalance_bandwidth_locked_def Let_def)
qed

lemma register_host_inv:
  assumes "gfam_inv g"
  shows "gfam_inv (register_host i label g)"
proof -
  define g1 where "g1 = g\<lparr>gfam_hosts := AList.update i
    ((case map_of (gfam_hosts g) i of Some h \<Rightarrow> h | None \<Rightarrow> new_host)
       \<lparr>host_id := i, host_label := label, host_active := True\<rparr>) (gfam_hosts g)\<rparr>"
  have reg: "register_host i label g = rebalance_bandwidth_locked g1"
    by (simp add: register_host_def Let_def g1_def)
  have "distinct (map fst (gfam_hosts g1))"
    using assms by (simp add: g1_def gfam_inv_def distinct_update)
  moreover have "host_registered g1 j" if "host_registered g j" for j
    using that by (simp add: g1_def host_registered_def update_conv')
  ultimately show ?thesis
    using assms unfolding reg gfam_inv_def mappings_live_def
    by (auto simp: rebalance_shares_even) (simp_all add: g1_def)
qed

lemma unregister_host_inv:
  assumes "gfam_inv g"
  shows "gfam_inv (unregister_host i g)"
proof -
  define g1 where "g1 = g\<lparr>gfam_hosts := AList.map_entry i (\<lambda>h. h\<lparr>host_active := False\<rparr>) (gfam_hosts g),
    gfam_mappings := filter (\<lambda>m. map_host_id m \<noteq> i) (gfam_mappings g)\<rparr>"
  have unreg: "unregister_host i g = rebalance_bandwidth_locked g1"
    by (simp add: unregister_host_def Let_def g1_def)
  have "distinct (map fst (gfam_hosts g1))"
    using assms by (simp add: g1_def gfam_inv_def distinct_map_entry)
  moreover have "host_registered g1 j" if "host_registered g j" "j \<noteq> i" for j
    using that by (simp add: g1_def host_registered_def map_of_map_entry)
  ultimately show ?thesis
    using assms unfolding unreg gfam_inv_def mappings_live_def
    by (auto simp: rebalance_shares_even) (auto simp: g1_def)
qed

text \<open>Operations that keep the hosts keep the invariant when new mappings are live.\<close>

lemma gfam_inv_mappings:
  assumes "gfam_inv g" and "\<forall>m \<in> set ms. m \<in> set (gfam_mappings g) \<or>
    host_registered g (map_host_id m) \<and> map_size m \<noteq> 0 \<and> map_permissions m \<noteq> 0"
  shows "gfam_inv (g\<lparr>gfam_mappings := ms\<rparr>)"
  using assms by (auto simp: gfam_inv_def mappings_live_def shares_even_def active_hosts_def host_registered_def)

lemma dcd_allocated_size: "dcd_allocated dcd b s \<Longrightarrow> s \<noteq> 0"
  by (auto simp: dcd_allocated_def is_allocated_def find_extent_def split: option.splits)

lemma set_update_first_cases:
  "y \<in> set (update_first P f xs) \<Longrightarrow> y \<in> set xs \<or> (\<exists>x \<in> set xs. P x \<and> y = f x)"
  by (induction xs) (auto split: if_splits)

lemma grant_access_inv: "gfam_inv g \<Longrightarrow> gfam_inv (snd (grant_access dcd i b s p g))"
  by (auto simp: grant_access_def Let_def dest: dcd_allocated_size dest!: set_update_first_cases
      intro!: gfam_inv_mappings)

lemma revoke_access_inv: "gfam_inv g \<Longrightarrow> gfam_inv (snd (revoke_access i b s g))"
  by (auto simp: revoke_access_def Let_def intro!: gfam_inv_mappings)

lemma revoke_extent_inv: "gfam_inv g \<Longrightarrow> gfam_inv (revoke_extent b s g)"
  by (auto simp: revoke_extent_def intro!: gfam_inv_mappings)

lemma count_op_simps [simp]:
  "host_active (count_op w a h) = host_active h"
  "host_bandwidth_share (count_op w a h) = host_bandwidth_share h"
  by (simp_all add: count_op_def)

lemma map_entry_active:
  assumes "\<And>h. host_active (f h) = host_active h"
  shows "length (filter (\<lambda>(i, h). host_active h) (AList.map_entry k f hs))
           = length (filter (\<lambda>(i, h). host_active h) hs)"
  by (induction hs) (auto simp: assms)

lemma map_entry_shares:
  assumes "\<And>h. host_active (f h) = host_active h \<and> host_bandwidth_share (f h) = host_bandwidth_share h"
    and "\<forall>(i, h) \<in> set hs. host_bandwidth_share h = (if host_active h then v else 0)"
  shows "\<forall>(i, h) \<in> set (AList.map_entry k f hs). host_bandwidth_share h = (if host_active h then v else 0)"
  using assms(2) by (induction hs) (auto simp: assms(1))

lemma count_op_inv:
  assumes "gfam_inv g"
  shows "gfam_inv (g\<lparr>gfam_hosts := AList.map_entry i (count_op w atm) (gfam_hosts g)\<rparr>)" (is "gfam_inv ?g")
proof -
  have act: "active_hosts ?g = active_hosts g" by (simp add: active_hosts_def map_entry_active)
  have "shares_even ?g"
    using assms map_entry_shares [of "count_op w atm" "gfam_hosts g" "1 / real (active_hosts g)" i]
    by (auto simp: shares_even_def act gfam_inv_def)
  moreover have "host_registered ?g j = host_registered g j" for j
    by (simp add: host_registered_def map_of_map_entry split: option.split)
  ultimately show ?thesis
    using assms by (simp add: gfam_inv_def mappings_live_def distinct_map_entry)
qed

lemma gfam_inv_counters [simp]:
  "gfam_inv (g\<lparr>gfam_denied_accesses := x\<rparr>) = gfam_inv g"
  "gfam_inv (g\<lparr>gfam_total_latency_ns := x, gfam_total_accesses := y\<rparr>) = gfam_inv g"
  by (simp_all add: gfam_inv_def shares_even_def mappings_live_def active_hosts_def host_registered_def)

lemma record_access_inv:
  assumes "gfam_inv g"
  shows "gfam_inv (snd (gfam_record_access dcd i a s w atm g))"
  using assms count_op_inv [OF assms, of i w atm]
  by (simp add: gfam_record_access_def access_denied_def Let_def)


section \<open>Properties of the fabric-attached memory\<close>

text \<open>
  A request to the device; each carries the state of the capacity device at that moment, which
  other requests may have changed.
\<close>

datatype GFAMOp =
  RegisterHost u32 string
| UnregisterHost u32
| GrantAccess "DynamicCapacityDevice option" u32 u64 u64 u32
| RevokeAccess u32 u64 u64
| RevokeExtent u64 u64
| RecordAccess "DynamicCapacityDevice option" u32 u64 u64 bool bool

fun gfam_step :: "GFAMOp \<Rightarrow> GFAMDevice \<Rightarrow> GFAMDevice" where
  "gfam_step (RegisterHost i l) g = register_host i l g"
| "gfam_step (UnregisterHost i) g = unregister_host i g"
| "gfam_step (GrantAccess dcd i b s p) g = snd (grant_access dcd i b s p g)"
| "gfam_step (RevokeAccess i b s) g = snd (revoke_access i b s g)"
| "gfam_step (RevokeExtent b s) g = revoke_extent b s g"
| "gfam_step (RecordAccess dcd i a s w atm) g = snd (gfam_record_access dcd i a s w atm g)"

lemma gfam_step_inv: "gfam_inv g \<Longrightarrow> gfam_inv (gfam_step x g)"
  by (cases x) (simp_all add: register_host_inv unregister_host_inv grant_access_inv revoke_access_inv
      revoke_extent_inv record_access_inv)

lemma gfam_inv_new: "gfam_inv (new_GFAM l b)"
  by (simp add: gfam_inv_def new_GFAM_def shares_even_def mappings_live_def)

lemma gfam_run_inv: "gfam_inv g \<Longrightarrow> gfam_inv (fold gfam_step ops g)"
  by (induction ops arbitrary: g) (simp_all add: gfam_step_inv)

lemma sum_shares:
  assumes "\<forall>(i, h) \<in> set hs. host_bandwidth_share h = (if host_active h then v else 0)"
  shows "(\<Sum>(i, h)\<leftarrow>hs. host_bandwidth_share h) = real (length (filter (\<lambda>(i, h). host_active h) hs)) * v"
  using assms by (induction hs) (auto simp: algebra_simps)

text \<open>
  C23: After any sequence of requests to a new device, the bandwidth shares of the hosts add
  up to the whole bandwidth as soon as one host is active, and every mapping that grants
  permissions belongs to a registered, active host.
\<close>

theorem gfam_shares_and_mappings:
  fixes ops :: "GFAMOp list" and l b :: double
  defines "g \<equiv> fold gfam_step ops (new_GFAM l b)"
  shows "(0 < active_hosts g \<longrightarrow> (\<Sum>(i, h)\<leftarrow>gfam_hosts g. host_bandwidth_share h) = 1) \<and>
         (\<forall>m \<in> set (gfam_mappings g). host_registered g (map_host_id m) \<and> map_size m \<noteq> 0)"
proof -
  have inv: "gfam_inv g" by (simp add: g_def gfam_run_inv gfam_inv_new)
  then have "(\<Sum>(i, h)\<leftarrow>gfam_hosts g. host_bandwidth_share h) =
      real (active_hosts g) * (1 / real (active_hosts g))"
    unfolding active_hosts_def [of g]
    by (intro sum_shares) (auto simp: gfam_inv_def shares_even_def active_hosts_def)
  then show ?thesis using inv by (auto simp: gfam_inv_def mappings_live_def)
qed

definition example_gfam :: GFAMDevice where
  "example_gfam = fold gfam_step
     [RegisterHost 1 ''a'', RegisterHost 2 ''b'', GrantAccess (Some example_dcd) 1 64 128 3]
     (new_GFAM 100 32)"

theorem gfam_shares_and_mappings_witness:
  "0 < active_hosts example_gfam \<and>
   (\<Sum>(i, h)\<leftarrow>gfam_hosts example_gfam. host_bandwidth_share h) = 1"
proof -
  have "0 < active_hosts example_gfam"
    by (simp add: example_gfam_def new_GFAM_def register_host_def rebalance_bandwidth_locked_def
        Let_def count_active_def active_hosts_def grant_access_def host_registered_def
        new_host_def)
  then show ?thesis
    using gfam_shares_and_mappings [of "[RegisterHost 1 ''a'', RegisterHost 2 ''b'',
      GrantAccess (Some example_dcd) 1 64 128 3]" 100 32] by (simp add: example_gfam_def)
qed

lemma mapping_allowsD:
  "mapping_allows g i a s w atm \<Longrightarrow>
   \<exists>m \<in> set (gfam_mappings g). map_host_id m = i \<and>
     range_set a s \<subseteq> range_set (map_base m) (map_size m) \<and>
     map_permissions m AND required_permissions w atm = required_permissions w atm"
  by (auto simp: mapping_allows_def Let_def list_ex_iff mapping_covers_def range_contains_iff
      simp del: in_range_set)

text \<open>
  C24: Access control is exact. An access is allowed precisely when \<open>check_access\<close> says so;
  then every byte of it lies in active capacity of the device, the host is active and holds a
  mapping that covers the access with every permission it needs; otherwise the only effect
  is one more denied access.
\<close>

theorem record_access_control:
  assumes "dcd_inv d" and "gfam_record_access (Some d) i a s w atm g = (res, g')"
  shows "acc_allowed res = check_access (Some d) g i a s w atm \<and>
         (acc_allowed res \<longrightarrow>
            s \<noteq> 0 \<and> range_set a s \<subseteq> allocated_bytes d \<and> host_registered g i \<and>
            (\<exists>m \<in> set (gfam_mappings g). map_host_id m = i \<and>
               range_set a s \<subseteq> range_set (map_base m) (map_size m) \<and>
               map_permissions m AND required_permissions w atm = required_permissions w atm)) \<and>
         (\<not> acc_allowed res \<longrightarrow>
            acc_status res = ACCESS_DENIED \<and> acc_latency_ns res = 0 \<and>
            g' = g\<lparr>gfam_denied_accesses := gfam_denied_accesses g + 1\<rparr>)"
proof (cases "check_access (Some d) g i a s w atm")
  case True
  then have "dcd_allocated (Some d) a s" "host_registered g i" "mapping_allows g i a s w atm"
    by (simp_all add: check_access_def split: if_splits)
  moreover from this have "acc_allowed res"
    using assms(2) by (auto simp: gfam_record_access_def Let_def)
  ultimately show ?thesis
    using True dcd_capacity.alloc_bytes [OF assms(1), of a s] mapping_allowsD [of g i a s w atm]
    by (simp add: dcd_allocated_def)
next
  case False
  then have "gfam_record_access (Some d) i a s w atm g = access_denied g"
    by (simp add: check_access_def gfam_record_access_def split: if_splits)
  then show ?thesis using assms(2) False by (auto simp: access_denied_def)
qed

lemma example_gfam_allows:
  "check_access (Some example_dcd) example_gfam 1 100 8 True False"
  "\<not> check_access (Some example_dcd) example_gfam 2 100 8 True False"
  by (simp_all add: check_access_def example_gfam_def new_GFAM_def register_host_def
      rebalance_bandwidth_locked_def Let_def count_active_def grant_access_def host_registered_def
      new_host_def dcd_allocated_def is_allocated_def find_extent_def example_dcd_eq range_contains_def
      mapping_allows_def mapping_covers_def required_permissions_def)

theorem record_access_control_witness:
  "acc_allowed (fst (gfam_record_access (Some example_dcd) 1 100 8 True False example_gfam)) \<and>
   range_set 100 8 \<subseteq> allocated_bytes example_dcd \<and>
   acc_status (fst (gfam_record_access (Some example_dcd) 2 100 8 True False example_gfam)) = ACCESS_DENIED"
  using record_access_control [OF example_dcd_inv prod.collapse [symmetric], of 1 100 8 True False example_gfam]
    record_access_control [OF example_dcd_inv prod.collapse [symmetric], of 2 100 8 True False example_gfam]
    example_gfam_allows by (simp only: not_False_eq_True simp_thms)

text \<open>
  Unregistering a host takes its access away for good: even when the host registers
  again, no access of it is allowed on any range until something is granted anew, whatever
  the state of the capacity device.
\<close>

lemma unregister_revokes_all:
  "\<not> check_access dcd (register_host i label (unregister_host i g)) i a s w atm"
proof -
  have "gfam_mappings (register_host i label (unregister_host i g))
          = filter (\<lambda>m. map_host_id m \<noteq> i) (gfam_mappings g)"
    by (simp add: register_host_def unregister_host_def Let_def)
  then have "\<not> mapping_allows (register_host i label (unregister_host i g)) i a s w atm"
    by (simp add: mapping_allows_def Let_def list_ex_iff)
  then show ?thesis by (simp add: check_access_def)
qed

text \<open>
  The latency of an access of an active host when \<open>n\<close> hosts are active: the fabric
  latency, \<open>n\<close> times the transfer time at full bandwidth (the bandwidth is shared evenly),
  and a contention penalty of a quarter of the fabric latency for each other active host.
\<close>

lemma access_latency_shared:
  assumes "gfam_inv g" and "host_registered g i" and "gfam_bandwidth_gbps g \<noteq> 0"
  shows "calculate_access_latency g i s =
           gfam_fabric_latency_ns g
           + real (active_hosts g) * (double_of_u64 s * 8 / gfam_bandwidth_gbps g)
           + gfam_fabric_latency_ns g * (real (active_hosts g) - 1) / 4"
proof -
  obtain h where h: "map_of (gfam_hosts g) i = Some h" "host_active h"
    using assms(2) by (auto simp: host_registered_def split: option.splits)
  then have mem: "(i, h) \<in> set (gfam_hosts g)" by (simp add: map_of_SomeD)
  have share: "host_bandwidth_share h = 1 / real (active_hosts g)"
    using assms(1) mem h(2) by (auto simp: gfam_inv_def shares_even_def)
  have "(i, h) \<in> set (filter (\<lambda>(i, h). host_active h) (gfam_hosts g))" using mem h(2) by simp
  then have pos: "0 < active_hosts g" unfolding active_hosts_def by (metis length_pos_if_in_set)
  then show ?thesis
    using assms(3) by (cases "active_hosts g = 1")
      (simp_all add: calculate_access_latency_def Let_def h(1) share field_simps)
qed

lemma access_latency_shared_witness:
  "calculate_access_latency example_gfam 1 64 = 100 + 2 * (512 / 32) + 100 / 4"
proof -
  have "gfam_inv example_gfam" unfolding example_gfam_def by (intro gfam_run_inv gfam_inv_new)
  moreover have "host_registered example_gfam 1" "active_hosts example_gfam = 2"
    "gfam_bandwidth_gbps example_gfam = 32" "gfam_fabric_latency_ns example_gfam = 100"
    by (simp_all add: example_gfam_def new_GFAM_def register_host_def rebalance_bandwidth_locked_def
        Let_def count_active_def active_hosts_def grant_access_def host_registered_def new_host_def
        max_def)
  ultimately show ?thesis
    using access_latency_shared [of example_gfam 1 64] by (simp add: double_of_u64_def)
qed

end
