(* ===== verification/LogP.thy ===== *)
theory LogP
  imports Prelude
begin

text \<open>
  The LogP message model of \<open>include/cxlendpoint.h\<close> (\<open>LogPConfig\<close>, \<open>LogPQueueState\<close>,
  \<open>LogPModel\<close>): latency, overheads and gap of point-to-point messages, a per-destination
  gap between sends and an M/D/1 estimate of the queueing delay. \<open>double\<close> is modelled by the
  reals, times are 64-bit words. The methods hold the model's mutex and are single steps;
  the hash map of queues is only looked up and updated, a map.
\<close>

record LogPConfig =
  lp_L :: double
  lp_o_s :: double
  lp_o_r :: double
  lp_g :: double
  lp_P :: u32

record LogPQueueState =
  q_arrival_rate :: double
  q_service_rate :: double
  q_queue_occupancy :: double
  q_total_messages :: u64
  q_total_wait_ns :: u64
  q_last_send_time :: u64
  q_last_recv_time :: u64

definition new_queue :: LogPQueueState where
  "new_queue = \<lparr>q_arrival_rate = 0, q_service_rate = 0, q_queue_occupancy = 0,
                q_total_messages = 0, q_total_wait_ns = 0, q_last_send_time = 0,
                q_last_recv_time = 0\<rparr>"

record LogPModel =
  lp_config :: LogPConfig
  lp_state :: LogPQueueState
  lp_node_queues :: "u32 \<rightharpoonup> LogPQueueState"

definition default_LogPConfig :: LogPConfig where
  "default_LogPConfig = \<lparr>lp_L = 150, lp_o_s = 20, lp_o_r = 20, lp_g = 4, lp_P = 2\<rparr>"

definition new_LogPModel :: "LogPConfig \<Rightarrow> LogPModel" where
  "new_LogPModel cfg = \<lparr>lp_config = cfg, lp_state = new_queue\<lparr>q_service_rate := 1 / lp_g cfg\<rparr>,
                        lp_node_queues = Map.empty\<rparr>"

definition reconfigure :: "LogPConfig \<Rightarrow> LogPModel \<Rightarrow> LogPModel" where
  "reconfigure cfg m = m\<lparr>lp_config := cfg, lp_state := (lp_state m)\<lparr>q_service_rate := 1 / lp_g cfg\<rparr>,
                         lp_node_queues := Map.empty\<rparr>"

definition p2p_latency :: "LogPModel \<Rightarrow> double" where
  "p2p_latency m = lp_o_s (lp_config m) + lp_L (lp_config m) + lp_o_r (lp_config m)"

text \<open>\<open>node_queues[dst]\<close>, which creates a default queue for a new destination.\<close>

definition node_queue :: "LogPModel \<Rightarrow> u32 \<Rightarrow> LogPQueueState" where
  "node_queue m dst = (case lp_node_queues m dst of Some q \<Rightarrow> q | None \<Rightarrow> new_queue)"

definition send_gap_wait :: "LogPModel \<Rightarrow> u64 \<Rightarrow> u32 \<Rightarrow> double" where
  "send_gap_wait m current_time dst =
     (let q = node_queue m dst; next_slot = double_of_u64 (q_last_send_time q) + lp_g (lp_config m) in
      if 0 < q_last_send_time q \<and> double_of_u64 current_time < next_slot
      then next_slot - double_of_u64 current_time else 0)"

definition send_delay :: "u64 \<Rightarrow> u32 \<Rightarrow> LogPModel \<Rightarrow> double \<times> LogPModel" where
  "send_delay current_time dst m =
     (let q = node_queue m dst;
          gap_wait = send_gap_wait m current_time dst;
          sent = u64_of_double (double_of_u64 current_time + gap_wait + lp_o_s (lp_config m)) in
      (gap_wait + lp_o_s (lp_config m),
       m\<lparr>lp_node_queues := (lp_node_queues m)(dst \<mapsto> q\<lparr>q_last_send_time := sent\<rparr>)\<rparr>))"

definition queue_wait_time :: "LogPModel \<Rightarrow> u32 \<Rightarrow> double" where
  "queue_wait_time m dst =
     (case lp_node_queues m dst of
        None \<Rightarrow> 0
      | Some q \<Rightarrow>
          let rho = (if 1 \<le> q_queue_occupancy q then 99/100 else q_queue_occupancy q) in
          if rho < 1/100 then 0 else rho / (2 * q_service_rate (lp_state m) * (1 - rho)))"

definition message_latency :: "u64 \<Rightarrow> u32 \<Rightarrow> LogPModel \<Rightarrow> double \<times> LogPModel" where
  "message_latency current_time dst m =
     (let (s_delay, m') = send_delay current_time dst m; q_wait = queue_wait_time m' dst in
      (s_delay + lp_L (lp_config m') + q_wait + lp_o_r (lp_config m'), m'))"

definition update_arrival_rate :: "u32 \<Rightarrow> u64 \<Rightarrow> u64 \<Rightarrow> LogPModel \<Rightarrow> LogPModel" where
  "update_arrival_rate dst window_ns message_count m =
     (let q = node_queue m dst;
          rate = double_of_u64 message_count / double_of_u64 window_ns in
      m\<lparr>lp_node_queues := (lp_node_queues m)(dst \<mapsto>
          q\<lparr>q_arrival_rate := rate,
            q_queue_occupancy := rate / q_service_rate (lp_state m),
            q_total_messages := q_total_messages q + message_count\<rparr>)\<rparr>)"

definition record_message :: "u32 \<Rightarrow> u64 \<Rightarrow> LogPModel \<Rightarrow> LogPModel" where
  "record_message dst latency_ns m =
     (let q = node_queue m dst in
      m\<lparr>lp_node_queues := (lp_node_queues m)(dst \<mapsto>
          q\<lparr>q_total_messages := q_total_messages q + 1,
            q_total_wait_ns := q_total_wait_ns q + latency_ns\<rparr>)\<rparr>)"

definition broadcast_latency :: "LogPModel \<Rightarrow> double" where
  "broadcast_latency m =
     (if lp_P (lp_config m) \<le> 1 then 0
      else real_of_int \<lceil>log 2 (real (unat (lp_P (lp_config m))))\<rceil> * p2p_latency m)"

definition barrier_latency :: "LogPModel \<Rightarrow> double" where
  "barrier_latency m = 2 * broadcast_latency m"

definition avg_latency :: "LogPModel \<Rightarrow> u32 \<Rightarrow> double" where
  "avg_latency m dst =
     (case lp_node_queues m dst of
        None \<Rightarrow> p2p_latency m
      | Some q \<Rightarrow> if q_total_messages q = 0 then p2p_latency m
                   else double_of_u64 (q_total_wait_ns q) / double_of_u64 (q_total_messages q))"


section \<open>Bounds on message latency\<close>

text \<open>
  A configuration with non-negative latencies and a positive gap, and a model whose service
  rate is the one the constructor and \<open>reconfigure\<close> set.
\<close>

definition wf_config :: "LogPConfig \<Rightarrow> bool" where
  "wf_config c \<longleftrightarrow> 0 \<le> lp_L c \<and> 0 \<le> lp_o_s c \<and> 0 \<le> lp_o_r c \<and> 0 < lp_g c"

definition logp_inv :: "LogPModel \<Rightarrow> bool" where
  "logp_inv m \<longleftrightarrow> wf_config (lp_config m) \<and> q_service_rate (lp_state m) = 1 / lp_g (lp_config m)"

lemma new_LogPModel_inv: "wf_config c \<Longrightarrow> logp_inv (new_LogPModel c)"
  by (simp add: logp_inv_def new_LogPModel_def)

lemma logp_ops_inv:
  "wf_config c \<Longrightarrow> logp_inv (reconfigure c m)"
  "logp_inv m \<Longrightarrow> logp_inv (snd (send_delay t dst m))"
  "logp_inv m \<Longrightarrow> logp_inv (snd (message_latency t dst m))"
  "logp_inv m \<Longrightarrow> logp_inv (update_arrival_rate dst w n m)"
  "logp_inv m \<Longrightarrow> logp_inv (record_message dst l m)"
  by (simp_all add: logp_inv_def reconfigure_def send_delay_def message_latency_def update_arrival_rate_def
      record_message_def Let_def)

lemma md1_bound:
  fixes rho g :: real
  assumes "0 \<le> rho" and "rho \<le> 99/100" and "0 < g"
  shows "rho / (2 * (1 / g) * (1 - rho)) \<le> 99 / 2 * g"
proof -
  have "rho * 1 \<le> 99 * (1 - rho)" using assms by simp
  then have "rho / (1 - rho) \<le> 99" using assms by (simp add: divide_le_eq)
  then have "rho / (1 - rho) * (g / 2) \<le> 99 * (g / 2)"
    using assms(3) by (intro mult_right_mono) simp_all
  then show ?thesis by (simp add: field_simps)
qed

text \<open>
  The cap replaces occupancies from 1 on by 0.99; between 0.99 and 1 the estimate is
  uncapped, so the upper bound excludes that band.
\<close>

definition occupancy_capped :: "LogPModel \<Rightarrow> u32 \<Rightarrow> bool" where
  "occupancy_capped m dst \<longleftrightarrow>
     q_queue_occupancy (node_queue m dst) \<le> 99/100 \<or> 1 \<le> q_queue_occupancy (node_queue m dst)"

lemma queue_wait_time_eq:
  fixes m :: LogPModel and dst :: u32
  assumes "logp_inv m"
  defines "x \<equiv> q_queue_occupancy (node_queue m dst)"
  defines "rho \<equiv> if 1 \<le> x then 99/100 else x"
  shows "queue_wait_time m dst =
           (if rho < 1/100 then 0 else rho / (2 * (1 / lp_g (lp_config m)) * (1 - rho)))"
  using assms(1)
  by (auto simp: queue_wait_time_def rho_def x_def node_queue_def Let_def logp_inv_def new_queue_def
      split: option.split)

lemma queue_wait_time_nonneg: "logp_inv m \<Longrightarrow> 0 \<le> queue_wait_time m dst"
  by (simp add: queue_wait_time_eq) (auto simp: logp_inv_def wf_config_def intro!: divide_nonneg_nonneg)

lemma queue_wait_time_le:
  assumes "logp_inv m" and "occupancy_capped m dst"
  shows "queue_wait_time m dst \<le> 99 / 2 * lp_g (lp_config m)"
proof -
  have "0 < lp_g (lp_config m)" using assms(1) by (simp add: logp_inv_def wf_config_def)
  then show ?thesis
    using assms(2) md1_bound [of "99/100" "lp_g (lp_config m)"]
      md1_bound [of "q_queue_occupancy (node_queue m dst)" "lp_g (lp_config m)"]
    by (auto simp: queue_wait_time_eq [OF assms(1)] occupancy_capped_def)
qed

lemma send_gap_wait_nonneg: "0 \<le> send_gap_wait m t dst"
  by (simp add: send_gap_wait_def Let_def)

lemma node_queue_send:
  "node_queue (snd (send_delay t dst m)) d =
     (if d = dst
      then (node_queue m dst)\<lparr>q_last_send_time :=
              u64_of_double (double_of_u64 t + send_gap_wait m t dst + lp_o_s (lp_config m))\<rparr>
      else node_queue m d)"
  by (simp add: send_delay_def Let_def node_queue_def)

lemma send_delay_simps [simp]:
  "fst (send_delay t dst m) = send_gap_wait m t dst + lp_o_s (lp_config m)"
  "lp_config (snd (send_delay t dst m)) = lp_config m"
  by (simp_all add: send_delay_def Let_def)

lemma message_latency_eq:
  "fst (message_latency t dst m) =
     p2p_latency m + send_gap_wait m t dst + queue_wait_time (snd (send_delay t dst m)) dst"
  by (simp add: message_latency_def p2p_latency_def Let_def case_prod_unfold)

lemma occupancy_capped_send: "occupancy_capped (snd (send_delay t dst m)) d = occupancy_capped m d"
  by (simp add: occupancy_capped_def node_queue_send)



text \<open>
  The cap on the occupancy, meant to prevent unbounded waits, makes the estimate drop as
  load grows: a queue at occupancy 1 or more waits 49.5 gaps, one just below 1 (here 0.999)
  waits ten times as long. More traffic is predicted to wait less.
\<close>

lemma queue_wait_not_monotone:
  assumes "logp_inv m"
    and "q_queue_occupancy (node_queue m a) = 999/1000" and "1 \<le> q_queue_occupancy (node_queue m b)"
  shows "10 * queue_wait_time m b < queue_wait_time m a"
proof -
  have "0 < lp_g (lp_config m)" using assms(1) by (simp add: logp_inv_def wf_config_def)
  moreover have "queue_wait_time m a = 999 / 2 * lp_g (lp_config m)"
    unfolding queue_wait_time_eq [OF assms(1)] assms(2) by simp
  moreover have "queue_wait_time m b = 99 / 2 * lp_g (lp_config m)"
    using assms(3) unfolding queue_wait_time_eq [OF assms(1)] by simp
  ultimately show ?thesis by simp
qed

lemma queue_wait_not_monotone_witness:
  "10 * queue_wait_time (update_arrival_rate 2 1000 1000 (update_arrival_rate 1 4000 999
          (new_LogPModel default_LogPConfig))) 2
     < queue_wait_time (update_arrival_rate 2 1000 1000 (update_arrival_rate 1 4000 999
          (new_LogPModel default_LogPConfig))) 1"
  by (rule queue_wait_not_monotone)
     (auto intro!: logp_ops_inv new_LogPModel_inv simp: wf_config_def default_LogPConfig_def
      update_arrival_rate_def new_LogPModel_def node_queue_def new_queue_def Let_def double_of_u64_def
      logp_inv_def)


section \<open>The gap between sends\<close>

text \<open>
  The gap is enforced per destination. After a send to a destination at time \<open>t1\<close>, and any
  sends to other destinations in between, the next send to it at \<open>t2\<close> completes no earlier
  than the recorded completion of the first plus the gap plus the send overhead, however close
  the two requests are; the recorded completion is the first's completion time rounded down to
  a nanosecond (for completion times of at least 1 ns that fit in 64 bits).
\<close>

lemma send_gap_enforced:
  assumes "logp_inv m" and "dst \<notin> snd ` set others"
    and "m1 = snd (send_delay t1 dst m)"
    and "m2 = fold (\<lambda>(t, d) m. snd (send_delay t d m)) others m1"
    and "e1 = double_of_u64 t1 + fst (send_delay t1 dst m)"
    and "1 \<le> e1" and "e1 < 18446744073709551616"
  shows "double_of_u64 t2 + fst (send_delay t2 dst m2)
           \<ge> real_of_int \<lfloor>e1\<rfloor> + lp_g (lp_config m) + lp_o_s (lp_config m)"
proof -
  have "node_queue (fold (\<lambda>(t, d) m. snd (send_delay t d m)) xs m1) dst = node_queue m1 dst \<and>
        lp_config (fold (\<lambda>(t, d) m. snd (send_delay t d m)) xs m1) = lp_config m1"
    if "dst \<notin> snd ` set xs" for xs m1
    using that by (induction xs arbitrary: m1) (auto simp: node_queue_send)
  then have keep: "node_queue m2 dst = node_queue m1 dst" "lp_config m2 = lp_config m"
    using assms(2-4) by auto
  have "unat (u64_of_double e1) = nat \<lfloor>e1\<rfloor>" using assms(6,7) by (intro unat_u64_of_double) auto
  moreover have last: "q_last_send_time (node_queue m2 dst) = u64_of_double e1"
    using keep(1) assms(3,5) by (simp add: node_queue_send add.assoc)
  moreover have fl: "1 \<le> \<lfloor>e1\<rfloor>" using assms(6) by simp
  ultimately have "double_of_u64 (q_last_send_time (node_queue m2 dst)) = real_of_int \<lfloor>e1\<rfloor>"
    "0 < q_last_send_time (node_queue m2 dst)"
    by (simp_all add: double_of_u64_def word_less_nat_alt)
  then show ?thesis by (simp add: send_gap_wait_def Let_def keep(2))
qed

lemma send_gap_enforced_witness:
  "double_of_u64 1000 + fst (send_delay 1000 1
       (snd (send_delay 1000 2 (snd (send_delay 1000 1 (new_LogPModel default_LogPConfig)))))) \<ge> 1044"
proof -
  have "logp_inv (new_LogPModel default_LogPConfig)"
    by (intro new_LogPModel_inv) (simp add: wf_config_def default_LogPConfig_def)
  note send_gap_enforced [OF this _ refl refl refl, of 1 "[(1000, 2)]" 1000 1000]
  then show ?thesis
    by (simp add: send_gap_wait_def node_queue_def new_LogPModel_def new_queue_def Let_def
        default_LogPConfig_def double_of_u64_def)
qed

end
