(* ===== verification/Fabric_Link.thy ===== *)
theory Fabric_Link
  imports Prelude
begin

text \<open>
  The fabric link of \<open>include/cxlendpoint.h\<close> and \<open>src/cxlendpoint.cpp\<close> (\<open>FabricLink\<close>):
  latency, serialization and a congestion delay that grows as flow-control credits are used
  up. Credits are an atomic counter that threads take with a compare-and-swap loop and give
  back with a load followed by an increment; the second half of the theory models that code
  at the granularity of its atomic accesses, with any interleaving of threads.
\<close>

record FabricLinkConfig =
  fl_latency_ns :: double
  fl_bandwidth_gbps :: double
  fl_max_credits :: u64

record FabricLink =
  fl_config :: FabricLinkConfig
  fl_src_node :: u32
  fl_dst_node :: u32
  fl_available_credits :: u64
  fl_in_flight_flits :: u64
  fl_last_flit_time :: u64

definition new_FabricLink :: "u32 \<Rightarrow> u32 \<Rightarrow> FabricLinkConfig \<Rightarrow> FabricLink" where
  "new_FabricLink src dst cfg =
     \<lparr>fl_config = cfg, fl_src_node = src, fl_dst_node = dst,
      fl_available_credits = fl_max_credits cfg, fl_in_flight_flits = 0, fl_last_flit_time = 0\<rparr>"

definition link_utilization :: "FabricLink \<Rightarrow> double" where
  "link_utilization l =
     1 - double_of_u64 (fl_available_credits l) / double_of_u64 (fl_max_credits (fl_config l))"

definition get_congestion_delay :: "FabricLink \<Rightarrow> double" where
  "get_congestion_delay l =
     (let utilization = link_utilization l in
      if utilization < 1/2 then 0
      else if utilization < 8/10 then (utilization - 1/2) / (3/10) * 20
      else 20 + (utilization - 8/10) / (2/10) * 80)"

definition get_utilization :: "FabricLink \<Rightarrow> u64 \<Rightarrow> double" where
  "get_utilization l window_ns = link_utilization l"

definition calculate_traversal_latency :: "u64 \<Rightarrow> u64 \<Rightarrow> FabricLink \<Rightarrow> double \<times> FabricLink" where
  "calculate_traversal_latency timestamp data_size l =
     (let serialization_ns = double_of_u64 data_size
            / (fl_bandwidth_gbps (fl_config l) * 1000000000) * 1000000000;
          latency = fl_latency_ns (fl_config l) + serialization_ns + get_congestion_delay l in
      (latency, l\<lparr>fl_last_flit_time := timestamp, fl_in_flight_flits := fl_in_flight_flits l + 1\<rparr>))"

text \<open>The credit operations when no other thread runs in between.\<close>

definition acquire_credit :: "FabricLink \<Rightarrow> bool \<times> FabricLink" where
  "acquire_credit l =
     (if 0 < fl_available_credits l
      then (True, l\<lparr>fl_available_credits := fl_available_credits l - 1\<rparr>) else (False, l))"

definition release_credit :: "FabricLink \<Rightarrow> FabricLink" where
  "release_credit l =
     (if fl_available_credits l < fl_max_credits (fl_config l)
      then l\<lparr>fl_available_credits := fl_available_credits l + 1\<rparr> else l)"


section \<open>Latency bounds\<close>

definition wf_link :: "FabricLink \<Rightarrow> bool" where
  "wf_link l \<longleftrightarrow> 0 < fl_max_credits (fl_config l) \<and>
     fl_available_credits l \<le> fl_max_credits (fl_config l) \<and>
     0 < fl_bandwidth_gbps (fl_config l)"

lemma link_utilization_bounds:
  assumes "wf_link l"
  shows "0 \<le> link_utilization l" and "link_utilization l \<le> 1"
proof -
  have "0 < double_of_u64 (fl_max_credits (fl_config l))" using assms by (simp add: wf_link_def)
  then show "0 \<le> link_utilization l"
    using assms by (simp add: wf_link_def link_utilization_def double_of_u64_le_iff)
  show "link_utilization l \<le> 1" by (simp add: link_utilization_def)
qed

definition congestion_of :: "double \<Rightarrow> double" where
  "congestion_of u = (if u < 1/2 then 0 else if u < 8/10 then (u - 1/2) / (3/10) * 20
                      else 20 + (u - 8/10) / (2/10) * 80)"

lemma get_congestion_delay_eq: "get_congestion_delay l = congestion_of (link_utilization l)"
  by (simp add: get_congestion_delay_def congestion_of_def Let_def)

lemma congestion_of_mono: "u \<le> v \<Longrightarrow> congestion_of u \<le> congestion_of v"
  by (auto simp: congestion_of_def field_simps)

lemma congestion_of_bounds: "u \<le> 1 \<Longrightarrow> 0 \<le> congestion_of u \<and> congestion_of u \<le> 100"
  by (auto simp: congestion_of_def field_simps)

text \<open>
  The congestion delay of a link lies between 0 and 100 ns, is 0 while more than half
  of the credits are free and 100 when none is, and never decreases when a credit is taken;
  the traversal latency exceeds the link latency plus the serialization time by exactly it.
\<close>

lemma fabric_latency_bounds:
  assumes "wf_link l"
  shows "fst (calculate_traversal_latency t n l) =
           fl_latency_ns (fl_config l) + double_of_u64 n / fl_bandwidth_gbps (fl_config l)
           + get_congestion_delay l \<and>
         0 \<le> get_congestion_delay l \<and> get_congestion_delay l \<le> 100 \<and>
         (fl_available_credits l = 0 \<longrightarrow> get_congestion_delay l = 100) \<and>
         (2 * unat (fl_available_credits l) > unat (fl_max_credits (fl_config l)) \<longrightarrow>
            get_congestion_delay l = 0) \<and>
         get_congestion_delay l \<le> get_congestion_delay (snd (acquire_credit l))"
proof -
  let ?a = "fl_available_credits l" and ?m = "fl_max_credits (fl_config l)"
  have m: "0 < double_of_u64 ?m" using assms by (simp add: wf_link_def)
  have full: "?a = 0 \<Longrightarrow> link_utilization l = 1" by (simp add: link_utilization_def)
  have half: "link_utilization l < 1/2" if "2 * unat ?a > unat ?m"
  proof -
    have "double_of_u64 ?m < 2 * double_of_u64 ?a" using that by (simp add: double_of_u64_def)
    then show ?thesis using m by (simp add: link_utilization_def field_simps)
  qed
  have "link_utilization l \<le> link_utilization (snd (acquire_credit l))"
  proof (cases "0 < ?a")
    case True
    then have "double_of_u64 (?a - 1) \<le> double_of_u64 ?a"
      by (simp add: double_of_u64_def unat_diff_word word_le_nat_alt word_less_nat_alt)
    then show ?thesis using m True by (simp add: acquire_credit_def link_utilization_def divide_right_mono)
  qed (simp add: acquire_credit_def)
  then have "get_congestion_delay l \<le> get_congestion_delay (snd (acquire_credit l))"
    unfolding get_congestion_delay_eq by (rule congestion_of_mono)
  moreover have "?a = 0 \<longrightarrow> get_congestion_delay l = 100"
    using full by (simp add: get_congestion_delay_eq congestion_of_def)
  moreover have "2 * unat ?a > unat ?m \<longrightarrow> get_congestion_delay l = 0"
    using half by (simp add: get_congestion_delay_eq congestion_of_def)
  moreover have "0 \<le> get_congestion_delay l \<and> get_congestion_delay l \<le> 100"
    unfolding get_congestion_delay_eq using link_utilization_bounds [OF assms] by (intro congestion_of_bounds)
  moreover have "fst (calculate_traversal_latency t n l) =
           fl_latency_ns (fl_config l) + double_of_u64 n / fl_bandwidth_gbps (fl_config l)
           + get_congestion_delay l"
    by (simp add: calculate_traversal_latency_def Let_def)
  ultimately show ?thesis by blast
qed

lemma fabric_latency_bounds_witness:
  "get_congestion_delay (new_FabricLink 0 1 \<lparr>fl_latency_ns = 70, fl_bandwidth_gbps = 32, fl_max_credits = 32\<rparr>) = 0"
  using fabric_latency_bounds [of "new_FabricLink 0 1 \<lparr>fl_latency_ns = 70, fl_bandwidth_gbps = 32, fl_max_credits = 32\<rparr>" 0 64]
  by (simp add: new_FabricLink_def wf_link_def)


section \<open>Credits under interleaving\<close>

text \<open>
  Where a thread is inside the credit operations: outside, in the loop of \<open>acquire_credit\<close> with
  the value \<open>current\<close> it last loaded, or in \<open>release_credit\<close> after its load. \<open>cs_held\<close> counts
  the credits clients have acquired and not yet offered for release; it is not program state.
\<close>

datatype CreditPC = Idle | Acquiring u64 | Releasing u64

record CreditSys =
  cs_credits :: u64
  cs_pc :: "nat \<Rightarrow> CreditPC"
  cs_held :: nat

text \<open>
  One atomic access of one thread. A failing compare-exchange (also a spurious failure of the
  weak form) reloads \<open>current\<close>. With \<open>owned\<close> set, a client calls \<open>release_credit\<close> only for a
  credit it holds.
\<close>

inductive credit_step :: "u64 \<Rightarrow> bool \<Rightarrow> CreditSys \<Rightarrow> CreditSys \<Rightarrow> bool"
  for max_credits :: u64 and owned :: bool where
  acq_load: "cs_pc s t = Idle \<Longrightarrow>
     credit_step max_credits owned s (s\<lparr>cs_pc := (cs_pc s)(t := Acquiring (cs_credits s))\<rparr>)"
| acq_fail: "cs_pc s t = Acquiring 0 \<Longrightarrow>
     credit_step max_credits owned s (s\<lparr>cs_pc := (cs_pc s)(t := Idle)\<rparr>)"
| acq_retry: "cs_pc s t = Acquiring n \<Longrightarrow> 0 < n \<Longrightarrow>
     credit_step max_credits owned s (s\<lparr>cs_pc := (cs_pc s)(t := Acquiring (cs_credits s))\<rparr>)"
| acq_swap: "cs_pc s t = Acquiring n \<Longrightarrow> 0 < n \<Longrightarrow> cs_credits s = n \<Longrightarrow>
     credit_step max_credits owned s
       (s\<lparr>cs_credits := n - 1, cs_pc := (cs_pc s)(t := Idle), cs_held := cs_held s + 1\<rparr>)"
| rel_load: "cs_pc s t = Idle \<Longrightarrow> (owned \<longrightarrow> 0 < cs_held s) \<Longrightarrow>
     credit_step max_credits owned s
       (s\<lparr>cs_pc := (cs_pc s)(t := Releasing (cs_credits s)), cs_held := cs_held s - 1\<rparr>)"
| rel_add: "cs_pc s t = Releasing n \<Longrightarrow> n < max_credits \<Longrightarrow>
     credit_step max_credits owned s
       (s\<lparr>cs_credits := cs_credits s + 1, cs_pc := (cs_pc s)(t := Idle)\<rparr>)"
| rel_full: "cs_pc s t = Releasing n \<Longrightarrow> \<not> n < max_credits \<Longrightarrow>
     credit_step max_credits owned s (s\<lparr>cs_pc := (cs_pc s)(t := Idle)\<rparr>)"

definition credit_init :: "u64 \<Rightarrow> CreditSys" where
  "credit_init max_credits = \<lparr>cs_credits = max_credits, cs_pc = (\<lambda>_. Idle), cs_held = 0\<rparr>"

abbreviation credit_reachable :: "u64 \<Rightarrow> bool \<Rightarrow> CreditSys \<Rightarrow> bool" where
  "credit_reachable max_credits owned s \<equiv> (credit_step max_credits owned)\<^sup>*\<^sup>* (credit_init max_credits) s"

definition releasing :: "(nat \<Rightarrow> CreditPC) \<Rightarrow> nat set" where
  "releasing pc = {t. \<exists>n. pc t = Releasing n}"

text \<open>Every credit is free, held, or on its way back through a release that will add it.\<close>

definition credits_conserved :: "u64 \<Rightarrow> CreditSys \<Rightarrow> bool" where
  "credits_conserved max_credits s \<longleftrightarrow>
     finite (releasing (cs_pc s)) \<and>
     unat (cs_credits s) + cs_held s + card (releasing (cs_pc s)) = unat max_credits \<and>
     (\<forall>t n. cs_pc s t = Releasing n \<longrightarrow> n < max_credits)"

lemma releasing_upd [simp]:
  "releasing (pc(t := Idle)) = releasing pc - {t}"
  "releasing (pc(t := Acquiring n)) = releasing pc - {t}"
  "releasing (pc(t := Releasing n)) = insert t (releasing pc)"
  by (auto simp: releasing_def)

lemma releasing_out: "pc t = Idle \<or> pc t = Acquiring n \<Longrightarrow> t \<notin> releasing pc"
  by (auto simp: releasing_def)

lemma credit_step_conserved:
  assumes "credit_step max_credits True s s'" and "credits_conserved max_credits s"
  shows "credits_conserved max_credits s'"
  using assms(1)
proof cases
  case (acq_swap t n)
  then have "unat (n - 1) = unat n - 1" "0 < unat n"
    by (simp_all add: unat_pred unat_gt_0)
  then show ?thesis using acq_swap assms(2) releasing_out [of "cs_pc s" t n]
    by (simp add: credits_conserved_def)
next
  case (rel_load t)
  then have "unat (cs_credits s) < unat max_credits" using assms(2) by (simp add: credits_conserved_def)
  then show ?thesis using rel_load assms(2) releasing_out [of "cs_pc s" t]
    by (simp add: credits_conserved_def word_less_nat_alt)
next
  case (rel_add t n)
  then have t: "t \<in> releasing (cs_pc s)" by (simp add: releasing_def)
  have fin: "finite (releasing (cs_pc s))"
    and sum: "unat (cs_credits s) + cs_held s + card (releasing (cs_pc s)) = unat max_credits"
    using assms(2) by (simp_all add: credits_conserved_def)
  have card: "card (releasing (cs_pc s)) = Suc (card (releasing (cs_pc s) - {t}))"
    using card.remove [OF fin t] .
  then have "unat (cs_credits s) + unat (1 :: u64) \<le> unat max_credits" using sum by simp
  then have "unat (cs_credits s + 1) = Suc (unat (cs_credits s))"
    by (subst unat_add_u64) (auto dest: le_unat_u64_lt)
  then show ?thesis using rel_add assms(2) card by (simp add: credits_conserved_def)
next
  case (acq_load t)
  then show ?thesis using assms(2) releasing_out [of "cs_pc s" t] by (simp add: credits_conserved_def)
next
  case (acq_fail t)
  then show ?thesis using assms(2) releasing_out [of "cs_pc s" t] by (simp add: credits_conserved_def)
next
  case (acq_retry t n)
  then show ?thesis using assms(2) releasing_out [of "cs_pc s" t] by (simp add: credits_conserved_def)
next
  case (rel_full t n)
  then show ?thesis using assms(2) by (auto simp: credits_conserved_def)
qed


lemma all_idle [simp]: "(\<lambda>_. Idle)(t := Idle) = (\<lambda>_. Idle)"
  by auto

lemma example_acquire:
  "credit_reachable 2 True \<lparr>cs_credits = 1, cs_pc = (\<lambda>_. Idle), cs_held = 1\<rparr>"
proof -
  let ?s1 = "\<lparr>cs_credits = 2, cs_pc = (\<lambda>_. Idle)(0 := Acquiring 2), cs_held = 0\<rparr>"
  have "credit_step 2 True (credit_init 2) ?s1"
    using credit_step.acq_load [of "credit_init 2" 0 2 True] by (simp add: credit_init_def)
  moreover have "credit_step 2 True ?s1 \<lparr>cs_credits = 1, cs_pc = (\<lambda>_. Idle), cs_held = 1\<rparr>"
    using credit_step.acq_swap [of ?s1 0 2 2 True] by simp
  ultimately show ?thesis by simp
qed


text \<open>
  The bound that \<open>release_credit\<close> tests is not enforced: its load and its increment are
  separate, so two releases that race can both see a free slot. From a link with two credits,
  one of them taken, two concurrent releases leave three credits available.
\<close>

lemma release_race_exceeds_max:
  "\<exists>s. credit_reachable 2 False s \<and> 2 < cs_credits s"
proof -
  let ?s0 = "\<lparr>cs_credits = 2, cs_pc = (\<lambda>_. Idle)(0 := Acquiring 2), cs_held = 0\<rparr>"
  let ?s1 = "\<lparr>cs_credits = 1, cs_pc = (\<lambda>_. Idle), cs_held = 1\<rparr>"
  let ?s2 = "\<lparr>cs_credits = 1, cs_pc = (\<lambda>_. Idle)(0 := Releasing 1), cs_held = 0\<rparr>"
  let ?s3 = "\<lparr>cs_credits = 1, cs_pc = (\<lambda>_. Idle)(0 := Releasing 1, 1 := Releasing 1), cs_held = 0\<rparr>"
  let ?s4 = "\<lparr>cs_credits = 2, cs_pc = (\<lambda>_. Idle)(1 := Releasing 1), cs_held = 0\<rparr>"
  let ?s5 = "\<lparr>cs_credits = 3, cs_pc = (\<lambda>_. Idle), cs_held = 0\<rparr>"
  have "credit_step 2 False (credit_init 2) ?s0"
    using credit_step.acq_load [of "credit_init 2" 0 2 False] by (simp add: credit_init_def)
  moreover have "credit_step 2 False ?s0 ?s1" using credit_step.acq_swap [of ?s0 0 2 2 False] by simp
  moreover have "credit_step 2 False ?s1 ?s2" using credit_step.rel_load [of ?s1 0 False 2] by simp
  moreover have "credit_step 2 False ?s2 ?s3" using credit_step.rel_load [of ?s2 1 False 2] by simp
  moreover have "credit_step 2 False ?s3 ?s4"
    using credit_step.rel_add [of ?s3 0 1 2 False] by (simp add: fun_upd_idem)
  moreover have "credit_step 2 False ?s4 ?s5" using credit_step.rel_add [of ?s4 1 1 2 False] by simp
  ultimately have "credit_reachable 2 False ?s5"
    by (meson converse_rtranclp_into_rtranclp rtranclp.rtrancl_refl)
  then show ?thesis by (intro exI [of _ ?s5]) simp
qed

end
