(* ===== verification/MOESI.thy ===== *)
theory MOESI
  imports Prelude
begin

text \<open>
  The cache states of \<open>MHSLDCacheState\<close> (\<open>include/cxlendpoint.h\<close>) and the abstract protocol
  that the two directories of the program implement: the coherency engine (per node) and the
  multi-headed device (per head). A directory entry stores one state, one owner and a set of
  sharers; the protocol is about the state each agent has of the line. Both directories are
  interpretations of the locale below.
\<close>

datatype MHSLDCacheState = INVALID | SHARED | EXCLUSIVE | MODIFIED | OWNED

text \<open>
  The state of a head (host port), shared by the engine and the device: a head starts
  inactive and without bandwidth. A head contends when it is active and has recorded accesses.
\<close>

record MHSLDHeadState =
  hd_head_id :: u32
  hd_allocated_capacity :: u64
  hd_used_capacity :: u64
  hd_bandwidth_share :: double
  hd_total_reads :: u64
  hd_total_writes :: u64
  hd_coherency_stalls :: u64
  hd_back_invalidations :: u64
  hd_active :: bool

definition new_head :: "u32 \<Rightarrow> MHSLDHeadState" where
  "new_head i =
     \<lparr>hd_head_id = i, hd_allocated_capacity = 0, hd_used_capacity = 0, hd_bandwidth_share = 0,
      hd_total_reads = 0, hd_total_writes = 0, hd_coherency_stalls = 0,
      hd_back_invalidations = 0, hd_active = False\<rparr>"

definition contending_heads :: "MHSLDHeadState list \<Rightarrow> u32" where
  "contending_heads hs =
     foldl (\<lambda>n h. if hd_active h \<and> 0 < hd_total_reads h + hd_total_writes h then n + 1 else n) 0 hs"

type_synonym line_view = "u32 \<Rightarrow> MHSLDCacheState"

text \<open>
  The protocol on agents' states. A read gives the reader a copy, if it had none, and takes
  write permission from the others (a dirty line stays with its owner, a clean exclusive one
  becomes shared). A write leaves the writer as the only agent with a copy.
\<close>

definition spec_read :: "u32 \<Rightarrow> line_view \<Rightarrow> line_view" where
  "spec_read n f =
     (if f n \<noteq> INVALID then f
      else (\<lambda>k. if k = n then SHARED
                else case f k of MODIFIED \<Rightarrow> OWNED | EXCLUSIVE \<Rightarrow> SHARED | s \<Rightarrow> s))"

definition spec_write :: "u32 \<Rightarrow> line_view \<Rightarrow> line_view" where
  "spec_write n f = (\<lambda>k. if k = n then MODIFIED else INVALID)"

text \<open>Single writer: an agent that may write is alone. At most one agent holds dirty data.\<close>

definition coherent :: "line_view \<Rightarrow> bool" where
  "coherent f \<longleftrightarrow>
     (\<forall>n k. f n \<in> {EXCLUSIVE, MODIFIED} \<longrightarrow> k \<noteq> n \<longrightarrow> f k = INVALID) \<and>
     (\<forall>n k. f n = OWNED \<longrightarrow> k \<noteq> n \<longrightarrow> f k \<in> {INVALID, SHARED})"

lemma spec_read_simps:
  "f n \<noteq> INVALID \<Longrightarrow> spec_read n f = f"
  "f n = INVALID \<Longrightarrow> spec_read n f n = SHARED"
  "f n = INVALID \<Longrightarrow> k \<noteq> n \<Longrightarrow>
     spec_read n f k = (case f k of MODIFIED \<Rightarrow> OWNED | EXCLUSIVE \<Rightarrow> SHARED | s \<Rightarrow> s)"
  by (simp_all add: spec_read_def)

lemma coherent_spec_read:
  assumes "coherent f"
  shows "coherent (spec_read n f)"
proof (cases "f n = INVALID")
  case True
  let ?g = "spec_read n f"
  note hit = spec_read_simps(2) [of f n, OF True] and other = spec_read_simps(3) [of f n, OF True]
  have no_writer: "?g k \<notin> {EXCLUSIVE, MODIFIED}" for k
    using hit other by (cases "k = n"; cases "f k") auto
  have "?g j \<in> {INVALID, SHARED}" if k: "?g k = OWNED" and j: "j \<noteq> k" for j k
  proof (cases "j = n")
    case False
    have "f k \<in> {MODIFIED, OWNED}"
      using k hit other by (cases "k = n"; cases "f k") auto
    then have "f j \<in> {INVALID, SHARED}" using assms j unfolding coherent_def by blast
    then show ?thesis using other [OF False] by auto
  qed (simp add: hit)
  then show ?thesis using no_writer unfolding coherent_def by blast
next
  case False
  then show ?thesis using assms by (simp add: spec_read_simps(1))
qed

lemma coherent_spec_write: "coherent (spec_write n f)"
  by (auto simp: coherent_def spec_write_def)

text \<open>After a write and some reads, the readers share the line with its writer.\<close>

lemma spec_reads_after_write:
  "fold spec_read ns (spec_write w f) =
     (\<lambda>k. if k = w then (if \<exists>n \<in> set ns. n \<noteq> w then OWNED else MODIFIED)
          else if k \<in> set ns then SHARED else INVALID)"
proof (induction ns rule: rev_induct)
  case (snoc n ns)
  let ?g = "\<lambda>k. if k = w then (if \<exists>n \<in> set ns. n \<noteq> w then OWNED else MODIFIED)
          else if k \<in> set ns then SHARED else INVALID"
  have step: "fold spec_read (ns @ [n]) (spec_write w f) = spec_read n ?g" using snoc by simp
  show ?case
  proof (cases "n = w \<or> n \<in> set ns")
    case True
    then have "?g n \<noteq> INVALID" by (auto split: if_splits)
    then show ?thesis using True unfolding step by (auto simp: spec_read_simps(1) fun_eq_iff)
  next
    case False
    then have "?g n = INVALID" by simp
    then show ?thesis using False unfolding step by (auto simp: spec_read_def fun_eq_iff)
  qed
qed (simp add: spec_write_def fun_eq_iff)

text \<open>
  The interface of a directory: requests \<open>'r\<close> come from an agent and transform an entry. The
  laws are the refinement of the protocol, under an invariant the operations keep.
\<close>

locale moesi_directory =
  fixes inv :: "'e \<Rightarrow> bool"
    and view :: "'e \<Rightarrow> line_view"
    and agent :: "'r \<Rightarrow> u32"
    and rd wr :: "'r \<Rightarrow> 'e \<Rightarrow> 'e"
  assumes inv_rd: "inv e \<Longrightarrow> inv (rd r e)"
    and inv_wr: "inv e \<Longrightarrow> inv (wr r e)"
    and view_rd: "inv e \<Longrightarrow> view (rd r e) = spec_read (agent r) (view e)"
    and view_wr: "inv e \<Longrightarrow> view (wr r e) = spec_write (agent r) (view e)"
    and view_coherent: "inv e \<Longrightarrow> coherent (view e)"
begin

definition access :: "bool \<times> 'r \<Rightarrow> 'e \<Rightarrow> 'e" where
  "access = (\<lambda>(is_write, r). if is_write then wr r else rd r)"

definition spec_access :: "bool \<times> 'r \<Rightarrow> line_view \<Rightarrow> line_view" where
  "spec_access = (\<lambda>(is_write, r). if is_write then spec_write (agent r) else spec_read (agent r))"

lemma accesses_inv: "inv e \<Longrightarrow> inv (fold access xs e)"
  by (induction xs arbitrary: e) (auto simp: access_def inv_rd inv_wr)

lemma accesses_refine: "inv e \<Longrightarrow> view (fold access xs e) = fold spec_access xs (view e)"
proof (induction xs arbitrary: e)
  case (Cons x xs)
  have "inv (access x e)" using Cons.prems by (auto simp: access_def inv_rd inv_wr split: prod.split)
  moreover have "view (access x e) = spec_access x (view e)"
    using Cons.prems by (auto simp: access_def spec_access_def view_rd view_wr split: prod.split)
  ultimately show ?case using Cons.IH by simp
qed simp

lemma accesses_coherent: "inv e \<Longrightarrow> coherent (view (fold access xs e))"
  by (simp add: accesses_inv view_coherent)

lemma reads_after_write:
  assumes "inv e"
  shows "view (fold rd rs (wr r e)) =
     (\<lambda>k. if k = agent r then (if \<exists>n \<in> agent ` set rs. n \<noteq> agent r then OWNED else MODIFIED)
          else if k \<in> agent ` set rs then SHARED else INVALID)"
proof -
  have "view (fold rd rs e') = fold spec_read (map agent rs) (view e')" if "inv e'" for e'
    using that by (induction rs arbitrary: e') (auto simp: inv_rd view_rd)
  then show ?thesis
    using assms by (auto simp: inv_wr view_wr spec_reads_after_write fun_eq_iff)
qed

end

end
