(* ===== verification/Coherency_Engine.thy ===== *)
theory Coherency_Engine
  imports MOESI LogP Fabric_Link
begin

text \<open>
  The coherency engine of \<open>include/coherency_engine.h\<close> and \<open>src/coherency_engine.cpp\<close>: a
  directory of cachelines with a MOESI state, an owner node and a set of sharer nodes, the
  read and write state machines, the handlers of remote messages and the latency of the
  messages they send. The directory is a map from line addresses; each entry is locked by
  the operation that uses it, so operations are single steps. The sharer set is iterated in
  increasing order, as \<open>std::set\<close> does. The LogP model is optional (a pointer that may be
  null); fabric links are looked up by node.
\<close>

record DirectoryEntry =
  de_cacheline_addr :: u64
  de_state :: MHSLDCacheState
  de_owner_node :: u32
  de_owner_head :: u32
  de_sharer_nodes :: "u32 set"
  de_version :: u32
  de_last_access_time :: u64
  de_has_dirty_data :: bool

record CoherencyRequest =
  req_addr :: u64
  req_node :: u32
  req_head :: u32
  req_is_write :: bool
  req_timestamp :: u64

record CoherencyResponse =
  resp_latency_ns :: double
  resp_new_state :: MHSLDCacheState
  resp_success :: bool
  resp_data_source_node :: u32

record CoherencyEngine =
  ce_local_node_id :: u32
  ce_logp_model :: "LogPModel option"
  ce_bandwidth_gbps :: double
  ce_directory :: "u64 \<rightharpoonup> DirectoryEntry"
  ce_fabric_links :: "u32 \<rightharpoonup> FabricLink"
  ce_heads :: "MHSLDHeadState list"
  ce_coherency_messages :: u64
  ce_invalidations :: u64
  ce_downgrades :: u64
  ce_writebacks :: u64
  ce_remote_ops :: u64
  ce_total_latency_ns :: u64
  ce_total_ops :: u64

definition new_DirectoryEntry :: DirectoryEntry where
  "new_DirectoryEntry =
     \<lparr>de_cacheline_addr = 0, de_state = INVALID, de_owner_node = UINT32_MAX,
      de_owner_head = UINT32_MAX, de_sharer_nodes = {}, de_version = 0,
      de_last_access_time = 0, de_has_dirty_data = False\<rparr>"

definition new_CoherencyEngine ::
  "u32 \<Rightarrow> LogPModel option \<Rightarrow> u32 \<Rightarrow> double \<Rightarrow> CoherencyEngine" where
  "new_CoherencyEngine local_node logp max_heads bandwidth_gbps =
     \<lparr>ce_local_node_id = local_node, ce_logp_model = logp, ce_bandwidth_gbps = bandwidth_gbps,
      ce_directory = Map.empty, ce_fabric_links = Map.empty,
      ce_heads = map (\<lambda>i. new_head (of_nat i)) [0..<unat max_heads],
      ce_coherency_messages = 0, ce_invalidations = 0, ce_downgrades = 0, ce_writebacks = 0,
      ce_remote_ops = 0, ce_total_latency_ns = 0, ce_total_ops = 0\<rparr>"

definition get_or_create_entry :: "u64 \<Rightarrow> CoherencyEngine \<Rightarrow> DirectoryEntry \<times> CoherencyEngine" where
  "get_or_create_entry addr ce =
     (let cl_addr = cl_align addr in
      case ce_directory ce cl_addr of
        Some e \<Rightarrow> (e, ce)
      | None \<Rightarrow>
          let e = new_DirectoryEntry\<lparr>de_cacheline_addr := cl_addr\<rparr> in
          (e, ce\<lparr>ce_directory := (ce_directory ce)(cl_addr \<mapsto> e)\<rparr>))"

definition calculate_coherency_msg_latency ::
  "u32 \<Rightarrow> u64 \<Rightarrow> CoherencyEngine \<Rightarrow> double \<times> CoherencyEngine" where
  "calculate_coherency_msg_latency target ts ce =
     (let (lat1, ce1) =
            (case ce_fabric_links ce target of
               None \<Rightarrow> (0, ce)
             | Some l \<Rightarrow>
                 let (x, l') = calculate_traversal_latency ts CACHELINE_SIZE l in
                 (x, ce\<lparr>ce_fabric_links := (ce_fabric_links ce)(target \<mapsto> l')\<rparr>)) in
      case ce_logp_model ce1 of
        None \<Rightarrow> (lat1, ce1)
      | Some m \<Rightarrow>
          if target \<noteq> ce_local_node_id ce1 then
            let (x, m') = message_latency ts target m in
            (lat1 + x, ce1\<lparr>ce_logp_model := Some m'\<rparr>)
          else (lat1, ce1))"

definition ce_contention_latency :: "CoherencyEngine \<Rightarrow> u32 \<Rightarrow> double" where
  "ce_contention_latency ce head_id =
     (if length (ce_heads ce) \<le> unat head_id \<or> \<not> hd_active (ce_heads ce ! unat head_id) then 0
      else
        let contending = contending_heads (ce_heads ce) in
        if contending \<le> 1 then 0
        else
          let share0 = hd_bandwidth_share (ce_heads ce ! unat head_id);
              fair_share = (if share0 \<le> 0 then 1 / real (unat contending) else share0);
              additional = 100 * (1 / fair_share - 1) * (3/10) in
          min additional (100 * 5))"

text \<open>The loop of \<open>invalidate_sharers\<close>, with its running maximum and gap.\<close>

fun invalidate_loop :: "u64 \<Rightarrow> u32 list \<Rightarrow> double \<Rightarrow> double \<Rightarrow> CoherencyEngine \<Rightarrow> double \<times> CoherencyEngine" where
  "invalidate_loop ts [] max_latency accumulated_gap ce = (max_latency, ce)"
| "invalidate_loop ts (sharer # sharers) max_latency accumulated_gap ce =
     (let (x, ce1) = calculate_coherency_msg_latency sharer ts ce;
          max_latency' = max max_latency (accumulated_gap + x);
          gap' = (case ce_logp_model ce1 of
                    None \<Rightarrow> accumulated_gap | Some m \<Rightarrow> accumulated_gap + lp_g (lp_config m));
          ce2 = ce1\<lparr>ce_invalidations := ce_invalidations ce1 + 1,
                    ce_coherency_messages := ce_coherency_messages ce1 + 1\<rparr> in
      invalidate_loop ts sharers max_latency' gap' ce2)"

definition invalidate_sharers ::
  "DirectoryEntry \<Rightarrow> u32 \<Rightarrow> u64 \<Rightarrow> CoherencyEngine \<Rightarrow> double \<times> DirectoryEntry \<times> CoherencyEngine" where
  "invalidate_sharers e except_node ts ce =
     (let to_invalidate = sorted_list_of_set (de_sharer_nodes e - {except_node});
          (max_latency, ce') = invalidate_loop ts to_invalidate 0 0 ce in
      (max_latency, e\<lparr>de_sharer_nodes := {}\<rparr>, ce'))"

definition downgrade_owner ::
  "DirectoryEntry \<Rightarrow> u32 \<Rightarrow> u64 \<Rightarrow> CoherencyEngine \<Rightarrow> double \<times> DirectoryEntry \<times> CoherencyEngine" where
  "downgrade_owner e requesting_node ts ce =
     (if de_owner_node e = UINT32_MAX \<or> de_owner_node e = requesting_node then (0, e, ce)
      else
        let (latency, ce1) = calculate_coherency_msg_latency (de_owner_node e) ts ce;
            e1 = (if de_state e = MODIFIED then e\<lparr>de_state := OWNED, de_has_dirty_data := True\<rparr>
                  else if de_state e = EXCLUSIVE then
                    e\<lparr>de_sharer_nodes := insert (de_owner_node e) (de_sharer_nodes e),
                      de_state := SHARED, de_owner_node := UINT32_MAX, de_owner_head := UINT32_MAX\<rparr>
                  else e) in
        (latency, e1, ce1\<lparr>ce_downgrades := ce_downgrades ce1 + 1,
                          ce_coherency_messages := ce_coherency_messages ce1 + 1\<rparr>))"

definition fetch_from_owner ::
  "DirectoryEntry \<Rightarrow> u64 \<Rightarrow> CoherencyEngine \<Rightarrow> double \<times> CoherencyEngine" where
  "fetch_from_owner e ts ce =
     (if de_owner_node e = UINT32_MAX then (0, ce)
      else
        let (latency, ce1) = calculate_coherency_msg_latency (de_owner_node e) ts ce in
        (latency, ce1\<lparr>ce_coherency_messages := ce_coherency_messages ce1 + 1\<rparr>))"


section \<open>The read and write state machines\<close>

text \<open>
  The \<open>switch\<close> of \<open>process_read\<close>: the requester has no copy. Results are the latency, the
  state granted, the node that provides the data, the entry and the engine.
\<close>

definition read_miss ::
  "CoherencyRequest \<Rightarrow> DirectoryEntry \<Rightarrow> CoherencyEngine
   \<Rightarrow> double \<times> MHSLDCacheState \<times> u32 \<times> DirectoryEntry \<times> CoherencyEngine" where
  "read_miss req e ce =
     (let node = req_node req; ts = req_timestamp req; local_node = ce_local_node_id ce;
          contention = ce_contention_latency ce (req_head req);
          add_sharer = (\<lambda>e. e\<lparr>de_sharer_nodes := insert node (de_sharer_nodes e)\<rparr>) in
      case de_state e of
        INVALID \<Rightarrow>
          (0, SHARED, local_node,
           (add_sharer e)\<lparr>de_state := SHARED, de_owner_node := node, de_owner_head := req_head req\<rparr>, ce)
      | SHARED \<Rightarrow> (0, SHARED, local_node, add_sharer e, ce)
      | EXCLUSIVE \<Rightarrow>
          if de_owner_node e = node then
            (contention, SHARED, local_node, (add_sharer e)\<lparr>de_state := SHARED\<rparr>, ce)
          else
            let (latency, e1, ce1) = downgrade_owner e node ts ce in
            (latency, SHARED, de_owner_node e1, (add_sharer e1)\<lparr>de_state := SHARED\<rparr>, ce1)
      | MODIFIED \<Rightarrow>
          if de_owner_node e = node then (contention, SHARED, local_node, add_sharer e, ce)
          else
            let (latency, ce1) = fetch_from_owner e ts ce in
            (latency, SHARED, de_owner_node e, add_sharer (e\<lparr>de_state := OWNED\<rparr>), ce1)
      | OWNED \<Rightarrow>
          if de_owner_node e = node then (contention, SHARED, local_node, add_sharer e, ce)
          else
            let (latency, ce1) = calculate_coherency_msg_latency (de_owner_node e) ts ce in
            (latency, SHARED, de_owner_node e, add_sharer e,
             ce1\<lparr>ce_coherency_messages := ce_coherency_messages ce1 + 1\<rparr>))"

text \<open>The common tail of both machines, from the label \<open>done\<close>; the entry goes back to the directory.\<close>

definition finish_access ::
  "CoherencyRequest \<Rightarrow> double \<times> MHSLDCacheState \<times> u32 \<times> DirectoryEntry \<times> CoherencyEngine
   \<Rightarrow> CoherencyResponse \<times> CoherencyEngine" where
  "finish_access req = (\<lambda>(latency0, new_state, data_source, e, ce).
     (let ce1 = (if req_node req \<noteq> ce_local_node_id ce
                 then ce\<lparr>ce_remote_ops := ce_remote_ops ce + 1\<rparr> else ce);
          latency = latency0 + ce_contention_latency ce1 (req_head req) in
      (\<lparr>resp_latency_ns = latency, resp_new_state = new_state, resp_success = True,
        resp_data_source_node = data_source\<rparr>,
       ce1\<lparr>ce_directory := (ce_directory ce1)(cl_align (req_addr req) \<mapsto> e),
           ce_total_ops := ce_total_ops ce1 + 1,
           ce_total_latency_ns := ce_total_latency_ns ce1 + u64_of_double latency\<rparr>)))"

definition read_entry ::
  "CoherencyRequest \<Rightarrow> DirectoryEntry \<Rightarrow> CoherencyEngine
   \<Rightarrow> double \<times> MHSLDCacheState \<times> u32 \<times> DirectoryEntry \<times> CoherencyEngine" where
  "read_entry req e0 ce =
     (let e = e0\<lparr>de_last_access_time := req_timestamp req\<rparr>;
          contention = ce_contention_latency ce (req_head req) in
      if de_owner_node e = req_node req \<and> de_state e \<in> {EXCLUSIVE, MODIFIED, OWNED}
      then (contention, de_state e, ce_local_node_id ce, e, ce)
      else if req_node req \<in> de_sharer_nodes e
      then (contention, SHARED, ce_local_node_id ce, e, ce)
      else read_miss req e ce)"

definition process_read :: "CoherencyRequest \<Rightarrow> CoherencyEngine \<Rightarrow> CoherencyResponse \<times> CoherencyEngine" where
  "process_read req ce =
     (let (e, ce1) = get_or_create_entry (req_addr req) ce in
      finish_access req (read_entry req e ce1))"

text \<open>
  The \<open>switch\<close> of \<open>process_write\<close> when the requester has no write permission: latency, data
  source, the entry (only its sharers may be cleared) and the engine.
\<close>

definition write_miss ::
  "CoherencyRequest \<Rightarrow> DirectoryEntry \<Rightarrow> CoherencyEngine
   \<Rightarrow> double \<times> u32 \<times> DirectoryEntry \<times> CoherencyEngine" where
  "write_miss req e ce =
     (let node = req_node req; ts = req_timestamp req; local_node = ce_local_node_id ce in
      case de_state e of
        INVALID \<Rightarrow> (0, local_node, e, ce)
      | SHARED \<Rightarrow>
          let (latency, e1, ce1) = invalidate_sharers e node ts ce in (latency, local_node, e1, ce1)
      | EXCLUSIVE \<Rightarrow>
          if de_owner_node e \<noteq> node then
            let (latency, ce1) = calculate_coherency_msg_latency (de_owner_node e) ts ce in
            (latency, local_node, e,
             ce1\<lparr>ce_invalidations := ce_invalidations ce1 + 1,
                 ce_coherency_messages := ce_coherency_messages ce1 + 1\<rparr>)
          else (0, local_node, e, ce)
      | MODIFIED \<Rightarrow>
          if de_owner_node e \<noteq> node then
            let (latency, ce1) = calculate_coherency_msg_latency (de_owner_node e) ts ce in
            (latency, de_owner_node e, e,
             ce1\<lparr>ce_writebacks := ce_writebacks ce1 + 1,
                 ce_coherency_messages := ce_coherency_messages ce1 + 1\<rparr>)
          else (0, local_node, e, ce)
      | OWNED \<Rightarrow>
          if de_owner_node e \<noteq> node then
            let (owner_lat, ce1) = calculate_coherency_msg_latency (de_owner_node e) ts ce;
                (sharer_lat, e1, ce2) = invalidate_sharers e node ts ce1 in
            (owner_lat + sharer_lat, de_owner_node e1, e1,
             ce2\<lparr>ce_writebacks := ce_writebacks ce2 + 1\<rparr>)
          else
            let (latency, e1, ce1) = invalidate_sharers e node ts ce in (latency, local_node, e1, ce1))"

definition write_entry ::
  "CoherencyRequest \<Rightarrow> DirectoryEntry \<Rightarrow> CoherencyEngine
   \<Rightarrow> double \<times> MHSLDCacheState \<times> u32 \<times> DirectoryEntry \<times> CoherencyEngine" where
  "write_entry req e0 ce =
     (let e = e0\<lparr>de_last_access_time := req_timestamp req, de_version := de_version e0 + 1\<rparr>;
          node = req_node req; local_node = ce_local_node_id ce in
      if de_owner_node e = node \<and> de_state e \<in> {EXCLUSIVE, MODIFIED}
      then (ce_contention_latency ce (req_head req), MODIFIED, local_node,
            e\<lparr>de_state := MODIFIED, de_has_dirty_data := True\<rparr>, ce)
      else if de_owner_node e = node \<and> de_state e = OWNED
      then let (latency, e1, ce1) = invalidate_sharers e node (req_timestamp req) ce in
           (latency, MODIFIED, local_node, e1\<lparr>de_state := MODIFIED, de_has_dirty_data := True\<rparr>, ce1)
      else let (latency, data_source, e1, ce1) = write_miss req e ce in
           (latency, MODIFIED, data_source,
            e1\<lparr>de_owner_node := node, de_owner_head := req_head req, de_state := MODIFIED,
               de_sharer_nodes := {}, de_has_dirty_data := True\<rparr>, ce1))"

definition process_write :: "CoherencyRequest \<Rightarrow> CoherencyEngine \<Rightarrow> CoherencyResponse \<times> CoherencyEngine" where
  "process_write req ce =
     (let (e, ce1) = get_or_create_entry (req_addr req) ce in
      finish_access req (write_entry req e ce1))"

definition process_atomic :: "CoherencyRequest \<Rightarrow> CoherencyEngine \<Rightarrow> CoherencyResponse \<times> CoherencyEngine" where
  "process_atomic req ce =
     (let (resp, ce1) = process_write req ce in
      case ce_logp_model ce1 of
        None \<Rightarrow> (resp, ce1)
      | Some m \<Rightarrow>
          (resp\<lparr>resp_latency_ns := resp_latency_ns resp + (lp_o_s (lp_config m) + lp_o_r (lp_config m))\<rparr>, ce1))"

definition transition_to_shared :: "DirectoryEntry \<Rightarrow> u32 \<Rightarrow> u32 \<Rightarrow> DirectoryEntry" where
  "transition_to_shared e node head =
     (let e1 = e\<lparr>de_sharer_nodes := insert node (de_sharer_nodes e)\<rparr> in
      if de_state e1 = INVALID
      then e1\<lparr>de_state := SHARED, de_owner_node := node, de_owner_head := head\<rparr> else e1)"

definition transition_to_exclusive ::
  "DirectoryEntry \<Rightarrow> u32 \<Rightarrow> u32 \<Rightarrow> u64 \<Rightarrow> CoherencyEngine \<Rightarrow> double \<times> DirectoryEntry \<times> CoherencyEngine" where
  "transition_to_exclusive e node head ts ce =
     (let (latency, e1, ce1) = invalidate_sharers e node ts ce in
      (latency, e1\<lparr>de_owner_node := node, de_owner_head := head, de_state := EXCLUSIVE,
                   de_sharer_nodes := {}\<rparr>, ce1))"

definition transition_to_modified ::
  "DirectoryEntry \<Rightarrow> u32 \<Rightarrow> u32 \<Rightarrow> u64 \<Rightarrow> CoherencyEngine \<Rightarrow> double \<times> DirectoryEntry \<times> CoherencyEngine" where
  "transition_to_modified e node head ts ce =
     (let (latency, e1, ce1) = transition_to_exclusive e node head ts ce in
      (latency, e1\<lparr>de_state := MODIFIED, de_has_dirty_data := True\<rparr>, ce1))"


section \<open>Remote messages, heads and statistics\<close>

definition handle_remote_invalidate :: "u64 \<Rightarrow> CoherencyEngine \<Rightarrow> CoherencyEngine" where
  "handle_remote_invalidate addr ce =
     (let cl_addr = cl_align addr; local_node = ce_local_node_id ce in
      case ce_directory ce cl_addr of
        None \<Rightarrow> ce
      | Some e0 \<Rightarrow>
          let e = e0\<lparr>de_sharer_nodes := de_sharer_nodes e0 - {local_node}\<rparr>;
              owned = (de_owner_node e = local_node);
              dirty = owned \<and> de_state e = MODIFIED;
              e1 = (if dirty then e\<lparr>de_has_dirty_data := True\<rparr> else e);
              e2 = (if owned then e1\<lparr>de_owner_node := UINT32_MAX, de_owner_head := UINT32_MAX,
                                    de_state := INVALID\<rparr> else e1) in
          ce\<lparr>ce_directory := (ce_directory ce)(cl_addr \<mapsto> e2),
             ce_writebacks := (if dirty then ce_writebacks ce + 1 else ce_writebacks ce),
             ce_invalidations := ce_invalidations ce + 1\<rparr>)"

definition handle_remote_downgrade :: "u64 \<Rightarrow> CoherencyEngine \<Rightarrow> CoherencyEngine" where
  "handle_remote_downgrade addr ce =
     (let cl_addr = cl_align addr; local_node = ce_local_node_id ce in
      case ce_directory ce cl_addr of
        None \<Rightarrow> ce
      | Some e \<Rightarrow>
          let e1 = (if de_owner_node e = local_node then
                      (if de_state e = MODIFIED then e\<lparr>de_state := OWNED\<rparr>
                       else if de_state e = EXCLUSIVE then
                         e\<lparr>de_state := SHARED, de_sharer_nodes := insert local_node (de_sharer_nodes e)\<rparr>
                       else e)
                    else e) in
          ce\<lparr>ce_directory := (ce_directory ce)(cl_addr \<mapsto> e1), ce_downgrades := ce_downgrades ce + 1\<rparr>)"

definition handle_remote_writeback :: "u64 \<Rightarrow> u32 \<Rightarrow> CoherencyEngine \<Rightarrow> CoherencyEngine" where
  "handle_remote_writeback addr from_node ce =
     (let cl_addr = cl_align addr in
      case ce_directory ce cl_addr of
        None \<Rightarrow> ce
      | Some e \<Rightarrow>
          let e1 = (if de_owner_node e = from_node then
                      e\<lparr>de_has_dirty_data := False, de_owner_node := UINT32_MAX,
                        de_owner_head := UINT32_MAX, de_state := INVALID,
                        de_sharer_nodes := de_sharer_nodes e - {from_node}\<rparr>
                    else e) in
          ce\<lparr>ce_directory := (ce_directory ce)(cl_addr \<mapsto> e1), ce_writebacks := ce_writebacks ce + 1\<rparr>)"

definition ce_activate_head :: "u32 \<Rightarrow> u64 \<Rightarrow> CoherencyEngine \<Rightarrow> CoherencyEngine" where
  "ce_activate_head head_id capacity ce =
     (if length (ce_heads ce) \<le> unat head_id then ce
      else
        let hs = (ce_heads ce)[unat head_id := (ce_heads ce ! unat head_id)
                   \<lparr>hd_active := True, hd_allocated_capacity := capacity, hd_used_capacity := 0\<rparr>];
            active_count = foldl (\<lambda>n h. if hd_active h then n + 1 else n) (0 :: u32) hs in
        ce\<lparr>ce_heads := map (\<lambda>h. if hd_active h
              then h\<lparr>hd_bandwidth_share := 1 / real (unat active_count)\<rparr> else h) hs\<rparr>)"

definition ce_deactivate_head :: "u32 \<Rightarrow> CoherencyEngine \<Rightarrow> CoherencyEngine" where
  "ce_deactivate_head head_id ce =
     (if length (ce_heads ce) \<le> unat head_id then ce
      else ce\<lparr>ce_heads := (ce_heads ce)[unat head_id := (ce_heads ce ! unat head_id)
                \<lparr>hd_active := False, hd_bandwidth_share := 0\<rparr>]\<rparr>)"

definition register_fabric_link :: "u32 \<Rightarrow> FabricLink option \<Rightarrow> CoherencyEngine \<Rightarrow> CoherencyEngine" where
  "register_fabric_link node_id link ce = ce\<lparr>ce_fabric_links := (ce_fabric_links ce)(node_id := link)\<rparr>"

record CoherencyStats =
  cstat_coherency_messages :: u64
  cstat_invalidations :: u64
  cstat_downgrades :: u64
  cstat_writebacks :: u64
  cstat_remote_ops :: u64
  cstat_avg_coherency_latency :: double

definition ce_get_stats :: "CoherencyEngine \<Rightarrow> CoherencyStats" where
  "ce_get_stats ce =
     \<lparr>cstat_coherency_messages = ce_coherency_messages ce, cstat_invalidations = ce_invalidations ce,
      cstat_downgrades = ce_downgrades ce, cstat_writebacks = ce_writebacks ce,
      cstat_remote_ops = ce_remote_ops ce,
      cstat_avg_coherency_latency =
        (if 0 < ce_total_ops ce
         then double_of_u64 (ce_total_latency_ns ce) / double_of_u64 (ce_total_ops ce) else 0)\<rparr>"


section \<open>What the operations leave alone\<close>

named_theorems ce_frame

lemma msg_latency_frame [ce_frame]:
  "ce_directory (snd (calculate_coherency_msg_latency t ts ce)) = ce_directory ce"
  "ce_heads (snd (calculate_coherency_msg_latency t ts ce)) = ce_heads ce"
  "ce_local_node_id (snd (calculate_coherency_msg_latency t ts ce)) = ce_local_node_id ce"
  "ce_coherency_messages (snd (calculate_coherency_msg_latency t ts ce)) = ce_coherency_messages ce"
  "ce_invalidations (snd (calculate_coherency_msg_latency t ts ce)) = ce_invalidations ce"
  by (simp_all add: calculate_coherency_msg_latency_def Let_def case_prod_unfold split: option.splits)

lemma invalidate_loop_frame [ce_frame]:
  "ce_directory (snd (invalidate_loop ts xs m g ce)) = ce_directory ce"
  "ce_heads (snd (invalidate_loop ts xs m g ce)) = ce_heads ce"
  "ce_local_node_id (snd (invalidate_loop ts xs m g ce)) = ce_local_node_id ce"
  "ce_coherency_messages (snd (invalidate_loop ts xs m g ce)) = ce_coherency_messages ce + of_nat (length xs)"
  "ce_invalidations (snd (invalidate_loop ts xs m g ce)) = ce_invalidations ce + of_nat (length xs)"
  by (induction xs arbitrary: m g ce) (simp_all add: Let_def case_prod_unfold ce_frame)

lemma invalidate_sharers_frame [ce_frame]:
  "ce_directory (snd (snd (invalidate_sharers e n ts ce))) = ce_directory ce"
  "ce_heads (snd (snd (invalidate_sharers e n ts ce))) = ce_heads ce"
  "ce_local_node_id (snd (snd (invalidate_sharers e n ts ce))) = ce_local_node_id ce"
  "ce_coherency_messages (snd (snd (invalidate_sharers e n ts ce))) =
     ce_coherency_messages ce + of_nat (card (de_sharer_nodes e - {n}))"
  "ce_invalidations (snd (snd (invalidate_sharers e n ts ce))) =
     ce_invalidations ce + of_nat (card (de_sharer_nodes e - {n}))"
  "fst (snd (invalidate_sharers e n ts ce)) = e\<lparr>de_sharer_nodes := {}\<rparr>"
  by (simp_all add: invalidate_sharers_def Let_def case_prod_unfold ce_frame)

lemma fetch_from_owner_frame [ce_frame]:
  "ce_directory (snd (fetch_from_owner e ts ce)) = ce_directory ce"
  "ce_heads (snd (fetch_from_owner e ts ce)) = ce_heads ce"
  "ce_local_node_id (snd (fetch_from_owner e ts ce)) = ce_local_node_id ce"
  by (simp_all add: fetch_from_owner_def Let_def case_prod_unfold ce_frame)

lemma downgrade_owner_frame [ce_frame]:
  "ce_directory (snd (snd (downgrade_owner e n ts ce))) = ce_directory ce"
  "ce_heads (snd (snd (downgrade_owner e n ts ce))) = ce_heads ce"
  "ce_local_node_id (snd (snd (downgrade_owner e n ts ce))) = ce_local_node_id ce"
  by (simp_all add: downgrade_owner_def Let_def case_prod_unfold ce_frame)

abbreviation entry_of ::
  "double \<times> MHSLDCacheState \<times> u32 \<times> DirectoryEntry \<times> CoherencyEngine \<Rightarrow> DirectoryEntry" where
  "entry_of r \<equiv> fst (snd (snd (snd r)))"

abbreviation engine_of ::
  "double \<times> MHSLDCacheState \<times> u32 \<times> DirectoryEntry \<times> CoherencyEngine \<Rightarrow> CoherencyEngine" where
  "engine_of r \<equiv> snd (snd (snd (snd r)))"

lemma read_entry_frame [ce_frame]:
  "ce_directory (engine_of (read_entry req e ce)) = ce_directory ce"
  "ce_heads (engine_of (read_entry req e ce)) = ce_heads ce"
  "ce_local_node_id (engine_of (read_entry req e ce)) = ce_local_node_id ce"
  by (simp_all add: read_entry_def read_miss_def Let_def case_prod_unfold ce_frame
      split: MHSLDCacheState.split)

lemma write_entry_frame [ce_frame]:
  "ce_directory (engine_of (write_entry req e ce)) = ce_directory ce"
  "ce_heads (engine_of (write_entry req e ce)) = ce_heads ce"
  "ce_local_node_id (engine_of (write_entry req e ce)) = ce_local_node_id ce"
  by (simp_all add: write_entry_def write_miss_def Let_def case_prod_unfold ce_frame
      split: MHSLDCacheState.split)

lemma finish_access_frame [ce_frame]:
  "ce_directory (snd (finish_access req r)) =
     (ce_directory (engine_of r))(cl_align (req_addr req) \<mapsto> entry_of r)"
  "ce_heads (snd (finish_access req r)) = ce_heads (engine_of r)"
  "ce_local_node_id (snd (finish_access req r)) = ce_local_node_id (engine_of r)"
  "ce_coherency_messages (snd (finish_access req r)) = ce_coherency_messages (engine_of r)"
  "ce_invalidations (snd (finish_access req r)) = ce_invalidations (engine_of r)"
  by (simp_all add: finish_access_def Let_def case_prod_unfold)

text \<open>The entry an address has, created on first use.\<close>

definition line_entry :: "CoherencyEngine \<Rightarrow> u64 \<Rightarrow> DirectoryEntry" where
  "line_entry ce addr = (case ce_directory ce (cl_align addr) of
     Some e \<Rightarrow> e | None \<Rightarrow> new_DirectoryEntry\<lparr>de_cacheline_addr := cl_align addr\<rparr>)"

lemma get_or_create_entry_frame [ce_frame]:
  "fst (get_or_create_entry a ce) = line_entry ce a"
  "ce_heads (snd (get_or_create_entry a ce)) = ce_heads ce"
  "ce_local_node_id (snd (get_or_create_entry a ce)) = ce_local_node_id ce"
  "ce_coherency_messages (snd (get_or_create_entry a ce)) = ce_coherency_messages ce"
  "ce_invalidations (snd (get_or_create_entry a ce)) = ce_invalidations ce"
  "(ce_directory (snd (get_or_create_entry a ce)))(cl_align a \<mapsto> e) = (ce_directory ce)(cl_align a \<mapsto> e)"
  by (simp_all add: get_or_create_entry_def line_entry_def Let_def split: option.split)

text \<open>
  The entry an access leaves does not depend on the rest of the engine, which only decides
  latencies: the entry's transition is a function of the request and the entry.
\<close>

definition line_read :: "CoherencyRequest \<Rightarrow> DirectoryEntry \<Rightarrow> DirectoryEntry" where
  "line_read req e = entry_of (read_entry req e (new_CoherencyEngine 0 None 0 0))"

definition line_write :: "CoherencyRequest \<Rightarrow> DirectoryEntry \<Rightarrow> DirectoryEntry" where
  "line_write req e = entry_of (write_entry req e (new_CoherencyEngine 0 None 0 0))"

lemma read_entry_line [ce_frame]: "entry_of (read_entry req e ce) = line_read req e"
  by (simp add: line_read_def read_entry_def read_miss_def downgrade_owner_def Let_def case_prod_unfold
      split: MHSLDCacheState.split)

lemma write_entry_line [ce_frame]: "entry_of (write_entry req e ce) = line_write req e"
  by (simp add: line_write_def write_entry_def write_miss_def Let_def case_prod_unfold ce_frame
      split: MHSLDCacheState.split)

lemma process_read_directory [ce_frame]:
  "ce_directory (snd (process_read req ce)) =
     (ce_directory ce)(cl_align (req_addr req) \<mapsto> line_read req (line_entry ce (req_addr req)))"
  "ce_heads (snd (process_read req ce)) = ce_heads ce"
  "ce_local_node_id (snd (process_read req ce)) = ce_local_node_id ce"
  by (simp_all add: process_read_def Let_def case_prod_unfold ce_frame)

lemma process_write_directory [ce_frame]:
  "ce_directory (snd (process_write req ce)) =
     (ce_directory ce)(cl_align (req_addr req) \<mapsto> line_write req (line_entry ce (req_addr req)))"
  "ce_heads (snd (process_write req ce)) = ce_heads ce"
  "ce_local_node_id (snd (process_write req ce)) = ce_local_node_id ce"
  by (simp_all add: process_write_def Let_def case_prod_unfold ce_frame)

lemma process_atomic_engine [ce_frame]: "snd (process_atomic req ce) = snd (process_write req ce)"
  by (simp add: process_atomic_def Let_def case_prod_unfold split: option.split)


section \<open>Entries refine the protocol\<close>

definition entry_view :: "DirectoryEntry \<Rightarrow> line_view" where
  "entry_view e n =
     (if de_owner_node e = n \<and> de_state e \<in> {EXCLUSIVE, MODIFIED, OWNED} then de_state e
      else if n \<in> de_sharer_nodes e then SHARED else INVALID)"

text \<open>
  A modified line has no sharers, an owned line's owner is not listed as a sharer, and no
  operation of the engine enters the exclusive state.
\<close>

definition entry_inv :: "DirectoryEntry \<Rightarrow> bool" where
  "entry_inv e \<longleftrightarrow> de_state e \<noteq> EXCLUSIVE \<and> (de_state e = MODIFIED \<longrightarrow> de_sharer_nodes e = {}) \<and>
     (de_state e = OWNED \<longrightarrow> de_owner_node e \<notin> de_sharer_nodes e)"

lemma entry_inv_new: "entry_inv (new_DirectoryEntry\<lparr>de_cacheline_addr := a\<rparr>)"
  by (simp add: entry_inv_def new_DirectoryEntry_def)

lemma entry_inv_coherent: "entry_inv e \<Longrightarrow> coherent (entry_view e)"
  by (cases "de_state e") (auto simp: coherent_def entry_view_def entry_inv_def)

lemma line_read_simps:
  "entry_view e (req_node req) \<noteq> INVALID \<Longrightarrow>
     line_read req e = e\<lparr>de_last_access_time := req_timestamp req\<rparr>"
  "entry_view e (req_node req) = INVALID \<Longrightarrow> de_state e \<noteq> EXCLUSIVE \<Longrightarrow>
     line_read req e =
       e\<lparr>de_last_access_time := req_timestamp req,
         de_sharer_nodes := insert (req_node req) (de_sharer_nodes e),
         de_state := (case de_state e of INVALID \<Rightarrow> SHARED | MODIFIED \<Rightarrow> OWNED | s \<Rightarrow> s),
         de_owner_node := (if de_state e = INVALID then req_node req else de_owner_node e),
         de_owner_head := (if de_state e = INVALID then req_head req else de_owner_head e)\<rparr>"
  by (auto simp: line_read_def read_entry_def read_miss_def entry_view_def Let_def case_prod_unfold
      split: MHSLDCacheState.splits if_splits)

lemma line_write_view:
  "entry_inv e \<Longrightarrow> entry_view (line_write req e) = spec_write (req_node req) (entry_view e)"
  "entry_inv e \<Longrightarrow> entry_inv (line_write req e)"
  by (auto simp: line_write_def write_entry_def entry_view_def entry_inv_def spec_write_def Let_def
      case_prod_unfold ce_frame fun_eq_iff)

lemma line_read_view:
  assumes "entry_inv e"
  shows "entry_view (line_read req e) = spec_read (req_node req) (entry_view e)"
    and "entry_inv (line_read req e)"
proof -
  let ?n = "req_node req"
  have "entry_view (line_read req e) = spec_read ?n (entry_view e) \<and> entry_inv (line_read req e)"
  proof (cases "entry_view e ?n = INVALID")
    case True
    then have e: "?n \<notin> de_sharer_nodes e" "de_state e \<in> {EXCLUSIVE, MODIFIED, OWNED} \<Longrightarrow> de_owner_node e \<noteq> ?n"
      by (auto simp: entry_view_def split: if_splits)
    have "de_state e \<noteq> EXCLUSIVE" using assms by (simp add: entry_inv_def)
    note eq = line_read_simps(2) [OF True this]
    show ?thesis
    proof (cases "de_state e")
      case INVALID
      then show ?thesis using e assms unfolding eq spec_read_def True
        by (auto simp: entry_view_def entry_inv_def fun_eq_iff)
    qed (use e assms in \<open>auto simp: eq entry_view_def entry_inv_def spec_read_def fun_eq_iff split: if_splits\<close>)
  next
    case False
    then have "line_read req e = e\<lparr>de_last_access_time := req_timestamp req\<rparr>" by (rule line_read_simps)
    then show ?thesis using False assms by (simp add: spec_read_simps entry_view_def entry_inv_def fun_eq_iff)
  qed
  then show "entry_view (line_read req e) = spec_read ?n (entry_view e)" "entry_inv (line_read req e)"
    by simp_all
qed

interpretation engine_lines: moesi_directory entry_inv entry_view req_node line_read line_write
  by unfold_locales (simp_all add: line_read_view line_write_view entry_inv_coherent)


section \<open>The engine under any sequence of requests and messages\<close>

datatype CEOp =
  CERead CoherencyRequest
| CEWrite CoherencyRequest
| CEAtomic CoherencyRequest
| CERemoteInvalidate u64
| CERemoteDowngrade u64
| CERemoteWriteback u64 u32
| CEActivateHead u32 u64
| CEDeactivateHead u32
| CERegisterLink u32 "FabricLink option"

fun ce_step :: "CEOp \<Rightarrow> CoherencyEngine \<Rightarrow> CoherencyEngine" where
  "ce_step (CERead r) ce = snd (process_read r ce)"
| "ce_step (CEWrite r) ce = snd (process_write r ce)"
| "ce_step (CEAtomic r) ce = snd (process_atomic r ce)"
| "ce_step (CERemoteInvalidate a) ce = handle_remote_invalidate a ce"
| "ce_step (CERemoteDowngrade a) ce = handle_remote_downgrade a ce"
| "ce_step (CERemoteWriteback a n) ce = handle_remote_writeback a n ce"
| "ce_step (CEActivateHead h c) ce = ce_activate_head h c ce"
| "ce_step (CEDeactivateHead h) ce = ce_deactivate_head h ce"
| "ce_step (CERegisterLink n l) ce = register_fabric_link n l ce"

definition lines_inv :: "CoherencyEngine \<Rightarrow> bool" where
  "lines_inv ce \<longleftrightarrow> (\<forall>a e. ce_directory ce a = Some e \<longrightarrow> entry_inv e)"

definition heads_idle :: "CoherencyEngine \<Rightarrow> bool" where
  "heads_idle ce \<longleftrightarrow> (\<forall>h \<in> set (ce_heads ce). hd_total_reads h = 0 \<and> hd_total_writes h = 0)"

lemma lines_inv_upd:
  "lines_inv ce \<Longrightarrow> entry_inv e \<Longrightarrow> ce_directory ce' = (ce_directory ce)(a \<mapsto> e) \<Longrightarrow> lines_inv ce'"
  by (auto simp: lines_inv_def)

lemma lines_inv_entry: "lines_inv ce \<Longrightarrow> entry_inv (line_entry ce a)"
  by (auto simp: lines_inv_def line_entry_def entry_inv_new split: option.split)

lemma process_read_lines: "lines_inv ce \<Longrightarrow> lines_inv (snd (process_read r ce))"
  by (rule lines_inv_upd [OF _ _ process_read_directory(1)]) (simp_all add: lines_inv_entry line_read_view)

lemma process_write_lines: "lines_inv ce \<Longrightarrow> lines_inv (snd (process_write r ce))"
  by (rule lines_inv_upd [OF _ _ process_write_directory(1)]) (simp_all add: lines_inv_entry line_write_view)

lemma remote_handlers_lines:
  assumes "lines_inv ce"
  shows "lines_inv (handle_remote_invalidate a ce)" "lines_inv (handle_remote_downgrade a ce)"
    "lines_inv (handle_remote_writeback a n ce)"
  using assms
  by (auto simp: lines_inv_def entry_inv_def handle_remote_invalidate_def handle_remote_downgrade_def
      handle_remote_writeback_def Let_def split: option.split)

lemma ce_step_lines: "lines_inv ce \<Longrightarrow> lines_inv (ce_step x ce)"
  by (cases x) (simp_all add: process_read_lines process_write_lines remote_handlers_lines ce_frame,
    simp_all add: lines_inv_def ce_activate_head_def ce_deactivate_head_def register_fabric_link_def Let_def)

lemma ce_run_lines: "lines_inv ce \<Longrightarrow> lines_inv (fold ce_step xs ce)"
  by (induction xs arbitrary: ce) (simp_all add: ce_step_lines)

lemma lines_inv_new: "lines_inv (new_CoherencyEngine n l h b)"
  by (simp add: lines_inv_def new_CoherencyEngine_def)

text \<open>
  C14: Coherence of the directory. After any sequence of reads, writes, atomics, remote
  invalidations, downgrades and writebacks, on every line at most one node may write, a node
  that may write is the only one with a copy, and at most one node holds dirty data beside
  sharers. The exclusive state of the protocol is never entered.
\<close>

theorem engine_coherent:
  assumes "ce_directory (fold ce_step xs (new_CoherencyEngine n l h b)) a = Some e"
  shows "coherent (entry_view e) \<and> de_state e \<noteq> EXCLUSIVE"
proof -
  have "entry_inv e" using ce_run_lines [OF lines_inv_new, of xs n l h b] assms by (simp add: lines_inv_def)
  then show ?thesis using entry_inv_coherent by (auto simp: entry_inv_def)
qed

definition example_request :: "u32 \<Rightarrow> CoherencyRequest" where
  "example_request n = \<lparr>req_addr = 4100, req_node = n, req_head = 0, req_is_write = False, req_timestamp = 7\<rparr>"

lemma example_line: "cl_align 4100 = 4096"
  by (simp add: cl_align_def)

theorem engine_coherent_witness:
  "coherent (entry_view (line_write (example_request 3)
     (new_DirectoryEntry\<lparr>de_cacheline_addr := 4096\<rparr>)))"
  using engine_coherent [of "[CEWrite (example_request 3)]" 0 None 0 25 4096]
  by (simp add: ce_frame new_CoherencyEngine_def line_entry_def example_request_def example_line)

text \<open>What the nodes hold of the line of an address.\<close>

definition line_view :: "CoherencyEngine \<Rightarrow> u64 \<Rightarrow> line_view" where
  "line_view ce a = entry_view (line_entry ce a)"

lemma line_view_upd:
  assumes "ce_directory ce' = (ce_directory ce)(cl_align a \<mapsto> e)"
  shows "line_view ce' b = (if cl_align b = cl_align a then entry_view e else line_view ce b)"
  using assms by (simp add: line_view_def line_entry_def)

lemma process_read_new_state:
  assumes "lines_inv ce"
  shows "resp_new_state (fst (process_read req ce)) =
           spec_read (req_node req) (line_view ce (req_addr req)) (req_node req)"
proof -
  have "fst (snd (read_entry req x c)) = spec_read (req_node req) (entry_view x) (req_node req)"
    if "entry_inv x" for x c
    using that by (auto simp: read_entry_def read_miss_def spec_read_def entry_view_def entry_inv_def
        Let_def case_prod_unfold split: MHSLDCacheState.splits)
  then show ?thesis
    using lines_inv_entry [OF assms]
    by (simp add: process_read_def finish_access_def Let_def case_prod_unfold ce_frame line_view_def)
qed

lemma process_write_new_state: "resp_new_state (fst (process_write req ce)) = MODIFIED"
proof -
  have "fst (snd (write_entry req x c)) = MODIFIED" for x c
    by (simp add: write_entry_def Let_def case_prod_unfold)
  then show ?thesis by (simp add: process_write_def finish_access_def Let_def case_prod_unfold)
qed

text \<open>
  C2: The engine refines the protocol line by line. A read or write changes what the nodes
  hold of the addressed line exactly as the protocol says and of no other line, and the
  response reports the state that the requesting node has afterwards. An atomic has the
  effect of a write.
\<close>

theorem engine_refines_protocol:
  fixes req :: CoherencyRequest
  assumes "lines_inv ce"
  defines "a \<equiv> req_addr req" and "n \<equiv> req_node req"
  shows "line_view (snd (process_read req ce)) b =
           (if cl_align b = cl_align a then spec_read n (line_view ce a) else line_view ce b) \<and>
         line_view (snd (process_write req ce)) b =
           (if cl_align b = cl_align a then spec_write n (line_view ce a) else line_view ce b) \<and>
         snd (process_atomic req ce) = snd (process_write req ce) \<and>
         resp_new_state (fst (process_read req ce)) = line_view (snd (process_read req ce)) a n \<and>
         resp_new_state (fst (process_write req ce)) = line_view (snd (process_write req ce)) a n"
proof -
  have e: "entry_inv (line_entry ce a)" by (rule lines_inv_entry [OF assms(1)])
  have rd: "line_view (snd (process_read req ce)) b =
      (if cl_align b = cl_align a then spec_read n (line_view ce a) else line_view ce b)" for b
    unfolding a_def n_def line_view_upd [OF process_read_directory(1)]
    using line_read_view(1) [OF e] by (simp add: line_view_def a_def)
  have wr: "line_view (snd (process_write req ce)) b =
      (if cl_align b = cl_align a then spec_write n (line_view ce a) else line_view ce b)" for b
    unfolding a_def n_def line_view_upd [OF process_write_directory(1)]
    using line_write_view(1) [OF e] by (simp add: line_view_def a_def)
  note r1 = process_read_new_state [OF assms(1), of req, folded a_def n_def]
  show ?thesis
    using rd [of b] wr [of b] rd [of a] wr [of a] r1
    by (simp add: ce_frame spec_write_def process_write_new_state)
qed

theorem engine_refines_protocol_witness:
  "resp_new_state (fst (process_read (example_request 2)
     (snd (process_write (example_request 1) (new_CoherencyEngine 0 None 0 25))))) = SHARED"
proof -
  let ?ce = "snd (process_write (example_request 1) (new_CoherencyEngine 0 None 0 25))"
  have inv: "lines_inv ?ce" by (intro process_write_lines lines_inv_new)
  show ?thesis
    using engine_refines_protocol [OF inv, of "example_request 2" 4100]
      engine_refines_protocol [OF lines_inv_new, of "example_request 1" 0 None 0 25 4100]
    by (simp add: example_request_def spec_read_def spec_write_def)
qed

lemma line_entry_read:
  assumes "cl_align (req_addr r) = cl_align a"
  shows "line_entry (snd (process_read r c)) a = line_read r (line_entry c a)"
proof -
  have "line_entry c (req_addr r) = line_entry c a"
    using assms by (simp add: line_entry_def split: option.split)
  then show ?thesis using assms by (simp add: line_entry_def [of "snd (process_read r c)"] ce_frame)
qed

text \<open>
  Who holds a line after a write by \<open>w\<close> followed by any reads of the line: the readers
  share it, every other node has lost its copy, and the writer still holds the data, as the
  owner when some other node has read it and exclusively modified otherwise.
\<close>

lemma engine_reads_after_write:
  assumes "lines_inv ce" and "\<forall>r \<in> set rs. cl_align (req_addr r) = cl_align (req_addr w)"
  shows "line_view (fold (\<lambda>r c. snd (process_read r c)) rs (snd (process_write w ce))) (req_addr w) =
     (\<lambda>k. if k = req_node w
          then (if \<exists>n \<in> req_node ` set rs. n \<noteq> req_node w then OWNED else MODIFIED)
          else if k \<in> req_node ` set rs then SHARED else INVALID)"
proof -
  have fold: "line_entry (fold (\<lambda>r c. snd (process_read r c)) rs c) a = fold line_read rs (line_entry c a)"
    if "\<forall>r \<in> set rs. cl_align (req_addr r) = cl_align a" for c a and rs
    using that by (induction rs arbitrary: c) (simp_all add: line_entry_read)
  have "line_entry (snd (process_write w ce)) (req_addr w) = line_write w (line_entry ce (req_addr w))"
    by (simp add: line_entry_def [of "snd (process_write _ _)"] ce_frame)
  then show ?thesis
    using engine_lines.reads_after_write [OF lines_inv_entry [OF assms(1)], of rs w "req_addr w"]
    by (simp add: line_view_def fold [OF assms(2)])
qed

lemma engine_reads_after_write_witness:
  "line_view (fold (\<lambda>r c. snd (process_read r c)) [example_request 2]
     (snd (process_write (example_request 1) (new_CoherencyEngine 0 None 0 25)))) 4100 1 = OWNED"
  using engine_reads_after_write [OF lines_inv_new, of "[example_request 2]" "example_request 1"]
  by (simp add: example_request_def)

text \<open>The nodes that have some copy of a line.\<close>

definition holders :: "DirectoryEntry \<Rightarrow> u32 set" where
  "holders e = {n. entry_view e n \<noteq> INVALID}"

lemma holders_eq:
  "entry_inv e \<Longrightarrow> holders e = de_sharer_nodes e \<union> (if de_state e \<in> {MODIFIED, OWNED} then {de_owner_node e} else {})"
  by (auto simp: holders_def entry_view_def entry_inv_def)

lemma write_entry_messages:
  assumes "entry_inv e" and "de_state e = INVALID \<longrightarrow> de_sharer_nodes e = {}"
  shows "ce_coherency_messages (engine_of (write_entry req e ce)) =
           ce_coherency_messages ce +
           of_nat (card (holders e - {req_node req}
             - (if de_state e = OWNED then {de_owner_node e} else {})))"
proof (cases "de_state e")
  case OWNED
  have "insert (de_owner_node e) (de_sharer_nodes e) - {n} - {de_owner_node e} = de_sharer_nodes e - {n}" for n
    using assms(1) OWNED by (auto simp: entry_inv_def)
  then show ?thesis using OWNED assms(1)
    by (simp add: write_entry_def write_miss_def holders_eq Let_def case_prod_unfold ce_frame)
next
  case MODIFIED
  then show ?thesis using assms(1)
    by (auto simp: write_entry_def write_miss_def holders_eq entry_inv_def Let_def case_prod_unfold ce_frame)
qed (use assms in \<open>auto simp: write_entry_def write_miss_def holders_eq entry_inv_def Let_def case_prod_unfold ce_frame\<close>)

text \<open>
  Message accounting of a write on a line that is not in the stale state (invalid with
  sharers). The number of coherency messages counted is the number of other nodes that lose
  their copy, except that for an owned line the message to its owner is sent but not counted.
\<close>

lemma write_message_count:
  assumes "lines_inv ce"
    and "line_entry ce (req_addr req) = e" and "de_state e = INVALID \<longrightarrow> de_sharer_nodes e = {}"
  shows "ce_coherency_messages (snd (process_write req ce)) =
           ce_coherency_messages ce +
           of_nat (card (holders e - {req_node req}
             - (if de_state e = OWNED then {de_owner_node e} else {})))"
proof -
  have "entry_inv e" using lines_inv_entry [OF assms(1)] assms(2) by blast
  then show ?thesis
    using assms(2,3) write_entry_messages [of e req]
    by (simp add: process_write_def Let_def case_prod_unfold ce_frame)
qed

definition example_engine :: CoherencyEngine where
  "example_engine = fold ce_step
     [CEWrite (example_request 0), CERead (example_request 1), CERead (example_request 2)]
     (new_CoherencyEngine 0 None 0 25)"

definition example_entry :: "MHSLDCacheState \<Rightarrow> u32 set \<Rightarrow> DirectoryEntry" where
  "example_entry st sharers =
     \<lparr>de_cacheline_addr = 4096, de_state = st, de_owner_node = 0, de_owner_head = 0,
      de_sharer_nodes = sharers, de_version = 1, de_last_access_time = 7, de_has_dirty_data = True\<rparr>"

lemma example_first_write:
  "line_write (example_request 0) (new_DirectoryEntry\<lparr>de_cacheline_addr := 4096\<rparr>) = example_entry MODIFIED {}"
  by (simp add: line_write_def write_entry_def write_miss_def new_DirectoryEntry_def example_entry_def
      example_request_def Let_def)

lemma example_read:
  assumes "n \<notin> sharers" and "n \<noteq> 0" and "st \<in> {MODIFIED, OWNED}"
  shows "line_read (example_request n) (example_entry st sharers) = example_entry OWNED (insert n sharers)"
  using assms by (subst line_read_simps(2)) (auto simp: entry_view_def example_entry_def example_request_def)

lemma example_engine_entry: "line_entry example_engine 4100 = example_entry OWNED {2, 1}"
proof -
  have "line_entry (snd (process_write (example_request 0) (new_CoherencyEngine 0 None 0 25))) 4100
          = example_entry MODIFIED {}"
    by (simp add: line_entry_def ce_frame new_CoherencyEngine_def example_line example_request_def)
       (simp add: example_first_write [unfolded example_request_def])
  then show ?thesis
    by (simp add: example_engine_def line_entry_read example_request_def [of 1] example_request_def [of 2])
       (simp add: example_read flip: example_request_def)
qed

lemma write_message_count_witness:
  "ce_coherency_messages (snd (process_write (example_request 5) example_engine)) =
     ce_coherency_messages example_engine + 2"
proof -
  have inv: "lines_inv example_engine" unfolding example_engine_def by (intro ce_run_lines lines_inv_new)
  have "holders (line_entry example_engine 4100) - {5} - {0} = {1, 2}"
    by (auto simp: holders_def entry_view_def example_engine_entry example_entry_def)
  then show ?thesis
    using write_message_count [OF inv refl, of "example_request 5"]
    by (simp add: example_request_def example_engine_entry example_entry_def)
qed


section \<open>Findings\<close>

lemma heads_idle_step: "heads_idle ce \<Longrightarrow> heads_idle (ce_step x ce)"
proof (cases x)
  case (CEActivateHead h c)
  then show "heads_idle ce \<Longrightarrow> ?thesis"
    by (auto simp: heads_idle_def ce_activate_head_def Let_def all_set_conv_all_nth nth_list_update)
next
  case (CEDeactivateHead h)
  then show "heads_idle ce \<Longrightarrow> ?thesis"
    by (auto simp: heads_idle_def ce_deactivate_head_def all_set_conv_all_nth nth_list_update)
qed (simp_all add: heads_idle_def ce_frame handle_remote_invalidate_def handle_remote_downgrade_def
    handle_remote_writeback_def register_fabric_link_def Let_def split: option.split)

lemma contending_none: "\<forall>h \<in> set hs. hd_total_reads h = 0 \<and> hd_total_writes h = 0 \<Longrightarrow> contending_heads hs = 0"
proof -
  have "foldl (\<lambda>n h. if hd_active h \<and> 0 < hd_total_reads h + hd_total_writes h then n + 1 else n) k hs = k"
    if "\<forall>h \<in> set hs. hd_total_reads h = 0 \<and> hd_total_writes h = 0" for k :: u32
    using that by (induction hs) auto
  then show "\<forall>h \<in> set hs. hd_total_reads h = 0 \<and> hd_total_writes h = 0 \<Longrightarrow> contending_heads hs = 0"
    by (simp add: contending_heads_def)
qed

text \<open>
  Head contention is never charged. The contention latency counts heads with recorded
  reads or writes, but no operation of the engine records any, so after every sequence of
  operations, however many heads are active and competing, the contention latency is zero.
\<close>

lemma contention_never_charged:
  "ce_contention_latency (fold ce_step xs (new_CoherencyEngine n l h b)) head = 0"
proof -
  have run: "heads_idle ce \<Longrightarrow> heads_idle (fold ce_step xs ce)" for ce
    by (induction xs arbitrary: ce) (simp_all add: heads_idle_step)
  have "heads_idle (new_CoherencyEngine n l h b)"
    by (simp add: heads_idle_def new_CoherencyEngine_def new_head_def)
  then have "contending_heads (ce_heads (fold ce_step xs (new_CoherencyEngine n l h b))) = 0"
    using run contending_none unfolding heads_idle_def by blast
  then show ?thesis by (simp add: ce_contention_latency_def Let_def)
qed

lemma write_invalid_silent:
  assumes "de_state (line_entry ce (req_addr req)) = INVALID"
  shows "ce_invalidations (snd (process_write req ce)) = ce_invalidations ce"
    and "ce_coherency_messages (snd (process_write req ce)) = ce_coherency_messages ce"
proof -
  have "engine_of (write_entry req (line_entry ce (req_addr req)) c) = c" for c
    using assms by (simp add: write_entry_def write_miss_def Let_def)
  then show "ce_invalidations (snd (process_write req ce)) = ce_invalidations ce"
    "ce_coherency_messages (snd (process_write req ce)) = ce_coherency_messages ce"
    by (simp_all add: process_write_def Let_def case_prod_unfold ce_frame)
qed


end
