(* ===== verification/MHSLD.thy ===== *)
theory MHSLD
  imports MOESI LogP
begin

text \<open>
  The multi-headed single logical device of \<open>include/cxlendpoint.h\<close> and
  \<open>src/cxlendpoint.cpp\<close> (\<open>MHSLDDevice\<close>): sixteen heads that share the device's capacity
  (pooling) and its lines (a directory like the coherency engine's, per head). The directory
  is a map; deactivation visits every entry and changes each on its own. Operations that take
  an address look the entry up in the directory, so a caller's entry is put back before they
  run. \<open>release_pool\<close>'s loop over the released lines may not end and is a partial function.
\<close>

abbreviation (input) MAX_HEADS :: u32 where "MAX_HEADS \<equiv> 16"

record MHSLDCachelineInfo =
  ci_address :: u64
  ci_sharers :: "u32 set"
  ci_owner_head :: u32
  ci_owner_state :: MHSLDCacheState
  ci_version :: u32
  ci_last_access_time :: u64
  ci_access_count :: u64
  ci_has_dirty_data :: bool

record MHSLDDevice =
  md_total_capacity :: u64
  md_num_heads :: u32
  md_base_read_latency :: double
  md_base_write_latency :: double
  md_max_bandwidth :: double
  md_heads :: "MHSLDHeadState list"
  md_directory :: "u64 \<rightharpoonup> MHSLDCachelineInfo"
  md_logp_model :: LogPModel
  md_coherency_messages :: u64
  md_invalidations :: u64
  md_downgrades :: u64
  md_writebacks :: u64

definition new_CachelineInfo :: MHSLDCachelineInfo where
  "new_CachelineInfo =
     \<lparr>ci_address = 0, ci_sharers = {}, ci_owner_head = UINT32_MAX, ci_owner_state = INVALID,
      ci_version = 0, ci_last_access_time = 0, ci_access_count = 0, ci_has_dirty_data = False\<rparr>"

definition new_MHSLDDevice ::
  "u64 \<Rightarrow> u32 \<Rightarrow> double \<Rightarrow> double \<Rightarrow> double \<Rightarrow> LogPConfig \<Rightarrow> MHSLDDevice" where
  "new_MHSLDDevice capacity num_heads read_lat write_lat bandwidth logp_cfg =
     \<lparr>md_total_capacity = capacity, md_num_heads = num_heads, md_base_read_latency = read_lat,
      md_base_write_latency = write_lat, md_max_bandwidth = bandwidth,
      md_heads = map (\<lambda>i. new_head (of_nat i)) [0..<16], md_directory = Map.empty,
      md_logp_model = new_LogPModel logp_cfg, md_coherency_messages = 0, md_invalidations = 0,
      md_downgrades = 0, md_writebacks = 0\<rparr>"

abbreviation md_head :: "MHSLDDevice \<Rightarrow> u32 \<Rightarrow> MHSLDHeadState" where
  "md_head d i \<equiv> md_heads d ! unat i"

definition upd_head :: "u32 \<Rightarrow> (MHSLDHeadState \<Rightarrow> MHSLDHeadState) \<Rightarrow> MHSLDDevice \<Rightarrow> MHSLDDevice" where
  "upd_head i f d = d\<lparr>md_heads := (md_heads d)[unat i := f (md_head d i)]\<rparr>"

definition md_inactive :: "MHSLDDevice \<Rightarrow> u32 \<Rightarrow> bool" where
  "md_inactive d i \<longleftrightarrow> MAX_HEADS \<le> i \<or> \<not> hd_active (md_head d i)"

definition rebalance_bandwidth :: "MHSLDDevice \<Rightarrow> MHSLDDevice" where
  "rebalance_bandwidth d =
     (let active_count = foldl (\<lambda>n h. if hd_active h then n + 1 else n) (0 :: u32) (md_heads d) in
      if active_count = 0 then d
      else
        let total_alloc = foldl (\<lambda>n h. if hd_active h then n + hd_allocated_capacity h else n)
                            (0 :: u64) (md_heads d) in
        d\<lparr>md_heads := map (\<lambda>h. h\<lparr>hd_bandwidth_share :=
             (if hd_active h \<and> 0 < total_alloc
              then double_of_u64 (hd_allocated_capacity h) / double_of_u64 total_alloc
              else if hd_active h then 1 / real (unat active_count) else 0)\<rparr>) (md_heads d)\<rparr>)"

definition activate_head :: "u32 \<Rightarrow> u64 \<Rightarrow> MHSLDDevice \<Rightarrow> bool \<times> MHSLDDevice" where
  "activate_head head_id capacity_alloc d =
     (if MAX_HEADS \<le> head_id then (False, d)
      else (True, rebalance_bandwidth (upd_head head_id
             (\<lambda>h. h\<lparr>hd_active := True, hd_allocated_capacity := capacity_alloc,
                    hd_used_capacity := 0\<rparr>) d)))"

text \<open>What deactivating a head does to a line.\<close>

definition drop_head :: "u32 \<Rightarrow> MHSLDCachelineInfo \<Rightarrow> MHSLDCachelineInfo" where
  "drop_head head_id i =
     (let i1 = (if ci_owner_head i = head_id
                then (if ci_owner_state i = MODIFIED then i\<lparr>ci_has_dirty_data := True\<rparr> else i)
                       \<lparr>ci_owner_head := UINT32_MAX, ci_owner_state := INVALID\<rparr>
                else i) in
      i1\<lparr>ci_sharers := ci_sharers i1 - {head_id}\<rparr>)"

definition deactivate_head :: "u32 \<Rightarrow> MHSLDDevice \<Rightarrow> MHSLDDevice" where
  "deactivate_head head_id d =
     (if MAX_HEADS \<le> head_id then d
      else
        let d1 = upd_head head_id (\<lambda>h. h\<lparr>hd_active := False, hd_bandwidth_share := 0\<rparr>) d in
        rebalance_bandwidth
          (d1\<lparr>md_directory := (\<lambda>a. map_option (drop_head head_id) (md_directory d1 a))\<rparr>))"

definition allocate_pool :: "u32 \<Rightarrow> u64 \<Rightarrow> MHSLDDevice \<Rightarrow> u64 \<times> MHSLDDevice" where
  "allocate_pool head_id s d =
     (if md_inactive d head_id then (0, d)
      else if hd_allocated_capacity (md_head d head_id) < hd_used_capacity (md_head d head_id) + s
      then (0, d)
      else
        let b = ucast head_id * (md_total_capacity d div 16);
            addr = b + hd_used_capacity (md_head d head_id) in
        (addr, upd_head head_id (\<lambda>h. h\<lparr>hd_used_capacity := hd_used_capacity h + s\<rparr>) d))"

definition get_entry :: "u64 \<Rightarrow> MHSLDDevice \<Rightarrow> MHSLDCachelineInfo option" where
  "get_entry addr d = md_directory d (cl_align addr)"

definition put_entry :: "u64 \<Rightarrow> MHSLDCachelineInfo \<Rightarrow> MHSLDDevice \<Rightarrow> MHSLDDevice" where
  "put_entry addr e d = d\<lparr>md_directory := (md_directory d)(cl_align addr \<mapsto> e)\<rparr>"

definition md_get_or_create_entry :: "u64 \<Rightarrow> MHSLDDevice \<Rightarrow> MHSLDCachelineInfo \<times> MHSLDDevice" where
  "md_get_or_create_entry addr d =
     (case get_entry addr d of
        Some e \<Rightarrow> (e, d)
      | None \<Rightarrow> let e = new_CachelineInfo\<lparr>ci_address := cl_align addr\<rparr> in (e, put_entry addr e d))"

text \<open>One iteration of \<open>release_pool\<close>'s loop, and the loop.\<close>

definition release_line :: "u32 \<Rightarrow> u64 \<Rightarrow> (u64 \<rightharpoonup> MHSLDCachelineInfo) \<Rightarrow> (u64 \<rightharpoonup> MHSLDCachelineInfo)" where
  "release_line head_id cl_addr dir =
     (case dir (cl_align cl_addr) of
        None \<Rightarrow> dir
      | Some e \<Rightarrow>
          let e1 = e\<lparr>ci_sharers := ci_sharers e - {head_id}\<rparr>;
              e2 = (if ci_owner_head e1 = head_id
                    then e1\<lparr>ci_owner_head := UINT32_MAX, ci_owner_state := INVALID\<rparr> else e1) in
          dir(cl_align cl_addr \<mapsto> e2))"

partial_function (option) release_lines ::
  "u32 \<Rightarrow> u64 \<Rightarrow> u64 \<Rightarrow> (u64 \<rightharpoonup> MHSLDCachelineInfo) \<Rightarrow> (u64 \<rightharpoonup> MHSLDCachelineInfo) option" where
  "release_lines head_id cl_addr end_addr dir =
     (if cl_addr < end_addr
      then release_lines head_id (cl_addr + CACHELINE_SIZE) end_addr (release_line head_id cl_addr dir)
      else Some dir)"

definition release_pool :: "u32 \<Rightarrow> u64 \<Rightarrow> u64 \<Rightarrow> MHSLDDevice \<Rightarrow> MHSLDDevice option" where
  "release_pool head_id addr s d =
     (if md_inactive d head_id then Some d
      else
        case release_lines head_id (cl_align addr) (addr + s) (md_directory d) of
          None \<Rightarrow> None
        | Some dir \<Rightarrow>
            Some (upd_head head_id
              (\<lambda>h. if s \<le> hd_used_capacity h then h\<lparr>hd_used_capacity := hd_used_capacity h - s\<rparr> else h)
              (d\<lparr>md_directory := dir\<rparr>)))"

definition get_pool_utilization :: "MHSLDDevice \<Rightarrow> double" where
  "get_pool_utilization d =
     (let total_used = foldl (\<lambda>n h. if hd_active h then n + hd_used_capacity h else n)
                         (0 :: u64) (md_heads d) in
      if 0 < md_total_capacity d
      then double_of_u64 total_used / double_of_u64 (md_total_capacity d) else 0)"

definition md_contention_latency :: "MHSLDDevice \<Rightarrow> u32 \<Rightarrow> double" where
  "md_contention_latency d head_id =
     (if md_inactive d head_id then 0
      else
        let contending = contending_heads (md_heads d) in
        if contending \<le> 1 then 0
        else
          let share0 = hd_bandwidth_share (md_head d head_id);
              fair_share = (if share0 \<le> 0 then 1 / real (unat contending) else share0);
              additional = md_base_read_latency d * (1 / fair_share - 1) * (3/10) in
          min additional (md_base_read_latency d * 5))"

definition calculate_fair_share_bandwidth :: "MHSLDDevice \<Rightarrow> u32 \<Rightarrow> double" where
  "calculate_fair_share_bandwidth d head_id =
     (if md_inactive d head_id then 0 else md_max_bandwidth d * hd_bandwidth_share (md_head d head_id))"


section \<open>Coherent accesses\<close>

fun md_invalidate_loop :: "u32 list \<Rightarrow> double \<Rightarrow> double \<Rightarrow> MHSLDDevice \<Rightarrow> double \<times> MHSLDDevice" where
  "md_invalidate_loop [] max_inv_latency accumulated_gap d = (max_inv_latency, d)"
| "md_invalidate_loop (sharer # sharers) max_inv_latency accumulated_gap d =
     (let c = lp_config (md_logp_model d);
          inv_latency = accumulated_gap + lp_L c + lp_o_r c;
          d1 = upd_head sharer (\<lambda>h. h\<lparr>hd_back_invalidations := hd_back_invalidations h + 1\<rparr>) d;
          d2 = d1\<lparr>md_invalidations := md_invalidations d1 + 1,
                  md_coherency_messages := md_coherency_messages d1 + 1\<rparr> in
      md_invalidate_loop sharers (max max_inv_latency inv_latency) (accumulated_gap + lp_g c) d2)"

definition md_invalidate_sharers :: "u64 \<Rightarrow> u32 \<Rightarrow> MHSLDDevice \<Rightarrow> double \<times> MHSLDDevice" where
  "md_invalidate_sharers addr except_head d =
     (case get_entry addr d of
        None \<Rightarrow> (0, d)
      | Some e \<Rightarrow>
          let to_invalidate = filter (\<lambda>sharer. hd_active (md_head d sharer))
                                (sorted_list_of_set (ci_sharers e - {except_head}));
              (max_lat, d1) = md_invalidate_loop to_invalidate 0 0 d;
              max_inv_latency = (if to_invalidate \<noteq> []
                                 then max_lat + lp_o_s (lp_config (md_logp_model d1)) else max_lat) in
          (max_inv_latency, put_entry addr (e\<lparr>ci_sharers := {}\<rparr>) d1))"

text \<open>\<open>logp_model.message_latency\<close> on the device's own model.\<close>

definition md_message_latency :: "u64 \<Rightarrow> u32 \<Rightarrow> MHSLDDevice \<Rightarrow> double \<times> MHSLDDevice" where
  "md_message_latency timestamp target d =
     (let (x, m) = message_latency timestamp target (md_logp_model d) in (x, d\<lparr>md_logp_model := m\<rparr>))"

definition md_record_message :: "u32 \<Rightarrow> double \<Rightarrow> MHSLDDevice \<Rightarrow> MHSLDDevice" where
  "md_record_message head_id latency d =
     d\<lparr>md_logp_model := record_message head_id (u64_of_double latency) (md_logp_model d)\<rparr>"

text \<open>The \<open>switch\<close> of \<open>read_with_coherency\<close>: added latency, entry and device.\<close>

definition md_read_miss ::
  "u32 \<Rightarrow> u64 \<Rightarrow> MHSLDCachelineInfo \<Rightarrow> MHSLDDevice \<Rightarrow> double \<times> MHSLDCachelineInfo \<times> MHSLDDevice" where
  "md_read_miss head_id timestamp e d =
     (case ci_owner_state e of
        INVALID \<Rightarrow>
          (0, e\<lparr>ci_sharers := insert head_id (ci_sharers e), ci_owner_state := SHARED,
                ci_owner_head := head_id\<rparr>, d)
      | SHARED \<Rightarrow> (0, e\<lparr>ci_sharers := insert head_id (ci_sharers e)\<rparr>, d)
      | OWNED \<Rightarrow>
          let (x, d1) = md_message_latency timestamp (ci_owner_head e) d in
          (x, e\<lparr>ci_sharers := insert head_id (ci_sharers e)\<rparr>,
           d1\<lparr>md_coherency_messages := md_coherency_messages d1 + 1\<rparr>)
      | _ \<Rightarrow>
          let (snoop_latency, d1) = md_message_latency timestamp (ci_owner_head e) d;
              modified = (ci_owner_state e = MODIFIED);
              e1 = (if modified then e\<lparr>ci_owner_state := OWNED\<rparr>
                    else e\<lparr>ci_sharers := insert (ci_owner_head e) (ci_sharers e), ci_owner_state := SHARED\<rparr>);
              d2 = (if modified then d1\<lparr>md_downgrades := md_downgrades d1 + 1\<rparr> else d1);
              d3 = upd_head head_id (\<lambda>h. h\<lparr>hd_coherency_stalls := hd_coherency_stalls h + 1\<rparr>) d2 in
          (snoop_latency, e1\<lparr>ci_sharers := insert head_id (ci_sharers e1)\<rparr>,
           d3\<lparr>md_coherency_messages := md_coherency_messages d3 + 1\<rparr>))"

definition read_with_coherency :: "u32 \<Rightarrow> u64 \<Rightarrow> u64 \<Rightarrow> MHSLDDevice \<Rightarrow> double \<times> MHSLDDevice" where
  "read_with_coherency head_id addr timestamp d0 =
     (if md_inactive d0 head_id then (0, d0)
      else
        let (e0, d1) = md_get_or_create_entry addr d0;
            e = e0\<lparr>ci_access_count := ci_access_count e0 + 1, ci_last_access_time := timestamp\<rparr>;
            d = put_entry addr e (upd_head head_id (\<lambda>h. h\<lparr>hd_total_reads := hd_total_reads h + 1\<rparr>) d1) in
        if ci_owner_head e = head_id \<and> ci_owner_state e \<in> {EXCLUSIVE, MODIFIED, OWNED}
        then (md_base_read_latency d + md_contention_latency d head_id, d)
        else if head_id \<in> ci_sharers e
        then (md_base_read_latency d + md_contention_latency d head_id, d)
        else
          let (x, e1, d2) = md_read_miss head_id timestamp e d;
              latency = md_base_read_latency d + x + md_contention_latency d2 head_id in
          (latency, md_record_message head_id latency (put_entry addr e1 d2)))"

text \<open>The \<open>switch\<close> of \<open>write_with_coherency\<close>: the coherency latency and the device.\<close>

definition md_write_miss :: "u32 \<Rightarrow> u64 \<Rightarrow> u64 \<Rightarrow> MHSLDCachelineInfo \<Rightarrow> MHSLDDevice \<Rightarrow> double \<times> MHSLDDevice" where
  "md_write_miss head_id addr timestamp e d =
     (case ci_owner_state e of
        INVALID \<Rightarrow> (0, d)
      | SHARED \<Rightarrow> md_invalidate_sharers addr head_id d
      | _ \<Rightarrow>
          let (x, d1) =
                (if ci_owner_head e \<noteq> head_id then
                   let (snoop_latency, d1) = md_message_latency timestamp (ci_owner_head e) d;
                       d2 = (if ci_owner_state e \<in> {MODIFIED, OWNED}
                             then d1\<lparr>md_writebacks := md_writebacks d1 + 1\<rparr> else d1);
                       d3 = upd_head (ci_owner_head e)
                              (\<lambda>h. h\<lparr>hd_back_invalidations := hd_back_invalidations h + 1\<rparr>) d2 in
                   (snoop_latency, d3\<lparr>md_coherency_messages := md_coherency_messages d3 + 1\<rparr>)
                 else (0, d));
              (y, d2) = md_invalidate_sharers addr head_id d1 in
          (x + y, d2))"

definition write_with_coherency :: "u32 \<Rightarrow> u64 \<Rightarrow> u64 \<Rightarrow> MHSLDDevice \<Rightarrow> double \<times> MHSLDDevice" where
  "write_with_coherency head_id addr timestamp d0 =
     (if md_inactive d0 head_id then (0, d0)
      else
        let (e0, d1) = md_get_or_create_entry addr d0;
            e = e0\<lparr>ci_access_count := ci_access_count e0 + 1, ci_last_access_time := timestamp,
                   ci_version := ci_version e0 + 1\<rparr>;
            d = put_entry addr e (upd_head head_id (\<lambda>h. h\<lparr>hd_total_writes := hd_total_writes h + 1\<rparr>) d1) in
        if ci_owner_head e = head_id \<and> ci_owner_state e \<in> {EXCLUSIVE, MODIFIED} then
          let d2 = put_entry addr (e\<lparr>ci_owner_state := MODIFIED, ci_has_dirty_data := True\<rparr>) d in
          (md_base_write_latency d + md_contention_latency d2 head_id, d2)
        else if ci_owner_head e = head_id \<and> ci_owner_state e = OWNED then
          let (inv_latency, d2) = md_invalidate_sharers addr head_id d;
              d3 = put_entry addr (e\<lparr>ci_sharers := {}, ci_owner_state := MODIFIED, ci_has_dirty_data := True\<rparr>) d2 in
          (md_base_write_latency d + inv_latency + md_contention_latency d3 head_id, d3)
        else
          let (coherency_latency, d2) = md_write_miss head_id addr timestamp e d;
              d3 = put_entry addr (e\<lparr>ci_owner_head := head_id, ci_owner_state := MODIFIED,
                                     ci_sharers := {}, ci_has_dirty_data := True\<rparr>) d2;
              d4 = upd_head head_id (\<lambda>h. h\<lparr>hd_coherency_stalls := hd_coherency_stalls h
                      + (if 0 < coherency_latency then 1 else 0)\<rparr>) d3;
              latency = md_base_write_latency d + coherency_latency + md_contention_latency d4 head_id in
          (latency, md_record_message head_id latency d4))"

definition atomic_with_coherency :: "u32 \<Rightarrow> u64 \<Rightarrow> u64 \<Rightarrow> MHSLDDevice \<Rightarrow> double \<times> MHSLDDevice" where
  "atomic_with_coherency head_id addr timestamp d =
     (let (latency, d1) = write_with_coherency head_id addr timestamp d;
          c = lp_config (md_logp_model d1) in
      (latency + (lp_o_s c + lp_o_r c), d1))"

definition md_downgrade_owner :: "u64 \<Rightarrow> u32 \<Rightarrow> u64 \<Rightarrow> MHSLDDevice \<Rightarrow> double \<times> MHSLDDevice" where
  "md_downgrade_owner addr requesting_head timestamp d =
     (case get_entry addr d of
        None \<Rightarrow> (0, d)
      | Some e \<Rightarrow>
          if ci_owner_head e = UINT32_MAX \<or> ci_owner_head e = requesting_head then (0, d)
          else
            let (down_latency, d1) = md_message_latency timestamp (ci_owner_head e) d;
                e1 = (if ci_owner_state e = MODIFIED
                      then e\<lparr>ci_owner_state := OWNED, ci_has_dirty_data := True\<rparr>
                      else if ci_owner_state e = EXCLUSIVE
                      then e\<lparr>ci_sharers := insert (ci_owner_head e) (ci_sharers e),
                             ci_owner_state := SHARED, ci_owner_head := UINT32_MAX\<rparr>
                      else e) in
            (down_latency,
             (put_entry addr e1 d1)\<lparr>md_downgrades := md_downgrades d1 + 1,
                                   md_coherency_messages := md_coherency_messages d1 + 1\<rparr>))"

definition writeback :: "u64 \<Rightarrow> u32 \<Rightarrow> MHSLDDevice \<Rightarrow> double \<times> MHSLDDevice" where
  "writeback addr head_id d =
     (case get_entry addr d of
        None \<Rightarrow> (0, d)
      | Some e \<Rightarrow>
          if ci_owner_head e \<noteq> head_id then (0, d)
          else
            let c = lp_config (md_logp_model d);
                dirty = ci_owner_state e \<in> {MODIFIED, OWNED};
                wb_latency = md_base_write_latency d + (if dirty then lp_o_s c + lp_L c else 0);
                e1 = (if dirty then e\<lparr>ci_has_dirty_data := False\<rparr> else e) in
            (wb_latency,
             (put_entry addr (e1\<lparr>ci_owner_state := INVALID, ci_owner_head := UINT32_MAX,
                                 ci_sharers := ci_sharers e1 - {head_id}\<rparr>) d)
               \<lparr>md_writebacks := md_writebacks d + 1\<rparr>))"

record MHSLDStats =
  mstat_coherency_messages :: u64
  mstat_invalidations :: u64
  mstat_downgrades :: u64
  mstat_writebacks :: u64
  mstat_avg_read_latency :: double
  mstat_avg_write_latency :: double
  mstat_pool_utilization :: double

definition md_get_stats :: "MHSLDDevice \<Rightarrow> MHSLDStats" where
  "md_get_stats d =
     \<lparr>mstat_coherency_messages = md_coherency_messages d, mstat_invalidations = md_invalidations d,
      mstat_downgrades = md_downgrades d, mstat_writebacks = md_writebacks d,
      mstat_avg_read_latency = md_base_read_latency d, mstat_avg_write_latency = md_base_write_latency d,
      mstat_pool_utilization = get_pool_utilization d\<rparr>"


section \<open>What the operations leave alone\<close>

named_theorems md_frame

lemma upd_head_frame [md_frame]:
  "md_directory (upd_head i f d) = md_directory d"
  "length (md_heads (upd_head i f d)) = length (md_heads d)"
  "md_total_capacity (upd_head i f d) = md_total_capacity d"
  by (simp_all add: upd_head_def)

lemma put_entry_frame [md_frame]:
  "md_directory (put_entry a e d) = (md_directory d)(cl_align a \<mapsto> e)"
  "md_heads (put_entry a e d) = md_heads d"
  "md_total_capacity (put_entry a e d) = md_total_capacity d"
  by (simp_all add: put_entry_def)

lemma md_message_frame [md_frame]:
  "md_directory (snd (md_message_latency t h d)) = md_directory d"
  "md_heads (snd (md_message_latency t h d)) = md_heads d"
  "md_directory (md_record_message h x d) = md_directory d"
  "md_heads (md_record_message h x d) = md_heads d"
  by (simp_all add: md_message_latency_def md_record_message_def Let_def case_prod_unfold)

lemma md_invalidate_loop_frame [md_frame]:
  "md_directory (snd (md_invalidate_loop xs m g d)) = md_directory d"
  "length (md_heads (snd (md_invalidate_loop xs m g d))) = length (md_heads d)"
  by (induction xs arbitrary: m g d) (simp_all add: Let_def md_frame)

lemma md_invalidate_sharers_frame [md_frame]:
  "md_directory (snd (md_invalidate_sharers a h d)) =
     (case md_directory d (cl_align a) of
        None \<Rightarrow> md_directory d
      | Some e \<Rightarrow> (md_directory d)(cl_align a \<mapsto> e\<lparr>ci_sharers := {}\<rparr>))"
  "length (md_heads (snd (md_invalidate_sharers a h d))) = length (md_heads d)"
  by (simp_all add: md_invalidate_sharers_def get_entry_def Let_def case_prod_unfold md_frame split: option.split)

text \<open>The entry of an address, created on first use, and the transition of an entry.\<close>

definition md_line :: "MHSLDDevice \<Rightarrow> u64 \<Rightarrow> MHSLDCachelineInfo" where
  "md_line d a = (case md_directory d (cl_align a) of
     Some e \<Rightarrow> e | None \<Rightarrow> new_CachelineInfo\<lparr>ci_address := cl_align a\<rparr>)"

lemma md_get_or_create_frame [md_frame]:
  "fst (md_get_or_create_entry a d) = md_line d a"
  "md_heads (snd (md_get_or_create_entry a d)) = md_heads d"
  "(md_directory (snd (md_get_or_create_entry a d)))(cl_align a \<mapsto> e) = (md_directory d)(cl_align a \<mapsto> e)"
  by (simp_all add: md_get_or_create_entry_def md_line_def get_entry_def Let_def md_frame split: option.split)

definition md_line_read :: "u32 \<times> u64 \<Rightarrow> MHSLDCachelineInfo \<Rightarrow> MHSLDCachelineInfo" where
  "md_line_read r e0 =
     (let e = e0\<lparr>ci_access_count := ci_access_count e0 + 1, ci_last_access_time := snd r\<rparr> in
      if ci_owner_head e = fst r \<and> ci_owner_state e \<in> {EXCLUSIVE, MODIFIED, OWNED} \<or> fst r \<in> ci_sharers e
      then e
      else fst (snd (md_read_miss (fst r) (snd r) e (new_MHSLDDevice 0 0 0 0 0 default_LogPConfig))))"

definition md_line_write :: "u32 \<times> u64 \<Rightarrow> MHSLDCachelineInfo \<Rightarrow> MHSLDCachelineInfo" where
  "md_line_write r e =
     e\<lparr>ci_access_count := ci_access_count e + 1, ci_last_access_time := snd r,
       ci_version := ci_version e + 1, ci_owner_head := fst r, ci_owner_state := MODIFIED,
       ci_sharers := (if ci_owner_head e = fst r \<and> ci_owner_state e \<in> {EXCLUSIVE, MODIFIED}
                      then ci_sharers e else {}),
       ci_has_dirty_data := True\<rparr>"

lemma md_read_miss_entry:
  "fst (snd (md_read_miss h t e d)) = fst (snd (md_read_miss h t e (new_MHSLDDevice 0 0 0 0 0 default_LogPConfig)))"
  by (simp add: md_read_miss_def Let_def case_prod_unfold split: MHSLDCacheState.split)

lemma md_read_miss_frame [md_frame]:
  "md_directory (snd (snd (md_read_miss h t e d))) = md_directory d"
  "length (md_heads (snd (snd (md_read_miss h t e d)))) = length (md_heads d)"
  by (simp_all add: md_read_miss_def Let_def case_prod_unfold md_frame split: MHSLDCacheState.split)

lemma md_write_miss_frame [md_frame]:
  assumes "md_directory d (cl_align a) = Some e"
  shows "(md_directory (snd (md_write_miss h a t e d)))(cl_align a \<mapsto> x) = (md_directory d)(cl_align a \<mapsto> x)"
    and "length (md_heads (snd (md_write_miss h a t e d))) = length (md_heads d)"
  using assms
  by (simp_all add: md_write_miss_def Let_def case_prod_unfold md_frame split: MHSLDCacheState.split)

lemma read_with_coherency_directory:
  assumes "\<not> md_inactive d h"
  shows "md_directory (snd (read_with_coherency h a t d)) =
     (md_directory d)(cl_align a \<mapsto> md_line_read (h, t) (md_line d a))"
  using assms
  by (auto simp: read_with_coherency_def md_line_read_def Let_def case_prod_unfold md_frame)
     (metis md_read_miss_entry)+

lemma write_with_coherency_directory:
  assumes "\<not> md_inactive d h"
  shows "md_directory (snd (write_with_coherency h a t d)) =
     (md_directory d)(cl_align a \<mapsto> md_line_write (h, t) (md_line d a))"
  using assms
  by (cases "md_line d a")
     (auto simp: write_with_coherency_def md_line_write_def Let_def case_prod_unfold md_frame)

lemma access_heads_length:
  "length (md_heads (snd (read_with_coherency h a t d))) = length (md_heads d)"
  "length (md_heads (snd (write_with_coherency h a t d))) = length (md_heads d)"
  by (simp_all add: read_with_coherency_def write_with_coherency_def Let_def case_prod_unfold md_frame)


section \<open>Lines refine the protocol\<close>

definition md_view :: "MHSLDCachelineInfo \<Rightarrow> line_view" where
  "md_view e n =
     (if ci_owner_head e = n \<and> ci_owner_state e \<in> {EXCLUSIVE, MODIFIED, OWNED} then ci_owner_state e
      else if n \<in> ci_sharers e then SHARED else INVALID)"

definition md_line_inv :: "MHSLDCachelineInfo \<Rightarrow> bool" where
  "md_line_inv e \<longleftrightarrow> ci_owner_state e \<noteq> EXCLUSIVE \<and> (ci_owner_state e = MODIFIED \<longrightarrow> ci_sharers e = {}) \<and>
     (ci_owner_state e = OWNED \<longrightarrow> ci_owner_head e \<notin> ci_sharers e)"

lemma md_line_inv_coherent: "md_line_inv e \<Longrightarrow> coherent (md_view e)"
  by (cases "ci_owner_state e") (auto simp: coherent_def md_view_def md_line_inv_def)

lemma md_line_write_view:
  "md_line_inv e \<Longrightarrow> md_view (md_line_write r e) = spec_write (fst r) (md_view e)"
  "md_line_inv e \<Longrightarrow> md_line_inv (md_line_write r e)"
  by (auto simp: md_line_write_def md_view_def md_line_inv_def spec_write_def fun_eq_iff)

lemma md_line_read_simps:
  "md_view e (fst r) \<noteq> INVALID \<Longrightarrow>
     md_line_read r e = e\<lparr>ci_access_count := ci_access_count e + 1, ci_last_access_time := snd r\<rparr>"
  "md_view e (fst r) = INVALID \<Longrightarrow> ci_owner_state e \<noteq> EXCLUSIVE \<Longrightarrow>
     md_line_read r e =
       e\<lparr>ci_access_count := ci_access_count e + 1, ci_last_access_time := snd r,
         ci_sharers := insert (fst r) (ci_sharers e),
         ci_owner_state := (case ci_owner_state e of INVALID \<Rightarrow> SHARED | MODIFIED \<Rightarrow> OWNED | s \<Rightarrow> s),
         ci_owner_head := (if ci_owner_state e = INVALID then fst r else ci_owner_head e)\<rparr>"
  by (auto simp: md_line_read_def md_read_miss_def md_view_def Let_def case_prod_unfold
      split: MHSLDCacheState.splits if_splits)

lemma md_line_read_view:
  assumes "md_line_inv e"
  shows "md_view (md_line_read r e) = spec_read (fst r) (md_view e)" and "md_line_inv (md_line_read r e)"
proof -
  let ?n = "fst r"
  have "md_view (md_line_read r e) = spec_read ?n (md_view e) \<and> md_line_inv (md_line_read r e)"
  proof (cases "md_view e ?n = INVALID")
    case True
    then have e: "?n \<notin> ci_sharers e" "ci_owner_state e \<in> {EXCLUSIVE, MODIFIED, OWNED} \<Longrightarrow> ci_owner_head e \<noteq> ?n"
      by (auto simp: md_view_def split: if_splits)
    have "ci_owner_state e \<noteq> EXCLUSIVE" using assms by (simp add: md_line_inv_def)
    note eq = md_line_read_simps(2) [OF True this]
    show ?thesis
    proof (cases "ci_owner_state e")
      case INVALID
      then show ?thesis using e assms unfolding eq spec_read_def True
        by (auto simp: md_view_def md_line_inv_def fun_eq_iff)
    qed (use e assms in \<open>auto simp: eq md_view_def md_line_inv_def spec_read_def fun_eq_iff split: if_splits\<close>)
  next
    case False
    note md_line_read_simps(1) [OF False]
    then show ?thesis using False assms by (simp add: spec_read_simps md_view_def md_line_inv_def fun_eq_iff)
  qed
  then show "md_view (md_line_read r e) = spec_read ?n (md_view e)" "md_line_inv (md_line_read r e)"
    by simp_all
qed

interpretation device_lines: moesi_directory md_line_inv md_view fst md_line_read md_line_write
  by unfold_locales (simp_all add: md_line_read_view md_line_write_view md_line_inv_coherent)


section \<open>The device under any sequence of operations\<close>

datatype MDOp =
  MDActivate u32 u64 | MDDeactivate u32 | MDAllocate u32 u64 | MDRelease u32 u64 u64
| MDRead u32 u64 u64 | MDWrite u32 u64 u64 | MDAtomic u32 u64 u64
| MDInvalidate u64 u32 | MDDowngrade u64 u32 u64 | MDWriteback u64 u32

fun md_step :: "MDOp \<Rightarrow> MHSLDDevice \<Rightarrow> MHSLDDevice option" where
  "md_step (MDActivate h c) d = Some (snd (activate_head h c d))"
| "md_step (MDDeactivate h) d = Some (deactivate_head h d)"
| "md_step (MDAllocate h s) d = Some (snd (allocate_pool h s d))"
| "md_step (MDRelease h a s) d = release_pool h a s d"
| "md_step (MDRead h a t) d = Some (snd (read_with_coherency h a t d))"
| "md_step (MDWrite h a t) d = Some (snd (write_with_coherency h a t d))"
| "md_step (MDAtomic h a t) d = Some (snd (atomic_with_coherency h a t d))"
| "md_step (MDInvalidate a h) d = Some (snd (md_invalidate_sharers a h d))"
| "md_step (MDDowngrade a h t) d = Some (snd (md_downgrade_owner a h t d))"
| "md_step (MDWriteback a h) d = Some (snd (writeback a h d))"

fun md_run :: "MDOp list \<Rightarrow> MHSLDDevice \<Rightarrow> MHSLDDevice option" where
  "md_run [] d = Some d"
| "md_run (x # xs) d = Option.bind (md_step x d) (md_run xs)"

text \<open>Lines are coherent and mention existing heads only.\<close>

definition wf_line :: "MHSLDCachelineInfo \<Rightarrow> bool" where
  "wf_line e \<longleftrightarrow> md_line_inv e \<and> (\<forall>h \<in> ci_sharers e. h < MAX_HEADS) \<and>
     (ci_owner_state e \<in> {MODIFIED, OWNED} \<longrightarrow> ci_owner_head e < MAX_HEADS)"

definition wf_directory :: "(u64 \<rightharpoonup> MHSLDCachelineInfo) \<Rightarrow> bool" where
  "wf_directory dir \<longleftrightarrow> (\<forall>a e. dir a = Some e \<longrightarrow> wf_line e)"

definition md_inv :: "MHSLDDevice \<Rightarrow> bool" where
  "md_inv d \<longleftrightarrow> length (md_heads d) = 16 \<and> wf_directory (md_directory d)"

lemma wf_directory_upd: "wf_directory dir \<Longrightarrow> wf_line e \<Longrightarrow> wf_directory (dir(a \<mapsto> e))"
  by (auto simp: wf_directory_def)

lemma wf_line_new: "wf_line (new_CachelineInfo\<lparr>ci_address := a\<rparr>)"
  by (simp add: wf_line_def md_line_inv_def new_CachelineInfo_def)

lemma md_inv_line: "md_inv d \<Longrightarrow> wf_line (md_line d a)"
  by (auto simp: md_inv_def wf_directory_def md_line_def wf_line_new split: option.split)

lemma wf_line_read:
  assumes "wf_line e" and "fst r < MAX_HEADS"
  shows "wf_line (md_line_read r e)"
proof -
  have inv: "md_line_inv (md_line_read r e)" "ci_owner_state e \<noteq> EXCLUSIVE"
    using assms(1) md_line_read_view(2) by (auto simp: wf_line_def md_line_inv_def)
  show ?thesis
    using assms inv md_line_read_simps(1) [of e r] md_line_read_simps(2) [of e r]
    by (cases "md_view e (fst r) = INVALID")
       (auto simp: wf_line_def split: MHSLDCacheState.splits)
qed

lemma wf_line_write: "wf_line e \<Longrightarrow> fst r < MAX_HEADS \<Longrightarrow> wf_line (md_line_write r e)"
  using md_line_write_view(2) [of e r] by (auto simp: wf_line_def md_line_write_def)

lemma release_line_wf: "wf_directory dir \<Longrightarrow> wf_directory (release_line h a dir)"
  by (auto simp: release_line_def Let_def wf_directory_def wf_line_def md_line_inv_def split: option.split)

lemma release_lines_wf:
  assumes "release_lines h c e dir = Some dir'" and "wf_directory dir"
  shows "wf_directory dir'"
proof -
  have "wf_directory dir \<longrightarrow> wf_directory dir'"
    by (rule release_lines.raw_induct [OF _ assms(1), of "\<lambda>h c e dir dir'. wf_directory dir \<longrightarrow> wf_directory dir'"])
       (auto simp: release_line_wf split: if_splits)
  then show ?thesis using assms(2) by blast
qed

lemma rebalance_frame [md_frame]:
  "md_directory (rebalance_bandwidth d) = md_directory d"
  "length (md_heads (rebalance_bandwidth d)) = length (md_heads d)"
  by (simp_all add: rebalance_bandwidth_def Let_def)

lemma md_access_inv:
  assumes "md_inv d"
  shows "md_inv (snd (read_with_coherency h a t d))" and "md_inv (snd (write_with_coherency h a t d))"
proof -
  have h: "h < MAX_HEADS" if "\<not> md_inactive d h" using that by (simp add: md_inactive_def not_le)
  have "wf_directory (md_directory (snd (read_with_coherency h a t d)))"
  proof (cases "md_inactive d h")
    case True
    then show ?thesis using assms by (simp add: read_with_coherency_def md_inv_def)
  next
    case False
    then show ?thesis using assms h md_inv_line [OF assms]
      by (simp add: read_with_coherency_directory wf_directory_upd wf_line_read md_inv_def)
  qed
  moreover have "wf_directory (md_directory (snd (write_with_coherency h a t d)))"
  proof (cases "md_inactive d h")
    case True
    then show ?thesis using assms by (simp add: write_with_coherency_def md_inv_def)
  next
    case False
    then show ?thesis using assms h md_inv_line [OF assms]
      by (simp add: write_with_coherency_directory wf_directory_upd wf_line_write md_inv_def)
  qed
  ultimately show "md_inv (snd (read_with_coherency h a t d))" "md_inv (snd (write_with_coherency h a t d))"
    using assms by (simp_all add: md_inv_def access_heads_length)
qed

lemma wf_line_drop_head: "wf_line e \<Longrightarrow> wf_line (drop_head h e)"
  by (auto simp: wf_line_def md_line_inv_def drop_head_def Let_def)

lemma md_heads_inv:
  assumes "md_inv d"
  shows "md_inv (snd (activate_head h c d))" "md_inv (deactivate_head h d)" "md_inv (snd (allocate_pool h s d))"
proof -
  show "md_inv (snd (activate_head h c d))" "md_inv (snd (allocate_pool h s d))"
    using assms by (simp_all add: md_inv_def activate_head_def allocate_pool_def Let_def md_frame)
  have "wf_directory (\<lambda>a. map_option (drop_head h) (md_directory d a))"
    using assms by (auto simp: md_inv_def wf_directory_def wf_line_drop_head)
  then show "md_inv (deactivate_head h d)"
    using assms by (simp add: md_inv_def deactivate_head_def Let_def md_frame)
qed

lemma wf_line_no_sharers: "wf_line e \<Longrightarrow> wf_line (e\<lparr>ci_sharers := {}\<rparr>)"
  by (auto simp: wf_line_def md_line_inv_def)

lemma wf_line_steps:
  "wf_line e \<Longrightarrow> ci_owner_state e \<noteq> EXCLUSIVE"
  "wf_line e \<Longrightarrow> ci_owner_state e = MODIFIED \<Longrightarrow> wf_line (e\<lparr>ci_owner_state := OWNED, ci_has_dirty_data := True\<rparr>)"
  "wf_line e \<Longrightarrow> wf_line (e\<lparr>ci_owner_state := INVALID, ci_owner_head := n, ci_sharers := ci_sharers e - A\<rparr>)"
  "wf_line e \<Longrightarrow> wf_line (e\<lparr>ci_has_dirty_data := b, ci_owner_state := INVALID, ci_owner_head := n,
                            ci_sharers := ci_sharers e - A\<rparr>)"
  by (auto simp: wf_line_def md_line_inv_def)

lemma md_coherency_inv:
  assumes "md_inv d"
  shows "md_inv (snd (md_invalidate_sharers a h d))" "md_inv (snd (md_downgrade_owner a h t d))"
    "md_inv (snd (writeback a h d))"
proof -
  have wf: "wf_directory (md_directory d)" "length (md_heads d) = 16" using assms by (simp_all add: md_inv_def)
  have line: "wf_line e" if "md_directory d x = Some e" for x e using wf that by (auto simp: wf_directory_def)
  show "md_inv (snd (md_invalidate_sharers a h d))"
    using wf line by (auto simp: md_inv_def md_frame wf_line_no_sharers intro!: wf_directory_upd split: option.split)
  show "md_inv (snd (md_downgrade_owner a h t d))"
    using wf unfolding md_downgrade_owner_def get_entry_def Let_def case_prod_unfold
    by (auto simp: md_inv_def md_frame wf_line_steps dest!: line intro!: wf_directory_upd split: option.split)
  show "md_inv (snd (writeback a h d))"
    using wf unfolding writeback_def get_entry_def Let_def
    by (auto simp: md_inv_def md_frame wf_line_steps dest!: line intro!: wf_directory_upd split: option.split)
qed

lemma release_pool_inv: "md_inv d \<Longrightarrow> release_pool h a s d = Some d' \<Longrightarrow> md_inv d'"
  by (auto simp: release_pool_def md_inv_def md_frame dest: release_lines_wf split: if_splits option.splits)

lemma md_step_inv: "md_inv d \<Longrightarrow> md_step x d = Some d' \<Longrightarrow> md_inv d'"
  by (cases x) (auto simp: atomic_with_coherency_def case_prod_unfold Let_def
      intro: md_access_inv md_heads_inv md_coherency_inv release_pool_inv)

lemma md_run_inv: "md_inv d \<Longrightarrow> md_run xs d = Some d' \<Longrightarrow> md_inv d'"
  by (induction xs arbitrary: d) (auto simp: bind_eq_Some_conv dest: md_step_inv)

lemma md_inv_new: "md_inv (new_MHSLDDevice c n r w b l)"
  by (simp add: md_inv_def wf_directory_def new_MHSLDDevice_def)

text \<open>
  C15: Coherence and memory safety of the shared device. After any sequence of operations
  (activations, deactivations, allocations, releases, accesses, protocol messages) on a new
  device, on every line at most one head may write and then no other head has a copy; and
  every head recorded in the directory is one of the sixteen, so that the accesses to the head
  table by sharer or owner stay within its bounds.
\<close>

theorem device_coherent:
  assumes "md_run xs (new_MHSLDDevice c n rl wl b l) = Some d"
  shows "length (md_heads d) = 16 \<and>
         (\<forall>a e. md_directory d a = Some e \<longrightarrow>
            coherent (md_view e) \<and> (\<forall>h. md_view e h \<noteq> INVALID \<longrightarrow> unat h < length (md_heads d)))"
proof -
  have inv: "md_inv d" using md_run_inv [OF md_inv_new assms] .
  have "coherent (md_view e) \<and> (\<forall>h. md_view e h \<noteq> INVALID \<longrightarrow> unat h < 16)" if "md_directory d a = Some e" for a e
  proof -
    have "wf_line e" using inv that by (auto simp: md_inv_def wf_directory_def)
    then show ?thesis
      by (auto simp: wf_line_def md_line_inv_coherent md_view_def md_line_inv_def word_less_nat_alt split: if_splits)
  qed
  then show ?thesis using inv by (simp add: md_inv_def)
qed

definition example_device :: MHSLDDevice where
  "example_device = snd (activate_head 1 64 (snd (activate_head 0 64 (new_MHSLDDevice 4096 2 100 150 32 default_LogPConfig))))"

lemma example_run:
  "md_run [MDActivate 0 64, MDActivate 1 64] (new_MHSLDDevice 4096 2 100 150 32 default_LogPConfig) = Some example_device"
  by (simp add: example_device_def)

theorem device_coherent_witness: "length (md_heads example_device) = 16"
  using device_coherent [OF example_run] by simp

definition device_view :: "MHSLDDevice \<Rightarrow> u64 \<Rightarrow> line_view" where
  "device_view d a = md_view (md_line d a)"

lemma device_view_upd:
  assumes "md_directory d' = (md_directory d)(cl_align a \<mapsto> e)"
  shows "device_view d' b = (if cl_align b = cl_align a then md_view e else device_view d b)"
  using assms by (simp add: device_view_def md_line_def)


lemma example_device_facts:
  "md_inv example_device" "\<not> md_inactive example_device 1"
proof -
  show "md_inv example_device" by (rule md_run_inv [OF md_inv_new example_run])
  have "hd_active (md_head (snd (activate_head 1 64 d)) 1)" if "length (md_heads d) = 16" for d
    using that by (simp add: activate_head_def rebalance_bandwidth_def Let_def upd_head_def word_le_nat_alt)
  then show "\<not> md_inactive example_device 1"
    using md_heads_inv(1) [OF md_inv_new]
    by (simp add: md_inactive_def example_device_def md_inv_def word_le_nat_alt)
qed



section \<open>Releasing pool memory\<close>

lemma release_lines_returns:
  assumes "unat e \<le> 18446744073709551552" and "64 dvd unat c" and "unat c \<le> 18446744073709551552"
  shows "\<exists>dir'. release_lines h c e dir = Some dir'"
  using assms(2,3)
proof (induction "18446744073709551616 - unat c" arbitrary: c dir rule: less_induct)
  case less
  show ?case
  proof (cases "c < e")
    case True
    then have lt: "unat c < unat e" by (simp add: word_less_nat_alt)
    obtain k where k: "unat c = 64 * k" using less.prems(1) by (elim dvdE)
    then have "64 * k < 64 * 288230376151711743" using lt assms(1) by simp
    then have fit: "unat c + 64 \<le> 18446744073709551552" using k by simp
    then have c: "unat (c + 64) = unat c + 64" by (subst unat_add_u64) simp_all
    have "\<exists>dir'. release_lines h (c + 64) e (release_line h c dir) = Some dir'"
      using c fit less.prems(1) by (intro less.hyps) simp_all
    then show ?thesis using True by (subst release_lines.simps) simp
  qed (simp add: release_lines.simps)
qed

lemma release_lines_diverges:
  assumes "18446744073709551552 < unat e" and "64 dvd unat c"
  shows "release_lines h c e dir = None"
proof (rule ccontr)
  assume "release_lines h c e dir \<noteq> None"
  then obtain dir' where some: "release_lines h c e dir = Some dir'" by blast
  have aligned_lt: "unat x \<le> 18446744073709551552" if "64 dvd unat x" for x :: u64
  proof -
    obtain k where k: "unat x = 64 * k" using \<open>64 dvd unat x\<close> by (elim dvdE)
    have "unat x < 18446744073709551616" by simp
    then have "64 * k < 64 * 288230376151711744" using k by simp
    then show ?thesis using k by simp
  qed
  have step: "64 dvd unat (x + 64)" if "64 dvd unat x" for x :: u64
  proof -
    have "unat (x + 64) = (unat x + 64) mod 18446744073709551616" by (simp add: unat_word_ariths)
    moreover have "(64 :: nat) dvd 18446744073709551616" by simp
    ultimately show ?thesis using that by (simp add: dvd_mod)
  qed
  have "\<not> (64 dvd unat c \<and> 18446744073709551552 < unat e)"
  proof (rule release_lines.raw_induct [OF _ some,
          of "\<lambda>h c e dir dir'. \<not> (64 dvd unat c \<and> 18446744073709551552 < unat e)"])
    fix f h and c e :: u64 and dir y
    assume IH: "\<And>h c e dir y. f h c e dir = Some y \<Longrightarrow> \<not> (64 dvd unat c \<and> 18446744073709551552 < unat e)"
      and eq: "(if c < e then f h (c + 64) e (release_line h c dir) else Some dir) = Some y"
    show "\<not> (64 dvd unat c \<and> 18446744073709551552 < unat e)"
    proof (cases "c < e")
      case True
      then have "f h (c + 64) e (release_line h c dir) = Some y" using eq by simp
      from IH [OF this] show ?thesis using step [of c] by blast
    next
      case False
      then show ?thesis using aligned_lt [of c] by (auto simp: word_less_nat_alt)
    qed
  qed
  then show False using assms by simp
qed




section \<open>Pool allocation\<close>

text \<open>The ranges a sequence of allocation requests is granted (a request is granted when the
  head is active and its quota test passes).\<close>

definition can_allocate :: "MHSLDDevice \<Rightarrow> u32 \<Rightarrow> u64 \<Rightarrow> bool" where
  "can_allocate d h s \<longleftrightarrow> \<not> md_inactive d h \<and>
     \<not> hd_allocated_capacity (md_head d h) < hd_used_capacity (md_head d h) + s"

fun pool_grants :: "(u32 \<times> u64) list \<Rightarrow> MHSLDDevice \<Rightarrow> (u64 \<times> u64) list" where
  "pool_grants [] d = []"
| "pool_grants ((h, s) # rs) d =
     (let (a, d') = allocate_pool h s d in
      (if can_allocate d h s then [(a, s)] else []) @ pool_grants rs d')"

text \<open>Every active head's quota fits its sixteenth of the device and is not exceeded.\<close>

definition quota_ok :: "MHSLDDevice \<Rightarrow> bool" where
  "quota_ok d \<longleftrightarrow> length (md_heads d) = 16 \<and>
     (\<forall>h < 16. hd_active (md_heads d ! h) \<longrightarrow>
        unat (hd_used_capacity (md_heads d ! h)) \<le> unat (hd_allocated_capacity (md_heads d ! h)) \<and>
        unat (hd_allocated_capacity (md_heads d ! h)) \<le> unat (md_total_capacity d) div 16)"

definition head_base :: "MHSLDDevice \<Rightarrow> nat \<Rightarrow> nat" where
  "head_base d h = h * (unat (md_total_capacity d) div 16)"

definition used_bytes :: "MHSLDDevice \<Rightarrow> nat set" where
  "used_bytes d = (\<Union>h \<in> {h. h < 16 \<and> hd_active (md_heads d ! h)}.
     {head_base d h ..< head_base d h + unat (hd_used_capacity (md_heads d ! h))})"

lemma head_regions_disjoint:
  fixes h k R u v :: nat
  assumes "h \<noteq> k" and "u \<le> R" and "v \<le> R"
  shows "{h * R ..< h * R + u} \<inter> {k * R ..< k * R + v} = {}"
proof -
  have "h * R + R \<le> k * R \<or> k * R + R \<le> h * R"
    using assms(1) by (metis add.commute linorder_neqE_nat mult_Suc mult_le_mono1 Suc_leI)
  then show ?thesis using assms(2,3) by auto
qed

lemma allocate_pool_granted:
  assumes "quota_ok d" and "can_allocate d h s" and "unat s + unat (md_total_capacity d) < 18446744073709551616"
    and "allocate_pool h s d = (a, d')"
  shows "unat a = head_base d (unat h) + unat (hd_used_capacity (md_head d h))"
    and "unat a + unat s < 18446744073709551616"
    and "quota_ok d'" and "md_total_capacity d' = md_total_capacity d"
    and "used_bytes d' = used_bytes d \<union> range_set a s" and "used_bytes d \<inter> range_set a s = {}"
proof -
  let ?R = "unat (md_total_capacity d) div 16" and ?u = "hd_used_capacity (md_head d h)"
  let ?c = "hd_allocated_capacity (md_head d h)"
  have h: "unat h < 16" "hd_active (md_head d h)"
    using assms(2) by (simp_all add: can_allocate_def md_inactive_def not_le word_less_nat_alt)
  have len: "length (md_heads d) = 16" and q: "unat ?u \<le> unat ?c" "unat ?c \<le> ?R"
    using assms(1) h by (auto simp: quota_ok_def)
  have tot: "16 * ?R \<le> unat (md_total_capacity d)" by simp
  have us: "unat (?u + s) = unat ?u + unat s" using q assms(3) by (intro unat_add_u64) linarith
  then have fit: "unat ?u + unat s \<le> unat ?c"
    using assms(2) by (simp add: can_allocate_def word_less_nat_alt)
  have base: "unat (ucast h * (md_total_capacity d div 16)) = head_base d (unat h)"
  proof -
    have "unat (ucast h :: u64) = unat h"
      using h(1) by (simp add: unsigned_ucast_eq take_bit_nat_eq_self)
    moreover have "unat (md_total_capacity d div 16) = ?R" by (simp add: unat_div)
    moreover have "unat h * ?R \<le> 15 * ?R" using h(1) by (intro mult_le_mono1) simp
    then have "unat h * ?R < 18446744073709551616" using tot assms(3) by linarith
    ultimately show ?thesis by (subst unat_mult_u64) (simp_all add: head_base_def)
  qed
  have bound: "head_base d (unat h) + ?R \<le> unat (md_total_capacity d)"
  proof -
    have "Suc (unat h) * ?R \<le> 16 * ?R" using h(1) by (intro mult_le_mono1) simp
    then show ?thesis using tot by (simp only: head_base_def mult_Suc)
  qed
  have a: "a = ucast h * (md_total_capacity d div 16) + ?u"
    and d': "d' = upd_head h (\<lambda>h. h\<lparr>hd_used_capacity := hd_used_capacity h + s\<rparr>) d"
    using assms(2,4) by (auto simp: allocate_pool_def can_allocate_def Let_def)
  show ua: "unat a = head_base d (unat h) + unat ?u"
  proof -
    have "unat (ucast h * (md_total_capacity d div 16)) + unat ?u < 18446744073709551616"
      using base bound q assms(3) by linarith
    then show ?thesis unfolding a base [symmetric] by (rule unat_add_u64)
  qed
  show "unat a + unat s < 18446744073709551616" using ua bound q fit assms(3) by linarith
  have nth: "md_heads d' ! k = (if k = unat h then (md_head d h)\<lparr>hd_used_capacity := ?u + s\<rparr> else md_heads d ! k)"
    if "k < 16" for k using that len by (simp add: d' upd_head_def nth_list_update)
  show tc: "md_total_capacity d' = md_total_capacity d" by (simp add: d' md_frame)
  show "quota_ok d'"
    using assms(1) nth us fit q(2) tc by (auto simp: quota_ok_def d' md_frame)
  have hb: "head_base d' = head_base d" by (simp add: head_base_def fun_eq_iff tc)
  have rs: "range_set a s = {head_base d (unat h) + unat ?u ..< head_base d (unat h) + unat ?u + unat s}"
    by (simp add: range_set_def ua)
  show "used_bytes d' = used_bytes d \<union> range_set a s"
  proof -
    let ?A = "{k. k < 16 \<and> hd_active (md_heads d ! k)}"
    have A: "{k. k < 16 \<and> hd_active (md_heads d' ! k)} = ?A" using h by (auto simp: nth split: if_splits)
    have "{head_base d k ..< head_base d k + unat (hd_used_capacity (md_heads d' ! k))} =
          {head_base d k ..< head_base d k + unat (hd_used_capacity (md_heads d ! k))}
            \<union> (if k = unat h then range_set a s else {})" if "k \<in> ?A" for k
      using that us by (auto simp: nth rs)
    then have "used_bytes d' = (\<Union>k \<in> ?A. {head_base d k ..< head_base d k + unat (hd_used_capacity (md_heads d ! k))}
            \<union> (if k = unat h then range_set a s else {}))"
      unfolding used_bytes_def hb A by (rule SUP_cong [OF refl])
    also have "\<dots> = used_bytes d \<union> range_set a s"
      unfolding used_bytes_def using h by (auto simp del: in_range_set split: if_splits)
    finally show ?thesis .
  qed
  have "{head_base d k ..< head_base d k + unat (hd_used_capacity (md_heads d ! k))} \<inter> range_set a s = {}"
    if "k < 16" "hd_active (md_heads d ! k)" for k
  proof (cases "k = unat h")
    case True
    then show ?thesis by (auto simp: rs)
  next
    case False
    have "unat (hd_used_capacity (md_heads d ! k)) \<le> ?R" using assms(1) that by (auto simp: quota_ok_def)
    then show ?thesis
      using head_regions_disjoint [OF False, of _ ?R "unat ?u + unat s"] fit q(2) unfolding rs head_base_def
      by fastforce
  qed
  then show "used_bytes d \<inter> range_set a s = {}" unfolding used_bytes_def by blast
qed

lemma pool_grants_outside:
  assumes "quota_ok d" and "\<forall>(h, s) \<in> set rs. s \<noteq> 0 \<and> unat s + unat (md_total_capacity d) < 18446744073709551616"
  shows "disjoint_on (\<lambda>(a, s). range_set a s) (pool_grants rs d) \<and>
         (\<forall>(a, s) \<in> set (pool_grants rs d). s \<noteq> 0 \<and> used_bytes d \<inter> range_set a s = {})"
  using assms
proof (induction rs arbitrary: d)
  case (Cons r rs)
  obtain h s where r: "r = (h, s)" by fastforce
  obtain a d' where al: "allocate_pool h s d = (a, d')" by fastforce
  have s: "s \<noteq> 0" "unat s + unat (md_total_capacity d) < 18446744073709551616"
    using Cons.prems(2) by (auto simp: r)
  show ?case
  proof (cases "can_allocate d h s")
    case True
    note g = allocate_pool_granted [OF Cons.prems(1) True s(2) al]
    have IH: "disjoint_on (\<lambda>(a, s). range_set a s) (pool_grants rs d')"
      "\<forall>(a, s) \<in> set (pool_grants rs d'). s \<noteq> 0 \<and> used_bytes d' \<inter> range_set a s = {}"
      using Cons.IH [OF g(3)] Cons.prems(2) g(4) by auto
    then have free: "\<forall>(b, t) \<in> set (pool_grants rs d'). range_set a s \<inter> range_set b t = {} \<and> used_bytes d \<inter> range_set b t = {}"
      unfolding g(5) by blast
    have "range_set a s \<noteq> {}" using s(1) by (simp add: range_set_empty_iff)
    then have "(a, s) \<notin> set (pool_grants rs d')" using free by blast
    then have "disjoint_on (\<lambda>(a, s). range_set a s) ((a, s) # pool_grants rs d')"
      using IH(1) free unfolding disjoint_on_Cons by auto
    then show ?thesis using True g(6) s(1) IH(2) free by (auto simp: r al)
  next
    case False
    then have "d' = d" using al by (auto simp: allocate_pool_def can_allocate_def Let_def split: if_splits)
    then show ?thesis using False Cons by (simp add: r al)
  qed
qed simp


lemma quota_ok_new: "quota_ok (new_MHSLDDevice c n r w b l)"
  by (simp add: quota_ok_def new_MHSLDDevice_def new_head_def)

lemma rebalance_nth:
  assumes "k < length (md_heads d)"
  shows "\<exists>x. md_heads (rebalance_bandwidth d) ! k = (md_heads d ! k)\<lparr>hd_bandwidth_share := x\<rparr>"
proof (cases "foldl (\<lambda>n h. if hd_active h then n + 1 else n) (0 :: u32) (md_heads d) = 0")
  case True
  then show ?thesis by (intro exI [of _ "hd_bandwidth_share (md_heads d ! k)"]) (simp add: rebalance_bandwidth_def)
next
  case False
  then show ?thesis using assms by (auto simp: rebalance_bandwidth_def Let_def)
qed

lemma quota_ok_rebalance: "quota_ok d \<Longrightarrow> quota_ok (rebalance_bandwidth d)"
proof -
  assume q: "quota_ok d"
  have "md_total_capacity (rebalance_bandwidth d) = md_total_capacity d"
    by (simp add: rebalance_bandwidth_def Let_def)
  moreover have "hd_active (md_heads (rebalance_bandwidth d) ! k) = hd_active (md_heads d ! k)"
    "hd_used_capacity (md_heads (rebalance_bandwidth d) ! k) = hd_used_capacity (md_heads d ! k)"
    "hd_allocated_capacity (md_heads (rebalance_bandwidth d) ! k) = hd_allocated_capacity (md_heads d ! k)"
    if "k < 16" for k
    using rebalance_nth [of k d] q that by (auto simp: quota_ok_def)
  ultimately show ?thesis using q by (simp add: quota_ok_def md_frame)
qed

lemma quota_ok_activate:
  assumes "quota_ok d" and "unat c \<le> unat (md_total_capacity d) div 16"
  shows "quota_ok (snd (activate_head h c d))"
proof (cases "MAX_HEADS \<le> h")
  case False
  have "quota_ok (upd_head h (\<lambda>h. h\<lparr>hd_active := True, hd_allocated_capacity := c, hd_used_capacity := 0\<rparr>) d)"
    using assms False by (auto simp: quota_ok_def upd_head_def nth_list_update not_le word_less_nat_alt)
  then show ?thesis using False by (simp add: activate_head_def quota_ok_rebalance)
qed (simp add: activate_head_def assms(1))

lemma activate_total [simp]: "md_total_capacity (snd (activate_head h c d)) = md_total_capacity d"
  by (simp add: activate_head_def rebalance_bandwidth_def Let_def md_frame)

lemma example_device_quota: "quota_ok example_device" "md_total_capacity example_device = 4096"
proof -
  have cap: "md_total_capacity (new_MHSLDDevice 4096 2 100 150 32 default_LogPConfig) = 4096"
    by (simp add: new_MHSLDDevice_def)
  show "md_total_capacity example_device = 4096" by (simp add: example_device_def cap)
  show "quota_ok example_device"
    unfolding example_device_def by (intro quota_ok_activate quota_ok_new) (simp_all add: cap)
qed


text \<open>
  The quota test of \<open>allocate_pool\<close> can be bypassed: the sum of the used capacity and the
  request wraps at 64 bits. An active head that has used some capacity is granted a request of
  the two's complement of it, far beyond its quota, and its used capacity goes back to zero, so
  that its next allocations return addresses it was given before.
\<close>

lemma quota_check_wraps:
  assumes "md_inv d" and "\<not> md_inactive d h" and "hd_used_capacity (md_head d h) = u" and "u \<noteq> 0"
  shows "can_allocate d h (- u) \<and>
         unat (- u) = 18446744073709551616 - unat u \<and>
         hd_used_capacity (md_head (snd (allocate_pool h (- u) d)) h) = 0"
proof -
  have can: "can_allocate d h (- u)" using assms(2,3) by (simp add: can_allocate_def)
  have "unat h < length (md_heads d)"
    using assms(1,2) by (simp add: md_inv_def md_inactive_def not_le word_less_nat_alt)
  then have "hd_used_capacity (md_head (snd (allocate_pool h (- u) d)) h) = 0"
    using can assms(3) by (simp add: allocate_pool_def can_allocate_def Let_def upd_head_def)
  then show ?thesis using can assms(4) by (simp add: unat_uminus_u64)
qed

definition example_used :: MHSLDDevice where
  "example_used = example_device\<lparr>md_heads := replicate 16
     ((new_head 0)\<lparr>hd_active := True, hd_allocated_capacity := 64, hd_used_capacity := 32\<rparr>)\<rparr>"

lemma example_used_facts:
  "md_inv example_used" "\<not> md_inactive example_used 1" "hd_used_capacity (md_head example_used 1) = 32"
  using example_device_facts(1)
  by (simp_all add: example_used_def md_inv_def md_inactive_def word_le_nat_alt)

lemma quota_check_wraps_witness:
  "can_allocate example_used 1 (- 32)"
  using quota_check_wraps [OF example_used_facts] by simp

end
