(* ===== verification/CXL_Expander.thy ===== *)
theory CXL_Expander
  imports Prelude "HOL-Library.AList"
begin

text \<open>
  The memory expander of \<open>include/cxlendpoint.h\<close> and \<open>src/cxlendpoint.cpp\<close>
  (\<open>CXLMemExpander\<close>): its table of recent accesses with the address caches derived from it,
  the request queue and in-flight requests under credit flow control, the pipeline latency and
  the bandwidth penalty. The in-flight map is an association list with distinct keys. Coin
  flips of \<open>free_stats\<close> come from the random number generator and are an argument.
\<close>

abbreviation (input) MAX_QUEUE_SIZE :: nat where "MAX_QUEUE_SIZE \<equiv> 64"
abbreviation (input) INITIAL_CREDITS :: u64 where "INITIAL_CREDITS \<equiv> 2"

record occupation_info =
  occ_timestamp :: u64
  occ_address :: u64
  occ_access_count :: u64

record CXLRequest =
  rq_timestamp :: u64
  rq_address :: u64
  rq_tid :: u64
  rq_is_read :: bool
  rq_is_write :: bool
  rq_issue_time :: u64
  rq_complete_time :: u64

record BandwidthModelConfig =
  bw_read_peak_gbps :: double
  bw_write_peak_gbps :: double
  bw_mixed_peak_gbps :: double
  bw_knee_utilization :: double
  bw_saturation_utilization :: double
  bw_low_utilization_slope :: double
  bw_max_penalty_ns :: double
  bw_min_window_ns :: u64
  bw_calibrated_from_mlc :: bool

record CXLMemExpanderEvent =
  ev_load :: u64
  ev_store :: u64
  ev_migrate_in :: u64
  ev_migrate_out :: u64
  ev_hit_old :: u64

record AddressRange =
  ar_start :: u64
  ar_end :: u64

record CXLMemExpander =
  ex_bandwidth_read :: double
  ex_bandwidth_write :: double
  ex_latency_read :: double
  ex_latency_write :: double
  ex_capacity :: u64
  ex_occupation :: "occupation_info list"
  ex_address_cache :: "u64 set"
  ex_cache_valid :: bool
  ex_counter :: CXLMemExpanderEvent
  ex_last_counter :: CXLMemExpanderEvent
  ex_bandwidth_model :: BandwidthModelConfig
  ex_request_queue :: "CXLRequest list"
  ex_read_credits :: u64
  ex_write_credits :: u64
  ex_in_flight :: "(u64 \<times> CXLRequest) list"
  ex_frontend_latency :: double
  ex_forward_latency :: double
  ex_response_latency :: double
  ex_epoch :: int
  ex_last_timestamp :: u64
  ex_id :: int
  ex_address_ranges :: "AddressRange list"

definition clamp :: "double \<Rightarrow> double \<Rightarrow> double \<Rightarrow> double" where
  "clamp v lo hi = (if v < lo then lo else if hi < v then hi else v)"

definition default_bandwidth_model :: BandwidthModelConfig where
  "default_bandwidth_model =
     \<lparr>bw_read_peak_gbps = 50, bw_write_peak_gbps = 50, bw_mixed_peak_gbps = 50,
      bw_knee_utilization = 80/100, bw_saturation_utilization = 98/100,
      bw_low_utilization_slope = 5/100, bw_max_penalty_ns = 5000, bw_min_window_ns = 100000,
      bw_calibrated_from_mlc = False\<rparr>"

definition normalize_bandwidth_model :: "BandwidthModelConfig \<Rightarrow> BandwidthModelConfig" where
  "normalize_bandwidth_model c =
     (let rd = max (1/1000) (bw_read_peak_gbps c); wr = max (1/1000) (bw_write_peak_gbps c);
          mixed0 = (if bw_mixed_peak_gbps c \<le> 0 then 2 / (1 / rd + 1 / wr) else bw_mixed_peak_gbps c);
          knee = clamp (bw_knee_utilization c) (10/100) (95/100) in
      c\<lparr>bw_read_peak_gbps := rd, bw_write_peak_gbps := wr,
        bw_mixed_peak_gbps := max (1/1000) mixed0, bw_knee_utilization := knee,
        bw_saturation_utilization := clamp (bw_saturation_utilization c) (knee + 1/100) (995/1000),
        bw_low_utilization_slope := clamp (bw_low_utilization_slope c) 0 1,
        bw_max_penalty_ns := max 0 (bw_max_penalty_ns c),
        bw_min_window_ns := max 1000 (bw_min_window_ns c)\<rparr>)"

definition interpolate_peak_bandwidth :: "BandwidthModelConfig \<Rightarrow> double \<Rightarrow> double" where
  "interpolate_peak_bandwidth m read_ratio =
     (let mixed_peak = bw_mixed_peak_gbps m in
      if 95/100 \<le> read_ratio then bw_read_peak_gbps m
      else if read_ratio \<le> 5/100 then bw_write_peak_gbps m
      else if 1/2 \<le> read_ratio
      then mixed_peak + (read_ratio - 1/2) / (1/2) * (bw_read_peak_gbps m - mixed_peak)
      else bw_write_peak_gbps m + read_ratio / (1/2) * (mixed_peak - bw_write_peak_gbps m))"

definition calculate_mlc_bandwidth_penalty ::
  "BandwidthModelConfig \<Rightarrow> u64 \<Rightarrow> u64 \<Rightarrow> u64 \<Rightarrow> double \<Rightarrow> double \<Rightarrow> double \<Rightarrow> double" where
  "calculate_mlc_bandwidth_penalty m access_count first_timestamp last_timestamp read_ratio
     read_latency_ns write_latency_ns =
     (if access_count = 0 then 0
      else
        let observed_window_ns = (if first_timestamp < last_timestamp
                                  then last_timestamp - first_timestamp else 0);
            window_ns = double_of_u64 (max observed_window_ns (bw_min_window_ns m));
            observed_gbps = double_of_u64 (access_count * CACHELINE_SIZE) / window_ns;
            peak_gbps = max (1/1000) (interpolate_peak_bandwidth m read_ratio);
            utilization = observed_gbps / peak_gbps in
        if utilization \<le> 0 then 0
        else
          let transfer = 64 / peak_gbps;
              base_latency_ns = read_latency_ns * read_ratio + write_latency_ns * (1 - read_ratio);
              p0 = transfer * utilization * bw_low_utilization_slope m;
              p1 = (if bw_knee_utilization m < utilization then
                      let clipped = min utilization (bw_saturation_utilization m);
                          knee_span = max (1/1000) (bw_saturation_utilization m - bw_knee_utilization m);
                          knee_progress = (clipped - bw_knee_utilization m) / knee_span;
                          queue_multiplier = (clipped / max (1/1000) (1 - clipped))
                            * knee_progress * knee_progress in
                      p0 + transfer * queue_multiplier
                    else p0);
              p2 = (if bw_saturation_utilization m < utilization then
                      p1 + base_latency_ns * ((utilization - bw_saturation_utilization m)
                             / max (1/1000) (1 - bw_saturation_utilization m))
                    else p1);
              dynamic_cap = max (bw_max_penalty_ns m) (base_latency_ns * 10) in
          clamp p2 0 dynamic_cap)"

definition no_events :: CXLMemExpanderEvent where
  "no_events = \<lparr>ev_load = 0, ev_store = 0, ev_migrate_in = 0, ev_migrate_out = 0, ev_hit_old = 0\<rparr>"

definition new_CXLMemExpander :: "int \<Rightarrow> int \<Rightarrow> int \<Rightarrow> int \<Rightarrow> int \<Rightarrow> int \<Rightarrow> CXLMemExpander" where
  "new_CXLMemExpander read_bw write_bw read_lat write_lat i capacity =
     (let rd = max (1/1000) (real_of_int read_bw); wr = max (1/1000) (real_of_int write_bw) in
      \<lparr>ex_bandwidth_read = real_of_int read_bw, ex_bandwidth_write = real_of_int write_bw,
       ex_latency_read = real_of_int read_lat, ex_latency_write = real_of_int write_lat,
       ex_capacity = word_of_int capacity, ex_occupation = [], ex_address_cache = {},
       ex_cache_valid = False, ex_counter = no_events, ex_last_counter = no_events,
       ex_bandwidth_model = default_bandwidth_model
         \<lparr>bw_read_peak_gbps := rd, bw_write_peak_gbps := wr, bw_mixed_peak_gbps := 2 / (1 / rd + 1 / wr)\<rparr>,
       ex_request_queue = [], ex_read_credits = INITIAL_CREDITS, ex_write_credits = INITIAL_CREDITS,
       ex_in_flight = [], ex_frontend_latency = 10, ex_forward_latency = 15, ex_response_latency = 20,
       ex_epoch = 0, ex_last_timestamp = 0, ex_id = i, ex_address_ranges = []\<rparr>)"

definition configure_bandwidth_model :: "BandwidthModelConfig \<Rightarrow> CXLMemExpander \<Rightarrow> CXLMemExpander" where
  "configure_bandwidth_model c x = x\<lparr>ex_bandwidth_model := normalize_bandwidth_model c\<rparr>"


section \<open>Address caches\<close>

definition update_address_cache :: "CXLMemExpander \<Rightarrow> CXLMemExpander" where
  "update_address_cache x =
     (if ex_cache_valid x then x
      else x\<lparr>ex_address_cache := set (map occ_address (ex_occupation x)), ex_cache_valid := True\<rparr>)"

definition invalidate_cache :: "CXLMemExpander \<Rightarrow> CXLMemExpander" where
  "invalidate_cache x = x\<lparr>ex_cache_valid := False\<rparr>"

text \<open>The loop that merges consecutive addresses into ranges, with the current range.\<close>

fun merge_ranges :: "AddressRange \<Rightarrow> occupation_info list \<Rightarrow> AddressRange list" where
  "merge_ranges current [] = [current]"
| "merge_ranges current (occ # rest) =
     (if occ_address occ = ar_end current + 1
      then merge_ranges (current\<lparr>ar_end := occ_address occ\<rparr>) rest
      else current # merge_ranges \<lparr>ar_start = occ_address occ, ar_end = occ_address occ\<rparr> rest)"

definition update_range_cache :: "CXLMemExpander \<Rightarrow> CXLMemExpander" where
  "update_range_cache x =
     (if ex_cache_valid x then x
      else
        let sorted_occ = sort_key occ_address (ex_occupation x);
            ranges = (case sorted_occ of [] \<Rightarrow> []
                      | o1 # rest \<Rightarrow> merge_ranges \<lparr>ar_start = occ_address o1, ar_end = occ_address o1\<rparr> rest) in
        x\<lparr>ex_occupation := sorted_occ, ex_address_ranges := ranges, ex_cache_valid := True\<rparr>)"

text \<open>\<open>std::lower_bound\<close> finds the first range that does not end below the address.\<close>

definition is_address_local :: "u64 \<Rightarrow> CXLMemExpander \<Rightarrow> bool \<times> CXLMemExpander" where
  "is_address_local addr x0 =
     (let x = (if ex_cache_valid x0 then x0 else update_range_cache x0) in
      (case find (\<lambda>r. \<not> ar_end r < addr) (ex_address_ranges x) of
         None \<Rightarrow> False
       | Some r \<Rightarrow> ar_start r \<le> addr \<and> addr \<le> ar_end r, x))"


section \<open>Queue, credits and latency\<close>

definition can_accept_request :: "CXLMemExpander \<Rightarrow> bool" where
  "can_accept_request x \<longleftrightarrow> length (ex_request_queue x) < MAX_QUEUE_SIZE"

definition has_credits :: "bool \<Rightarrow> CXLMemExpander \<Rightarrow> bool" where
  "has_credits is_read x = (if is_read then 0 < ex_read_credits x else 0 < ex_write_credits x)"

definition consume_credit :: "bool \<Rightarrow> CXLMemExpander \<Rightarrow> CXLMemExpander" where
  "consume_credit is_read x =
     (if is_read then x\<lparr>ex_read_credits := ex_read_credits x - 1\<rparr>
      else x\<lparr>ex_write_credits := ex_write_credits x - 1\<rparr>)"

definition ex_release_credit :: "bool \<Rightarrow> CXLMemExpander \<Rightarrow> CXLMemExpander" where
  "ex_release_credit is_read x =
     (if is_read then (if ex_read_credits x < INITIAL_CREDITS
                       then x\<lparr>ex_read_credits := ex_read_credits x + 1\<rparr> else x)
      else (if ex_write_credits x < INITIAL_CREDITS
            then x\<lparr>ex_write_credits := ex_write_credits x + 1\<rparr> else x))"

definition calculate_congestion_delay :: "CXLMemExpander \<Rightarrow> double" where
  "calculate_congestion_delay x =
     (let queue_utilization = real (length (ex_request_queue x)) / 64 in
      if queue_utilization < 1/2 then 0
      else if queue_utilization < 8/10 then (queue_utilization - 1/2) * 20
      else 6 + (queue_utilization - 8/10) * 100)"

definition calculate_protocol_overhead :: "nat \<Rightarrow> double" where
  "calculate_protocol_overhead data_size =
     (let num_flits = (data_size + 66 - 1) div 66 in real (num_flits * 65) * (1/10))"

definition calculate_pipeline_latency :: "CXLMemExpander \<Rightarrow> CXLRequest \<Rightarrow> double" where
  "calculate_pipeline_latency x r =
     ex_frontend_latency x + ex_forward_latency x
     + (if rq_is_read r then ex_latency_read x else ex_latency_write x)
     + ex_response_latency x + calculate_protocol_overhead 64 + calculate_congestion_delay x"

text \<open>The two loops of \<open>process_queued_requests\<close>: completions, then issues.\<close>

fun complete_requests :: "u64 \<Rightarrow> (u64 \<times> CXLRequest) list \<Rightarrow> CXLMemExpander \<Rightarrow> CXLMemExpander" where
  "complete_requests now [] x = x"
| "complete_requests now ((a, r) # rest) x =
     (if rq_complete_time r \<le> now
      then complete_requests now rest
             (ex_release_credit (rq_is_read r) (x\<lparr>ex_in_flight := AList.delete a (ex_in_flight x)\<rparr>))
      else complete_requests now rest x)"

function issue_requests :: "u64 \<Rightarrow> CXLMemExpander \<Rightarrow> CXLMemExpander" where
  "issue_requests now x =
     (case ex_request_queue x of
        [] \<Rightarrow> x
      | r # rest \<Rightarrow>
          if length (ex_in_flight x) < MAX_QUEUE_SIZE div 2 then
            if \<not> has_credits (rq_is_read r) x then x
            else
              let x1 = consume_credit (rq_is_read r) x;
                  r1 = r\<lparr>rq_issue_time := now,
                         rq_complete_time := u64_of_double (double_of_u64 now + calculate_pipeline_latency x1 r)\<rparr> in
              issue_requests now
                (x1\<lparr>ex_in_flight := AList.update (rq_address r1) r1 (ex_in_flight x1),
                    ex_request_queue := rest\<rparr>)
          else x)"
  by pat_completeness auto
termination
  by (relation "measure (\<lambda>(now, x). length (ex_request_queue x))") (auto simp: consume_credit_def)

declare issue_requests.simps [simp del]

definition process_queued_requests :: "u64 \<Rightarrow> CXLMemExpander \<Rightarrow> CXLMemExpander" where
  "process_queued_requests now x = issue_requests now (complete_requests now (ex_in_flight x) x)"


section \<open>Recording accesses\<close>

definition inc_load :: "CXLMemExpander \<Rightarrow> CXLMemExpander" where
  "inc_load x = x\<lparr>ex_counter := (ex_counter x)\<lparr>ev_load := ev_load (ex_counter x) + 1\<rparr>\<rparr>"

definition inc_store :: "CXLMemExpander \<Rightarrow> CXLMemExpander" where
  "inc_store x = x\<lparr>ex_counter := (ex_counter x)\<lparr>ev_store := ev_store (ex_counter x) + 1\<rparr>\<rparr>"

definition inc_hit_old :: "CXLMemExpander \<Rightarrow> CXLMemExpander" where
  "inc_hit_old x = x\<lparr>ex_counter := (ex_counter x)\<lparr>ev_hit_old := ev_hit_old (ex_counter x) + 1\<rparr>\<rparr>"

text \<open>Erasing the first entry of an address, as the loops with \<open>occupation.erase(it)\<close> do.\<close>

fun erase_first :: "u64 \<Rightarrow> occupation_info list \<Rightarrow> occupation_info list" where
  "erase_first a [] = []"
| "erase_first a (occ # rest) = (if occ_address occ = a then rest else occ # erase_first a rest)"

definition ex_insert :: "u64 \<Rightarrow> u64 \<Rightarrow> u64 \<Rightarrow> int \<Rightarrow> CXLMemExpander \<Rightarrow> int \<times> CXLMemExpander" where
  "ex_insert timestamp tid phys_addr index x =
     (if index = ex_id x then
        let x1 = process_queued_requests timestamp
                   (x\<lparr>ex_last_timestamp := max (ex_last_timestamp x) timestamp\<rparr>) in
        if phys_addr \<noteq> 0 then
          if \<not> can_accept_request x1 then (0, inc_hit_old x1)
          else
            let req = \<lparr>rq_timestamp = timestamp, rq_address = phys_addr, rq_tid = tid,
                       rq_is_read = False, rq_is_write = True, rq_issue_time = 0, rq_complete_time = 0\<rparr>;
                occ = \<lparr>occ_timestamp = timestamp, occ_address = phys_addr, occ_access_count = 0\<rparr> in
            if phys_addr \<in> ex_address_cache x1 \<and> phys_addr \<in> occ_address ` set (ex_occupation x1)
            then (2, inc_load (x1\<lparr>ex_occupation := erase_first phys_addr (ex_occupation x1) @ [occ],
                                  ex_request_queue := ex_request_queue x1
                                    @ [req\<lparr>rq_is_read := True, rq_is_write := False\<rparr>]\<rparr>))
            else (1, inc_store (x1\<lparr>ex_occupation := ex_occupation x1 @ [occ],
                                   ex_address_cache := insert phys_addr (ex_address_cache x1),
                                   ex_request_queue := ex_request_queue x1 @ [req]\<rparr>))
        else (1, inc_store x1)
      else (0, x))"

definition ex_record_access ::
  "u64 \<Rightarrow> u64 \<Rightarrow> u64 \<Rightarrow> int \<Rightarrow> bool \<Rightarrow> CXLMemExpander \<Rightarrow> int \<times> CXLMemExpander" where
  "ex_record_access timestamp tid phys_addr index is_write x =
     (if index \<noteq> ex_id x then (0, x)
      else
        let x1 = process_queued_requests timestamp
                   (x\<lparr>ex_last_timestamp := max (ex_last_timestamp x) timestamp\<rparr>);
            req = \<lparr>rq_timestamp = timestamp, rq_address = phys_addr, rq_tid = tid,
                   rq_is_read = \<not> is_write, rq_is_write = is_write,
                   rq_issue_time = timestamp, rq_complete_time = timestamp\<rparr> in
        if \<not> can_accept_request x1 then (0, inc_hit_old x1)
        else
          let x2 = invalidate_cache (x1\<lparr>
                ex_request_queue := ex_request_queue x1 @ [req],
                ex_occupation := erase_first phys_addr (ex_occupation x1)
                  @ [\<lparr>occ_timestamp = timestamp, occ_address = phys_addr,
                      occ_access_count = (if is_write then 0 else 1)\<rparr>],
                ex_address_cache := insert phys_addr (ex_address_cache x1)\<rparr>) in
          if is_write then (1, inc_store x2) else (2, inc_load x2))"

definition touch :: "CXLMemExpander \<Rightarrow> (occupation_info \<Rightarrow> bool) \<Rightarrow> occupation_info list \<Rightarrow> occupation_info list"
  where "touch x P = map (\<lambda>occ. if P occ then occ\<lparr>occ_access_count := occ_access_count occ + 1,
                                                occ_timestamp := ex_last_timestamp x\<rparr> else occ)"

definition ex_delete_entry :: "u64 \<Rightarrow> u64 \<Rightarrow> CXLMemExpander \<Rightarrow> CXLMemExpander" where
  "ex_delete_entry addr len x =
     (let first = (\<lambda>occ. occ_address occ = addr);
          occ1 = touch x first (ex_occupation x);
          second = (\<lambda>occ. addr \<le> occ_address occ \<and> occ_address occ \<le> addr + len \<and> occ_address occ \<noteq> addr);
          x1 = inc_load (x\<lparr>ex_occupation := touch x second occ1\<rparr>) in
      if list_ex first (ex_occupation x) \<or> list_ex second occ1 then invalidate_cache x1 else x1)"

definition ex_get_access :: "u64 \<Rightarrow> CXLMemExpander \<Rightarrow> (u64 \<times> u64) list \<times> CXLMemExpander" where
  "ex_get_access timestamp x =
     (map (\<lambda>occ. (occ_timestamp occ, occ_address occ))
        (filter (\<lambda>occ. timestamp - 100000 < occ_timestamp occ) (ex_occupation x)),
      x\<lparr>ex_last_counter := ex_counter x\<rparr>)"

definition ex_set_epoch :: "int \<Rightarrow> CXLMemExpander \<Rightarrow> CXLMemExpander" where
  "ex_set_epoch e x = x\<lparr>ex_epoch := e\<rparr>"

text \<open>The i-th coin decides whether the i-th entry is erased.\<close>

definition ex_free_stats :: "(nat \<Rightarrow> bool) \<Rightarrow> CXLMemExpander \<Rightarrow> CXLMemExpander" where
  "ex_free_stats coin x =
     (let n = length (ex_occupation x);
          x1 = x\<lparr>ex_occupation := map fst (filter (\<lambda>(occ, i). \<not> coin i) (zip (ex_occupation x) [0..<n]))\<rparr> in
      if list_ex coin [0..<n] then invalidate_cache x1 else x1)"

text \<open>The access loop of \<open>calculate_latency\<close>: total latency, number of local accesses and the
  timestamp of the last one. The variable \<open>pipeline_benefit\<close> is only written and left out.\<close>

fun latency_loop :: "(u64 \<times> u64) list \<Rightarrow> double \<Rightarrow> double \<Rightarrow> nat \<Rightarrow> u64 \<Rightarrow> CXLMemExpander
    \<Rightarrow> double \<times> nat \<times> CXLMemExpander" where
  "latency_loop [] dram lat n last_ts x = (lat, n, x)"
| "latency_loop ((timestamp, addr) # rest) dram lat n last_ts x =
     (let (local_access, x1) = is_address_local addr x in
      if \<not> local_access then latency_loop rest dram lat n last_ts x1
      else
        let temp_req = \<lparr>rq_timestamp = timestamp, rq_address = addr, rq_tid = 0, rq_is_read = True,
                        rq_is_write = False, rq_issue_time = 0, rq_complete_time = 0\<rparr>;
            full = calculate_pipeline_latency x1 temp_req;
            current_latency =
              (if map_of (ex_in_flight x1) addr \<noteq> None then ex_latency_read x1 * (3/10)
               else if 0 < last_ts \<and> timestamp - last_ts < 100
               then full - full * (1 - double_of_u64 (timestamp - last_ts) / 100) * (1/2)
               else full) in
        latency_loop rest dram (lat + (current_latency + dram * (1/10))) (Suc n) timestamp x1)"

definition ex_calculate_latency :: "(u64 \<times> u64) list \<Rightarrow> double \<Rightarrow> CXLMemExpander \<Rightarrow> double \<times> CXLMemExpander"
  where
  "ex_calculate_latency elem dram x =
     (if elem = [] then (0, x)
      else
        let x1 = update_address_cache (process_queued_requests (fst (last elem)) x);
            (lat, n, x2) = latency_loop elem dram 0 0 0 x1;
            lat1 = (if length (ex_request_queue x2) < MAX_QUEUE_SIZE div 4 then lat * (9/10) else lat) in
        (if 0 < n then lat1 / real n else 0, x2))"

text \<open>The loop shared by the two \<open>calculate_bandwidth\<close>: how many accesses pass the test, and the
  window of their timestamps; the test may rebuild the range caches of the state \<open>s\<close>.\<close>

fun access_window :: "(u64 \<Rightarrow> 's \<Rightarrow> bool \<times> 's) \<Rightarrow> (u64 \<times> u64) list \<Rightarrow> u64 \<Rightarrow> u64 \<Rightarrow> u64 \<Rightarrow> 's
    \<Rightarrow> (u64 \<times> u64 \<times> u64) \<times> 's" where
  "access_window test [] n lo hi s = ((n, lo, hi), s)"
| "access_window test ((timestamp, addr) # rest) n lo hi s =
     (let (hit, s1) = test addr s in
      if hit then access_window test rest (n + 1) (min lo timestamp) (max hi timestamp) s1
      else access_window test rest n lo hi s1)"

definition ex_calculate_bandwidth :: "(u64 \<times> u64) list \<Rightarrow> CXLMemExpander \<Rightarrow> double \<times> CXLMemExpander" where
  "ex_calculate_bandwidth elem x =
     (if elem = [] then (0, x)
      else
        let ((n, lo, hi), x1) = access_window is_address_local elem 0 UINT64_MAX 0 x in
        if n = 0 then (0, x1)
        else
          let c = ex_counter x1;
              read_ops = double_of_u64 (ev_load c + ev_hit_old c);
              write_ops = double_of_u64 (ev_store c + ev_migrate_in c + ev_migrate_out c);
              read_ratio = (if 0 < read_ops + write_ops then read_ops / (read_ops + write_ops) else 1) in
          (calculate_mlc_bandwidth_penalty (ex_bandwidth_model x1) n lo hi read_ratio
             (ex_latency_read x1) (ex_latency_write x1), x1))"

datatype expander_op =
    Ex_insert u64 u64 u64 int
  | Ex_record u64 u64 u64 int bool
  | Ex_delete u64 u64
  | Ex_free "nat \<Rightarrow> bool"
  | Ex_get u64
  | Ex_latency "(u64 \<times> u64) list" double
  | Ex_bandwidth "(u64 \<times> u64) list"

fun expander_step :: "expander_op \<Rightarrow> CXLMemExpander \<Rightarrow> CXLMemExpander" where
  "expander_step (Ex_insert ts t a i) x = snd (ex_insert ts t a i x)"
| "expander_step (Ex_record ts t a i w) x = snd (ex_record_access ts t a i w x)"
| "expander_step (Ex_delete a n) x = ex_delete_entry a n x"
| "expander_step (Ex_free coin) x = ex_free_stats coin x"
| "expander_step (Ex_get ts) x = snd (ex_get_access ts x)"
| "expander_step (Ex_latency el dram) x = snd (ex_calculate_latency el dram x)"
| "expander_step (Ex_bandwidth el) x = snd (ex_calculate_bandwidth el x)"

definition expander_run :: "expander_op list \<Rightarrow> CXLMemExpander \<Rightarrow> CXLMemExpander" where
  "expander_run ops x = fold expander_step ops x"


section \<open>Frames\<close>

named_theorems ex_frame

lemma credit_frame [ex_frame]:
  "ex_request_queue (consume_credit b x) = ex_request_queue x"
  "ex_in_flight (consume_credit b x) = ex_in_flight x"
  "ex_in_flight (ex_release_credit b x) = ex_in_flight x"
  "ex_request_queue (ex_release_credit b x) = ex_request_queue x"
  "ex_address_ranges (consume_credit b x) = ex_address_ranges x"
  "ex_address_ranges (ex_release_credit b x) = ex_address_ranges x"
  by (auto simp: consume_credit_def ex_release_credit_def)

lemma counter_frame [ex_frame]:
  "ex_address_ranges (inc_load x) = ex_address_ranges x"
  "ex_address_ranges (inc_store x) = ex_address_ranges x"
  "ex_address_ranges (inc_hit_old x) = ex_address_ranges x"
  "ex_address_ranges (invalidate_cache x) = ex_address_ranges x"
  "ex_address_ranges (update_address_cache x) = ex_address_ranges x"
  by (auto simp: inc_load_def inc_store_def inc_hit_old_def invalidate_cache_def update_address_cache_def)

text \<open>The part of the state the flow control works on.\<close>

definition flow_state :: "CXLMemExpander \<Rightarrow> CXLRequest list \<times> (u64 \<times> CXLRequest) list \<times> u64 \<times> u64" where
  "flow_state x = (ex_request_queue x, ex_in_flight x, ex_read_credits x, ex_write_credits x)"

lemma flow_state_frame [ex_frame]:
  "flow_state (inc_load x) = flow_state x"
  "flow_state (inc_store x) = flow_state x"
  "flow_state (inc_hit_old x) = flow_state x"
  "flow_state (invalidate_cache x) = flow_state x"
  "flow_state (update_address_cache x) = flow_state x"
  "flow_state (update_range_cache x) = flow_state x"
  "flow_state (ex_delete_entry a n x) = flow_state x"
  "flow_state (ex_free_stats coin x) = flow_state x"
  "flow_state (snd (ex_get_access ts x)) = flow_state x"
  "flow_state (snd (is_address_local a x)) = flow_state x"
  by (auto simp: flow_state_def inc_load_def inc_store_def inc_hit_old_def invalidate_cache_def
      update_address_cache_def update_range_cache_def ex_delete_entry_def ex_free_stats_def
      ex_get_access_def is_address_local_def Let_def)

lemma complete_requests_ranges [ex_frame]:
  "ex_address_ranges (complete_requests now l x) = ex_address_ranges x"
  by (induction now l x rule: complete_requests.induct) (simp_all add: ex_frame)

lemma issue_requests_ranges [ex_frame]:
  "ex_address_ranges (issue_requests now x) = ex_address_ranges x"
  by (induction now x rule: issue_requests.induct, subst issue_requests.simps)
    (simp add: ex_frame Let_def split: list.split)

lemma process_queued_requests_ranges [ex_frame]:
  "ex_address_ranges (process_queued_requests now x) = ex_address_ranges x"
  by (simp add: process_queued_requests_def ex_frame)

lemma latency_loop_flow:
  "latency_loop el dram lat n ts x = (l, k, y) \<Longrightarrow> flow_state y = flow_state x"
proof (induction el dram lat n ts x rule: latency_loop.induct)
  case (2 ts a rest dram lat n last_ts x)
  obtain b x1 where loc: "is_address_local a x = (b, x1)"
    by fastforce
  then have "flow_state x1 = flow_state x"
    using flow_state_frame(10) [of a x] by simp
  then show ?case
    using 2 loc by (auto simp: Let_def split: if_splits)
qed simp

lemma access_window_flow:
  "access_window is_address_local el n lo hi x = (r, y) \<Longrightarrow> flow_state y = flow_state x"
proof (induction is_address_local el n lo hi x rule: access_window.induct)
  case (2 ts a rest n lo hi x)
  obtain b x1 where loc: "is_address_local a x = (b, x1)"
    by fastforce
  then have "flow_state x1 = flow_state x"
    using flow_state_frame(10) [of a x] by simp
  then show ?case
    using 2 loc by (auto simp: Let_def split: if_splits)
qed simp


section \<open>The range cache\<close>

definition range_mem :: "u64 \<Rightarrow> AddressRange \<Rightarrow> bool" where
  "range_mem a r \<longleftrightarrow> ar_start r \<le> a \<and> a \<le> ar_end r"

definition ranges_sorted :: "AddressRange list \<Rightarrow> bool" where
  "ranges_sorted rs \<longleftrightarrow> sorted_wrt (\<lambda>r s. ar_end r \<le> ar_start s) rs \<and> (\<forall>r \<in> set rs. ar_start r \<le> ar_end r)"

lemma find_range:
  assumes "ranges_sorted rs"
  shows "(case find (\<lambda>r. \<not> ar_end r < a) rs of None \<Rightarrow> False
          | Some r \<Rightarrow> ar_start r \<le> a \<and> a \<le> ar_end r) \<longleftrightarrow> (\<exists>r \<in> set rs. range_mem a r)"
  using assms
proof (induction rs)
  case (Cons r rs)
  show ?case
  proof (cases "ar_end r < a")
    case True
    then show ?thesis
      using Cons by (auto simp: ranges_sorted_def range_mem_def)
  next
    case False
    then have "\<forall>s \<in> set rs. range_mem a s \<longrightarrow> a = ar_end r"
      using Cons.prems by (fastforce simp: ranges_sorted_def range_mem_def)
    then show ?thesis
      using False Cons.prems by (auto simp: ranges_sorted_def range_mem_def not_less)
  qed
qed simp

lemma word_le_succ_iff: "e \<le> e + 1 \<Longrightarrow> a \<le> e + 1 \<longleftrightarrow> a \<le> e \<or> a = (e :: u64) + 1"
  by unat_arith

lemma merge_ranges:
  assumes "sorted (map occ_address occs)" "\<forall>oc \<in> set occs. ar_end c \<le> occ_address oc"
    and "ar_start c \<le> ar_end c"
  shows "ranges_sorted (merge_ranges c occs)
       \<and> (\<forall>r \<in> set (merge_ranges c occs). ar_start c \<le> ar_start r)
       \<and> (\<forall>a. (\<exists>r \<in> set (merge_ranges c occs). range_mem a r)
              \<longleftrightarrow> range_mem a c \<or> a \<in> occ_address ` set occs)"
  using assms
proof (induction c occs rule: merge_ranges.induct)
  case (1 c)
  then show ?case
    by (simp add: ranges_sorted_def)
next
  case (2 c oc rest)
  show ?case
  proof (cases "occ_address oc = ar_end c + 1")
    case True
    then have "ar_end c \<le> ar_end c + 1"
      using 2(4) by (metis list.set_intros(1))
    then show ?thesis
      using 2(1) [OF True] 2(3-5) True order_trans [of "ar_start c" "ar_end c" "ar_end c + 1"]
      by (auto simp: range_mem_def word_le_succ_iff)
  next
    case False
    then show ?thesis
      using 2(2) [OF False] 2(3-5)
      by (auto simp: ranges_sorted_def range_mem_def intro: order_trans)
  qed
qed

text \<open>After a rebuild the ranges hold exactly the recorded addresses.\<close>

lemma update_range_cache_exact:
  assumes "\<not> ex_cache_valid x"
  shows "ranges_sorted (ex_address_ranges (update_range_cache x))
       \<and> (\<forall>a. (\<exists>r \<in> set (ex_address_ranges (update_range_cache x)). range_mem a r)
              \<longleftrightarrow> a \<in> occ_address ` set (ex_occupation x))"
proof (cases "sort_key occ_address (ex_occupation x)")
  case Nil
  have "set (ex_occupation x) = set (sort_key occ_address (ex_occupation x))"
    by (rule set_sort [symmetric])
  then have "ex_occupation x = []"
    unfolding Nil by simp
  then show ?thesis
    using assms by (simp add: update_range_cache_def ranges_sorted_def)
next
  case (Cons o1 rest)
  have "set (ex_occupation x) = set (sort_key occ_address (ex_occupation x))"
    by (rule set_sort [symmetric])
  then have set_occ: "set (ex_occupation x) = insert o1 (set rest)"
    unfolding Cons by simp
  have "sorted (map occ_address (o1 # rest))"
    using Cons by (metis sorted_sort_key)
  then have "ranges_sorted (merge_ranges \<lparr>ar_start = occ_address o1, ar_end = occ_address o1\<rparr> rest)
       \<and> (\<forall>a. (\<exists>r \<in> set (merge_ranges \<lparr>ar_start = occ_address o1, ar_end = occ_address o1\<rparr> rest). range_mem a r)
              \<longleftrightarrow> a \<in> occ_address ` set (ex_occupation x))"
    using merge_ranges [of rest "\<lparr>ar_start = occ_address o1, ar_end = occ_address o1\<rparr>"]
    by (auto simp: set_occ range_mem_def)
  then show ?thesis
    using assms by (simp add: update_range_cache_def Cons)
qed


lemma is_address_local_rebuilt:
  assumes "\<not> ex_cache_valid x"
  shows "fst (is_address_local a x) \<longleftrightarrow> a \<in> occ_address ` set (ex_occupation x)"
  using update_range_cache_exact [OF assms] find_range assms by (simp add: is_address_local_def)

lemma complete_requests_frame [ex_frame]:
  "ex_occupation (complete_requests now l x) = ex_occupation x
   \<and> ex_address_cache (complete_requests now l x) = ex_address_cache x
   \<and> ex_cache_valid (complete_requests now l x) = ex_cache_valid x
   \<and> ex_id (complete_requests now l x) = ex_id x"
  by (induction now l x rule: complete_requests.induct) (simp_all add: ex_release_credit_def)

lemma issue_requests_frame [ex_frame]:
  "ex_occupation (issue_requests now x) = ex_occupation x
   \<and> ex_address_cache (issue_requests now x) = ex_address_cache x
   \<and> ex_cache_valid (issue_requests now x) = ex_cache_valid x
   \<and> ex_id (issue_requests now x) = ex_id x"
  by (induction now x rule: issue_requests.induct, subst (1 2 3 4) issue_requests.simps)
    (simp add: consume_credit_def Let_def split: list.split)

lemma process_queued_requests_frame [ex_frame]:
  "ex_occupation (process_queued_requests now x) = ex_occupation x
   \<and> ex_address_cache (process_queued_requests now x) = ex_address_cache x
   \<and> ex_cache_valid (process_queued_requests now x) = ex_cache_valid x
   \<and> ex_id (process_queued_requests now x) = ex_id x"
  by (simp add: process_queued_requests_def ex_frame)

lemma erase_first_addresses:
  "insert a (occ_address ` set (erase_first a occs)) = insert a (occ_address ` set occs)"
  by (induction a occs rule: erase_first.induct) auto

lemma record_access_state:
  assumes "ex_record_access ts t p i w x = (k, y)" "k \<noteq> 0"
  shows "\<not> ex_cache_valid y
       \<and> occ_address ` set (ex_occupation y) = insert p (occ_address ` set (ex_occupation x))"
proof -
  define occs where "occs = ex_occupation x"
  have "\<not> ex_cache_valid y
      \<and> occ_address ` set (ex_occupation y) = insert p (occ_address ` set (erase_first p occs))"
    using assms
    by (auto simp: ex_record_access_def Let_def invalidate_cache_def inc_store_def inc_load_def
        ex_frame occs_def split: if_splits)
  then show ?thesis
    by (simp add: erase_first_addresses occs_def)
qed

text \<open>An expander that answers the address 4096 on the index 1.\<close>

definition example_expander :: CXLMemExpander where
  "example_expander = new_CXLMemExpander 50 50 100 150 1 1024"

text \<open>
  Locality is exact after a recorded access. When \<open>record_access\<close> accepts an access, the
  next \<open>is_address_local\<close> answers true for the recorded address and for every address that was
  in the occupation table before, and false for every other address: merging the sorted
  addresses into ranges and looking the address up with \<open>lower_bound\<close> loses and adds nothing.
\<close>

lemma record_access_locality:
  assumes "ex_record_access ts t p i w x = (k, y)" "k \<noteq> 0"
  shows "fst (is_address_local a y) \<longleftrightarrow> a = p \<or> a \<in> occ_address ` set (ex_occupation x)"
  using record_access_state [OF assms] is_address_local_rebuilt [of y a] by simp

lemma record_access_locality_witness:
  "fst (is_address_local 4096 (snd (ex_record_access 7 1 4096 1 True example_expander)))
   \<and> \<not> fst (is_address_local 4097 (snd (ex_record_access 7 1 4096 1 True example_expander)))"
  (is "?hit \<and> ?miss")
proof -
  let ?r = "ex_record_access 7 1 4096 1 True example_expander"
  have acc: "fst ?r \<noteq> 0"
    by (simp add: ex_record_access_def example_expander_def new_CXLMemExpander_def Let_def
        process_queued_requests_def issue_requests.simps can_accept_request_def)
  have empty: "ex_occupation example_expander = []"
    by (simp add: example_expander_def new_CXLMemExpander_def Let_def)
  show ?thesis
    using record_access_locality [of 7 1 4096 1 True example_expander "fst ?r" "snd ?r" 4096]
      record_access_locality [of 7 1 4096 1 True example_expander "fst ?r" "snd ?r" 4097] acc empty
    by simp
qed


section \<open>Latency queries never build the ranges\<close>

fun builds_ranges :: "expander_op \<Rightarrow> bool" where
  "builds_ranges (Ex_bandwidth el) = True"
| "builds_ranges _ = False"

lemma no_ranges_not_local:
  assumes "ex_cache_valid x" "ex_address_ranges x = []"
  shows "is_address_local a x = (False, x)"
  using assms by (simp add: is_address_local_def)

lemma latency_loop_no_ranges:
  assumes "ex_cache_valid x" "ex_address_ranges x = []"
  shows "latency_loop el dram lat n ts x = (lat, n, x)"
  by (induction el) (auto simp: no_ranges_not_local [OF assms])

lemma calculate_latency_no_ranges:
  assumes "ex_address_ranges x = []"
  shows "fst (ex_calculate_latency el dram x) = 0
       \<and> ex_address_ranges (snd (ex_calculate_latency el dram x)) = []"
proof -
  let ?x = "update_address_cache (process_queued_requests (fst (last el)) x)"
  have "ex_cache_valid ?x" "ex_address_ranges ?x = []"
    using assms by (auto simp: update_address_cache_def ex_frame)
  then show ?thesis
    using assms by (simp add: ex_calculate_latency_def latency_loop_no_ranges)
qed

lemma expander_step_no_ranges:
  assumes "\<not> builds_ranges p" "ex_address_ranges x = []"
  shows "ex_address_ranges (expander_step p x) = []"
  using assms
  by (cases p) (simp_all add: ex_insert_def ex_record_access_def ex_delete_entry_def ex_free_stats_def
      ex_get_access_def calculate_latency_no_ranges Let_def ex_frame)

lemma expander_run_no_ranges:
  "list_all (\<lambda>p. \<not> builds_ranges p) ops \<Longrightarrow> ex_address_ranges x = []
   \<Longrightarrow> ex_address_ranges (expander_run ops x) = []"
  unfolding expander_run_def
  by (induction ops arbitrary: x) (simp_all add: expander_step_no_ranges)

text \<open>
  An expander whose locality is only queried through \<open>calculate_latency\<close> reports latency
  zero forever. \<open>calculate_latency\<close> calls \<open>update_address_cache\<close>, which sets \<open>cache_valid\<close> without
  building \<open>address_ranges\<close>, so the following \<open>is_address_local\<close> never rebuilds them and finds
  every address foreign, also the addresses the expander has recorded. It holds after any
  sequence of inserts, recorded accesses, deletions, evictions and latency queries.
\<close>

lemma latency_query_always_zero:
  assumes "list_all (\<lambda>p. \<not> builds_ranges p) ops"
  shows "fst (ex_calculate_latency el dram
               (expander_run ops (new_CXLMemExpander rb wb rl wl i cap))) = 0"
proof -
  have "ex_address_ranges (new_CXLMemExpander rb wb rl wl i cap) = []"
    by (simp add: new_CXLMemExpander_def Let_def)
  then show ?thesis
    using calculate_latency_no_ranges expander_run_no_ranges [OF assms] by simp
qed

lemma latency_query_always_zero_witness:
  "fst (ex_calculate_latency [(7, 4096)] 80
     (expander_run [Ex_record 7 1 4096 1 False] (new_CXLMemExpander 50 50 100 150 1 1024))) = 0"
  by (rule latency_query_always_zero) simp


section \<open>Flow control\<close>

text \<open>The number of requests of one kind in flight, and the credits of that kind that are
  free or held by a request in flight.\<close>

definition kind_in_flight :: "bool \<Rightarrow> (u64 \<times> CXLRequest) list \<Rightarrow> nat" where
  "kind_in_flight b fl = length (filter (\<lambda>(a, r). rq_is_read r = b) fl)"

definition credits_of :: "bool \<Rightarrow> CXLMemExpander \<Rightarrow> u64" where
  "credits_of b x = (if b then ex_read_credits x else ex_write_credits x)"

definition credit_total :: "bool \<Rightarrow> CXLMemExpander \<Rightarrow> nat" where
  "credit_total b x = unat (credits_of b x) + kind_in_flight b (ex_in_flight x)"

definition flow_ok :: "CXLMemExpander \<Rightarrow> bool" where
  "flow_ok x \<longleftrightarrow> distinct (map fst (ex_in_flight x)) \<and> length (ex_request_queue x) \<le> 64
     \<and> length (ex_in_flight x) \<le> 32 \<and> credit_total True x \<le> 2 \<and> credit_total False x \<le> 2"

lemma credits_frame [simp]:
  "credits_of b (x\<lparr>ex_in_flight := fl\<rparr>) = credits_of b x"
  "credits_of b (x\<lparr>ex_request_queue := q\<rparr>) = credits_of b x"
  by (simp_all add: credits_of_def)

lemma kind_in_flight_delete:
  assumes "distinct (map fst fl)" "(a, r) \<in> set fl"
  shows "kind_in_flight b fl = kind_in_flight b (AList.delete a fl) + (if rq_is_read r = b then 1 else 0)"
  using assms
proof (induction fl)
  case (Cons p fl)
  show ?case
  proof (cases "p = (a, r)")
    case True
    then have "AList.delete a fl = fl"
      using Cons.prems by (auto simp: delete_id)
    then show ?thesis
      using True by (auto simp: kind_in_flight_def)
  next
    case False
    then have mem: "(a, r) \<in> set fl"
      using Cons.prems by auto
    then have "fst p \<noteq> a"
      using Cons.prems(1) by (force simp: image_iff)
    then show ?thesis
      using Cons mem by (cases p) (auto simp: kind_in_flight_def)
  qed
qed simp

lemma kind_in_flight_update:
  "kind_in_flight b (AList.update a r fl) \<le> kind_in_flight b fl + (if rq_is_read r = b then 1 else 0)"
  by (induction fl) (auto simp: kind_in_flight_def)

lemma length_alist_update: "length (AList.update a r fl) \<le> Suc (length fl)"
  by (induction fl) auto

lemma length_alist_delete: "length (AList.delete a fl) \<le> length fl"
  by (induction fl) auto

lemma release_credits_of:
  "unat (credits_of b (ex_release_credit k x)) \<le> unat (credits_of b x) + (if k = b then 1 else 0)"
proof -
  have "unat (c + 1) \<le> unat c + 1" for c :: u64
    by unat_arith
  then show ?thesis
    by (auto simp: ex_release_credit_def credits_of_def intro: le_SucI)
qed

lemma consume_credits_of:
  assumes "has_credits k x"
  shows "unat (credits_of b x) = unat (credits_of b (consume_credit k x)) + (if k = b then 1 else 0)"
proof -
  have "unat c = Suc (unat (c - 1))" if "0 < c" for c :: u64
    using that by unat_arith
  then show ?thesis
    using assms by (auto simp: has_credits_def consume_credit_def credits_of_def simp del: word_gt_0)
qed

lemma complete_requests_flow:
  assumes "distinct (map fst (ex_in_flight x))" "set l \<subseteq> set (ex_in_flight x)" "distinct (map fst l)"
  shows "distinct (map fst (ex_in_flight (complete_requests now l x)))
       \<and> ex_request_queue (complete_requests now l x) = ex_request_queue x
       \<and> length (ex_in_flight (complete_requests now l x)) \<le> length (ex_in_flight x)
       \<and> credit_total b (complete_requests now l x) \<le> credit_total b x"
  using assms
proof (induction now l x rule: complete_requests.induct)
  case (2 now a r rest x)
  show ?case
  proof (cases "rq_complete_time r \<le> now")
    case True
    let ?y = "ex_release_credit (rq_is_read r) (x\<lparr>ex_in_flight := AList.delete a (ex_in_flight x)\<rparr>)"
    have y: "ex_in_flight ?y = AList.delete a (ex_in_flight x)" "ex_request_queue ?y = ex_request_queue x"
      by (simp_all add: ex_frame)
    have "set rest \<subseteq> set (ex_in_flight ?y)"
      using 2(4,5) unfolding y by (force simp: AList.delete_eq image_iff)
    moreover have "distinct (map fst (ex_in_flight ?y))"
      using 2(3) unfolding y by (rule distinct_delete)
    moreover have "credit_total b ?y \<le> credit_total b x"
      using release_credits_of [of b "rq_is_read r" "x\<lparr>ex_in_flight := AList.delete a (ex_in_flight x)\<rparr>"]
        kind_in_flight_delete [OF 2(3), of a r b] 2(4)
      by (simp add: credit_total_def y)
    ultimately show ?thesis
      using 2(1) [OF True] 2(5) True y length_alist_delete [of a "ex_in_flight x"] by fastforce
  next
    case False
    then show ?thesis
      using 2 by simp
  qed
qed simp

lemma issue_requests_flow:
  assumes "distinct (map fst (ex_in_flight x))" "length (ex_in_flight x) \<le> 32"
  shows "distinct (map fst (ex_in_flight (issue_requests now x)))
       \<and> length (ex_request_queue (issue_requests now x)) \<le> length (ex_request_queue x)
       \<and> length (ex_in_flight (issue_requests now x)) \<le> 32
       \<and> credit_total b (issue_requests now x) \<le> credit_total b x"
  using assms
proof (induction now x rule: issue_requests.induct)
  case (1 now x)
  show ?case
  proof (cases "ex_request_queue x = [] \<or> \<not> length (ex_in_flight x) < 32
      \<or> \<not> has_credits (rq_is_read (hd (ex_request_queue x))) x")
    case True
    then have "issue_requests now x = x"
      by (subst issue_requests.simps) (auto split: list.split)
    then show ?thesis
      using 1 by simp
  next
    case False
    then obtain r rest where q: "ex_request_queue x = r # rest" and len: "length (ex_in_flight x) < 32"
        and cred: "has_credits (rq_is_read r) x"
      by (cases "ex_request_queue x") auto
    define x1 where "x1 = consume_credit (rq_is_read r) x"
    define r1 where "r1 = r\<lparr>rq_issue_time := now,
      rq_complete_time := u64_of_double (double_of_u64 now + calculate_pipeline_latency x1 r)\<rparr>"
    define y where "y = x1\<lparr>ex_in_flight := AList.update (rq_address r1) r1 (ex_in_flight x1),
                    ex_request_queue := rest\<rparr>"
    have step: "issue_requests now x = issue_requests now y"
      using len cred by (subst issue_requests.simps) (simp add: q x1_def r1_def y_def Let_def)
    have fl: "ex_in_flight y = AList.update (rq_address r1) r1 (ex_in_flight x)"
      by (simp add: y_def x1_def ex_frame)
    have total_y: "credit_total b y \<le> credit_total b x"
      using consume_credits_of [OF cred, of b] kind_in_flight_update [of b "rq_address r1" r1 "ex_in_flight x"]
      unfolding credit_total_def fl by (simp add: y_def x1_def r1_def)
    have IH: "distinct (map fst (ex_in_flight y)) \<Longrightarrow> length (ex_in_flight y) \<le> 32 \<Longrightarrow>
        distinct (map fst (ex_in_flight (issue_requests now y)))
       \<and> length (ex_request_queue (issue_requests now y)) \<le> length (ex_request_queue y)
       \<and> length (ex_in_flight (issue_requests now y)) \<le> 32
       \<and> credit_total b (issue_requests now y) \<le> credit_total b y"
      using 1(1) [OF q _ _ x1_def r1_def] len cred by (simp add: y_def)
    have "distinct (map fst (ex_in_flight y))" "length (ex_in_flight y) \<le> 32"
      using 1(2) len length_alist_update [of "rq_address r1" r1 "ex_in_flight x"]
      unfolding fl by (auto simp: distinct_update)
    then show ?thesis
      using IH total_y unfolding step by (auto simp: y_def q)
  qed
qed

lemma process_queued_requests_flow:
  assumes "flow_ok x"
  shows "flow_ok (process_queued_requests now x)
       \<and> credit_total b (process_queued_requests now x) \<le> credit_total b x"
proof -
  let ?c = "complete_requests now (ex_in_flight x) x"
  note com = complete_requests_flow [of x "ex_in_flight x" now]
  note iss = issue_requests_flow [of ?c now]
  show ?thesis
    using com [of True] com [of False] com [of b] iss [of True] iss [of False] iss [of b] assms
    unfolding flow_ok_def process_queued_requests_def by simp
qed


lemma flow_state_cong:
  assumes "flow_state y = flow_state x"
  shows "flow_ok y = flow_ok x" "credit_total b y = credit_total b x"
  using assms by (simp_all add: flow_state_def flow_ok_def credit_total_def credits_of_def)

lemma enqueue_flow:
  assumes "flow_ok x" "can_accept_request x"
    and "flow_state y = (ex_request_queue x @ [r], ex_in_flight x, ex_read_credits x, ex_write_credits x)"
  shows "flow_ok y \<and> credit_total b y = credit_total b x"
  using assms by (simp add: flow_state_def flow_ok_def credit_total_def credits_of_def can_accept_request_def)

lemma arrival_flow:
  assumes "flow_ok x1" "credit_total b x1 \<le> c"
    and "(\<exists>r. can_accept_request x1 \<and> flow_state y
            = (ex_request_queue x1 @ [r], ex_in_flight x1, ex_read_credits x1, ex_write_credits x1))
        \<or> flow_state y = flow_state x1"
  shows "flow_ok y \<and> credit_total b y \<le> c"
  using assms(3)
proof
  assume "flow_state y = flow_state x1"
  then show ?thesis
    using assms(1,2) by (simp add: flow_state_cong [of y x1])
next
  assume "\<exists>r. can_accept_request x1 \<and> flow_state y
            = (ex_request_queue x1 @ [r], ex_in_flight x1, ex_read_credits x1, ex_write_credits x1)"
  then obtain r where "can_accept_request x1" "flow_state y
            = (ex_request_queue x1 @ [r], ex_in_flight x1, ex_read_credits x1, ex_write_credits x1)"
    by blast
  then show ?thesis
    using enqueue_flow [OF assms(1), of y r b] assms(2) by simp
qed

lemma timestamp_flow [simp]: "flow_state (x\<lparr>ex_last_timestamp := ts\<rparr>) = flow_state x"
  by (simp add: flow_state_def)

lemma insert_flow:
  assumes "flow_ok x"
  shows "flow_ok (snd (ex_insert ts t a i x)) \<and> credit_total b (snd (ex_insert ts t a i x)) \<le> credit_total b x"
proof (cases "i = ex_id x")
  case True
  define x0 where "x0 = x\<lparr>ex_last_timestamp := max (ex_last_timestamp x) ts\<rparr>"
  define x1 where "x1 = process_queued_requests ts x0"
  have x0: "flow_ok x0" "credit_total b x0 = credit_total b x"
    using assms flow_state_cong [of x0 x] by (simp_all add: x0_def)
  then have x1: "flow_ok x1" "credit_total b x1 \<le> credit_total b x"
    using process_queued_requests_flow [of x0 ts b] by (auto simp: x1_def)
  show ?thesis
    using True by (intro arrival_flow [OF x1])
      (auto simp: ex_insert_def Let_def ex_frame
        inc_load_def inc_store_def inc_hit_old_def invalidate_cache_def flow_state_def
        simp flip: x0_def x1_def)
qed (simp add: ex_insert_def assms)

lemma record_access_flow:
  assumes "flow_ok x"
  shows "flow_ok (snd (ex_record_access ts t a i w x))
       \<and> credit_total b (snd (ex_record_access ts t a i w x)) \<le> credit_total b x"
proof (cases "i = ex_id x")
  case True
  define x0 where "x0 = x\<lparr>ex_last_timestamp := max (ex_last_timestamp x) ts\<rparr>"
  define x1 where "x1 = process_queued_requests ts x0"
  have x0: "flow_ok x0" "credit_total b x0 = credit_total b x"
    using assms flow_state_cong [of x0 x] by (simp_all add: x0_def)
  then have x1: "flow_ok x1" "credit_total b x1 \<le> credit_total b x"
    using process_queued_requests_flow [of x0 ts b] by (auto simp: x1_def)
  show ?thesis
    using True by (intro arrival_flow [OF x1])
      (auto simp: ex_record_access_def Let_def ex_frame
        inc_load_def inc_store_def inc_hit_old_def invalidate_cache_def flow_state_def
        simp flip: x0_def x1_def)
qed (simp add: ex_record_access_def assms)

lemma calculate_latency_flow:
  assumes "flow_ok x"
  shows "flow_ok (snd (ex_calculate_latency el dram x))
       \<and> credit_total b (snd (ex_calculate_latency el dram x)) \<le> credit_total b x"
proof (cases "el = []")
  case False
  let ?p = "process_queued_requests (fst (last el)) x"
  obtain l n y where loop: "latency_loop el dram 0 0 0 (update_address_cache ?p) = (l, n, y)"
    by (cases "latency_loop el dram 0 0 0 (update_address_cache ?p)")
  then have "snd (ex_calculate_latency el dram x) = y"
    using False by (simp add: ex_calculate_latency_def Let_def)
  moreover have "flow_state y = flow_state ?p"
    using latency_loop_flow [OF loop] by (simp add: ex_frame)
  ultimately show ?thesis
    using process_queued_requests_flow [OF assms] flow_state_cong by metis
qed (simp add: ex_calculate_latency_def assms)

lemma calculate_bandwidth_flow: "flow_state (snd (ex_calculate_bandwidth el x)) = flow_state x"
proof -
  obtain n lo hi y where win: "access_window is_address_local el 0 UINT64_MAX 0 x = ((n, lo, hi), y)"
    by (metis prod.exhaust)
  then show ?thesis
    using access_window_flow [OF win] by (simp add: ex_calculate_bandwidth_def Let_def)
qed

lemma expander_step_flow:
  assumes "flow_ok x"
  shows "flow_ok (expander_step p x) \<and> credit_total b (expander_step p x) \<le> credit_total b x"
proof (cases p)
  case (Ex_insert ts t a i)
  then show ?thesis by (simp add: insert_flow [OF assms])
next
  case (Ex_record ts t a i w)
  then show ?thesis by (simp add: record_access_flow [OF assms])
next
  case (Ex_latency el dram)
  then show ?thesis by (simp add: calculate_latency_flow [OF assms])
qed (use assms flow_state_cong [of "expander_step p x" x] in
      \<open>simp_all add: flow_state_frame calculate_bandwidth_flow\<close>)

lemma expander_run_flow:
  "flow_ok x \<Longrightarrow> flow_ok (expander_run ops x) \<and> credit_total b (expander_run ops x) \<le> credit_total b x"
  unfolding expander_run_def
proof (induction ops arbitrary: x)
  case (Cons p ops)
  then show ?case
    using Cons.IH [of "expander_step p x"] expander_step_flow [of x p b] by fastforce
qed simp

lemma new_expander_flow: "flow_ok (new_CXLMemExpander rb wb rl wl i cap)"
  by (simp add: flow_ok_def new_CXLMemExpander_def Let_def credit_total_def credits_of_def kind_in_flight_def)

text \<open>
  C26: Flow control of the expander. After any sequence of operations the request queue holds at
  most 64 requests, at most 32 requests with distinct addresses are in flight, and for each of
  the two kinds the free credits and the requests in flight together never exceed the initial
  two credits, so that the credit counters never wrap below zero or grow past their start.
\<close>

theorem expander_flow_control:
  fixes ops rb wb rl wl i cap
  defines "x \<equiv> expander_run ops (new_CXLMemExpander rb wb rl wl i cap)"
  shows "length (ex_request_queue x) \<le> 64 \<and> length (ex_in_flight x) \<le> 32
       \<and> distinct (map fst (ex_in_flight x))
       \<and> unat (ex_read_credits x) + kind_in_flight True (ex_in_flight x) \<le> 2
       \<and> unat (ex_write_credits x) + kind_in_flight False (ex_in_flight x) \<le> 2"
  using expander_run_flow [OF new_expander_flow, of ops] unfolding x_def
  by (simp add: flow_ok_def credit_total_def credits_of_def)


text \<open>Two writes and a read of the address 4096, then a write of 8192, all at time 1.\<close>

definition hot_line_ops :: "expander_op list" where
  "hot_line_ops = [Ex_record 1 0 4096 1 True, Ex_record 1 0 4096 1 True,
                   Ex_record 1 0 4096 1 False, Ex_record 1 0 8192 1 True]"

lemma hot_line_loses_credits: "credit_total False (expander_run hot_line_ops example_expander) = 0"
  by code_simp



section \<open>The bandwidth penalty\<close>

definition model_ok :: "BandwidthModelConfig \<Rightarrow> bool" where
  "model_ok m \<longleftrightarrow> 1/10 \<le> bw_knee_utilization m \<and> bw_knee_utilization m + 1/100 \<le> bw_saturation_utilization m
     \<and> bw_saturation_utilization m \<le> 995/1000 \<and> 0 \<le> bw_low_utilization_slope m
     \<and> 0 \<le> bw_max_penalty_ns m \<and> 1000 \<le> bw_min_window_ns m"

lemma clamp_bounds: "lo \<le> hi \<Longrightarrow> lo \<le> clamp v lo hi \<and> clamp v lo hi \<le> hi"
  by (simp add: clamp_def)

lemma clamp_mono: "v \<le> w \<Longrightarrow> lo \<le> hi \<Longrightarrow> clamp v lo hi \<le> clamp w lo hi"
  by (simp add: clamp_def)

lemma normalize_model_ok: "model_ok (normalize_bandwidth_model c)"
proof -
  define knee where "knee = clamp (bw_knee_utilization c) (10/100) (95/100)"
  have knee: "1/10 \<le> knee \<and> knee \<le> 95/100"
    using clamp_bounds [of "10/100" "95/100" "bw_knee_utilization c"] by (simp add: knee_def)
  then have "knee + 1/100 \<le> clamp (bw_saturation_utilization c) (knee + 1/100) (995/1000)
      \<and> clamp (bw_saturation_utilization c) (knee + 1/100) (995/1000) \<le> 995/1000"
    by (intro clamp_bounds) simp
  then show ?thesis
    using knee clamp_bounds [of 0 1 "bw_low_utilization_slope c"]
    by (simp add: model_ok_def normalize_bandwidth_model_def Let_def knee_def)
qed

text \<open>The three parts of the penalty as functions of the utilisation.\<close>

definition queue_part :: "BandwidthModelConfig \<Rightarrow> double \<Rightarrow> double" where
  "queue_part m u =
     (if bw_knee_utilization m < u then
        let c = min u (bw_saturation_utilization m);
            kp = (c - bw_knee_utilization m)
                 / max (1/1000) (bw_saturation_utilization m - bw_knee_utilization m) in
        c / max (1/1000) (1 - c) * kp * kp else 0)"

definition overload_part :: "BandwidthModelConfig \<Rightarrow> double \<Rightarrow> double" where
  "overload_part m u =
     (if bw_saturation_utilization m < u
      then (u - bw_saturation_utilization m) / max (1/1000) (1 - bw_saturation_utilization m) else 0)"

lemma queue_part_nonneg: "model_ok m \<Longrightarrow> 0 \<le> queue_part m u"
  by (auto simp: queue_part_def model_ok_def Let_def intro!: mult_nonneg_nonneg divide_nonneg_nonneg)

lemma queue_part_mono:
  assumes "model_ok m" "u \<le> v"
  shows "queue_part m u \<le> queue_part m v"
proof (cases "bw_knee_utilization m < u")
  case True
  define k sat where "k = bw_knee_utilization m" and "sat = bw_saturation_utilization m"
  define cu cv span where "cu = min u sat" and "cv = min v sat" and "span = max (1/1000) (sat - k)"
  have c: "k \<le> cu" "cu \<le> cv" "0 \<le> k" "0 < span"
    using True assms by (auto simp: cu_def cv_def k_def sat_def span_def model_ok_def)
  then have kp: "0 \<le> (cu - k) / span" "(cu - k) / span \<le> (cv - k) / span"
    by (auto intro: divide_right_mono)
  have q0: "0 \<le> cu / max (1/1000) (1 - cu)"
    using c by (intro divide_nonneg_nonneg) auto
  have q: "cu / max (1/1000) (1 - cu) \<le> cv / max (1/1000) (1 - cv)"
    by (rule frac_le) (use c in auto)
  have "cu / max (1/1000) (1 - cu) * ((cu - k) / span) * ((cu - k) / span)
      \<le> cv / max (1/1000) (1 - cv) * ((cv - k) / span) * ((cv - k) / span)"
    using kp q q0 by (intro mult_mono mult_nonneg_nonneg) auto
  moreover have "bw_knee_utilization m < v"
    using True assms(2) by simp
  ultimately show ?thesis
    using True unfolding queue_part_def Let_def cu_def cv_def k_def sat_def span_def
    by (simp only: if_True)
next
  case False
  then show ?thesis
    using queue_part_nonneg [OF assms(1), of v] by (simp add: queue_part_def)
qed

lemma overload_part_mono:
  assumes "u \<le> v" shows "0 \<le> overload_part m u \<and> overload_part m u \<le> overload_part m v"
  using assms by (auto simp: overload_part_def intro!: divide_right_mono divide_nonneg_nonneg)

text \<open>The penalty written with these parts, for a utilisation that is not zero.\<close>

definition raw_penalty :: "BandwidthModelConfig \<Rightarrow> double \<Rightarrow> double \<Rightarrow> double \<Rightarrow> double" where
  "raw_penalty m peak base u =
     64 / peak * u * bw_low_utilization_slope m + 64 / peak * queue_part m u + base * overload_part m u"

lemma raw_penalty_mono:
  assumes "model_ok m" "0 < peak" "0 \<le> base" "u \<le> v"
  shows "raw_penalty m peak base u \<le> raw_penalty m peak base v"
  unfolding raw_penalty_def
proof (intro add_mono)
  show "64 / peak * u * bw_low_utilization_slope m \<le> 64 / peak * v * bw_low_utilization_slope m"
    using assms by (intro mult_right_mono mult_left_mono) (auto simp: model_ok_def)
  show "64 / peak * queue_part m u \<le> 64 / peak * queue_part m v"
    using assms queue_part_mono by (intro mult_left_mono) auto
  show "base * overload_part m u \<le> base * overload_part m v"
    using assms overload_part_mono by (intro mult_left_mono) auto
qed


definition penalty_window :: "BandwidthModelConfig \<Rightarrow> u64 \<Rightarrow> u64 \<Rightarrow> double" where
  "penalty_window m lo hi = double_of_u64 (max (if lo < hi then hi - lo else 0) (bw_min_window_ns m))"

lemma penalty_window_pos: "model_ok m \<Longrightarrow> 0 < penalty_window m lo hi"
  by (auto simp: penalty_window_def model_ok_def max_def simp del: word_gt_0
      intro: less_le_trans [of 0 1000])

lemma penalty_eq:
  fixes m n lo hi rr rl wl
  defines "peak \<equiv> max (1/1000) (interpolate_peak_bandwidth m rr)"
    and "base \<equiv> rl * rr + wl * (1 - rr)"
  assumes "model_ok m" "unat n * 64 < 2 ^ 64"
  shows "calculate_mlc_bandwidth_penalty m n lo hi rr rl wl =
    (if n = 0 then 0
     else clamp (raw_penalty m peak base (double_of_u64 n * 64 / penalty_window m lo hi / peak))
            0 (max (bw_max_penalty_ns m) (base * 10)))"
proof (cases "n = 0")
  case False
  define u where "u = double_of_u64 n * 64 / penalty_window m lo hi / peak"
  have "double_of_u64 (n * 64) = double_of_u64 n * 64"
    using assms(4) by (simp add: double_of_u64_def unat_mult_u64)
  then have u: "double_of_u64 (n * 64)
      / double_of_u64 (max (if lo < hi then hi - lo else 0) (bw_min_window_ns m)) / peak = u"
    by (simp add: u_def penalty_window_def)
  have "0 < u"
    using False penalty_window_pos [OF assms(3), of lo hi] by (auto simp: u_def peak_def word_neq_0_conv [symmetric])
  then show ?thesis
    using False
    unfolding calculate_mlc_bandwidth_penalty_def Let_def peak_def [symmetric] base_def [symmetric] u u_def [symmetric]
    by (simp add: raw_penalty_def queue_part_def overload_part_def Let_def mult_ac)
qed (simp add: calculate_mlc_bandwidth_penalty_def)

text \<open>
  More traffic never costs less. For every configuration, once normalised as
  \<open>configure_bandwidth_model\<close> does, any observation window, any read ratio and latencies that are
  not negative, the bandwidth penalty grows with the number of accesses, is never negative, and
  never exceeds the larger of the configured maximum and ten times the weighted base latency.
  The cache line count times 64 must fit in 64 bits, as the code computes it in that width.
\<close>

lemma bandwidth_penalty_mono:
  fixes c n n' lo hi rr rl wl
  defines "m \<equiv> normalize_bandwidth_model c"
    and "base \<equiv> rl * rr + wl * (1 - rr)"
  assumes "n \<le> n'" "unat n' * 64 < 2 ^ 64" "0 \<le> rr" "rr \<le> 1" "0 \<le> rl" "0 \<le> wl"
  shows "0 \<le> calculate_mlc_bandwidth_penalty m n lo hi rr rl wl
       \<and> calculate_mlc_bandwidth_penalty m n lo hi rr rl wl
         \<le> calculate_mlc_bandwidth_penalty m n' lo hi rr rl wl
       \<and> calculate_mlc_bandwidth_penalty m n' lo hi rr rl wl \<le> max (bw_max_penalty_ns m) (base * 10)"
proof -
  define peak where "peak = max (1/1000) (interpolate_peak_bandwidth m rr)"
  define cap where "cap = max (bw_max_penalty_ns m) (base * 10)"
  have ok: "model_ok m"
    by (simp add: m_def normalize_model_ok)
  have base: "0 \<le> base" and cap: "0 \<le> cap" and peak: "0 < peak"
    using assms ok by (auto simp: base_def cap_def peak_def model_ok_def)
  have fits: "unat n * 64 < 2 ^ 64"
    using assms(3,4) by (simp add: word_le_nat_alt)
  define util where "util k = double_of_u64 k * 64 / penalty_window m lo hi / peak" for k
  have eq: "calculate_mlc_bandwidth_penalty m k lo hi rr rl wl =
      (if k = 0 then 0 else clamp (raw_penalty m peak base (util k)) 0 cap)" if "unat k * 64 < 2 ^ 64" for k
    using penalty_eq [OF ok that, of lo hi rr rl wl] by (simp only: peak_def base_def cap_def util_def)
  have "util n \<le> util n'" unfolding util_def
    using assms(3) peak penalty_window_pos [OF ok, of lo hi]
    by (intro divide_right_mono) (auto simp: double_of_u64_le_iff)
  note mono = clamp_mono [OF raw_penalty_mono [OF ok peak base this] cap]
  have "n' = 0 \<Longrightarrow> n = 0"
    using assms(3) by simp
  then show ?thesis
    using mono clamp_bounds [OF cap] cap
    unfolding eq [OF fits] eq [OF assms(4)] cap_def [symmetric] by auto
qed

lemma bandwidth_penalty_mono_witness:
  "calculate_mlc_bandwidth_penalty (normalize_bandwidth_model default_bandwidth_model) 10 0 500000 (1/2) 100 150
   \<le> calculate_mlc_bandwidth_penalty (normalize_bandwidth_model default_bandwidth_model) 4000 0 500000 (1/2) 100 150"
  using bandwidth_penalty_mono [of 10 4000 "1/2" 100 150 default_bandwidth_model 0 500000]
  by (simp add: word_le_nat_alt)

end
