(* ===== verification/SSD_Backend.thy ===== *)
theory SSD_Backend
  imports Prelude "HOL-Library.AList"
begin

text \<open>
  The SSD streaming backend of \<open>include/ssd_streaming_backend.h\<close> and
  \<open>src/ssd_streaming_backend.cpp\<close>: a write-back page cache in front of a backing file, with
  clock (second chance) eviction, read-ahead, pinning and fallback between two I/O paths.

  The backing file is a page for every file offset. System calls (\<open>pread\<close>, \<open>pwrite\<close>, \<open>io_uring\<close>,
  \<open>posix_memalign\<close>, \<open>open\<close>, \<open>fsync\<close>) are not code of the program: an environment decides for each call
  in turn whether it succeeds, and which bytes a failed transfer leaves behind. Each public
  operation holds the mutex; the windows in which I/O drops it, and the waits for another
  thread's I/O, are not modelled, so the states \<open>Loading\<close> and \<open>Evicting\<close> are transient.
\<close>

datatype SsdPageState = NonResident | Loading | ResidentClean | ResidentDirty | Evicting

record SsdStreamingConfig =
  cf_backing_path :: string
  cf_capacity_bytes :: u64
  cf_page_size :: u32
  cf_io_chunk_size :: u32
  cf_cache_pages :: u64
  cf_read_ahead_pages :: u32
  cf_use_io_uring :: bool
  cf_use_odirect :: bool

record SsdStreamingStats =
  ss_reads :: u64
  ss_writes :: u64
  ss_page_faults :: u64
  ss_cache_hits :: u64
  ss_evictions :: u64
  ss_dirty_flushes :: u64
  ss_bytes_read :: u64
  ss_bytes_written :: u64

record PageMeta =
  pm_va_page_no :: u64
  pm_backing_slot :: u64
  pm_state :: SsdPageState
  pm_refcnt :: u32
  pm_generation :: u64
  pm_dirty :: bool
  pm_accessed :: bool
  pm_pinned :: bool
  pm_streaming :: bool
  pm_data :: "u8 list"

text \<open>The last three fields are the backing file, the environment and the calls made so far.\<close>

record SsdStreamingBackend =
  sb_config :: SsdStreamingConfig
  sb_fd_open :: bool
  sb_initialized :: bool
  sb_io_uring_enabled :: bool
  sb_generation :: u64
  sb_clock_queue :: "u64 list"
  sb_pages :: "(u64 \<times> PageMeta) list"
  sb_stats :: SsdStreamingStats
  sb_disk :: "u64 \<Rightarrow> u8 list"
  sb_env :: "nat \<Rightarrow> u8 list option"
  sb_calls :: nat

definition page_bytes :: "SsdStreamingBackend \<Rightarrow> u64" where
  "page_bytes s = ucast (cf_page_size (sb_config s))"

definition new_SsdStreamingBackend ::
  "SsdStreamingConfig \<Rightarrow> (u64 \<Rightarrow> u8 list) \<Rightarrow> (nat \<Rightarrow> u8 list option) \<Rightarrow> SsdStreamingBackend" where
  "new_SsdStreamingBackend c disk env =
     \<lparr>sb_config = c, sb_fd_open = False, sb_initialized = False, sb_io_uring_enabled = False,
      sb_generation = 0, sb_clock_queue = [], sb_pages = [],
      sb_stats = \<lparr>ss_reads = 0, ss_writes = 0, ss_page_faults = 0, ss_cache_hits = 0, ss_evictions = 0,
                  ss_dirty_flushes = 0, ss_bytes_read = 0, ss_bytes_written = 0\<rparr>,
      sb_disk = disk, sb_env = env, sb_calls = 0\<rparr>"

text \<open>A system call: success, or failure with the bytes it leaves in its destination.\<close>

definition sys_call :: "SsdStreamingBackend \<Rightarrow> u8 list option \<times> SsdStreamingBackend" where
  "sys_call s = (sb_env s (sb_calls s), s\<lparr>sb_calls := Suc (sb_calls s)\<rparr>)"

definition resize :: "nat \<Rightarrow> u8 list \<Rightarrow> u8 list" where
  "resize n xs = take n (xs @ replicate n 0)"

definition is_power_of_two :: "u64 \<Rightarrow> bool" where
  "is_power_of_two v \<longleftrightarrow> v \<noteq> 0 \<and> and v (v - 1) = 0"

text \<open>On Linux \<open>O_DIRECT\<close> is not zero; \<open>off_t\<close> has 64 bits with a sign.\<close>

definition validate_config :: "SsdStreamingConfig \<Rightarrow> bool" where
  "validate_config c \<longleftrightarrow>
     cf_backing_path c \<noteq> [] \<and> cf_capacity_bytes c \<noteq> 0
     \<and> is_power_of_two (ucast (cf_page_size c)) \<and> 512 \<le> cf_page_size c
     \<and> \<not> (cf_use_odirect c \<and> cf_page_size c < 4096)
     \<and> cf_capacity_bytes c mod ucast (cf_page_size c) = 0
     \<and> cf_capacity_bytes c \<le> 9223372036854775807"

definition full_pread :: "u64 \<Rightarrow> SsdStreamingBackend \<Rightarrow> bool \<times> u8 list \<times> SsdStreamingBackend" where
  "full_pread offset s =
     (case sys_call s of
        (None, s1) \<Rightarrow> (True, sb_disk s1 offset, s1)
      | (Some junk, s1) \<Rightarrow> (False, resize (unat (page_bytes s)) junk, s1))"

definition full_pwrite :: "u8 list \<Rightarrow> u64 \<Rightarrow> SsdStreamingBackend \<Rightarrow> bool \<times> SsdStreamingBackend" where
  "full_pwrite src offset s =
     (case sys_call s of
        (None, s1) \<Rightarrow> (True, s1\<lparr>sb_disk := (sb_disk s1)(offset := src)\<rparr>)
      | (Some junk, s1) \<Rightarrow> (False, s1\<lparr>sb_disk := (sb_disk s1)(offset := resize (unat (page_bytes s)) junk)\<rparr>))"

text \<open>A transfer through \<open>io_uring\<close> has the same outcomes; after a failure the call is retried
  with \<open>pread\<close> or \<open>pwrite\<close>.\<close>

definition read_page :: "u64 \<Rightarrow> SsdStreamingBackend \<Rightarrow> bool \<times> u8 list \<times> SsdStreamingBackend" where
  "read_page offset s =
     (if sb_io_uring_enabled s then
        let (ok, data, s1) = full_pread offset s in
        if ok then (True, data, s1) else full_pread offset s1
      else full_pread offset s)"

definition write_page :: "u8 list \<Rightarrow> u64 \<Rightarrow> SsdStreamingBackend \<Rightarrow> bool \<times> SsdStreamingBackend" where
  "write_page src offset s =
     (if sb_io_uring_enabled s then
        let (ok, s1) = full_pwrite src offset s in
        if ok then (True, s1) else full_pwrite src offset s1
      else full_pwrite src offset s)"

definition range_valid :: "u64 \<Rightarrow> u64 \<Rightarrow> SsdStreamingBackend \<Rightarrow> bool" where
  "range_valid addr len s \<longleftrightarrow>
     len \<noteq> 0 \<and> \<not> UINT64_MAX - (len - 1) < addr \<and> addr + len \<le> cf_capacity_bytes (sb_config s)"

definition addr_to_page :: "u64 \<Rightarrow> SsdStreamingBackend \<Rightarrow> u64" where
  "addr_to_page addr s = addr div page_bytes s"

definition page_offset :: "u64 \<Rightarrow> SsdStreamingBackend \<Rightarrow> u64" where
  "page_offset addr s = addr mod page_bytes s"

definition page_of :: "SsdStreamingBackend \<Rightarrow> u64 \<Rightarrow> PageMeta option" where
  "page_of s n = map_of (sb_pages s) n"

definition modify_page :: "u64 \<Rightarrow> (PageMeta \<Rightarrow> PageMeta) \<Rightarrow> SsdStreamingBackend \<Rightarrow> SsdStreamingBackend" where
  "modify_page n f s = s\<lparr>sb_pages := AList.map_entry n f (sb_pages s)\<rparr>"

definition count_stat :: "(SsdStreamingStats \<Rightarrow> SsdStreamingStats) \<Rightarrow> SsdStreamingBackend \<Rightarrow> SsdStreamingBackend"
  where "count_stat f s = s\<lparr>sb_stats := f (sb_stats s)\<rparr>"

text \<open>\<open>page->generation = ++generation_\<close> for the page of a number.\<close>

definition stamp :: "u64 \<Rightarrow> SsdStreamingBackend \<Rightarrow> SsdStreamingBackend" where
  "stamp n s = (let g = sb_generation s + 1 in
     modify_page n (\<lambda>p. p\<lparr>pm_generation := g\<rparr>) (s\<lparr>sb_generation := g\<rparr>))"

definition get_or_create_page_locked :: "u64 \<Rightarrow> SsdStreamingBackend \<Rightarrow> bool \<times> SsdStreamingBackend" where
  "get_or_create_page_locked n s =
     (if page_of s n \<noteq> None then (True, s)
      else case sys_call s of
        (Some _, s1) \<Rightarrow> (False, s1)
      | (None, s1) \<Rightarrow>
          (True, s1\<lparr>sb_pages := sb_pages s1 @
              [(n, \<lparr>pm_va_page_no = n, pm_backing_slot = n, pm_state = NonResident, pm_refcnt = 0,
                    pm_generation = 0, pm_dirty = False, pm_accessed = False, pm_pinned = False,
                    pm_streaming = False, pm_data = replicate (unat (page_bytes s)) 0\<rparr>)],
             sb_clock_queue := sb_clock_queue s1 @ [n]\<rparr>))"

text \<open>The page pointers of the callers always refer to a page of the table; the branch without
  the page is not reached.\<close>

definition load_page_locked :: "u64 \<Rightarrow> SsdStreamingBackend \<Rightarrow> bool \<times> SsdStreamingBackend" where
  "load_page_locked n s =
     (case page_of s n of
        None \<Rightarrow> (False, s)
      | Some p \<Rightarrow>
          let offset = pm_backing_slot p * page_bytes s in
          if cf_capacity_bytes (sb_config s) \<le> offset then (False, s)
          else
            let s1 = modify_page n (\<lambda>p. p\<lparr>pm_state := Loading, pm_refcnt := pm_refcnt p + 1\<rparr>) s;
                (ok, data, s2) = read_page offset s1;
                s3 = modify_page n (\<lambda>p. p\<lparr>pm_data := data, pm_refcnt := pm_refcnt p - 1\<rparr>) s2 in
            if ok then
              (True, count_stat (\<lambda>st. st\<lparr>ss_page_faults := ss_page_faults st + 1\<rparr>)
                (stamp n (modify_page n (\<lambda>p. p\<lparr>pm_state := ResidentClean, pm_dirty := False,
                                                pm_accessed := True\<rparr>) s3)))
            else (False, modify_page n (\<lambda>p. p\<lparr>pm_state := NonResident\<rparr>) s3))"

definition flush_page_locked :: "u64 \<Rightarrow> SsdStreamingBackend \<Rightarrow> bool \<times> SsdStreamingBackend" where
  "flush_page_locked n s =
     (case page_of s n of
        None \<Rightarrow> (True, s)
      | Some p \<Rightarrow>
          if \<not> pm_dirty p then (True, s)
          else
            let offset = pm_backing_slot p * page_bytes s;
                s1 = modify_page n (\<lambda>p. p\<lparr>pm_state := Evicting\<rparr>) s;
                (ok, s2) = write_page (pm_data p) offset s1 in
            if ok then
              (True, count_stat (\<lambda>st. st\<lparr>ss_dirty_flushes := ss_dirty_flushes st + 1,
                                         ss_bytes_written := ss_bytes_written st + page_bytes s\<rparr>)
                (modify_page n (\<lambda>p. p\<lparr>pm_dirty := False, pm_state := ResidentClean\<rparr>) s2))
            else (False, modify_page n (\<lambda>p. p\<lparr>pm_state := ResidentDirty\<rparr>) s2))"

definition evict_page_locked :: "u64 \<Rightarrow> SsdStreamingBackend \<Rightarrow> bool \<times> SsdStreamingBackend" where
  "evict_page_locked n s =
     (case page_of s n of
        None \<Rightarrow> (True, s)
      | Some p \<Rightarrow>
          if pm_pinned p \<or> pm_refcnt p \<noteq> 0 then (False, s)
          else
            let (ok, s1) = flush_page_locked n s in
            if \<not> ok then (False, s1)
            else (True, count_stat (\<lambda>st. st\<lparr>ss_evictions := ss_evictions st + 1\<rparr>)
                          (s1\<lparr>sb_pages := AList.delete n (sb_pages s1)\<rparr>)))"

text \<open>The loop of \<open>evict_one_locked\<close> with the attempts left.\<close>

fun evict_scan :: "nat \<Rightarrow> SsdStreamingBackend \<Rightarrow> bool \<times> SsdStreamingBackend" where
  "evict_scan 0 s = (False, s)"
| "evict_scan (Suc i) s =
     (case sb_clock_queue s of
        [] \<Rightarrow> (False, s)
      | n # q \<Rightarrow>
          (case page_of s n of
             None \<Rightarrow> evict_scan i (s\<lparr>sb_clock_queue := q\<rparr>)
           | Some p \<Rightarrow>
               if pm_pinned p \<or> pm_refcnt p \<noteq> 0 \<or> pm_state p = Loading \<or> pm_state p = Evicting
               then evict_scan i (s\<lparr>sb_clock_queue := q @ [n]\<rparr>)
               else if pm_accessed p
               then evict_scan i (modify_page n (\<lambda>p. p\<lparr>pm_accessed := False\<rparr>) (s\<lparr>sb_clock_queue := q @ [n]\<rparr>))
               else evict_page_locked n (s\<lparr>sb_clock_queue := q\<rparr>)))"

definition evict_one_locked :: "SsdStreamingBackend \<Rightarrow> bool \<times> SsdStreamingBackend" where
  "evict_one_locked s =
     (if sb_pages s = [] then (True, s) else evict_scan (length (sb_clock_queue s) * 2 + 1) s)"


text \<open>A successful eviction removes a page, so that the loops that make room end.\<close>

lemma length_map_entry [simp]: "length (AList.map_entry n f xs) = length xs"
  by (induction xs) auto

lemma length_modify_page [simp]: "length (sb_pages (modify_page n f s)) = length (sb_pages s)"
  by (simp add: modify_page_def)

lemma full_pwrite_pages [simp]: "sb_pages (snd (full_pwrite src o1 s)) = sb_pages s"
  by (simp add: full_pwrite_def sys_call_def split: option.split)

lemma write_page_pages [simp]: "sb_pages (snd (write_page src o1 s)) = sb_pages s"
  by (simp add: write_page_def case_prod_unfold Let_def)

lemma flush_page_length [simp]: "length (sb_pages (snd (flush_page_locked n s))) = length (sb_pages s)"
  by (simp add: flush_page_locked_def Let_def count_stat_def case_prod_unfold split: option.split)

lemma page_of_map_entry:
  "page_of (modify_page n f s) k = (if k = n then map_option f (page_of s n) else page_of s k)"
  by (auto simp: page_of_def modify_page_def map_of_map_entry split: option.split)

lemma flush_page_dom: "page_of (snd (flush_page_locked n s)) k = None \<longleftrightarrow> page_of s k = None"
  by (auto simp: flush_page_locked_def Let_def count_stat_def case_prod_unfold page_of_def
      modify_page_def map_of_map_entry split: option.split)

lemma length_delete_less: "map_of xs n = Some v \<Longrightarrow> length (AList.delete n xs) < length xs"
  unfolding AList.delete_eq by (rule length_filter_less [of "(n, v)"]) (auto dest: map_of_SomeD)

lemma evict_page_length:
  assumes "evict_page_locked n s = (True, s')" "page_of s n \<noteq> None"
  shows "length (sb_pages s') < length (sb_pages s)"
proof -
  obtain p where p: "page_of s n = Some p"
    using assms(2) by blast
  let ?f = "snd (flush_page_locked n s)"
  have "s' = count_stat (\<lambda>st. st\<lparr>ss_evictions := ss_evictions st + 1\<rparr>)
               (?f\<lparr>sb_pages := AList.delete n (sb_pages ?f)\<rparr>)"
    using assms(1) p by (auto simp: evict_page_locked_def Let_def case_prod_unfold split: if_splits)
  moreover have "page_of ?f n \<noteq> None"
    using flush_page_dom p by (metis option.distinct(1))
  ultimately show ?thesis
    using length_delete_less [of "sb_pages ?f" n] by (auto simp: count_stat_def page_of_def)
qed

lemma evict_scan_length:
  "evict_scan i s = (True, s') \<Longrightarrow> length (sb_pages s') < length (sb_pages s)"
proof (induction i s rule: evict_scan.induct)
  case (2 i s)
  obtain n q where q: "sb_clock_queue s = n # q"
    using 2(4) by (cases "sb_clock_queue s") auto
  show ?case
  proof (cases "page_of s n")
    case None
    then show ?thesis
      using 2(1) [OF q None] 2(4) q by simp
  next
    case (Some p)
    have "page_of (s\<lparr>sb_clock_queue := q\<rparr>) n \<noteq> None"
      using Some by (simp add: page_of_def)
    then show ?thesis
      using 2(2) [OF q Some] 2(3) [OF q Some] 2(4) q Some
        evict_page_length [of n "s\<lparr>sb_clock_queue := q\<rparr>" s']
      by (auto split: if_splits)
  qed
qed simp

lemma evict_one_length:
  "evict_one_locked s = (True, s') \<Longrightarrow> sb_pages s \<noteq> [] \<Longrightarrow> length (sb_pages s') < length (sb_pages s)"
  by (metis evict_one_locked_def evict_scan_length)


section \<open>Loading pages\<close>

text \<open>The loop before a page is created: evict until there is room, or fail.\<close>

function make_room :: "SsdStreamingBackend \<Rightarrow> bool \<times> SsdStreamingBackend" where
  "make_room s =
     (if unat (cf_cache_pages (sb_config s)) \<le> length (sb_pages s) \<and> sb_pages s \<noteq> []
      then (case evict_one_locked s of
              (True, s1) \<Rightarrow> make_room s1
            | (False, s1) \<Rightarrow> (False, s1))
      else (True, s))"
  by pat_completeness auto
termination
  by (relation "measure (\<lambda>s. length (sb_pages s))") (auto dest!: evict_one_length [OF sym])

text \<open>The loop that gives pages back while the cache is over its size.\<close>

function shrink :: "SsdStreamingBackend \<Rightarrow> SsdStreamingBackend" where
  "shrink s =
     (if unat (cf_cache_pages (sb_config s)) < length (sb_pages s)
      then (case evict_one_locked s of
              (True, s1) \<Rightarrow> shrink s1
            | (False, s1) \<Rightarrow> s1)
      else s)"
  by pat_completeness auto
termination
  by (relation "measure (\<lambda>s. length (sb_pages s))") (auto dest!: evict_one_length [OF sym])

declare make_room.simps [simp del] shrink.simps [simp del]

definition room_for :: "u64 \<Rightarrow> SsdStreamingBackend \<Rightarrow> bool \<times> SsdStreamingBackend" where
  "room_for n s = (if page_of s n = None then make_room s else (True, s))"

text \<open>The read-ahead loop after the page \<open>n\<close>, over the distances left.\<close>

fun readahead_loop :: "u64 \<Rightarrow> u64 \<Rightarrow> nat list \<Rightarrow> SsdStreamingBackend \<Rightarrow> SsdStreamingBackend" where
  "readahead_loop n last_page [] s = s"
| "readahead_loop n last_page (i # rest) s =
     (let ra_page_no = n + word_of_nat i in
      if \<not> ra_page_no \<le> last_page then s
      else
        let (room, s1) = room_for ra_page_no s in
        if \<not> room then s1
        else
          let (got, s2) = get_or_create_page_locked ra_page_no s1 in
          if \<not> got then s2
          else
            let s3 = (case page_of s2 ra_page_no of
                        Some p \<Rightarrow> if pm_state p = NonResident then snd (load_page_locked ra_page_no s2) else s2
                      | None \<Rightarrow> s2) in
            readahead_loop n last_page rest (shrink s3))"

definition readahead :: "u64 \<Rightarrow> SsdStreamingBackend \<Rightarrow> SsdStreamingBackend" where
  "readahead n s =
     (let last_page = (cf_capacity_bytes (sb_config s) - 1) div page_bytes s;
          s1 = modify_page n (\<lambda>p. p\<lparr>pm_refcnt := pm_refcnt p + 1\<rparr>) s;
          s2 = readahead_loop n last_page [1..<Suc (unat (cf_read_ahead_pages (sb_config s)))] s1 in
      modify_page n (\<lambda>p. p\<lparr>pm_refcnt := pm_refcnt p - 1\<rparr>) s2)"

definition resident :: "PageMeta \<Rightarrow> bool" where
  "resident p \<longleftrightarrow> pm_state p = ResidentClean \<or> pm_state p = ResidentDirty"

definition ensure_page_loaded_locked :: "u64 \<Rightarrow> bool \<Rightarrow> SsdStreamingBackend \<Rightarrow> bool \<times> SsdStreamingBackend" where
  "ensure_page_loaded_locked n issue_readahead s =
     (let (room, s1) = room_for n s in
      if \<not> room then (False, s1)
      else
        let (got, s2) = get_or_create_page_locked n s1 in
        if \<not> got then (False, s2)
        else
          if (case page_of s2 n of Some p \<Rightarrow> resident p | None \<Rightarrow> False) then
            (True, count_stat (\<lambda>st. st\<lparr>ss_cache_hits := ss_cache_hits st + 1\<rparr>)
              (stamp n (modify_page n (\<lambda>p. p\<lparr>pm_accessed := True\<rparr>) s2)))
          else
            let (ok, s3) = load_page_locked n (shrink s2) in
            if \<not> ok then (False, s3)
            else (True, if issue_readahead then readahead n s3 else s3))"


section \<open>Public operations\<close>

text \<open>
  The result is \<open>None\<close> where the code would divide by a page size of zero or where
  \<open>pages_.at\<close> would throw. The chunk loops carry the number of bytes done.
\<close>

definition chunk_size :: "u64 \<Rightarrow> u64 \<Rightarrow> u64 \<Rightarrow> SsdStreamingBackend \<Rightarrow> u64" where
  "chunk_size addr len copied s = min (len - copied) (page_bytes s - page_offset (addr + copied) s)"

lemma chunk_size_progress:
  assumes "copied < len" "page_bytes s \<noteq> 0"
  shows "unat copied < unat (copied + chunk_size addr len copied s)
       \<and> unat (copied + chunk_size addr len copied s) \<le> unat len
       \<and> unat (copied + chunk_size addr len copied s) = unat copied + unat (chunk_size addr len copied s)"
proof -
  have "page_offset (addr + copied) s < page_bytes s"
    using assms(2) by (simp add: page_offset_def word_less_nat_alt unat_mod unat_gt_0)
  then have "0 < chunk_size addr len copied s" "chunk_size addr len copied s \<le> len - copied"
    using assms(1) by (auto simp: chunk_size_def word_less_nat_alt unat_sub word_le_nat_alt min_def)
  then show ?thesis
    using assms(1) by unat_arith
qed

lemma chunk_size_decreases:
  "copied < len \<Longrightarrow> page_bytes s \<noteq> 0
   \<Longrightarrow> unat len - unat (copied + chunk_size addr len copied s) < unat len - unat copied"
  using chunk_size_progress [of copied len s addr] by linarith

function read_loop :: "u64 \<Rightarrow> u64 \<Rightarrow> u64 \<Rightarrow> u8 list \<Rightarrow> SsdStreamingBackend
    \<Rightarrow> (bool \<times> u8 list \<times> SsdStreamingBackend) option" where
  "read_loop addr len copied dst s =
     (if copied < len then
        if page_bytes s = 0 then None
        else
          let n = addr_to_page (addr + copied) s; offset = page_offset (addr + copied) s;
              chunk = chunk_size addr len copied s;
              (ok, s1) = ensure_page_loaded_locked n (copied = 0) s in
          if \<not> ok then Some (False, dst, s1)
          else (case page_of s1 n of
                  None \<Rightarrow> None
                | Some p \<Rightarrow> read_loop addr len (copied + chunk)
                              (dst @ take (unat chunk) (drop (unat offset) (pm_data p))) s1)
      else Some (True, dst, s))"
  by pat_completeness auto
termination
  by (relation "measure (\<lambda>(addr, len, copied, dst, s). unat len - unat copied)")
    (auto simp: chunk_size_decreases)


declare read_loop.simps [simp del]

definition ssd_read :: "u64 \<Rightarrow> bool \<Rightarrow> u64 \<Rightarrow> SsdStreamingBackend
    \<Rightarrow> (bool \<times> u8 list \<times> SsdStreamingBackend) option" where
  "ssd_read addr dst_null len s =
     (if dst_null \<or> \<not> range_valid addr len s \<or> \<not> sb_initialized s then Some (False, [], s)
      else case read_loop addr len 0 [] s of
        Some (True, dst, s1) \<Rightarrow>
          Some (True, dst, count_stat (\<lambda>st. st\<lparr>ss_reads := ss_reads st + 1,
                                               ss_bytes_read := ss_bytes_read st + len\<rparr>) s1)
      | r \<Rightarrow> r)"

definition put_bytes :: "nat \<Rightarrow> u8 list \<Rightarrow> u8 list \<Rightarrow> u8 list" where
  "put_bytes k bs xs = take k xs @ bs @ drop (k + length bs) xs"

function write_loop :: "u64 \<Rightarrow> u8 list \<Rightarrow> u64 \<Rightarrow> u64 \<Rightarrow> SsdStreamingBackend
    \<Rightarrow> (bool \<times> SsdStreamingBackend) option" where
  "write_loop addr src len copied s =
     (if copied < len then
        if page_bytes s = 0 then None
        else
          let n = addr_to_page (addr + copied) s; offset = page_offset (addr + copied) s;
              chunk = chunk_size addr len copied s;
              (ok, s1) = ensure_page_loaded_locked n False s in
          if \<not> ok then Some (False, s1)
          else (case page_of s1 n of
                  None \<Rightarrow> None
                | Some p \<Rightarrow>
                    let bytes = take (unat chunk) (drop (unat copied) src);
                        s2 = stamp n (modify_page n (\<lambda>p. p\<lparr>
                               pm_data := put_bytes (unat offset) bytes (pm_data p),
                               pm_dirty := True, pm_state := ResidentDirty, pm_accessed := True\<rparr>) s1) in
                    write_loop addr src len (copied + chunk) s2)
      else Some (True, s))"
  by pat_completeness auto
termination
  by (relation "measure (\<lambda>(addr, src, len, copied, s). unat len - unat copied)")
    (auto simp: chunk_size_decreases)

declare write_loop.simps [simp del]

definition ssd_write :: "u64 \<Rightarrow> u8 list option \<Rightarrow> u64 \<Rightarrow> SsdStreamingBackend
    \<Rightarrow> (bool \<times> SsdStreamingBackend) option" where
  "ssd_write addr src len s =
     (case src of
        None \<Rightarrow> Some (False, s)
      | Some bs \<Rightarrow>
          if \<not> range_valid addr len s \<or> \<not> sb_initialized s then Some (False, s)
          else case write_loop addr bs len 0 s of
            Some (True, s1) \<Rightarrow>
              Some (True, count_stat (\<lambda>st. st\<lparr>ss_writes := ss_writes st + 1,
                                              ss_bytes_written := ss_bytes_written st + len\<rparr>) s1)
          | r \<Rightarrow> r)"

text \<open>Flushing a snapshot of page numbers; all pages are tried.\<close>

fun flush_pages :: "u64 list \<Rightarrow> bool \<Rightarrow> SsdStreamingBackend \<Rightarrow> bool \<times> SsdStreamingBackend" where
  "flush_pages [] ok s = (ok, s)"
| "flush_pages (n # ns) ok s =
     (let (ok1, s1) = flush_page_locked n s in flush_pages ns (ok1 \<and> ok) s1)"

definition hold_all :: "SsdStreamingBackend \<Rightarrow> SsdStreamingBackend" where
  "hold_all s = s\<lparr>sb_pages := map (\<lambda>(n, p). (n, p\<lparr>pm_refcnt := pm_refcnt p + 1\<rparr>)) (sb_pages s)\<rparr>"

definition release_all :: "SsdStreamingBackend \<Rightarrow> SsdStreamingBackend" where
  "release_all s = s\<lparr>sb_pages := map (\<lambda>(n, p). (n, p\<lparr>pm_refcnt := pm_refcnt p - 1\<rparr>)) (sb_pages s)\<rparr>"

definition ssd_flush :: "SsdStreamingBackend \<Rightarrow> bool \<times> SsdStreamingBackend" where
  "ssd_flush s =
     (if \<not> sb_initialized s then (False, s)
      else
        let (ok, s1) = flush_pages (map fst (sb_pages s)) True (hold_all s);
            s2 = release_all s1 in
        if \<not> ok then (False, s2)
        else case sys_call s2 of
          (None, s3) \<Rightarrow> (True, s3)
        | (Some _, s3) \<Rightarrow> (False, s3))"

text \<open>The pages from \<open>first\<close> to \<open>last\<close> that the loops of the hint operations visit.\<close>

definition page_span :: "u64 \<Rightarrow> u64 \<Rightarrow> SsdStreamingBackend \<Rightarrow> u64 list" where
  "page_span addr len s =
     map word_of_nat [unat (addr_to_page addr s) ..< Suc (unat (addr_to_page (addr + len - 1) s))]"

fun prefetch_loop :: "u64 list \<Rightarrow> SsdStreamingBackend \<Rightarrow> bool \<times> SsdStreamingBackend" where
  "prefetch_loop [] s = (True, s)"
| "prefetch_loop (n # ns) s =
     (let (ok, s1) = ensure_page_loaded_locked n False s in
      if \<not> ok then (False, s1) else prefetch_loop ns s1)"

fun evict_loop :: "u64 list \<Rightarrow> bool \<Rightarrow> SsdStreamingBackend \<Rightarrow> bool \<times> SsdStreamingBackend" where
  "evict_loop [] ok s = (ok, s)"
| "evict_loop (n # ns) ok s =
     (let (ok1, s1) = evict_page_locked n s in evict_loop ns (ok1 \<and> ok) s1)"

fun pin_loop :: "u64 list \<Rightarrow> SsdStreamingBackend \<Rightarrow> bool \<times> SsdStreamingBackend" where
  "pin_loop [] s = (True, s)"
| "pin_loop (n # ns) s =
     (let (ok, s1) = ensure_page_loaded_locked n False s in
      if \<not> ok then (False, s1)
      else pin_loop ns (modify_page n (\<lambda>p. p\<lparr>pm_pinned := True\<rparr>) s1))"

fun streaming_loop :: "u64 list \<Rightarrow> SsdStreamingBackend \<Rightarrow> bool \<times> SsdStreamingBackend" where
  "streaming_loop [] s = (True, s)"
| "streaming_loop (n # ns) s =
     (let (room, s1) = room_for n s in
      if \<not> room then (False, s1)
      else
        let (got, s2) = get_or_create_page_locked n s1 in
        if \<not> got then (False, s2)
        else streaming_loop ns (modify_page n (\<lambda>p. p\<lparr>pm_streaming := True, pm_accessed := False\<rparr>) s2))"

definition unpin_loop :: "u64 list \<Rightarrow> SsdStreamingBackend \<Rightarrow> SsdStreamingBackend" where
  "unpin_loop ns s = fold (\<lambda>n. modify_page n (\<lambda>p. p\<lparr>pm_pinned := False\<rparr>)) ns s"

definition guarded :: "u64 \<Rightarrow> u64 \<Rightarrow> (u64 list \<Rightarrow> SsdStreamingBackend \<Rightarrow> bool \<times> SsdStreamingBackend)
    \<Rightarrow> SsdStreamingBackend \<Rightarrow> bool \<times> SsdStreamingBackend" where
  "guarded addr len loop s =
     (if \<not> range_valid addr len s \<or> \<not> sb_initialized s then (False, s) else loop (page_span addr len s) s)"

definition ssd_prefetch :: "u64 \<Rightarrow> u64 \<Rightarrow> SsdStreamingBackend \<Rightarrow> bool \<times> SsdStreamingBackend" where
  "ssd_prefetch addr len = guarded addr len prefetch_loop"

definition ssd_evict_after :: "u64 \<Rightarrow> u64 \<Rightarrow> SsdStreamingBackend \<Rightarrow> bool \<times> SsdStreamingBackend" where
  "ssd_evict_after addr len = guarded addr len (\<lambda>ns. evict_loop ns True)"

definition ssd_pin :: "u64 \<Rightarrow> u64 \<Rightarrow> SsdStreamingBackend \<Rightarrow> bool \<times> SsdStreamingBackend" where
  "ssd_pin addr len = guarded addr len pin_loop"

definition ssd_unpin :: "u64 \<Rightarrow> u64 \<Rightarrow> SsdStreamingBackend \<Rightarrow> bool \<times> SsdStreamingBackend" where
  "ssd_unpin addr len = guarded addr len (\<lambda>ns s. (True, unpin_loop ns s))"

definition ssd_set_streaming :: "u64 \<Rightarrow> u64 \<Rightarrow> SsdStreamingBackend \<Rightarrow> bool \<times> SsdStreamingBackend" where
  "ssd_set_streaming addr len = guarded addr len streaming_loop"

definition initialize :: "SsdStreamingBackend \<Rightarrow> bool \<times> SsdStreamingBackend" where
  "initialize s =
     (if sb_initialized s then (True, s)
      else if \<not> validate_config (sb_config s) then (False, s\<lparr>sb_fd_open := False\<rparr>)
      else case sys_call s of
        (Some _, s1) \<Rightarrow> (False, s1\<lparr>sb_fd_open := False\<rparr>)
      | (None, s1) \<Rightarrow>
          let c = sb_config s1;
              c1 = (if cf_cache_pages c = 0
                    then c\<lparr>cf_cache_pages := max 1024 (67108864 div ucast (cf_page_size c))\<rparr> else c);
              c2 = (if cf_read_ahead_pages c1 = 0 \<and> cf_page_size c1 < cf_io_chunk_size c1
                    then c1\<lparr>cf_read_ahead_pages := cf_io_chunk_size c1 div cf_page_size c1\<rparr> else c1);
              (ring, s2) = (if cf_use_io_uring c2 then sys_call s1 else (Some [], s1)) in
          (True, s2\<lparr>sb_config := c2, sb_fd_open := True, sb_initialized := True,
                    sb_io_uring_enabled := (ring = None)\<rparr>))"

definition shutdown :: "SsdStreamingBackend \<Rightarrow> SsdStreamingBackend" where
  "shutdown s =
     (if \<not> sb_initialized s \<and> \<not> sb_fd_open s then s
      else
        let (ok, s1) = flush_pages (map fst (sb_pages s)) True (s\<lparr>sb_initialized := False\<rparr>) in
        s1\<lparr>sb_pages := [], sb_clock_queue := [], sb_io_uring_enabled := False, sb_fd_open := False\<rparr>)"

end
