(* ===== verification/SSD_Refinement.thy ===== *)
theory SSD_Refinement
  imports SSD_Backend
begin

text \<open>
  The page cache of \<open>SSD_Backend\<close> is transparent: seen through the cache, the backend is a flat
  byte memory that only writes change, whatever is cached, evicted, prefetched or pinned, and
  whichever system calls fail. A flush that reports success has put that memory on the file.
\<close>

definition key_ok :: "SsdStreamingBackend \<Rightarrow> u64 \<Rightarrow> bool" where
  "key_ok s n \<longleftrightarrow> unat n * unat (page_bytes s) < 18446744073709551616"

definition page_ok :: "SsdStreamingBackend \<Rightarrow> u64 \<Rightarrow> PageMeta \<Rightarrow> bool" where
  "page_ok s n p \<longleftrightarrow> pm_backing_slot p = n \<and> length (pm_data p) = unat (page_bytes s)
     \<and> pm_state p \<noteq> Loading \<and> pm_state p \<noteq> Evicting \<and> (pm_dirty p \<longleftrightarrow> pm_state p = ResidentDirty)
     \<and> (pm_state p = ResidentClean \<longrightarrow> pm_data p = sb_disk s (n * page_bytes s))"

definition ssd_inv :: "SsdStreamingBackend \<Rightarrow> bool" where
  "ssd_inv s \<longleftrightarrow> page_bytes s \<noteq> 0 \<and> cf_cache_pages (sb_config s) \<noteq> 0
     \<and> length (sb_pages s) \<le> unat (cf_cache_pages (sb_config s)) \<and> distinct (map fst (sb_pages s))
     \<and> (\<forall>n p. page_of s n = Some p \<longrightarrow> key_ok s n \<and> page_ok s n p)
     \<and> (\<forall>off. length (sb_disk s off) = unat (page_bytes s))"

text \<open>The reference counts: which pages are held, and how often.\<close>

definition refs :: "(u64 \<Rightarrow> u32) \<Rightarrow> SsdStreamingBackend \<Rightarrow> bool" where
  "refs r s \<longleftrightarrow> (\<forall>n p. page_of s n = Some p \<longrightarrow> pm_refcnt p = r n)"

text \<open>The contents of a page as a client sees them.\<close>

definition pview :: "SsdStreamingBackend \<Rightarrow> u64 \<Rightarrow> PageMeta \<Rightarrow> u8 list" where
  "pview s n p = (if resident p then pm_data p else sb_disk s (n * page_bytes s))"

definition page_view :: "SsdStreamingBackend \<Rightarrow> u64 \<Rightarrow> u8 list" where
  "page_view s n = (case page_of s n of Some p \<Rightarrow> pview s n p | None \<Rightarrow> sb_disk s (n * page_bytes s))"

definition ssd_mem :: "SsdStreamingBackend \<Rightarrow> u64 \<Rightarrow> u8" where
  "ssd_mem s a = page_view s (addr_to_page a s) ! unat (page_offset a s)"

text \<open>A step that keeps the invariant, the reference counts, the memory and the held pages.\<close>

definition keeps :: "(u64 \<Rightarrow> u32) \<Rightarrow> SsdStreamingBackend \<Rightarrow> SsdStreamingBackend \<Rightarrow> bool" where
  "keeps r s s' \<longleftrightarrow> ssd_inv s' \<and> refs r s' \<and> sb_config s' = sb_config s
     \<and> sb_initialized s' = sb_initialized s
     \<and> (\<forall>n. key_ok s n \<longrightarrow> page_view s' n = page_view s n)
     \<and> (\<forall>n p. r n \<noteq> 0 \<longrightarrow> page_of s n = Some p \<longrightarrow>
          (\<exists>p'. page_of s' n = Some p' \<and> (resident p \<longrightarrow> resident p')))"

lemma page_bytes_cong: "sb_config s' = sb_config s \<Longrightarrow> page_bytes s' = page_bytes s"
  by (simp add: page_bytes_def)

lemma keeps_refl: "ssd_inv s \<Longrightarrow> refs r s \<Longrightarrow> keeps r s s"
  by (simp add: keeps_def)

lemma keeps_trans: "keeps r s s1 \<Longrightarrow> keeps r s1 s2 \<Longrightarrow> keeps r s s2"
  unfolding keeps_def key_ok_def page_bytes_def by metis

lemma keeps_trans_free:
  "keeps r s s1 \<Longrightarrow> keeps (\<lambda>n. 0) s1 s2 \<Longrightarrow> keeps (\<lambda>n. 0) s s2"
  unfolding keeps_def key_ok_def page_bytes_def by metis

lemma keepsD: "keeps r s s' \<Longrightarrow> ssd_inv s'" "keeps r s s' \<Longrightarrow> refs r s'"
  by (simp_all add: keeps_def)

lemma page_offset_inj:
  assumes "key_ok s n" "key_ok s k" "page_bytes s \<noteq> 0" "n * page_bytes s = k * page_bytes s"
  shows "n = k"
proof -
  have "unat n * unat (page_bytes s) = unat (n * page_bytes s)"
    using assms(1) unfolding key_ok_def by (rule unat_mult_u64 [symmetric])
  also have "\<dots> = unat k * unat (page_bytes s)"
    unfolding assms(4) using assms(2) unfolding key_ok_def by (rule unat_mult_u64)
  finally have "unat n * unat (page_bytes s) = unat k * unat (page_bytes s)" .
  moreover have "unat (page_bytes s) \<noteq> 0"
    using assms(3) by (simp add: unat_eq_zero)
  ultimately have "unat n = unat k"
    by simp
  then show ?thesis
    by (rule unsigned_word_eqI)
qed


lemma ssd_invD:
  assumes "ssd_inv s" "page_of s n = Some p"
  shows "key_ok s n" "page_ok s n p"
  using assms by (auto simp: ssd_inv_def)

text \<open>Replacing one page, with a disk that may change at its place only.\<close>

lemma keeps_page_refs:
  assumes inv: "ssd_inv s" "refs r s'" and p: "page_of s n = Some p"
    and frame: "sb_config s' = sb_config s" "sb_initialized s' = sb_initialized s"
    and pages: "distinct (map fst (sb_pages s'))" "page_of s' = (page_of s)(n \<mapsto> p')"
      "length (sb_pages s') = length (sb_pages s)"
    and disk: "\<And>off. off \<noteq> n * page_bytes s \<Longrightarrow> sb_disk s' off = sb_disk s off"
      "length (sb_disk s' (n * page_bytes s)) = unat (page_bytes s)"
    and ok: "page_ok s' n p'" "pview s' n p' = pview s n p" "resident p \<Longrightarrow> resident p'"
  shows "keeps r s s'"
proof -
  have pb: "page_bytes s' = page_bytes s"
    using frame(1) by (rule page_bytes_cong)
  have other: "sb_disk s' (k * page_bytes s) = sb_disk s (k * page_bytes s)" if "key_ok s k" "k \<noteq> n" for k
    using page_offset_inj [OF that(1) ssd_invD(1) [OF inv(1) p]] inv(1) that(2) disk(1)
    by (metis ssd_inv_def)
  have "ssd_inv s'"
    unfolding ssd_inv_def
  proof (intro conjI allI impI)
    fix k pk assume k: "page_of s' k = Some pk"
    show "key_ok s' k"
      using k inv(1) p pages(2) by (auto simp: ssd_inv_def key_ok_def pb split: if_splits)
    show "page_ok s' k pk"
    proof (cases "k = n")
      case False
      then have "page_of s k = Some pk"
        using k pages(2) by simp
      then show ?thesis
        using ssd_invD [OF inv(1)] other [of k] False by (simp add: page_ok_def pb)
    qed (use k ok pages(2) in simp)
  next
    fix off show "length (sb_disk s' off) = unat (page_bytes s')"
      using disk inv(1) by (cases "off = n * page_bytes s") (auto simp: pb ssd_inv_def)
  qed (use inv pages pb frame in \<open>auto simp: ssd_inv_def\<close>)
  moreover have "page_view s' k = page_view s k" if "key_ok s k" for k
    using other [OF that] ok(2) p by (auto simp: page_view_def pages(2) pview_def pb split: option.split)
  ultimately show ?thesis
    using frame pages(2) inv(2) p ok(3) by (auto simp: keeps_def)
qed

lemma refs_upd: "refs r s \<Longrightarrow> page_of s n = Some p \<Longrightarrow> page_of s' = (page_of s)(n \<mapsto> p')
    \<Longrightarrow> pm_refcnt p' = pm_refcnt p \<Longrightarrow> refs r s'"
  by (auto simp: refs_def)

lemma distinct_modify [simp]:
  "distinct (map fst (sb_pages s)) \<Longrightarrow> distinct (map fst (sb_pages (modify_page n f s)))"
  by (simp add: modify_page_def distinct_map_entry)

lemma page_of_modify:
  "page_of s n = Some p \<Longrightarrow> page_of (modify_page n f s) = (page_of s)(n \<mapsto> f p)"
  by (auto simp: fun_eq_iff page_of_map_entry)

lemma modify_page_frame [simp]:
  "sb_config (modify_page n f s) = sb_config s"
  "sb_initialized (modify_page n f s) = sb_initialized s"
  "sb_disk (modify_page n f s) = sb_disk s"
  "sb_io_uring_enabled (modify_page n f s) = sb_io_uring_enabled s"
  "sb_generation (modify_page n f s) = sb_generation s"
  "sb_clock_queue (modify_page n f s) = sb_clock_queue s"
  "sb_env (modify_page n f s) = sb_env s"
  "sb_calls (modify_page n f s) = sb_calls s"
  "page_bytes (modify_page n f s) = page_bytes s"
  by (simp_all add: modify_page_def page_bytes_def)

lemma map_entry_missing: "map_of xs n = None \<Longrightarrow> AList.map_entry n f xs = xs"
  by (induction xs) (auto split: if_splits)

lemma modify_page_missing: "page_of s n = None \<Longrightarrow> modify_page n f s = s"
  by (simp add: page_of_def modify_page_def map_entry_missing)

text \<open>Fields that no clause of the invariant mentions.\<close>

lemma keeps_other:
  assumes "ssd_inv s" "refs r s" "sb_pages s' = sb_pages s" "sb_config s' = sb_config s"
    "sb_initialized s' = sb_initialized s" "sb_disk s' = sb_disk s"
  shows "keeps r s s'"
proof -
  have pb: "page_bytes s' = page_bytes s"
    using assms(4) by (rule page_bytes_cong)
  have po: "page_of s' = page_of s"
    using assms(3) by (simp add: page_of_def fun_eq_iff)
  show ?thesis
    using assms by (simp add: keeps_def ssd_inv_def refs_def page_view_def pview_def po pb key_ok_def page_ok_def
        split: option.split)
qed

lemma keeps_modify:
  assumes "ssd_inv s" "refs r s"
    and "\<And>p. page_of s n = Some p \<Longrightarrow> page_ok s n p \<Longrightarrow> page_ok s n (f p) \<and> pm_refcnt (f p) = pm_refcnt p
           \<and> pview s n (f p) = pview s n p \<and> (resident p \<longrightarrow> resident (f p))"
  shows "keeps r s (modify_page n f s)"
proof (cases "page_of s n")
  case None
  then show ?thesis
    using assms by (simp add: modify_page_missing keeps_refl)
next
  case (Some p)
  have ok: "page_ok s n p"
    using ssd_invD(2) [OF assms(1) Some] .
  have "refs r (modify_page n f s)"
    using refs_upd [OF assms(2) Some page_of_modify [OF Some]] assms(3) [OF Some ok] by simp
  then show ?thesis
    using assms(1) assms(3) [OF Some ok] Some
    by (intro keeps_page_refs [OF assms(1) _ Some, where p' = "f p"])
      (auto simp: ssd_inv_def page_of_modify page_ok_def pview_def)
qed

lemma keeps_stamp: "ssd_inv s \<Longrightarrow> refs r s \<Longrightarrow> keeps r s (stamp n s)"
proof -
  assume inv: "ssd_inv s" "refs r s"
  let ?s = "s\<lparr>sb_generation := sb_generation s + 1\<rparr>"
  have 1: "keeps r s ?s"
    using inv by (rule keeps_other) simp_all
  have "keeps r ?s (modify_page n (\<lambda>p. p\<lparr>pm_generation := sb_generation s + 1\<rparr>) ?s)"
    by (rule keeps_modify [OF keepsD [OF 1]]) (auto simp: page_ok_def pview_def resident_def)
  then show ?thesis
    using 1 by (auto simp: stamp_def Let_def intro: keeps_trans)
qed

lemma keeps_count_stat: "keeps r s s' \<Longrightarrow> keeps r s (count_stat f s')"
  by (rule keeps_trans, assumption, rule keeps_other) (auto simp: keeps_def count_stat_def)



section \<open>Internal operations\<close>

lemma length_resize [simp]: "length (resize n xs) = n"
  by (simp add: resize_def)

text \<open>What the two I/O paths may change: the calls made, and the disk at one place.\<close>

lemma full_pread_frame:
  assumes "full_pread off s = (ok, data, s')" "\<forall>o1. length (sb_disk s o1) = unat (page_bytes s)"
  shows "\<exists>k. s' = s\<lparr>sb_calls := k\<rparr>" "length data = unat (page_bytes s)" "ok \<Longrightarrow> data = sb_disk s off"
  using assms by (auto simp: full_pread_def sys_call_def split: option.splits)

lemma read_page_frame:
  assumes "read_page off s = (ok, data, s')" "\<forall>o1. length (sb_disk s o1) = unat (page_bytes s)"
  shows "(\<exists>k. s' = s\<lparr>sb_calls := k\<rparr>) \<and> length data = unat (page_bytes s) \<and> (ok \<longrightarrow> data = sb_disk s off)"
proof (cases "sb_io_uring_enabled s \<and> \<not> fst (full_pread off s)")
  case True
  obtain data1 s1 where 1: "full_pread off s = (False, data1, s1)"
    using True by (cases "full_pread off s") auto
  obtain k where k: "s1 = s\<lparr>sb_calls := k\<rparr>"
    using full_pread_frame(1) [OF 1 assms(2)] by blast
  have len: "\<forall>o1. length (sb_disk s1 o1) = unat (page_bytes s1)" "page_bytes s1 = page_bytes s"
    using assms(2) by (simp_all add: k page_bytes_def)
  have "full_pread off s1 = (ok, data, s')"
    using assms(1) True 1 by (simp add: read_page_def)
  then show ?thesis
    using full_pread_frame [OF _ len(1), of off ok data s'] len(2) k by auto
next
  case False
  then have "full_pread off s = (ok, data, s')"
    using assms(1) by (auto simp: read_page_def Let_def split: if_splits prod.splits)
  then show ?thesis
    using full_pread_frame [OF _ assms(2)] by blast
qed

definition wrote :: "u64 \<Rightarrow> u8 list \<Rightarrow> SsdStreamingBackend \<Rightarrow> SsdStreamingBackend \<Rightarrow> bool" where
  "wrote off d s s' \<longleftrightarrow> (\<exists>k. s' = s\<lparr>sb_calls := k, sb_disk := (sb_disk s)(off := d)\<rparr>)"

lemma wroteI: "wrote off d s (s\<lparr>sb_calls := k, sb_disk := (sb_disk s)(off := d)\<rparr>)"
  by (auto simp: wrote_def)

lemma wrote_trans: "wrote off d s s1 \<Longrightarrow> wrote off e s1 s2 \<Longrightarrow> wrote off e s s2"
  by (auto simp: wrote_def)

lemma full_pwrite_frame:
  assumes "full_pwrite src off s = (ok, s')"
  shows "\<exists>d. wrote off d s s' \<and> (ok \<longrightarrow> d = src) \<and> (\<not> ok \<longrightarrow> length d = unat (page_bytes s))"
proof (cases "sb_env s (sb_calls s)")
  case None
  then have "ok" "s' = s\<lparr>sb_calls := Suc (sb_calls s), sb_disk := (sb_disk s)(off := src)\<rparr>"
    using assms by (auto simp: full_pwrite_def sys_call_def)
  then show ?thesis
    using wroteI by metis
next
  case (Some junk)
  then have "\<not> ok" "s' = s\<lparr>sb_calls := Suc (sb_calls s),
      sb_disk := (sb_disk s)(off := resize (unat (page_bytes s)) junk)\<rparr>"
    using assms by (auto simp: full_pwrite_def sys_call_def)
  then show ?thesis
    using wroteI length_resize by metis
qed

lemma write_page_frame:
  assumes "write_page src off s = (ok, s')"
  shows "\<exists>d. wrote off d s s' \<and> (ok \<longrightarrow> d = src) \<and> (\<not> ok \<longrightarrow> length d = unat (page_bytes s))"
proof (cases "sb_io_uring_enabled s \<and> \<not> fst (full_pwrite src off s)")
  case True
  obtain s1 where 1: "full_pwrite src off s = (False, s1)"
    using True by (cases "full_pwrite src off s") auto
  then have 2: "full_pwrite src off s1 = (ok, s')"
    using assms True by (simp add: write_page_def)
  obtain d1 where w1: "wrote off d1 s s1"
    using full_pwrite_frame [OF 1] by blast
  then have "page_bytes s1 = page_bytes s"
    by (auto simp: wrote_def page_bytes_def)
  then show ?thesis
    using wrote_trans [OF w1] full_pwrite_frame [OF 2] by metis
next
  case False
  then have "full_pwrite src off s = (ok, s')"
    using assms by (auto simp: write_page_def Let_def split: if_splits prod.splits)
  then show ?thesis
    by (rule full_pwrite_frame)
qed

lemma keeps_flush_page:
  assumes inv: "ssd_inv s" "refs r s" and f: "flush_page_locked n s = (ok, s')"
  shows "keeps r s s' \<and> (ok \<longrightarrow> (\<forall>p. page_of s' n = Some p \<longrightarrow> \<not> pm_dirty p))"
proof (cases "\<exists>p. page_of s n = Some p \<and> pm_dirty p")
  case True
  then obtain p where p: "page_of s n = Some p" "pm_dirty p"
    by blast
  have pok: "page_ok s n p"
    using ssd_invD(2) [OF inv(1) p(1)] .
  define off where "off = n * page_bytes s"
  define s1 where "s1 = modify_page n (\<lambda>p. p\<lparr>pm_state := Evicting\<rparr>) s"
  obtain ok2 s2 where w: "write_page (pm_data p) off s1 = (ok2, s2)"
    by (cases "write_page (pm_data p) off s1")
  then obtain k d where s2: "s2 = s1\<lparr>sb_calls := k, sb_disk := (sb_disk s1)(off := d)\<rparr>"
      and d: "ok2 \<Longrightarrow> d = pm_data p" "\<not> ok2 \<Longrightarrow> length d = unat (page_bytes s1)"
    using write_page_frame unfolding wrote_def by metis
  define p' where "p' = (if ok2 then p\<lparr>pm_dirty := False, pm_state := ResidentClean\<rparr> else p\<lparr>pm_state := ResidentDirty\<rparr>)"
  have slot: "pm_backing_slot p = n"
    using pok by (simp add: page_ok_def)
  have okeq: "ok = ok2"
    using f p w slot by (auto simp: flush_page_locked_def Let_def off_def s1_def split: if_splits)
  have s2_page: "page_of s2 = (page_of s)(n \<mapsto> p\<lparr>pm_state := Evicting\<rparr>)"
    using page_of_modify [OF p(1)] by (simp add: s2 s1_def page_of_def fun_eq_iff)
  define g :: "PageMeta \<Rightarrow> PageMeta"
    where "g = (if ok2 then (\<lambda>p. p\<lparr>pm_dirty := False, pm_state := ResidentClean\<rparr>)
                       else (\<lambda>p. p\<lparr>pm_state := ResidentDirty\<rparr>))"
  have st: "sb_pages s' = sb_pages (modify_page n g s2)" "sb_disk s' = sb_disk s2"
      "sb_config s' = sb_config s2" "sb_initialized s' = sb_initialized s2"
    using f p w slot
    by (auto simp: flush_page_locked_def Let_def off_def s1_def count_stat_def g_def split: if_splits)
  have page': "page_of s' = (page_of s)(n \<mapsto> p')"
    using page_of_map_entry [of n g s2] s2_page
    by (auto simp: st page_of_def fun_eq_iff g_def p'_def)
  have "keeps r s s'"
  proof (rule keeps_page_refs [OF inv(1) _ p(1), where p' = p'])
    show "refs r s'"
      using refs_upd [OF inv(2) p(1) page'] by (simp add: p'_def)
    show "page_ok s' n p'"
      using pok p(2) d by (simp add: page_ok_def p'_def st s2 s1_def page_bytes_def off_def)
    show "pview s' n p' = pview s n p"
      using pok p(2) by (simp add: page_ok_def p'_def pview_def resident_def)
    show "distinct (map fst (sb_pages s'))"
      using inv(1) by (simp add: st s2 s1_def ssd_inv_def modify_page_def distinct_map_entry)
    show "length (sb_disk s' (n * page_bytes s)) = unat (page_bytes s)"
      using d pok by (cases ok2) (auto simp: st s2 s1_def off_def page_ok_def)
  qed (use page' in \<open>auto simp: st s2 s1_def off_def p'_def resident_def\<close>)
  then show ?thesis
    using okeq page' by (auto simp: p'_def)
next
  case False
  then have "s' = s" "ok"
    using f by (auto simp: flush_page_locked_def split: option.splits)
  then show ?thesis
    using inv False keeps_refl by blast
qed


lemma page_of_pages: "sb_pages s' = sb_pages s \<Longrightarrow> page_of s' = page_of s"
  by (simp add: page_of_def fun_eq_iff)

lemma stamp_frame [simp]:
  "sb_config (stamp n s) = sb_config s" "sb_initialized (stamp n s) = sb_initialized s"
  "sb_disk (stamp n s) = sb_disk s" "sb_clock_queue (stamp n s) = sb_clock_queue s"
  "sb_env (stamp n s) = sb_env s" "length (sb_pages (stamp n s)) = length (sb_pages s)"
  by (simp_all add: stamp_def Let_def modify_page_def)

lemma page_of_stamp:
  "page_of (stamp n s) k = (if k = n then map_option (\<lambda>p. p\<lparr>pm_generation := sb_generation s + 1\<rparr>) (page_of s n)
                            else page_of s k)"
  unfolding stamp_def Let_def page_of_map_entry by (simp add: page_of_def)

text \<open>The outcome of a load: one page is replaced, by one that is clean or still not resident.\<close>

definition replaced :: "u64 \<Rightarrow> PageMeta \<Rightarrow> SsdStreamingBackend \<Rightarrow> SsdStreamingBackend \<Rightarrow> bool" where
  "replaced n p' s s' \<longleftrightarrow> page_of s' = (page_of s)(n \<mapsto> p') \<and> distinct (map fst (sb_pages s'))
     \<and> length (sb_pages s') = length (sb_pages s) \<and> sb_clock_queue s' = sb_clock_queue s
     \<and> sb_config s' = sb_config s \<and> sb_initialized s' = sb_initialized s
     \<and> sb_disk s' = sb_disk s \<and> sb_env s' = sb_env s"

definition loaded :: "u64 \<Rightarrow> bool \<Rightarrow> SsdStreamingBackend \<Rightarrow> PageMeta \<Rightarrow> PageMeta \<Rightarrow> bool" where
  "loaded n ok s p p' \<longleftrightarrow> pm_refcnt p' = pm_refcnt p \<and> pm_backing_slot p' = n
     \<and> pm_pinned p' = pm_pinned p \<and> length (pm_data p') = unat (page_bytes s)
     \<and> pm_state p' = (if ok then ResidentClean else NonResident)
     \<and> (if ok then \<not> pm_dirty p' \<and> pm_data p' = sb_disk s (n * page_bytes s) else pm_dirty p' = pm_dirty p)"

lemma load_page_cases:
  assumes inv: "ssd_inv s" and p: "page_of s n = Some p" and l: "load_page_locked n s = (ok, s')"
  shows "s' = s \<and> \<not> ok
     \<or> (\<exists>p'. replaced n p' s s' \<and> loaded n ok s p p')"
proof (cases "cf_capacity_bytes (sb_config s) \<le> n * page_bytes s")
  case True
  then show ?thesis
    using l p ssd_invD(2) [OF inv p] by (simp add: load_page_locked_def page_ok_def)
next
  case False
  define s1 where "s1 = modify_page n (\<lambda>p. p\<lparr>pm_state := Loading, pm_refcnt := pm_refcnt p + 1\<rparr>) s"
  obtain ok2 data s2 where rd: "read_page (n * page_bytes s) s1 = (ok2, data, s2)"
    by (cases "read_page (n * page_bytes s) s1") auto
  have len: "\<forall>o1. length (sb_disk s1 o1) = unat (page_bytes s1)"
    using inv by (simp add: s1_def ssd_inv_def)
  obtain k where s2: "s2 = s1\<lparr>sb_calls := k\<rparr>" and data: "length data = unat (page_bytes s)"
      "ok2 \<Longrightarrow> data = sb_disk s (n * page_bytes s)"
    using read_page_frame [OF rd len] by (auto simp: s1_def)
  define s3 where "s3 = modify_page n (\<lambda>p. p\<lparr>pm_data := data, pm_refcnt := pm_refcnt p - 1\<rparr>) s2"
  have slot: "pm_backing_slot p = n"
    using ssd_invD(2) [OF inv p] by (simp add: page_ok_def)
  have dist: "distinct (map fst (sb_pages s3))"
    using inv by (simp add: s3_def s2 s1_def ssd_inv_def modify_page_def distinct_map_entry)
  have "page_of s2 = page_of s1"
    by (simp add: s2 page_of_def fun_eq_iff)
  then have page3: "page_of s3 = (page_of s)(n \<mapsto> p\<lparr>pm_state := Loading, pm_data := data\<rparr>)"
    by (auto simp: s3_def s1_def page_of_map_entry fun_eq_iff p)
  have s': "s' = (if ok2 then count_stat (\<lambda>st. st\<lparr>ss_page_faults := ss_page_faults st + 1\<rparr>)
                (stamp n (modify_page n (\<lambda>p. p\<lparr>pm_state := ResidentClean, pm_dirty := False,
                                                pm_accessed := True\<rparr>) s3))
        else modify_page n (\<lambda>p. p\<lparr>pm_state := NonResident\<rparr>) s3)" and ok: "ok = ok2"
    using l p rd slot False by (auto simp: load_page_locked_def Let_def s1_def s3_def split: if_splits)
  define p' where "p' = (if ok2 then p\<lparr>pm_state := ResidentClean, pm_data := data, pm_dirty := False,
      pm_accessed := True, pm_generation := sb_generation s3 + 1\<rparr> else p\<lparr>pm_state := NonResident, pm_data := data\<rparr>)"
  have "page_of s' = (page_of s)(n \<mapsto> p')"
  proof (cases ok2)
    case True
    then have "page_of s' = page_of (stamp n (modify_page n (\<lambda>p. p\<lparr>pm_state := ResidentClean, pm_dirty := False,
                                                pm_accessed := True\<rparr>) s3))"
      unfolding s' by (intro page_of_pages) (simp add: count_stat_def)
    then show ?thesis
      using True by (auto simp: fun_eq_iff page_of_stamp page_of_map_entry page3 p'_def)
  next
    case False
    then show ?thesis
      by (auto simp: s' fun_eq_iff page_of_map_entry page3 p'_def)
  qed
  moreover have "distinct (map fst (sb_pages s'))"
    using dist by (auto simp: s' count_stat_def stamp_def Let_def modify_page_def distinct_map_entry)
  ultimately have "replaced n p' s s'"
    by (simp add: replaced_def s' count_stat_def s3_def s2 s1_def modify_page_def)
  moreover have "loaded n ok s p p'"
    using data slot by (cases ok2) (auto simp: loaded_def p'_def ok)
  ultimately show ?thesis
    by blast
qed

lemma keeps_load_page:
  assumes inv: "ssd_inv s" "refs r s" and p: "page_of s n = Some p" "pm_state p = NonResident"
    and l: "load_page_locked n s = (ok, s')"
  shows "keeps r s s' \<and> length (sb_pages s') = length (sb_pages s)
     \<and> (ok \<longrightarrow> (\<exists>p. page_of s' n = Some p \<and> resident p))"
  using load_page_cases [OF inv(1) p(1) l]
proof
  assume "s' = s \<and> \<not> ok"
  then show ?thesis
    using keeps_refl inv by blast
next
  assume "\<exists>p'. replaced n p' s s' \<and> loaded n ok s p p'"
  then obtain p' where 1: "replaced n p' s s'" and 2: "loaded n ok s p p'"
    by blast
  have pb: "page_bytes s' = page_bytes s"
    using 1 by (intro page_bytes_cong) (simp add: replaced_def)
  have "\<not> pm_dirty p"
    using ssd_invD(2) [OF inv(1) p(1)] p(2) by (simp add: page_ok_def)
  then have "keeps r s s'"
    using 1 2 p inv(1) pb by (intro keeps_page_refs [OF inv(1) refs_upd [OF inv(2) p(1), where p' = p'] p(1), where p' = p'])
      (auto simp: replaced_def loaded_def page_ok_def pview_def resident_def ssd_inv_def split: if_splits)
  then show ?thesis
    using 1 2 by (auto simp: replaced_def loaded_def resident_def)
qed

lemma keeps_delete_page:
  assumes inv: "ssd_inv s" "refs r s" and p: "page_of s n = Some p" "\<not> pm_dirty p" "r n = 0"
  shows "keeps r s (s\<lparr>sb_pages := AList.delete n (sb_pages s)\<rparr>)"
proof -
  let ?s = "s\<lparr>sb_pages := AList.delete n (sb_pages s)\<rparr>"
  have po: "page_of ?s = (page_of s)(n := None)"
    by (simp add: page_of_def fun_eq_iff delete_conv')
  have pb: "page_bytes ?s = page_bytes s"
    by (simp add: page_bytes_def)
  have ok: "page_ok s n p"
    using ssd_invD(2) [OF inv(1) p(1)] .
  have "pview s n p = sb_disk s (n * page_bytes s)"
    using ok p(2) by (auto simp: page_ok_def pview_def resident_def)
  then have "page_view ?s k = page_view s k" for k
    using p(1) by (auto simp: page_view_def po pview_def pb split: option.split)
  moreover have "ssd_inv ?s"
    using inv(1) length_delete_le [of n "sb_pages s"]
    by (auto simp: ssd_inv_def po pb key_ok_def page_ok_def distinct_delete)
  ultimately show ?thesis
    using inv(2) p(3) by (auto simp: keeps_def refs_def po)
qed

lemma keeps_evict_page:
  assumes inv: "ssd_inv s" "refs r s" and e: "evict_page_locked n s = (ok, s')"
  shows "keeps r s s'"
proof (cases "page_of s n = None \<or> pm_pinned (the (page_of s n)) \<or> pm_refcnt (the (page_of s n)) \<noteq> 0")
  case True
  then have "s' = s"
    using e by (auto simp: evict_page_locked_def split: option.splits)
  then show ?thesis
    using keeps_refl inv by simp
next
  case False
  then obtain p where p: "page_of s n = Some p" "pm_refcnt p = 0" "\<not> pm_pinned p"
    by auto
  obtain okf s1 where f: "flush_page_locked n s = (okf, s1)"
    by fastforce
  note k1 = keeps_flush_page [OF inv f]
  show ?thesis
  proof (cases okf)
    case True
    have "page_of s1 n \<noteq> None"
      using flush_page_dom [of n s n] f p(1) by simp
    then obtain p1 where p1: "page_of s1 n = Some p1"
      by blast
    have "r n = 0"
      using inv(2) p by (auto simp: refs_def)
    then have "keeps r s1 (s1\<lparr>sb_pages := AList.delete n (sb_pages s1)\<rparr>)"
      using k1 True p1 by (intro keeps_delete_page) (auto dest: keepsD)
    moreover have "s' = count_stat (\<lambda>st. st\<lparr>ss_evictions := ss_evictions st + 1\<rparr>)
                          (s1\<lparr>sb_pages := AList.delete n (sb_pages s1)\<rparr>)"
      using e p f True by (simp add: evict_page_locked_def)
    ultimately show ?thesis
      using keeps_count_stat [OF keeps_trans [OF conjunct1 [OF k1]]] by simp
  next
    case False
    then have "s' = s1"
      using e p f by (simp add: evict_page_locked_def)
    then show ?thesis
      using k1 by blast
  qed
qed


lemma keeps_clock:
  "ssd_inv s \<Longrightarrow> refs r s \<Longrightarrow> keeps r s (s\<lparr>sb_clock_queue := q\<rparr>)"
  by (rule keeps_other) simp_all

lemma keeps_accessed:
  assumes "ssd_inv s" "refs r s"
  shows "keeps r s (modify_page n (\<lambda>p. p\<lparr>pm_accessed := b\<rparr>) s)"
  using assms by (intro keeps_modify) (auto simp: page_ok_def pview_def resident_def)

lemma keeps_evict_scan:
  "ssd_inv s \<Longrightarrow> refs r s \<Longrightarrow> evict_scan i s = (ok, s') \<Longrightarrow> keeps r s s'"
proof (induction i s rule: evict_scan.induct)
  case (1 s)
  then show ?case
    by (simp add: keeps_refl)
next
  case (2 i s)
  show ?case
  proof (cases "sb_clock_queue s")
    case Nil
    then show ?thesis
      using 2 by (simp add: keeps_refl)
  next
    case q: (Cons n q)
    have clock: "keeps r s (s\<lparr>sb_clock_queue := q'\<rparr>)" for q'
      using 2 by (intro keeps_clock)
    show ?thesis
    proof (cases "page_of s n")
      case None
      then have "keeps r (s\<lparr>sb_clock_queue := q\<rparr>) s'"
        using 2(1) [OF q None keepsD [OF clock]] 2(6) q by simp
      then show ?thesis
        using keeps_trans [OF clock] by blast
    next
      case (Some p)
      let ?again = "s\<lparr>sb_clock_queue := q @ [n]\<rparr>"
      let ?acc = "modify_page n (\<lambda>p. p\<lparr>pm_accessed := False\<rparr>) ?again"
      have acc: "keeps r s ?acc"
        using keeps_trans [OF clock keeps_accessed [OF keepsD [OF clock]]] .
      consider (busy) "pm_pinned p \<or> pm_refcnt p \<noteq> 0 \<or> pm_state p = Loading \<or> pm_state p = Evicting"
        | (accessed) "\<not> (pm_pinned p \<or> pm_refcnt p \<noteq> 0 \<or> pm_state p = Loading \<or> pm_state p = Evicting)" "pm_accessed p"
        | (victim) "\<not> (pm_pinned p \<or> pm_refcnt p \<noteq> 0 \<or> pm_state p = Loading \<or> pm_state p = Evicting)" "\<not> pm_accessed p"
        by blast
      then show ?thesis
      proof cases
        case busy
        then show ?thesis
          using 2(2) [OF q Some busy keepsD [OF clock]] 2(6) q Some keeps_trans [OF clock] by simp
      next
        case accessed
        then show ?thesis
          using 2(3) [OF q Some accessed keepsD [OF acc]] 2(6) q Some keeps_trans [OF acc] by simp
      next
        case victim
        then have "evict_page_locked n (s\<lparr>sb_clock_queue := q\<rparr>) = (ok, s')"
          using 2(6) q Some by simp
        then show ?thesis
          using keeps_trans [OF clock keeps_evict_page [OF keepsD [OF clock]]] by blast
      qed
    qed
  qed
qed

lemma keeps_evict_one:
  assumes "ssd_inv s" "refs r s" "evict_one_locked s = (ok, s')"
  shows "keeps r s s'"
proof (cases "sb_pages s = []")
  case True
  then show ?thesis
    using assms by (simp add: evict_one_locked_def keeps_refl)
next
  case False
  then have "evict_scan (length (sb_clock_queue s) * 2 + 1) s = (ok, s')"
    using assms(3) by (simp only: evict_one_locked_def if_False)
  then show ?thesis
    by (rule keeps_evict_scan [OF assms(1,2)])
qed

lemma keeps_make_room:
  "ssd_inv s \<Longrightarrow> refs r s \<Longrightarrow> make_room s = (ok, s') \<Longrightarrow> keeps r s s'"
proof (induction s rule: make_room.induct)
  case (1 s)
  show ?case
  proof (cases "unat (cf_cache_pages (sb_config s)) \<le> length (sb_pages s) \<and> sb_pages s \<noteq> []")
    case True
    obtain ok1 s1 where e: "evict_one_locked s = (ok1, s1)"
      by fastforce
    note k = keeps_evict_one [OF 1(2,3) e]
    show ?thesis
    proof (cases ok1)
      case ok1: True
      then have "make_room s1 = (ok, s')"
        using 1(4) True e by (subst (asm) make_room.simps) simp
      then show ?thesis
        using 1(1) [OF True _ _ keepsD [OF k]] e ok1 keeps_trans [OF k] by auto
    next
      case False
      then show ?thesis
        using 1(4) True e k by (subst (asm) make_room.simps) simp
    qed
  next
    case False
    then have "s' = s"
      using 1(4) by (subst (asm) make_room.simps) auto
    then show ?thesis
      using 1 keeps_refl by simp
  qed
qed

lemma keeps_shrink: "ssd_inv s \<Longrightarrow> refs r s \<Longrightarrow> keeps r s (shrink s)"
proof (induction s rule: shrink.induct)
  case (1 s)
  show ?case
  proof (cases "unat (cf_cache_pages (sb_config s)) < length (sb_pages s)")
    case True
    obtain ok1 s1 where e: "evict_one_locked s = (ok1, s1)"
      by fastforce
    note k = keeps_evict_one [OF 1(2,3) e]
    have "shrink s = (if ok1 then shrink s1 else s1)"
      using True e by (subst shrink.simps) simp
    then show ?thesis
      using 1(1) [OF True _ _ keepsD [OF k]] e keeps_trans [OF k] k by auto
  next
    case False
    then show ?thesis
      using 1 by (subst shrink.simps) (simp add: keeps_refl)
  qed
qed

lemma keeps_room_for:
  "ssd_inv s \<Longrightarrow> refs r s \<Longrightarrow> room_for n s = (ok, s') \<Longrightarrow> keeps r s s'"
  by (auto simp: room_for_def keeps_refl dest: keeps_make_room split: if_splits)

lemma make_room_room:
  "make_room s = (True, s') \<Longrightarrow> cf_cache_pages (sb_config s') \<noteq> 0
   \<Longrightarrow> length (sb_pages s') < unat (cf_cache_pages (sb_config s'))"
proof (induction s rule: make_room.induct)
  case (1 s)
  show ?case
  proof (cases "unat (cf_cache_pages (sb_config s)) \<le> length (sb_pages s) \<and> sb_pages s \<noteq> []")
    case True
    obtain ok1 s1 where e: "evict_one_locked s = (ok1, s1)"
      by fastforce
    then have ok1: "ok1" "make_room s1 = (True, s')"
      using 1(2) True by (subst (asm) make_room.simps, cases ok1, simp_all)+
    then show ?thesis
      using 1(1) [OF True _ _ _ 1(3)] e by simp
  next
    case False
    then have "s' = s"
      using 1(2) by (subst (asm) make_room.simps) auto
    then show ?thesis
      using False 1(3) by (auto simp: not_le unat_gt_0)
  qed
qed

lemma room_for_room:
  assumes "room_for n s = (True, s')" "ssd_inv s'"
  shows "page_of s' n \<noteq> None \<or> length (sb_pages s') < unat (cf_cache_pages (sb_config s'))"
  using assms make_room_room [of s s'] by (auto simp: room_for_def ssd_inv_def split: if_splits)

lemma keeps_get_or_create:
  assumes inv: "ssd_inv s" "refs r s" and n: "key_ok s n" "r n = 0 \<or> page_of s n \<noteq> None"
      "page_of s n \<noteq> None \<or> length (sb_pages s) < unat (cf_cache_pages (sb_config s))"
    and g: "get_or_create_page_locked n s = (ok, s')"
  shows "keeps r s s' \<and> (ok \<longrightarrow> page_of s' n \<noteq> None)"
proof (cases "page_of s n = None \<and> sb_env s (sb_calls s) = None")
  case True
  define p where "p = \<lparr>pm_va_page_no = n, pm_backing_slot = n, pm_state = NonResident, pm_refcnt = 0,
                    pm_generation = 0, pm_dirty = False, pm_accessed = False, pm_pinned = False,
                    pm_streaming = False, pm_data = replicate (unat (page_bytes s)) (0 :: u8)\<rparr>"
  have s': "s' = s\<lparr>sb_calls := Suc (sb_calls s), sb_pages := sb_pages s @ [(n, p)],
      sb_clock_queue := sb_clock_queue s @ [n]\<rparr>" and ok: "ok"
    using g True by (auto simp: get_or_create_page_locked_def sys_call_def p_def)
  have po: "page_of s' = (page_of s)(n \<mapsto> p)"
    using True by (auto simp: s' page_of_def map_add_def fun_eq_iff split: option.split)
  have pb: "page_bytes s' = page_bytes s"
    by (simp add: s' page_bytes_def)
  have fr: "sb_disk s' = sb_disk s" "sb_config s' = sb_config s" "sb_initialized s' = sb_initialized s"
      "map fst (sb_pages s') = map fst (sb_pages s) @ [n]"
    by (simp_all add: s')
  have "n \<notin> fst ` set (sb_pages s)"
    using True by (simp add: page_of_def map_of_eq_None_iff)
  moreover have "length (sb_pages s') = Suc (length (sb_pages s))"
    by (simp add: s')
  ultimately have "ssd_inv s'"
    using inv(1) n(1,3) True by (auto simp: ssd_inv_def po pb key_ok_def page_ok_def fr p_def)
  moreover have "refs r s'"
    using inv(2) n(2) True by (auto simp: refs_def po p_def)
  moreover have "page_view s' k = page_view s k" for k
    using True by (auto simp: page_view_def po pview_def pb fr p_def resident_def split: option.split)
  ultimately show ?thesis
    using ok po True by (auto simp: keeps_def fr)
next
  case False
  have "keeps r s (s\<lparr>sb_calls := k\<rparr>)" for k
    using inv by (rule keeps_other) simp_all
  then show ?thesis
    using g False keeps_refl [OF inv]
    by (auto simp: get_or_create_page_locked_def sys_call_def split: option.splits if_splits)
qed


text \<open>Taking or dropping a reference of a page.\<close>

lemma keeps_refcnt:
  assumes "ssd_inv s" "refs r s"
  shows "keeps (r(n := r n + d)) s (modify_page n (\<lambda>p. p\<lparr>pm_refcnt := pm_refcnt p + d\<rparr>) s)"
proof (cases "page_of s n")
  case None
  then have "refs (r(n := r n + d)) s"
    using assms(2) by (auto simp: refs_def)
  then show ?thesis
    using assms(1) None by (simp add: modify_page_missing keeps_refl)
next
  case (Some p)
  have "refs (r(n := r n + d)) (modify_page n (\<lambda>p. p\<lparr>pm_refcnt := pm_refcnt p + d\<rparr>) s)"
    using assms(2) Some by (auto simp: refs_def page_of_modify)
  then show ?thesis
    using assms(1) Some ssd_invD(2) [OF assms(1) Some]
    by (intro keeps_page_refs [OF assms(1) _ Some, where p' = "p\<lparr>pm_refcnt := pm_refcnt p + d\<rparr>"])
      (auto simp: ssd_inv_def page_of_modify page_ok_def pview_def resident_def)
qed

lemma key_ok_keeps: "keeps r s s' \<Longrightarrow> key_ok s' n = key_ok s n"
  by (simp add: keeps_def key_ok_def page_bytes_def)

lemma keeps_held: "keeps r s s' \<Longrightarrow> r k \<noteq> 0 \<Longrightarrow> page_of s k \<noteq> None \<Longrightarrow> page_of s' k \<noteq> None"
  unfolding keeps_def by blast

lemma keeps_resident:
  "keeps r s s' \<Longrightarrow> r k \<noteq> 0 \<Longrightarrow> page_of s k = Some p \<Longrightarrow> resident p
   \<Longrightarrow> \<exists>p'. page_of s' k = Some p' \<and> resident p'"
  unfolding keeps_def by blast

lemma page_state_cases:
  assumes "ssd_inv s" "page_of s n = Some p"
  shows "resident p \<or> pm_state p = NonResident"
  using ssd_invD(2) [OF assms] by (cases "pm_state p") (auto simp: page_ok_def resident_def)

lemma keeps_readahead_loop:
  assumes "ssd_inv s" "refs r s" "page_bytes s = pb" "\<forall>k. k \<le> last_page \<longrightarrow> unat k * unat pb < 18446744073709551616"
    and "\<forall>k. r k \<noteq> 0 \<longrightarrow> page_of s k \<noteq> None"
  shows "keeps r s (readahead_loop n last_page ds s)"
  using assms
proof (induction n last_page ds s rule: readahead_loop.induct)
  case (1 n last_page s)
  then show ?case
    by (simp add: keeps_refl)
next
  case (2 n last_page i rest s)
  define k where "k = n + word_of_nat i"
  obtain room s1 where r1: "room_for k s = (room, s1)"
    by fastforce
  note k1 = keeps_room_for [OF 2(2,3) r1]
  obtain got s2 where g: "get_or_create_page_locked k s1 = (got, s2)"
    by fastforce
  define s3 where "s3 = (case page_of s2 k of
      Some p \<Rightarrow> if pm_state p = NonResident then snd (load_page_locked k s2) else s2 | None \<Rightarrow> s2)"
  have unfold: "readahead_loop n last_page (i # rest) s =
      (if \<not> k \<le> last_page then s else if \<not> room then s1 else if \<not> got then s2
       else readahead_loop n last_page rest (shrink s3))"
    by (simp add: Let_def r1 g s3_def flip: k_def)
  show ?case
  proof (cases "k \<le> last_page")
    case True
    have held: "\<forall>k. r k \<noteq> 0 \<longrightarrow> page_of s1 k \<noteq> None"
      using keeps_held [OF k1] 2(6) by blast
    have "key_ok s1 k"
      using True 2(4,5) key_ok_keeps [OF k1] by (simp add: key_ok_def)
    then have k2: "keeps r s1 s2" if "room"
      using keeps_get_or_create [OF keepsD [OF k1] _ _ _ g] held room_for_room [of k s s1] keepsD [OF k1] that r1
      by auto
    have k3: "keeps r s2 s3" if "room"
    proof (cases "\<exists>p. page_of s2 k = Some p \<and> pm_state p = NonResident")
      case True
      then obtain p where p: "page_of s2 k = Some p" "pm_state p = NonResident"
        by blast
      then show ?thesis
        using keeps_load_page [OF keepsD [OF k2 [OF that]] p, of "fst (load_page_locked k s2)"] by (simp add: s3_def)
    next
      case False
      then show ?thesis
        using keeps_refl [OF keepsD [OF k2 [OF that]]] by (auto simp: s3_def split: option.split)
    qed
    have k4: "keeps r s (shrink s3)" if "room"
      using keeps_trans [OF k1 keeps_trans [OF k2 [OF that] keeps_trans [OF k3 [OF that] keeps_shrink [OF keepsD [OF k3 [OF that]]]]]] .
    show ?thesis
    proof (cases "room \<and> got")
      case both: True
      then have k4: "keeps r s (shrink s3)"
        using k4 by blast
      have "page_bytes (shrink s3) = pb"
        using k4 2(4) by (auto simp: keeps_def page_bytes_def)
      moreover have "\<forall>k. r k \<noteq> 0 \<longrightarrow> page_of (shrink s3) k \<noteq> None"
        using keeps_held [OF k4] 2(6) by blast
      ultimately have "keeps r (shrink s3) (readahead_loop n last_page rest (shrink s3))"
        using 2(1) [of k "(room, s1)" room s1 "(got, s2)" got s2 s3] 2(5) keepsD [OF k4] True both r1 g
        by (simp add: k_def s3_def)
      then show ?thesis
        using unfold True both keeps_trans [OF k4] by simp
    next
      case False
      then show ?thesis
        using unfold True k1 keeps_trans [OF k1 k2] by auto
    qed
  next
    case False
    then show ?thesis
      using unfold keeps_refl 2 by simp
  qed
qed


abbreviation "no_refs \<equiv> (\<lambda>n :: u64. 0 :: u32)"

lemma key_of_addr:
  assumes "k \<le> a div page_bytes s"
  shows "unat k * unat (page_bytes s) < 18446744073709551616"
proof -
  have "unat k \<le> unat a div unat (page_bytes s)"
    using assms by (simp add: word_le_nat_alt unat_div)
  then have "unat k * unat (page_bytes s) \<le> unat a div unat (page_bytes s) * unat (page_bytes s)"
    by (rule mult_le_mono1)
  also have "\<dots> \<le> unat a"
    by (rule div_times_less_eq_dividend)
  finally show ?thesis
    by (rule le_unat_u64_lt)
qed

lemma keeps_readahead:
  assumes inv: "ssd_inv s" "refs no_refs s" and p: "page_of s n = Some p" "resident p"
  shows "keeps no_refs s (readahead n s) \<and> (\<exists>p. page_of (readahead n s) n = Some p \<and> resident p)"
proof -
  define last_page where "last_page = (cf_capacity_bytes (sb_config s) - 1) div page_bytes s"
  define s1 where "s1 = modify_page n (\<lambda>p. p\<lparr>pm_refcnt := pm_refcnt p + 1\<rparr>) s"
  define s2 where "s2 = readahead_loop n last_page [1..<Suc (unat (cf_read_ahead_pages (sb_config s)))] s1"
  define s3 where "s3 = modify_page n (\<lambda>p. p\<lparr>pm_refcnt := pm_refcnt p + (- 1)\<rparr>) s2"
  have ra: "readahead n s = s3"
    by (simp add: readahead_def Let_def last_page_def s1_def s2_def s3_def)
  have k1: "keeps (no_refs(n := 1)) s s1"
    using keeps_refcnt [OF inv, of n 1] by (simp add: s1_def)
  have "page_of s1 = (page_of s)(n \<mapsto> p\<lparr>pm_refcnt := pm_refcnt p + 1\<rparr>)"
    unfolding s1_def by (rule page_of_modify [OF p(1)])
  then have p1: "page_of s1 n = Some (p\<lparr>pm_refcnt := pm_refcnt p + 1\<rparr>)"
    by simp
  have k2: "keeps (no_refs(n := 1)) s1 s2"
    unfolding s2_def
  proof (rule keeps_readahead_loop [OF keepsD [OF k1] refl])
    show "\<forall>k. k \<le> last_page \<longrightarrow> unat k * unat (page_bytes s1) < 18446744073709551616"
      using key_of_addr by (simp add: last_page_def s1_def)
    show "\<forall>k. (no_refs(n := 1)) k \<noteq> 0 \<longrightarrow> page_of s1 k \<noteq> None"
      using p1 by simp
  qed
  obtain p2 where p2: "page_of s2 n = Some p2" "resident p2"
    using k2 p1 p(2) keeps_resident [OF k2 _ p1] by (auto simp: resident_def)
  have "(no_refs(n := 1))(n := (no_refs(n := 1)) n + (- 1)) = no_refs"
    by (simp add: fun_eq_iff)
  then have k3: "keeps no_refs s2 s3"
    using keeps_refcnt [OF keepsD [OF k2], of n "- 1"] unfolding s3_def by simp
  have "page_of s3 = (page_of s2)(n \<mapsto> p2\<lparr>pm_refcnt := pm_refcnt p2 + (- 1)\<rparr>)"
    unfolding s3_def by (rule page_of_modify [OF p2(1)])
  then show ?thesis
    using keeps_trans_free [OF keeps_trans [OF k1 k2] k3] p2(2) by (simp add: ra resident_def)
qed

lemma keeps_ensure:
  assumes inv: "ssd_inv s" "refs no_refs s" and n: "key_ok s n"
    and e: "ensure_page_loaded_locked n ra s = (ok, s')"
  shows "keeps no_refs s s' \<and> (ok \<longrightarrow> (\<exists>p. page_of s' n = Some p \<and> resident p))"
proof -
  obtain room s1 where r1: "room_for n s = (room, s1)"
    by fastforce
  note k1 = keeps_room_for [OF inv r1]
  obtain got s2 where g: "get_or_create_page_locked n s1 = (got, s2)"
    by fastforce
  have k2: "keeps no_refs s1 s2 \<and> (got \<longrightarrow> page_of s2 n \<noteq> None)" if "room"
    using keeps_get_or_create [OF keepsD [OF k1] _ _ _ g] n key_ok_keeps [OF k1]
      room_for_room [of n s s1] keepsD(1) [OF k1] that r1 by simp
  have k12: "keeps no_refs s s2" if "room"
    using keeps_trans [OF k1] k2 that by blast
  consider (full) "\<not> room" | (no_page) "room" "\<not> got"
    | (hit) p where "room" "got" "page_of s2 n = Some p" "resident p"
    | (miss) p where "room" "got" "page_of s2 n = Some p" "\<not> resident p"
    using k2 by blast
  then show ?thesis
  proof cases
    case full
    then show ?thesis
      using e r1 k1 by (simp add: ensure_page_loaded_locked_def)
  next
    case no_page
    then show ?thesis
      using e r1 g k12 no_page by (simp add: ensure_page_loaded_locked_def)
  next
    case hit
    note k12 = k12 [OF hit(1)]
    let ?a = "modify_page n (\<lambda>p. p\<lparr>pm_accessed := True\<rparr>) s2"
    have ka: "keeps no_refs s2 ?a"
      using keeps_accessed [OF keepsD [OF k12]] .
    have "s' = count_stat (\<lambda>st. st\<lparr>ss_cache_hits := ss_cache_hits st + 1\<rparr>) (stamp n ?a)" "ok"
      using e r1 g hit by (auto simp: ensure_page_loaded_locked_def)
    moreover have "page_of (count_stat (\<lambda>st. st\<lparr>ss_cache_hits := ss_cache_hits st + 1\<rparr>) (stamp n ?a)) n
        = page_of (stamp n ?a) n"
      by (simp add: count_stat_def page_of_def)
    ultimately show ?thesis
      using keeps_count_stat [OF keeps_trans [OF keeps_trans [OF k12 ka] keeps_stamp [OF keepsD [OF ka]]]] hit(3,4)
      by (simp add: page_of_stamp page_of_map_entry resident_def)
  next
    case miss
    note k12 = k12 [OF miss(1)]
    have "length (sb_pages s2) \<le> unat (cf_cache_pages (sb_config s2))"
      using keepsD(1) [OF k12] by (simp add: ssd_inv_def)
    then have shrink: "shrink s2 = s2"
      by (subst shrink.simps) simp
    obtain okl s3 where l: "load_page_locked n s2 = (okl, s3)"
      by fastforce
    have res: "(ok, s') = (okl, if okl \<and> ra then readahead n s3 else s3)"
      using e r1 g miss l shrink by (cases okl) (auto simp: ensure_page_loaded_locked_def)
    have "pm_state p = NonResident"
      using page_state_cases [OF keepsD(1) [OF k12] miss(3)] miss(4) by blast
    note k4 = keeps_load_page [OF keepsD [OF k12] miss(3) this l]
    note k5 = keeps_trans [OF k12 conjunct1 [OF k4]]
    show ?thesis
    proof (cases "okl \<and> ra")
      case True
      then show ?thesis
        using keeps_readahead [OF keepsD [OF k5]] k4 res keeps_trans [OF k5] by auto
    next
      case False
      then show ?thesis
        using k5 k4 res by auto
    qed
  qed
qed



section \<open>The flat memory\<close>

definition ready :: "SsdStreamingBackend \<Rightarrow> bool" where
  "ready s \<longleftrightarrow> ssd_inv s \<and> refs no_refs s"

lemma key_ok_page: "key_ok s (addr_to_page a s)"
  using key_of_addr [of "addr_to_page a s" a s] by (simp add: key_ok_def addr_to_page_def)

lemma keeps_mem:
  assumes "keeps r s s'" shows "ssd_mem s' = ssd_mem s"
proof
  fix a
  have "addr_to_page a s' = addr_to_page a s" "page_offset a s' = page_offset a s"
    using assms by (auto simp: keeps_def addr_to_page_def page_offset_def page_bytes_def)
  then show "ssd_mem s' a = ssd_mem s a"
    using assms key_ok_page [of s a] by (simp add: ssd_mem_def keeps_def)
qed

lemma keeps_config: "keeps r s s' \<Longrightarrow> sb_config s' = sb_config s"
  by (simp add: keeps_def)

lemma keeps_ready: "keeps no_refs s s' \<Longrightarrow> ready s'"
  by (simp add: ready_def keeps_def)

text \<open>Addresses inside one page.\<close>

lemma page_of_offset:
  assumes "j < unat (page_bytes s) - unat (page_offset a s)" "unat a + j < 18446744073709551616"
  shows "addr_to_page (a + word_of_nat j) s = addr_to_page a s
       \<and> unat (page_offset (a + word_of_nat j) s) = unat (page_offset a s) + j"
proof -
  define b where "b = unat (page_bytes s)"
  have j: "unat (word_of_nat j :: u64) = j"
    using assms(2) by (simp add: unat_of_nat)
  have a: "unat (a + word_of_nat j) = unat a + j"
    using assms(2) by (subst unat_add_u64) (simp_all add: j)
  have bound: "unat a mod b + j < b"
    using assms(1) by (simp add: page_offset_def unat_mod b_def)
  have "(unat a + j) div b = unat a div b"
    by (subst div_add1_eq [of "unat a" j b]) (use bound in simp)
  moreover have "(unat a + j) mod b = unat a mod b + j"
    by (metis bound mod_add_left_eq mod_less)
  ultimately have "unat (addr_to_page (a + word_of_nat j) s) = unat (addr_to_page a s)
       \<and> unat (page_offset (a + word_of_nat j) s) = unat (page_offset a s) + j"
    by (simp add: addr_to_page_def page_offset_def unat_div unat_mod a b_def)
  then show ?thesis
    by (auto intro: unsigned_word_eqI)
qed

lemma resident_mem:
  assumes "page_of s (addr_to_page a s) = Some p" "resident p"
    and "j < unat (page_bytes s) - unat (page_offset a s)" "unat a + j < 18446744073709551616"
  shows "ssd_mem s (a + word_of_nat j) = pm_data p ! (unat (page_offset a s) + j)"
  using page_of_offset [OF assms(3,4)] assms(1,2) by (simp add: ssd_mem_def page_view_def pview_def)

lemma chunk_le_page:
  assumes "page_bytes s \<noteq> 0"
  shows "unat (chunk_size addr len copied s) \<le> unat (page_bytes s) - unat (page_offset (addr + copied) s)
       \<and> unat (page_offset (addr + copied) s) < unat (page_bytes s)"
proof -
  have "page_offset (addr + copied) s < page_bytes s"
    using assms by (simp add: page_offset_def word_less_nat_alt unat_mod unat_gt_0)
  then have "page_offset (addr + copied) s \<le> page_bytes s"
    by simp
  then have "unat (page_bytes s - page_offset (addr + copied) s) = unat (page_bytes s) - unat (page_offset (addr + copied) s)"
    by (simp add: unat_sub)
  moreover have "chunk_size addr len copied s \<le> page_bytes s - page_offset (addr + copied) s"
    by (simp add: chunk_size_def)
  ultimately show ?thesis
    using \<open>page_offset (addr + copied) s < page_bytes s\<close> by (simp add: word_le_nat_alt word_less_nat_alt)
qed

definition mem_slice :: "(u64 \<Rightarrow> u8) \<Rightarrow> u64 \<Rightarrow> nat \<Rightarrow> u8 list" where
  "mem_slice m a n = map (\<lambda>i. m (a + word_of_nat i)) [0..<n]"

lemma mem_slice_add: "mem_slice m a (n + k) = mem_slice m a n @ mem_slice m (a + word_of_nat n) k"
proof (rule nth_equalityI)
  fix i assume "i < length (mem_slice m a (n + k))"
  then show "mem_slice m a (n + k) ! i = (mem_slice m a n @ mem_slice m (a + word_of_nat n) k) ! i"
    by (auto simp: mem_slice_def nth_append add.assoc simp flip: of_nat_add)
qed (simp add: mem_slice_def)

text \<open>The bytes of one chunk, for a range that does not wrap.\<close>

lemma chunk_bytes:
  fixes addr copied s len
  defines "c \<equiv> unat (chunk_size addr len copied s)" and "off \<equiv> unat (page_offset (addr + copied) s)"
  assumes p: "page_of s (addr_to_page (addr + copied) s) = Some p" "resident p" "ssd_inv s"
    and len: "copied < len" "unat addr + unat len \<le> 18446744073709551616"
  shows "take c (drop off (pm_data p)) = mem_slice (ssd_mem s) (addr + copied) c"
proof (rule nth_equalityI)
  have pb: "page_bytes s \<noteq> 0"
    using p(3) by (simp add: ssd_inv_def)
  have data: "length (pm_data p) = unat (page_bytes s)"
    using ssd_invD(2) [OF p(3,1)] by (simp add: page_ok_def)
  have c: "off + c \<le> unat (page_bytes s)"
    using chunk_le_page [OF pb, of addr len copied] unfolding c_def off_def by linarith
  then show "length (take c (drop off (pm_data p))) = length (mem_slice (ssd_mem s) (addr + copied) c)"
    by (simp add: mem_slice_def data)
  have cur: "unat (addr + copied) = unat addr + unat copied"
    using len by (intro unat_add_u64) (simp add: word_less_nat_alt)
  have end_le: "unat copied + c \<le> unat len"
    using chunk_size_progress [OF len(1) pb, of addr] by (simp add: c_def)
  fix i assume "i < length (take c (drop off (pm_data p)))"
  then have i: "i < c"
    by simp
  have "ssd_mem s (addr + copied + word_of_nat i) = pm_data p ! (off + i)"
    using resident_mem [OF p(1,2), of i] i c cur end_le len(2) by (simp add: off_def)
  then show "take c (drop off (pm_data p)) ! i = mem_slice (ssd_mem s) (addr + copied) c ! i"
    using i c data by (simp add: mem_slice_def)
qed


lemma word_of_nat_unat [simp]: "word_of_nat (unat w) = (w :: u64)"
  by (simp add: word_unat_eq_iff unat_of_nat)

lemma read_loop_mem:
  assumes "ready s" "copied \<le> len" "unat addr + unat len \<le> 18446744073709551616"
    and "dst = mem_slice (ssd_mem s) addr (unat copied)"
  shows "\<exists>ok d s'. read_loop addr len copied dst s = Some (ok, d, s') \<and> keeps no_refs s s'
          \<and> (ok \<longrightarrow> d = mem_slice (ssd_mem s) addr (unat len))"
  using assms
proof (induction addr len copied dst s rule: read_loop.induct)
  case (1 addr len copied dst s)
  have inv: "ssd_inv s" "refs no_refs s" and pb: "page_bytes s \<noteq> 0"
    using 1(2) by (auto simp: ready_def ssd_inv_def)
  show ?case
  proof (cases "copied < len")
    case True
    define n where "n = addr_to_page (addr + copied) s"
    define chunk where "chunk = chunk_size addr len copied s"
    obtain ok s1 where e: "ensure_page_loaded_locked n (copied = 0) s = (ok, s1)"
      by fastforce
    have "key_ok s n"
      by (simp add: n_def key_ok_page)
    note k = keeps_ensure [OF inv this e]
    show ?thesis
    proof (cases ok)
      case okT: True
      then obtain p where p: "page_of s1 n = Some p" "resident p"
        using k by blast
      have same: "page_bytes s1 = page_bytes s"
        using k by (auto simp: keeps_def page_bytes_def)
      have here: "addr_to_page (addr + copied) s1 = n" "page_offset (addr + copied) s1 = page_offset (addr + copied) s"
          "chunk_size addr len copied s1 = chunk"
        using same by (simp_all add: n_def chunk_def addr_to_page_def page_offset_def chunk_size_def)
      have mem: "ssd_mem s1 = ssd_mem s"
        using k keeps_mem by blast
      have prog: "unat (copied + chunk) = unat copied + unat chunk" "copied + chunk \<le> len"
        using chunk_size_progress [OF True pb, of addr] by (auto simp: chunk_def word_le_nat_alt)
      define dst1 where "dst1 = dst @ take (unat chunk) (drop (unat (page_offset (addr + copied) s)) (pm_data p))"
      have "dst1 = mem_slice (ssd_mem s1) addr (unat (copied + chunk))"
        using chunk_bytes [of s1 addr copied p len] p keepsD(1) [OF conjunct1 [OF k]] True 1(4)
        by (simp add: dst1_def 1(5) here mem prog(1) mem_slice_add)
      then have "\<exists>ok d s'. read_loop addr len (copied + chunk) dst1 s1 = Some (ok, d, s') \<and> keeps no_refs s1 s'
          \<and> (ok \<longrightarrow> d = mem_slice (ssd_mem s1) addr (unat len))"
        using 1(1) [OF True pb n_def refl chunk_def e [symmetric] refl _ p(1)] okT keeps_ready [OF conjunct1 [OF k]] prog(2) 1(4)
        by (simp add: dst1_def)
      moreover have "read_loop addr len copied dst s = read_loop addr len (copied + chunk) dst1 s1"
        using True pb e okT p(1) by (subst read_loop.simps) (simp add: Let_def n_def chunk_def dst1_def)
      ultimately show ?thesis
        using keeps_trans [OF conjunct1 [OF k]] unfolding mem by auto
    next
      case False
      then have "read_loop addr len copied dst s = Some (False, dst, s1)"
        using True pb e by (subst read_loop.simps) (simp add: Let_def n_def)
      then show ?thesis
        using k by blast
    qed
  next
    case False
    then have "copied = len"
      using 1(3) by simp
    moreover have "read_loop addr len copied dst s = Some (True, dst, s)"
      using False by (subst read_loop.simps) simp
    ultimately show ?thesis
      using 1(5) keeps_refl [OF inv] by blast
  qed
qed

definition overwrite :: "(u64 \<Rightarrow> u8) \<Rightarrow> u64 \<Rightarrow> u8 list \<Rightarrow> u64 \<Rightarrow> u8" where
  "overwrite m addr bs a = (if unat (a - addr) < length bs then bs ! unat (a - addr) else m a)"

lemma unat_minus_u64:
  fixes a b :: u64
  shows "unat (a - b) = (if unat b \<le> unat a then unat a - unat b else 18446744073709551616 + unat a - unat b)"
proof (cases "b \<le> a")
  case True
  then show ?thesis
    by (simp add: unat_sub word_le_nat_alt)
next
  case False
  then have "unat (b - a) = unat b - unat a" "b - a \<noteq> 0"
    by (auto simp: unat_sub)
  moreover have "a - b = - (b - a)"
    by simp
  ultimately show ?thesis
    using False unat_uminus_u64 [of "b - a"] by (simp add: word_le_nat_alt)
qed

lemma in_range_iff:
  fixes a b :: u64
  assumes "unat b + k \<le> 18446744073709551616"
  shows "unat (a - b) < k \<longleftrightarrow> unat b \<le> unat a \<and> unat a < unat b + k"
  using assms unat_u64_lt [of a] by (auto simp: unat_minus_u64)

lemma overwrite_append:
  assumes "unat c + length bs \<le> length src" "length src < 18446744073709551616"
    and "bs = take (length bs) (drop (unat c) src)"
  shows "overwrite (overwrite m addr (take (unat c) src)) (addr + c) bs
       = overwrite m addr (take (unat c + length bs) src)"
proof
  fix a
  have eq: "a - (addr + c) = (a - addr) - c"
    by simp
  have *: "unat (a - (addr + c)) < length bs \<longleftrightarrow> unat c \<le> unat (a - addr) \<and> unat (a - addr) < unat c + length bs"
    unfolding eq using assms by (intro in_range_iff) simp
  moreover have "unat (a - (addr + c)) = unat (a - addr) - unat c" if "unat c \<le> unat (a - addr)"
    unfolding eq using that by (simp add: unat_minus_u64)
  moreover have "bs ! i = src ! (unat c + i)" if "i < length bs" for i
  proof -
    have "bs ! i = take (length bs) (drop (unat c) src) ! i"
      by (rule arg_cong [OF assms(3)])
    then show ?thesis
      using that assms(1) by simp
  qed
  ultimately show "overwrite (overwrite m addr (take (unat c) src)) (addr + c) bs a
      = overwrite m addr (take (unat c + length bs) src) a"
    using assms(1) by (auto simp: overwrite_def)
qed


text \<open>Storing bytes in a resident page changes the memory at their place.\<close>

lemma same_page_iff:
  fixes a cur k :: nat
  assumes "0 < b" "cur mod b + k \<le> b" "0 < k"
  shows "cur \<le> a \<and> a < cur + k \<longleftrightarrow> a div b = cur div b \<and> cur mod b \<le> a mod b \<and> a mod b < cur mod b + k"
proof
  assume a: "cur \<le> a \<and> a < cur + k"
  then obtain j where j: "a = cur + j" "j < k"
    using le_Suc_ex by force
  have "(cur + j) div b = cur div b \<and> (cur + j) mod b = cur mod b + j"
  proof
    show "(cur + j) div b = cur div b"
      by (subst div_add1_eq [of cur j b]) (use j assms in simp)
    show "(cur + j) mod b = cur mod b + j"
      by (subst mod_add_left_eq [symmetric]) (use j assms in simp)
  qed
  then show "a div b = cur div b \<and> cur mod b \<le> a mod b \<and> a mod b < cur mod b + k"
    using j by simp
next
  assume a: "a div b = cur div b \<and> cur mod b \<le> a mod b \<and> a mod b < cur mod b + k"
  have "a = cur div b * b + a mod b" "cur = cur div b * b + cur mod b"
    using a div_mult_mod_eq [of a b] div_mult_mod_eq [of cur b] by simp_all
  then show "cur \<le> a \<and> a < cur + k"
    using a by linarith
qed

text \<open>An address lies in a run of bytes inside one page exactly when its page and offset do.\<close>

lemma in_page_range:
  fixes a cur s k
  assumes "page_bytes s \<noteq> 0" "0 < k" "unat (page_offset cur s) + k \<le> unat (page_bytes s)"
    and "unat cur + k \<le> 18446744073709551616"
  shows "unat (a - cur) < k \<longleftrightarrow> addr_to_page a s = addr_to_page cur s
           \<and> unat (page_offset cur s) \<le> unat (page_offset a s)
           \<and> unat (page_offset a s) < unat (page_offset cur s) + k"
    and "unat (a - cur) < k \<Longrightarrow> unat (a - cur) = unat (page_offset a s) - unat (page_offset cur s)"
proof -
  let ?b = "unat (page_bytes s)"
  show iff: "unat (a - cur) < k \<longleftrightarrow> addr_to_page a s = addr_to_page cur s
           \<and> unat (page_offset cur s) \<le> unat (page_offset a s)
           \<and> unat (page_offset a s) < unat (page_offset cur s) + k"
    using in_range_iff [OF assms(4), of a] same_page_iff [of ?b "unat cur" k "unat a"] assms
    by (simp add: addr_to_page_def page_offset_def unat_div unat_mod word_unat_eq_iff)
  assume in_range: "unat (a - cur) < k"
  then have "unat a div ?b = unat cur div ?b"
    using iff by (auto simp: addr_to_page_def word_unat_eq_iff unat_div)
  then have "unat a - unat cur = unat a mod ?b - unat cur mod ?b"
    using div_mult_mod_eq [of "unat a" ?b] div_mult_mod_eq [of "unat cur" ?b] by (metis add_diff_cancel_left)
  then show "unat (a - cur) = unat (page_offset a s) - unat (page_offset cur s)"
    using in_range_iff [OF assms(4), of a] in_range by (simp add: unat_minus_u64 page_offset_def unat_mod)
qed

lemma store_mem:
  fixes s cur bs
  defines "n \<equiv> addr_to_page cur s" and "off \<equiv> unat (page_offset cur s)"
  assumes inv: "ready s" and p: "page_of s n = Some p" "resident p"
    and bs: "bs \<noteq> []" "off + length bs \<le> unat (page_bytes s)" "unat cur + length bs \<le> 18446744073709551616"
    and s': "s' = modify_page n (\<lambda>p. p\<lparr>pm_data := put_bytes off bs (pm_data p),
                               pm_dirty := True, pm_state := ResidentDirty, pm_accessed := True\<rparr>) s"
  shows "ready s' \<and> ssd_mem s' = overwrite (ssd_mem s) cur bs"
proof -
  define p' where "p' = p\<lparr>pm_data := put_bytes off bs (pm_data p),
                          pm_dirty := True, pm_state := ResidentDirty, pm_accessed := True\<rparr>"
  have i: "ssd_inv s" "refs no_refs s" "page_bytes s \<noteq> 0"
    using inv by (simp_all add: ready_def ssd_inv_def)
  have data: "length (pm_data p) = unat (page_bytes s)" "pm_backing_slot p = n"
    using ssd_invD(2) [OF i(1) p(1)] by (simp_all add: page_ok_def)
  have po: "page_of s' = (page_of s)(n \<mapsto> p')"
    unfolding s' p'_def by (rule page_of_modify [OF p(1)])
  have fr: "sb_disk s' = sb_disk s" "sb_config s' = sb_config s" "page_bytes s' = page_bytes s"
      "length (sb_pages s') = length (sb_pages s)" "distinct (map fst (sb_pages s'))"
    using i(1) by (simp_all add: s' ssd_inv_def)
  have "page_ok s' n p'"
    using data bs by (simp add: page_ok_def p'_def fr put_bytes_def)
  then have "ssd_inv s'"
    using i(1) p(1) fr unfolding ssd_inv_def po by (auto simp: key_ok_def page_ok_def)
  moreover have "refs no_refs s'"
    using i(2) p(1) by (auto simp: refs_def po p'_def)
  moreover have "ssd_mem s' a = overwrite (ssd_mem s) cur bs a" for a
  proof -
    have at_s: "addr_to_page a s' = addr_to_page a s" "page_offset a s' = page_offset a s"
      by (simp_all add: addr_to_page_def page_offset_def fr)
    note in_page = in_page_range [OF i(3), of "length bs" cur a, folded n_def off_def]
    have off_lt: "unat (page_offset a s) < unat (page_bytes s)"
      using i(3) by (simp add: page_offset_def unat_mod unat_gt_0)
    show ?thesis
    proof (cases "addr_to_page a s = n")
      case True
      have "ssd_mem s' a = put_bytes off bs (pm_data p) ! unat (page_offset a s)"
        using True by (simp add: ssd_mem_def at_s page_view_def po p'_def pview_def resident_def)
      moreover have "ssd_mem s a = pm_data p ! unat (page_offset a s)"
        using True p by (simp add: ssd_mem_def page_view_def pview_def)
      ultimately show ?thesis
        using in_page True bs data off_lt by (auto simp: overwrite_def put_bytes_def nth_append min_def)
    next
      case False
      then show ?thesis
        using in_page(1) bs by (simp add: overwrite_def ssd_mem_def at_s page_view_def po pview_def fr split: option.split)
    qed
  qed
  ultimately show ?thesis
    by (auto simp: ready_def)
qed

text \<open>One round of the write loop.\<close>

definition store_chunk :: "u64 \<Rightarrow> u8 list \<Rightarrow> u64 \<Rightarrow> u64 \<Rightarrow> SsdStreamingBackend \<Rightarrow> SsdStreamingBackend" where
  "store_chunk addr src len copied s =
     (let n = addr_to_page (addr + copied) s;
          bytes = take (unat (chunk_size addr len copied s)) (drop (unat copied) src) in
      stamp n (modify_page n (\<lambda>p. p\<lparr>pm_data := put_bytes (unat (page_offset (addr + copied) s)) bytes (pm_data p),
                   pm_dirty := True, pm_state := ResidentDirty, pm_accessed := True\<rparr>) s))"

lemma store_chunk_mem:
  assumes inv: "ready s" and p: "page_of s (addr_to_page (addr + copied) s) = Some p" "resident p"
    and len: "copied < len" "unat addr + unat len \<le> 18446744073709551616" "length src = unat len"
    and mem: "ssd_mem s = overwrite m addr (take (unat copied) src)"
  shows "ready (store_chunk addr src len copied s)
       \<and> sb_config (store_chunk addr src len copied s) = sb_config s
       \<and> sb_initialized (store_chunk addr src len copied s) = sb_initialized s
       \<and> ssd_mem (store_chunk addr src len copied s)
         = overwrite m addr (take (unat (copied + chunk_size addr len copied s)) src)"
proof -
  define n where "n = addr_to_page (addr + copied) s"
  define off where "off = unat (page_offset (addr + copied) s)"
  define chunk where "chunk = chunk_size addr len copied s"
  define bytes where "bytes = take (unat chunk) (drop (unat copied) src)"
  define s1 where "s1 = modify_page n (\<lambda>p. p\<lparr>pm_data := put_bytes off bytes (pm_data p),
                   pm_dirty := True, pm_state := ResidentDirty, pm_accessed := True\<rparr>) s"
  have s2: "store_chunk addr src len copied s = stamp n s1"
    by (simp add: store_chunk_def Let_def n_def off_def chunk_def bytes_def s1_def)
  have pb: "page_bytes s \<noteq> 0"
    using inv by (simp add: ready_def ssd_inv_def)
  have prog: "unat (copied + chunk) = unat copied + unat chunk" "unat copied < unat (copied + chunk)"
      "unat (copied + chunk) \<le> unat len"
    using chunk_size_progress [OF len(1) pb, of addr] by (auto simp: chunk_def)
  have bytes: "length bytes = unat chunk" "bytes \<noteq> []"
    using prog len(3) by (auto simp: bytes_def)
  have cur: "unat (addr + copied) = unat addr + unat copied"
    using len by (intro unat_add_u64) (simp add: word_less_nat_alt)
  have "off + length bytes \<le> unat (page_bytes s)" "unat (addr + copied) + length bytes \<le> 18446744073709551616"
    using chunk_le_page [OF pb, of addr len copied] prog len(2) bytes cur by (auto simp: off_def chunk_def)
  then have st: "ready s1" "ssd_mem s1 = overwrite (ssd_mem s) (addr + copied) bytes"
    using store_mem [OF inv p bytes(2)] by (simp_all add: s1_def n_def off_def)
  have ks: "keeps no_refs s1 (stamp n s1)"
    using st(1) by (intro keeps_stamp) (simp_all add: ready_def)
  have "overwrite (ssd_mem s) (addr + copied) bytes = overwrite m addr (take (unat copied + length bytes) src)"
    unfolding mem using prog len bytes by (intro overwrite_append) (simp_all add: bytes_def)
  then show ?thesis
    using keeps_mem [OF ks] keeps_ready [OF ks] st(2) prog(1) bytes(1) unfolding s2 chunk_def [symmetric]
    by (simp add: s1_def)
qed

lemma write_loop_mem:
  assumes "ready s" "copied \<le> len" "unat addr + unat len \<le> 18446744073709551616" "length src = unat len"
    and "ssd_mem s = overwrite m addr (take (unat copied) src)"
  shows "\<exists>ok s' k. write_loop addr src len copied s = Some (ok, s') \<and> ready s'
          \<and> sb_config s' = sb_config s \<and> sb_initialized s' = sb_initialized s
          \<and> ssd_mem s' = overwrite m addr (take k src) \<and> (ok \<longrightarrow> k = length src)"
  using assms
proof (induction addr src len copied s rule: write_loop.induct)
  case (1 addr src len copied s)
  have inv: "ssd_inv s" "refs no_refs s" and pb: "page_bytes s \<noteq> 0"
    using 1(2) by (auto simp: ready_def ssd_inv_def)
  show ?case
  proof (cases "copied < len")
    case True
    define n where "n = addr_to_page (addr + copied) s"
    define chunk where "chunk = chunk_size addr len copied s"
    obtain ok s1 where e: "ensure_page_loaded_locked n False s = (ok, s1)"
      by fastforce
    note k = keeps_ensure [OF inv _ e]
    have kn: "keeps no_refs s s1" "ok \<Longrightarrow> \<exists>p. page_of s1 n = Some p \<and> resident p"
      using k key_ok_page by (auto simp: n_def)
    note fr = keeps_mem [OF kn(1)] keeps_config [OF kn(1)] keeps_ready [OF kn(1)]
    have init: "sb_initialized s1 = sb_initialized s"
      using kn(1) by (simp add: keeps_def)
    show ?thesis
    proof (cases ok)
      case okT: True
      then obtain p where p: "page_of s1 n = Some p" "resident p"
        using kn(2) by blast
      have at_s: "page_bytes s1 = page_bytes s"
        using fr(2) by (rule page_bytes_cong)
      then have here: "addr_to_page (addr + copied) s1 = n" "chunk_size addr len copied s1 = chunk"
          "page_offset (addr + copied) s1 = page_offset (addr + copied) s"
        by (simp_all add: n_def chunk_def addr_to_page_def chunk_size_def page_offset_def)
      define s2 where "s2 = store_chunk addr src len copied s1"
      have s2: "ready s2" "sb_config s2 = sb_config s" "sb_initialized s2 = sb_initialized s"
          "ssd_mem s2 = overwrite m addr (take (unat (copied + chunk)) src)"
        using store_chunk_mem [OF fr(3), of addr copied p len src m] p True 1(4-6) fr init
        by (simp_all add: here s2_def)
      have prog: "copied + chunk \<le> len"
        using chunk_size_progress [OF True pb, of addr] by (auto simp: chunk_def word_le_nat_alt)
      have "\<exists>ok s' k. write_loop addr src len (copied + chunk) s2 = Some (ok, s') \<and> ready s'
          \<and> sb_config s' = sb_config s2 \<and> sb_initialized s' = sb_initialized s2
          \<and> ssd_mem s' = overwrite m addr (take k src) \<and> (ok \<longrightarrow> k = length src)"
        using 1(1) [OF True pb n_def refl chunk_def e [symmetric] refl _ p(1) refl, of s2] okT s2 prog 1(4,5)
        by (simp add: s2_def store_chunk_def Let_def here)
      moreover have "write_loop addr src len copied s = write_loop addr src len (copied + chunk) s2"
        using True pb e okT p(1)
        by (subst write_loop.simps) (simp add: Let_def s2_def store_chunk_def here flip: n_def chunk_def)
      ultimately show ?thesis
        using s2(2,3) by simp
    next
      case False
      then have "write_loop addr src len copied s = Some (False, s1)"
        using True pb e by (subst write_loop.simps) (simp add: Let_def n_def)
      then show ?thesis
        using fr init 1(6) by auto
    qed
  next
    case False
    then have "copied = len"
      using 1(3) by simp
    moreover have "write_loop addr src len copied s = Some (True, s)"
      using False by (subst write_loop.simps) simp
    ultimately show ?thesis
      using 1(2,5,6) by auto
  qed
qed


section \<open>Flush and hints\<close>

lemma page_of_map_pages:
  "page_of (s\<lparr>sb_pages := map (\<lambda>(n, p). (n, f p)) (sb_pages s)\<rparr>) n = map_option f (page_of s n)"
  by (simp add: page_of_def map_of_map)

lemma page_of_hold: "page_of (hold_all s) n = map_option (\<lambda>p. p\<lparr>pm_refcnt := pm_refcnt p + 1\<rparr>) (page_of s n)"
  unfolding hold_all_def by (rule page_of_map_pages)

lemma page_of_release:
  "page_of ((release_all s)\<lparr>sb_calls := c\<rparr>) n = map_option (\<lambda>p. p\<lparr>pm_refcnt := pm_refcnt p - 1\<rparr>) (page_of s n)"
  by (simp add: release_all_def page_of_def map_of_map)

lemma keeps_refcnt_all:
  assumes "ssd_inv s" "refs r s"
  shows "keeps (\<lambda>n. r n + d) s (s\<lparr>sb_pages := map (\<lambda>(n, p). (n, p\<lparr>pm_refcnt := pm_refcnt p + d\<rparr>)) (sb_pages s)\<rparr>)"
    (is "keeps _ s ?s")
proof -
  have pb: "page_bytes ?s = page_bytes s"
    by (simp add: page_bytes_def)
  have keys: "map fst (sb_pages ?s) = map fst (sb_pages s)"
    by (simp add: case_prod_unfold comp_def)
  note po = page_of_map_pages [where s = s and f = "\<lambda>p. p\<lparr>pm_refcnt := pm_refcnt p + d\<rparr>"]
  have "ssd_inv ?s"
    using assms(1) unfolding ssd_inv_def po keys pb
    by (auto simp: key_ok_def page_ok_def pb)
  moreover have "page_view ?s n = page_view s n" for n
    unfolding page_view_def po by (simp add: pview_def pb resident_def split: option.split)
  moreover have "refs (\<lambda>n. r n + d) ?s"
    using assms(2) unfolding refs_def po by auto
  ultimately show ?thesis
    unfolding keeps_def po by (auto simp: resident_def)
qed

lemma keeps_flush_pages:
  "ssd_inv s \<Longrightarrow> refs r s \<Longrightarrow> flush_pages ns ok s = (ok', s') \<Longrightarrow> keeps r s s' \<and> (ok' \<longrightarrow> ok)"
proof (induction ns ok s rule: flush_pages.induct)
  case (2 n ns ok s)
  obtain ok1 s1 where f: "flush_page_locked n s = (ok1, s1)"
    by fastforce
  note k = conjunct1 [OF keeps_flush_page [OF 2(2,3) f]]
  then show ?case
    using 2(1) [OF f [symmetric] refl keepsD [OF k]] 2(4) f keeps_trans [OF k] by auto
qed (simp add: keeps_refl)

lemma flush_page_other:
  assumes "k \<noteq> n" shows "page_of (snd (flush_page_locked n s)) k = page_of s k"
proof -
  have cs: "page_of (count_stat f x) k = page_of x k" for f x
    by (simp add: count_stat_def page_of_def)
  have wp: "page_of (snd (write_page b o1 x)) k = page_of x k" for b o1 x
    by (simp add: page_of_def)
  show ?thesis
    using assms by (simp add: flush_page_locked_def Let_def case_prod_unfold page_of_map_entry cs wp split: option.split)
qed

lemma flush_pages_clean:
  "ssd_inv s \<Longrightarrow> refs r s \<Longrightarrow> flush_pages ns ok s = (True, s') \<Longrightarrow>
   (\<forall>n p. page_of s' n = Some p \<and> pm_dirty p \<longrightarrow> n \<notin> set ns \<and> (\<exists>p0. page_of s n = Some p0 \<and> pm_dirty p0))"
proof (induction ns ok s rule: flush_pages.induct)
  case (2 n ns ok s)
  obtain ok1 s1 where f: "flush_page_locked n s = (ok1, s1)"
    by fastforce
  note k = keeps_flush_page [OF 2(2,3) f]
  have rest: "flush_pages ns (ok1 \<and> ok) s1 = (True, s')"
    using 2(4) f by simp
  then have "ok1"
    using keeps_flush_pages [OF keepsD [OF conjunct1 [OF k]] rest] by blast
  then have "page_of s1 n = Some p \<Longrightarrow> \<not> pm_dirty p" for p
    using k by blast
  moreover have "k \<noteq> n \<Longrightarrow> page_of s1 k = page_of s k" for k
    using flush_page_other [of k n s] f by simp
  ultimately show ?case
    using 2(1) [OF f [symmetric] refl keepsD [OF conjunct1 [OF k]] rest] by (metis set_ConsD)
qed auto

text \<open>The memory as the file holds it.\<close>

definition disk_mem :: "SsdStreamingBackend \<Rightarrow> u64 \<Rightarrow> u8" where
  "disk_mem s a = sb_disk s (addr_to_page a s * page_bytes s) ! unat (page_offset a s)"

lemma clean_disk_mem:
  assumes "ssd_inv s" "\<And>n p. page_of s n = Some p \<Longrightarrow> \<not> pm_dirty p"
  shows "disk_mem s = ssd_mem s"
proof
  fix a
  have "page_view s n = sb_disk s (n * page_bytes s)" for n
    using assms ssd_invD(2) [OF assms(1)]
    by (fastforce simp: page_view_def pview_def resident_def page_ok_def split: option.split)
  then show "disk_mem s a = ssd_mem s a"
    by (simp add: disk_mem_def ssd_mem_def)
qed

lemma ssd_flush_keeps:
  assumes "ready s" "ssd_flush s = (ok, s')"
  shows "keeps no_refs s s' \<and> (ok \<longrightarrow> disk_mem s' = ssd_mem s)"
proof (cases "sb_initialized s")
  case True
  have inv: "ssd_inv s" "refs no_refs s"
    using assms(1) by (simp_all add: ready_def)
  obtain okf s1 where f: "flush_pages (map fst (sb_pages s)) True (hold_all s) = (okf, s1)"
    by fastforce
  have k0: "keeps (\<lambda>n. 1) s (hold_all s)"
    using keeps_refcnt_all [OF inv, of 1] by (simp add: hold_all_def)
  note k1 = conjunct1 [OF keeps_flush_pages [OF keepsD [OF k0] f]]
  have k2: "keeps no_refs s1 (release_all s1)"
    using keeps_refcnt_all [OF keepsD [OF k1], of "- 1"] by (simp add: release_all_def)
  note k = keeps_trans_free [OF keeps_trans [OF k0 k1] k2]
  have k3: "keeps no_refs s ((release_all s1)\<lparr>sb_calls := c\<rparr>)" for c
    using keeps_trans [OF k keeps_other [OF keepsD [OF k]]] by simp
  have "s' = (release_all s1)\<lparr>sb_calls := sb_calls s'\<rparr>" and okf: "ok \<longrightarrow> okf"
    using assms(2) True f by (auto simp: ssd_flush_def Let_def sys_call_def split: if_splits option.splits)
  then obtain c where c: "s' = (release_all s1)\<lparr>sb_calls := c\<rparr>"
    by blast
  have "disk_mem s' = ssd_mem s" if okT: "ok"
  proof -
    have "page_of s1 n = Some p \<Longrightarrow> \<not> pm_dirty p" for n p
    proof
      assume p: "page_of s1 n = Some p" "pm_dirty p"
      then obtain p0 where "n \<notin> set (map fst (sb_pages s))" "page_of (hold_all s) n = Some p0"
        using flush_pages_clean [OF keepsD [OF k0], of "map fst (sb_pages s)" True s1] f okf okT by auto
      moreover have "page_of s n = None"
        using calculation(1) by (simp add: page_of_def map_of_eq_None_iff)
      ultimately show False
        by (simp add: page_of_hold)
    qed
    then have "page_of s' n = Some p \<Longrightarrow> \<not> pm_dirty p" for n p
      by (auto simp: c page_of_release)
    then have "disk_mem s' = ssd_mem s'"
      using k3 [of c] c by (intro clean_disk_mem) (auto dest: keepsD)
    then show ?thesis
      using keeps_mem [OF k3 [of c]] c by simp
  qed
  then show ?thesis
    using k3 [of c] c by simp
next
  case False
  then show ?thesis
    using assms keeps_refl by (auto simp: ssd_flush_def ready_def)
qed


lemma page_span_key: "n \<in> set (page_span addr len s) \<Longrightarrow> key_ok s n"
proof -
  assume "n \<in> set (page_span addr len s)"
  then obtain i where i: "n = word_of_nat i" "i \<le> unat (addr_to_page (addr + len - 1) s)"
    by (auto simp: page_span_def less_Suc_eq_le)
  then have "unat n = i"
    using le_unat_u64_lt [OF i(2)] by (simp add: unat_of_nat)
  then have "n \<le> (addr + len - 1) div page_bytes s"
    using i(2) by (simp add: word_le_nat_alt addr_to_page_def)
  then show ?thesis
    using key_of_addr by (simp add: key_ok_def)
qed

lemma keys_keeps: "keeps r s s' \<Longrightarrow> \<forall>n \<in> set ns. key_ok s n \<Longrightarrow> \<forall>n \<in> set ns. key_ok s' n"
  by (simp add: key_ok_keeps)

lemma keeps_prefetch_loop:
  "ready s \<Longrightarrow> \<forall>n \<in> set ns. key_ok s n \<Longrightarrow> prefetch_loop ns s = (ok, s') \<Longrightarrow> keeps no_refs s s'"
proof (induction ns s rule: prefetch_loop.induct)
  case (2 n ns s)
  obtain ok1 s1 where e: "ensure_page_loaded_locked n False s = (ok1, s1)"
    by fastforce
  have k: "keeps no_refs s s1"
    using keeps_ensure [OF _ _ _ e] 2(2,3) by (simp add: ready_def)
  show ?case
    using 2(1) [OF e [symmetric] refl _ keeps_ready [OF k]] 2(3,4) e k keeps_trans [OF k] keys_keeps [OF k, of ns]
    by (auto split: if_splits)
qed (simp add: keeps_refl ready_def)

lemma keeps_evict_loop:
  "ready s \<Longrightarrow> evict_loop ns ok s = (ok', s') \<Longrightarrow> keeps no_refs s s'"
proof (induction ns ok s rule: evict_loop.induct)
  case (2 n ns ok s)
  obtain ok1 s1 where e: "evict_page_locked n s = (ok1, s1)"
    by fastforce
  have k: "keeps no_refs s s1"
    using keeps_evict_page [OF _ _ e] 2(2) by (simp add: ready_def)
  show ?case
    using 2(1) [OF e [symmetric] refl keeps_ready [OF k]] 2(3) e keeps_trans [OF k] by auto
qed (simp add: keeps_refl ready_def)

lemma keeps_flags:
  assumes "ready s"
  shows "keeps no_refs s (modify_page n (\<lambda>p. p\<lparr>pm_pinned := b\<rparr>) s)"
    "keeps no_refs s (modify_page n (\<lambda>p. p\<lparr>pm_streaming := b, pm_accessed := c\<rparr>) s)"
  using assms by (auto simp: ready_def page_ok_def pview_def resident_def intro!: keeps_modify)

lemma keeps_pin_loop:
  "ready s \<Longrightarrow> \<forall>n \<in> set ns. key_ok s n \<Longrightarrow> pin_loop ns s = (ok, s') \<Longrightarrow> keeps no_refs s s'"
proof (induction ns s rule: pin_loop.induct)
  case (2 n ns s)
  obtain ok1 s1 where e: "ensure_page_loaded_locked n False s = (ok1, s1)"
    by fastforce
  have k1: "keeps no_refs s s1"
    using keeps_ensure [OF _ _ _ e] 2(2,3) by (simp add: ready_def)
  note k = keeps_trans [OF k1 keeps_flags(1) [OF keeps_ready [OF k1]]]
  show ?case
    using 2(1) [OF e [symmetric] refl _ keeps_ready [OF k]] 2(3,4) e k1 keeps_trans [OF k] keys_keeps [OF k, of ns]
    by (auto split: if_splits)
qed (simp add: keeps_refl ready_def)

lemma keeps_streaming_loop:
  "ready s \<Longrightarrow> \<forall>n \<in> set ns. key_ok s n \<Longrightarrow> streaming_loop ns s = (ok, s') \<Longrightarrow> keeps no_refs s s'"
proof (induction ns s rule: streaming_loop.induct)
  case (2 n ns s)
  obtain room s1 where r1: "room_for n s = (room, s1)"
    by fastforce
  obtain got s2 where g: "get_or_create_page_locked n s1 = (got, s2)"
    by fastforce
  have k1: "keeps no_refs s s1"
    using keeps_room_for [OF _ _ r1] 2(2) by (simp add: ready_def)
  show ?case
  proof (cases room)
    case True
    then have "keeps no_refs s1 s2"
      using keeps_get_or_create [OF keepsD [OF k1] _ _ _ g] 2(3) key_ok_keeps [OF k1]
        room_for_room [of n s s1] keepsD(1) [OF k1] r1 by simp
    note k2 = keeps_trans [OF k1 this]
    note k = keeps_trans [OF k2 keeps_flags(2) [OF keeps_ready [OF k2]]]
    show ?thesis
      using 2(1) [OF r1 [symmetric] refl _ g [symmetric] refl _ keeps_ready [OF k]] 2(3,4) r1 g True k2
        keeps_trans [OF k] keys_keeps [OF k, of ns]
      by (auto split: if_splits)
  next
    case False
    then show ?thesis
      using 2(4) r1 k1 by simp
  qed
qed (simp add: keeps_refl ready_def)

lemma keeps_unpin_loop: "ready s \<Longrightarrow> keeps no_refs s (unpin_loop ns s)"
  unfolding unpin_loop_def
proof (induction ns arbitrary: s)
  case (Cons n ns)
  note k = keeps_flags(1) [OF Cons(2), of n False]
  show ?case
    using keeps_trans [OF k Cons(1) [OF keeps_ready [OF k]]] by simp
qed (simp add: keeps_refl ready_def)

lemma keeps_guarded:
  assumes "ready s" "guarded addr len loop s = (ok, s')"
    and "\<And>ns ok s'. \<forall>n \<in> set ns. key_ok s n \<Longrightarrow> loop ns s = (ok, s') \<Longrightarrow> keeps no_refs s s'"
  shows "keeps no_refs s s'"
  using assms page_span_key [of _ addr len s] keeps_refl [of s no_refs]
  by (auto simp: guarded_def ready_def split: if_splits)

text \<open>The operations that only manage the cache.\<close>

lemma ssd_hints_keep:
  assumes "ready s"
  shows "ssd_prefetch a n s = (ok, s') \<Longrightarrow> keeps no_refs s s'"
    and "ssd_evict_after a n s = (ok, s') \<Longrightarrow> keeps no_refs s s'"
    and "ssd_pin a n s = (ok, s') \<Longrightarrow> keeps no_refs s s'"
    and "ssd_unpin a n s = (ok, s') \<Longrightarrow> keeps no_refs s s'"
    and "ssd_set_streaming a n s = (ok, s') \<Longrightarrow> keeps no_refs s s'"
  unfolding ssd_prefetch_def ssd_evict_after_def ssd_pin_def ssd_unpin_def ssd_set_streaming_def
  by (erule keeps_guarded [OF assms], auto dest: keeps_prefetch_loop [OF assms] keeps_evict_loop [OF assms]
      keeps_pin_loop [OF assms] keeps_streaming_loop [OF assms] intro: keeps_unpin_loop [OF assms])+



section \<open>Runs\<close>

datatype ssd_op =
    Op_read u64 u64
  | Op_write u64 "u8 list"
  | Op_flush
  | Op_prefetch u64 u64
  | Op_evict u64 u64
  | Op_pin u64 u64
  | Op_unpin u64 u64
  | Op_streaming u64 u64

fun ssd_step :: "ssd_op \<Rightarrow> SsdStreamingBackend \<Rightarrow> (bool \<times> u8 list \<times> SsdStreamingBackend) option" where
  "ssd_step (Op_read a n) s = ssd_read a False n s"
| "ssd_step (Op_write a bs) s = map_option (\<lambda>(ok, s'). (ok, [], s')) (ssd_write a (Some bs) (word_of_nat (length bs)) s)"
| "ssd_step Op_flush s = Some (let (ok, s') = ssd_flush s in (ok, [], s'))"
| "ssd_step (Op_prefetch a n) s = Some (let (ok, s') = ssd_prefetch a n s in (ok, [], s'))"
| "ssd_step (Op_evict a n) s = Some (let (ok, s') = ssd_evict_after a n s in (ok, [], s'))"
| "ssd_step (Op_pin a n) s = Some (let (ok, s') = ssd_pin a n s in (ok, [], s'))"
| "ssd_step (Op_unpin a n) s = Some (let (ok, s') = ssd_unpin a n s in (ok, [], s'))"
| "ssd_step (Op_streaming a n) s = Some (let (ok, s') = ssd_set_streaming a n s in (ok, [], s'))"

text \<open>A run with its log: every operation, whether it succeeded, and the bytes it returned.\<close>

fun ssd_run :: "ssd_op list \<Rightarrow> SsdStreamingBackend
    \<Rightarrow> ((ssd_op \<times> bool \<times> u8 list) list \<times> SsdStreamingBackend) option" where
  "ssd_run [] s = Some ([], s)"
| "ssd_run (p # ps) s =
     (case ssd_step p s of
        None \<Rightarrow> None
      | Some (ok, bs, s1) \<Rightarrow> map_option (\<lambda>(log, s'). ((p, ok, bs) # log, s')) (ssd_run ps s1))"

text \<open>The abstract machine: a byte memory. A write that fails may have stored a prefix.\<close>

inductive flat_step :: "(u64 \<Rightarrow> u8) \<Rightarrow> ssd_op \<times> bool \<times> u8 list \<Rightarrow> (u64 \<Rightarrow> u8) \<Rightarrow> bool" where
  flat_read: "ok \<longrightarrow> bs = mem_slice m a (unat n) \<Longrightarrow> flat_step m (Op_read a n, ok, bs) m"
| flat_write: "flat_step m (Op_write a src, True, bs) (overwrite m a src)"
| flat_write_failed: "flat_step m (Op_write a src, False, bs) (overwrite m a (take k src))"
| flat_flush: "flat_step m (Op_flush, ok, bs) m"
| flat_prefetch: "flat_step m (Op_prefetch a n, ok, bs) m"
| flat_evict: "flat_step m (Op_evict a n, ok, bs) m"
| flat_pin: "flat_step m (Op_pin a n, ok, bs) m"
| flat_unpin: "flat_step m (Op_unpin a n, ok, bs) m"
| flat_streaming: "flat_step m (Op_streaming a n, ok, bs) m"

inductive flat_run :: "(u64 \<Rightarrow> u8) \<Rightarrow> (ssd_op \<times> bool \<times> u8 list) list \<Rightarrow> (u64 \<Rightarrow> u8) \<Rightarrow> bool" where
  flat_nil: "flat_run m [] m"
| flat_cons: "flat_step m e m1 \<Longrightarrow> flat_run m1 es m2 \<Longrightarrow> flat_run m (e # es) m2"

inductive_cases flat_run_ConsE: "flat_run m (e # es) m2"
inductive_cases flat_step_readE: "flat_step m (Op_read a n, ok, bs) m1"

fun op_fits :: "ssd_op \<Rightarrow> bool" where
  "op_fits (Op_write a bs) = (length bs < 18446744073709551616)"
| "op_fits _ = True"

lemma range_valid_end:
  assumes "range_valid addr len s" shows "unat addr + unat len \<le> 18446744073709551616"
proof -
  have len: "len \<noteq> 0" "addr \<le> UINT64_MAX - (len - 1)"
    using assms by (auto simp: range_valid_def not_less)
  have "unat (UINT64_MAX - (len - 1)) = 18446744073709551615 - unat (len - 1)"
    by (subst unat_sub) (simp_all add: word_le_nat_alt)
  moreover have "unat (len - 1) = unat len - 1"
    using len(1) by (rule unat_minus_one)
  moreover have "unat addr \<le> unat (UINT64_MAX - (len - 1))"
    using len(2) by (simp only: word_le_nat_alt)
  moreover have "unat len < 18446744073709551616"
    by (rule unat_u64_lt)
  ultimately show ?thesis
    by linarith
qed

lemma ssd_read_step:
  assumes "ready s"
  shows "\<exists>ok bs s'. ssd_read addr nul len s = Some (ok, bs, s') \<and> keeps no_refs s s'
          \<and> (ok \<longrightarrow> bs = mem_slice (ssd_mem s) addr (unat len))"
proof (cases "nul \<or> \<not> range_valid addr len s \<or> \<not> sb_initialized s")
  case True
  then have "ssd_read addr nul len s = Some (False, [], s)"
    by (simp add: ssd_read_def)
  then show ?thesis
    using assms keeps_refl unfolding ready_def by blast
next
  case False
  then obtain ok d s' where r: "read_loop addr len 0 [] s = Some (ok, d, s')" "keeps no_refs s s'"
      "ok \<longrightarrow> d = mem_slice (ssd_mem s) addr (unat len)"
    using read_loop_mem [OF assms, of 0 len addr "[]"] range_valid_end [of addr len s] by (auto simp: mem_slice_def)
  then show ?thesis
    using False keeps_count_stat [OF r(2)] by (cases ok) (auto simp: ssd_read_def)
qed

lemma keeps_initialized: "keeps r s s' \<Longrightarrow> sb_initialized s' = sb_initialized s"
  by (simp add: keeps_def)

lemma ssd_write_step:
  assumes "ready s" "length bs < 18446744073709551616"
  shows "\<exists>ok s' k. ssd_write addr (Some bs) (word_of_nat (length bs)) s = Some (ok, s') \<and> ready s'
          \<and> sb_config s' = sb_config s \<and> sb_initialized s' = sb_initialized s
          \<and> ssd_mem s' = overwrite (ssd_mem s) addr (take k bs) \<and> (ok \<longrightarrow> k = length bs)"
proof (cases "range_valid addr (word_of_nat (length bs)) s \<and> sb_initialized s")
  case True
  let ?len = "word_of_nat (length bs) :: u64"
  have len: "unat ?len = length bs"
    using assms(2) by (simp add: unat_of_nat)
  have "overwrite m addr [] = m" for m
    by (simp add: overwrite_def fun_eq_iff)
  then obtain ok s' k where w: "write_loop addr bs ?len 0 s = Some (ok, s')" "ready s'"
      "ssd_mem s' = overwrite (ssd_mem s) addr (take k bs)" "ok \<longrightarrow> k = length bs" "sb_config s' = sb_config s"
      "sb_initialized s' = sb_initialized s"
    using write_loop_mem [OF assms(1), of 0 ?len addr bs "ssd_mem s"] range_valid_end [of addr ?len s] True len by auto
  have "keeps no_refs s' (count_stat f s')" for f
    using w(2) by (intro keeps_count_stat keeps_refl) (simp_all add: ready_def)
  then have "ready (count_stat f s')" "ssd_mem (count_stat f s') = ssd_mem s'" for f
    using keeps_ready keeps_mem by blast+
  note st = this
  have "\<exists>f. ssd_write addr (Some bs) ?len s = Some (ok, if ok then count_stat f s' else s')"
    using True w(1) by (auto simp: ssd_write_def)
  then obtain f where "ssd_write addr (Some bs) ?len s = Some (ok, if ok then count_stat f s' else s')"
    by blast
  moreover have "sb_config (if ok then count_stat f s' else s') = sb_config s"
      "sb_initialized (if ok then count_stat f s' else s') = sb_initialized s"
    using w(5,6) by (simp_all add: count_stat_def)
  moreover have "ready (if ok then count_stat f s' else s')"
      "ssd_mem (if ok then count_stat f s' else s') = overwrite (ssd_mem s) addr (take k bs)"
    using st w by simp_all
  ultimately show ?thesis
    using w(4) by blast
next
  case False
  then have "ssd_write addr (Some bs) (word_of_nat (length bs)) s = Some (False, s)"
    by (auto simp: ssd_write_def)
  moreover have "ssd_mem s = overwrite (ssd_mem s) addr (take 0 bs)"
    by (simp add: overwrite_def fun_eq_iff)
  ultimately show ?thesis
    using assms(1) by blast
qed

lemma ssd_step_flat:
  assumes "ready s" "op_fits p"
  shows "\<exists>ok bs s'. ssd_step p s = Some (ok, bs, s') \<and> ready s' \<and> sb_config s' = sb_config s
          \<and> sb_initialized s' = sb_initialized s \<and> flat_step (ssd_mem s) (p, ok, bs) (ssd_mem s')"
proof -
  have hint: "\<exists>ok bs s'. Some (let (ok, s') = f s in (ok, [], s')) = Some (ok, bs, s') \<and> ready s'
      \<and> sb_config s' = sb_config s \<and> sb_initialized s' = sb_initialized s
      \<and> flat_step (ssd_mem s) (p, ok, bs) (ssd_mem s')"
    if "\<And>ok s'. f s = (ok, s') \<Longrightarrow> keeps no_refs s s'"
      and "\<And>ok bs. flat_step (ssd_mem s) (p, ok, bs) (ssd_mem s)"
    for f :: "SsdStreamingBackend \<Rightarrow> bool \<times> SsdStreamingBackend"
  proof -
    obtain ok s' where f: "f s = (ok, s')"
      by fastforce
    then show ?thesis
      using keeps_ready [OF that(1) [OF f]] keeps_mem [OF that(1) [OF f]] keeps_config [OF that(1) [OF f]]
        keeps_initialized [OF that(1) [OF f]] that(2) by simp
  qed
  show ?thesis
  proof (cases p)
    case (Op_read a n)
    obtain ok bs s' where r: "ssd_read a False n s = Some (ok, bs, s')" "keeps no_refs s s'"
        "ok \<longrightarrow> bs = mem_slice (ssd_mem s) a (unat n)"
      using ssd_read_step [OF assms(1)] by blast
    then show ?thesis
      using Op_read keeps_ready [OF r(2)] keeps_config [OF r(2)] keeps_mem [OF r(2)]
        keeps_initialized [OF r(2)] flat_read [OF r(3)] by simp
  next
    case (Op_write a src)
    have fits: "length src < 18446744073709551616"
      using assms(2) Op_write by simp
    obtain ok s' k where w: "ssd_write a (Some src) (word_of_nat (length src)) s = Some (ok, s')" "ready s'"
        "ssd_mem s' = overwrite (ssd_mem s) a (take k src)" "ok \<longrightarrow> k = length src" "sb_config s' = sb_config s"
        "sb_initialized s' = sb_initialized s"
      using ssd_write_step [OF assms(1) fits] by blast
    have "flat_step (ssd_mem s) (p, ok, []) (ssd_mem s')"
    proof (cases ok)
      case True
      then show ?thesis
        using Op_write w flat_write [of "ssd_mem s" a src "[]"] by simp
    next
      case False
      then show ?thesis
        using Op_write w flat_write_failed [of "ssd_mem s" a src "[]" k] by simp
    qed
    then show ?thesis
      using Op_write w by simp
  next
    case Op_flush
    show ?thesis
      using hint [of ssd_flush] ssd_flush_keeps [OF assms(1)] flat_flush unfolding Op_flush ssd_step.simps by blast
  next
    case (Op_prefetch a n)
    show ?thesis
      using hint [of "ssd_prefetch a n"] ssd_hints_keep(1) [OF assms(1)] flat_prefetch
      unfolding Op_prefetch ssd_step.simps by blast
  next
    case (Op_evict a n)
    show ?thesis
      using hint [of "ssd_evict_after a n"] ssd_hints_keep(2) [OF assms(1)] flat_evict
      unfolding Op_evict ssd_step.simps by blast
  next
    case (Op_pin a n)
    show ?thesis
      using hint [of "ssd_pin a n"] ssd_hints_keep(3) [OF assms(1)] flat_pin
      unfolding Op_pin ssd_step.simps by blast
  next
    case (Op_unpin a n)
    show ?thesis
      using hint [of "ssd_unpin a n"] ssd_hints_keep(4) [OF assms(1)] flat_unpin
      unfolding Op_unpin ssd_step.simps by blast
  next
    case (Op_streaming a n)
    show ?thesis
      using hint [of "ssd_set_streaming a n"] ssd_hints_keep(5) [OF assms(1)] flat_streaming
      unfolding Op_streaming ssd_step.simps by blast
  qed
qed

lemma ssd_run_flat:
  assumes "ready s" "list_all op_fits ops"
  shows "\<exists>log s'. ssd_run ops s = Some (log, s') \<and> ready s' \<and> flat_run (ssd_mem s) log (ssd_mem s')
          \<and> map fst log = ops \<and> sb_config s' = sb_config s \<and> sb_initialized s' = sb_initialized s"
  using assms
proof (induction ops arbitrary: s)
  case (Cons p ops)
  have fits: "op_fits p" "list_all op_fits ops"
    using Cons(3) by simp_all
  obtain ok bs s1 where 1: "ssd_step p s = Some (ok, bs, s1)" "ready s1"
      "flat_step (ssd_mem s) (p, ok, bs) (ssd_mem s1)" "sb_config s1 = sb_config s"
      "sb_initialized s1 = sb_initialized s"
    using ssd_step_flat [OF Cons(2) fits(1)] by blast
  obtain log s' where 2: "ssd_run ops s1 = Some (log, s')" "ready s'"
      "flat_run (ssd_mem s1) log (ssd_mem s')" "map fst log = ops" "sb_config s' = sb_config s1"
      "sb_initialized s' = sb_initialized s1"
    using Cons(1) [OF 1(2) fits(2)] by blast
  have "ssd_run (p # ops) s = Some ((p, ok, bs) # log, s')"
    using 1 2 by simp
  then show ?case
    using 1(4,5) 2 flat_cons [OF 1(3) 2(3)] by fastforce
qed (auto intro: flat_nil)



section \<open>Properties\<close>

lemma unat_ucast_u32: "unat (ucast (w :: u32) :: u64) = unat w"
  using less_trans [OF unat_u32_lt [of w]] by (simp add: unsigned_ucast_eq take_bit_nat_eq_self_iff)

text \<open>A freshly initialised backend shows the contents of its file.\<close>

lemma initialize_ready:
  assumes "initialize (new_SsdStreamingBackend c disk env) = (True, s)"
    and "\<And>off. length (disk off) = unat (cf_page_size c)"
  shows "ready s \<and> cf_page_size (sb_config s) = cf_page_size c \<and> sb_initialized s
       \<and> (\<forall>a. ssd_mem s a = disk (a div ucast (cf_page_size c) * ucast (cf_page_size c))
                              ! unat (a mod ucast (cf_page_size c)))"
proof -
  have valid: "validate_config c"
    using assms(1) by (auto simp: initialize_def new_SsdStreamingBackend_def split: if_splits)
  then have ps: "cf_page_size c \<noteq> 0"
    by (auto simp: validate_config_def is_power_of_two_def)
  have s: "sb_pages s = []" "sb_disk s = disk" "sb_initialized s"
      "cf_page_size (sb_config s) = cf_page_size c" "cf_cache_pages (sb_config s) \<noteq> 0"
    using assms(1) valid
    by (auto simp: initialize_def new_SsdStreamingBackend_def sys_call_def Let_def max_def
        split: if_splits option.splits prod.splits)
  have "(ucast (cf_page_size c) :: u64) \<noteq> 0"
    using ps unat_ucast_u32 [of "cf_page_size c"] by (auto simp: unat_eq_zero)
  then have "ssd_inv s" "refs no_refs s"
    using s assms(2) by (simp_all add: ssd_inv_def refs_def page_of_def page_bytes_def unat_ucast_u32)
  then show ?thesis
    using s by (simp add: ready_def ssd_mem_def page_view_def page_of_def addr_to_page_def page_offset_def page_bytes_def)
qed


text \<open>A backend with pages of 512 bytes and room for one page, whose third call fails.\<close>

definition example_ssd_config :: SsdStreamingConfig where
  "example_ssd_config =
     \<lparr>cf_backing_path = ''ssd.img'', cf_capacity_bytes = 8192, cf_page_size = 512, cf_io_chunk_size = 1024,
      cf_cache_pages = 1, cf_read_ahead_pages = 1, cf_use_io_uring = False, cf_use_odirect = False\<rparr>"

definition example_ssd :: SsdStreamingBackend where
  "example_ssd = new_SsdStreamingBackend example_ssd_config (\<lambda>off. replicate 512 7)
                   (\<lambda>k. if k = 2 then Some [1, 2, 3] else None)"

lemma example_initialize:
  assumes "env 0 = None"
  shows "initialize (new_SsdStreamingBackend example_ssd_config disk env)
       = (True, snd (initialize (new_SsdStreamingBackend example_ssd_config disk env)))"
  using assms
  by (simp add: initialize_def new_SsdStreamingBackend_def example_ssd_config_def
      validate_config_def is_power_of_two_def sys_call_def Let_def word_le_nat_alt word_less_nat_alt)




text \<open>The same backend without failing calls.\<close>

definition healthy_ssd :: SsdStreamingBackend where
  "healthy_ssd = new_SsdStreamingBackend example_ssd_config (\<lambda>off. replicate 512 7) (\<lambda>k. None)"

definition healthy_run :: SsdStreamingBackend where
  "healthy_run = snd (the (ssd_run [Op_write 510 [1, 2, 3]] (snd (initialize healthy_ssd))))"

lemma healthy_flush: "fst (ssd_flush healthy_run)"
  by code_simp

lemma healthy_initialize:
  "initialize (new_SsdStreamingBackend example_ssd_config (\<lambda>off. replicate 512 7) (\<lambda>k. None))
     = (True, snd (initialize healthy_ssd))"
  unfolding healthy_ssd_def by (rule example_initialize) simp

lemma example_page_length: "length (replicate 512 (7 :: u8)) = unat (cf_page_size example_ssd_config)"
  by (simp add: example_ssd_config_def)

lemma healthy_run_log: "\<exists>lg. ssd_run [Op_write 510 [1, 2, 3]] (snd (initialize healthy_ssd)) = Some (lg, healthy_run)"
proof -
  have "ready (snd (initialize healthy_ssd))"
    using initialize_ready [OF healthy_initialize example_page_length] by blast
  then obtain lg s1 where "ssd_run [Op_write 510 [1, 2, 3]] (snd (initialize healthy_ssd)) = Some (lg, s1)"
    using ssd_run_flat [of _ "[Op_write 510 [1, 2, 3]]"] by fastforce
  then show ?thesis
    by (simp add: healthy_run_def)
qed


end
