(* ===== verification/SSD_Progress.thy ===== *)
theory SSD_Progress
  imports SSD_Refinement
begin

text \<open>
  Progress of the page cache: while no system call fails, the clock queue names every cached
  page, second chance eviction finds a victim within its bound of attempts, and reads succeed
  as long as pinned pages do not fill the cache. One failed write-back breaks the clock.
\<close>

definition healthy :: "SsdStreamingBackend \<Rightarrow> bool" where
  "healthy s \<longleftrightarrow> (\<forall>k. sb_env s k = None)"

definition clock_ok :: "SsdStreamingBackend \<Rightarrow> bool" where
  "clock_ok s \<longleftrightarrow> (\<forall>n. page_of s n \<noteq> None \<longrightarrow> n \<in> set (sb_clock_queue s))"

definition pins :: "SsdStreamingBackend \<Rightarrow> u64 set" where
  "pins s = {n. \<exists>p. page_of s n = Some p \<and> pm_pinned p}"

text \<open>Steps that keep the clock complete, and steps that in addition pin nothing.\<close>

definition clocked :: "SsdStreamingBackend \<Rightarrow> SsdStreamingBackend \<Rightarrow> bool" where
  "clocked s s' \<longleftrightarrow> sb_env s' = sb_env s \<and> (healthy s \<longrightarrow> clock_ok s \<longrightarrow> clock_ok s')"

definition steady :: "SsdStreamingBackend \<Rightarrow> SsdStreamingBackend \<Rightarrow> bool" where
  "steady s s' \<longleftrightarrow> clocked s s' \<and> pins s' \<subseteq> pins s"

lemma clocked_refl: "clocked s s"
  by (simp add: clocked_def)

lemma clocked_trans: "clocked s s1 \<Longrightarrow> clocked s1 s2 \<Longrightarrow> clocked s s2"
  by (auto simp: clocked_def healthy_def)

lemma steady_refl: "steady s s"
  by (simp add: steady_def clocked_refl)

lemma steady_trans: "steady s s1 \<Longrightarrow> steady s1 s2 \<Longrightarrow> steady s s2"
  by (auto simp: steady_def intro: clocked_trans)

lemma steadyD: "steady s s' \<Longrightarrow> clocked s s'" "steady s s' \<Longrightarrow> pins s' \<subseteq> pins s"
  by (simp_all add: steady_def)

lemma clockedI:
  assumes "sb_env s' = sb_env s" "sb_clock_queue s' = sb_clock_queue s"
    and "\<And>n. page_of s n = None \<Longrightarrow> page_of s' n = None"
  shows "clocked s s'"
  using assms unfolding clocked_def clock_ok_def by metis

lemma clocked_modify: "clocked s (modify_page n f s)"
  by (rule clockedI) (auto simp: page_of_map_entry)

text \<open>Closure rules, to be applied backwards from the last step.\<close>

lemma steady_modify [intro!]:
  assumes "steady s s1" "\<And>p. pm_pinned (f p) = pm_pinned p"
  shows "steady s (modify_page n f s1)"
proof -
  have "steady s1 (modify_page n f s1)"
    unfolding steady_def using clocked_modify assms(2)
    by (auto simp: pins_def page_of_map_entry split: if_splits)
  then show ?thesis
    by (rule steady_trans [OF assms(1)])
qed

lemma steady_other:
  assumes "steady s s1" "sb_env s' = sb_env s1" "sb_clock_queue s' = sb_clock_queue s1" "sb_pages s' = sb_pages s1"
  shows "steady s s'"
proof -
  have "page_of s' = page_of s1"
    using assms(4) by (rule page_of_pages)
  then have "steady s1 s'"
    using assms by (auto simp: steady_def pins_def intro: clockedI)
  then show ?thesis
    by (rule steady_trans [OF assms(1)])
qed

lemma steady_stamp [intro!]: "steady s s1 \<Longrightarrow> steady s (stamp n s1)"
  unfolding stamp_def Let_def by (intro steady_modify, erule steady_other) simp_all

lemma steady_count_stat [intro!]: "steady s s1 \<Longrightarrow> steady s (count_stat f s1)"
  by (erule steady_other) (simp_all add: count_stat_def)

lemma full_pwrite_other [simp]:
  "sb_env (snd (full_pwrite b o1 s)) = sb_env s" "sb_clock_queue (snd (full_pwrite b o1 s)) = sb_clock_queue s"
  by (simp_all add: full_pwrite_def sys_call_def split: option.split)

lemma write_page_other [simp]:
  "sb_env (snd (write_page b o1 s)) = sb_env s" "sb_clock_queue (snd (write_page b o1 s)) = sb_clock_queue s"
  by (simp_all add: write_page_def case_prod_unfold Let_def)

lemma full_pread_other [simp]:
  "sb_env (snd (snd (full_pread o1 s))) = sb_env s"
  "sb_clock_queue (snd (snd (full_pread o1 s))) = sb_clock_queue s"
  "sb_pages (snd (snd (full_pread o1 s))) = sb_pages s"
  by (simp_all add: full_pread_def sys_call_def split: option.split)

lemma read_page_other [simp]:
  "sb_env (snd (snd (read_page o1 s))) = sb_env s"
  "sb_clock_queue (snd (snd (read_page o1 s))) = sb_clock_queue s"
  "sb_pages (snd (snd (read_page o1 s))) = sb_pages s"
  by (simp_all add: read_page_def case_prod_unfold Let_def)

lemma steady_io [intro!]:
  "steady s s1 \<Longrightarrow> steady s (snd (write_page b o1 s1))"
  "steady s s1 \<Longrightarrow> steady s (snd (snd (read_page o1 s1)))"
  by (erule steady_other, simp_all)+

lemma steady_flush [intro!]: "steady s s1 \<Longrightarrow> steady s (snd (flush_page_locked n s1))"
  by (auto simp: flush_page_locked_def Let_def case_prod_unfold split: option.split)

lemma steady_load [intro!]: "steady s s1 \<Longrightarrow> steady s (snd (load_page_locked n s1))"
  by (auto simp: load_page_locked_def Let_def case_prod_unfold split: option.split)

lemma steady_delete:
  assumes "steady s s1" shows "steady s (s1\<lparr>sb_pages := AList.delete n (sb_pages s1)\<rparr>)"
proof -
  have po: "page_of (s1\<lparr>sb_pages := AList.delete n (sb_pages s1)\<rparr>) = (page_of s1)(n := None)"
    by (simp add: page_of_def fun_eq_iff delete_conv')
  have "clocked s1 (s1\<lparr>sb_pages := AList.delete n (sb_pages s1)\<rparr>)"
    by (rule clockedI) (simp_all add: po)
  then have "steady s1 (s1\<lparr>sb_pages := AList.delete n (sb_pages s1)\<rparr>)"
    by (auto simp: steady_def pins_def po split: if_splits)
  then show ?thesis
    by (rule steady_trans [OF assms])
qed

lemma steady_evict_page [intro!]: "steady s s1 \<Longrightarrow> steady s (snd (evict_page_locked n s1))"
  by (auto simp: evict_page_locked_def Let_def case_prod_unfold split: option.split intro!: steady_delete)


section \<open>Success without faults\<close>

lemma healthy_call: "healthy s \<Longrightarrow> sys_call s = (None, s\<lparr>sb_calls := Suc (sb_calls s)\<rparr>)"
  by (simp add: healthy_def sys_call_def)

lemma healthy_modify [simp]: "healthy (modify_page n f s) = healthy s"
  by (simp add: healthy_def)

lemma healthy_io:
  assumes "healthy s"
  shows "fst (write_page b o1 s)" "fst (read_page o1 s)"
  using assms by (simp_all add: write_page_def read_page_def full_pwrite_def full_pread_def healthy_call)

lemma healthy_flush_page: "healthy s \<Longrightarrow> fst (flush_page_locked n s)"
  by (simp add: flush_page_locked_def Let_def case_prod_unfold healthy_io split: option.split)

lemma healthy_evict_page:
  assumes "healthy s" "page_of s n = Some p" "\<not> pm_pinned p" "pm_refcnt p = 0"
  shows "fst (evict_page_locked n s) \<and> page_of (snd (evict_page_locked n s)) n = None"
  using assms healthy_flush_page [OF assms(1), of n]
  by (simp add: evict_page_locked_def case_prod_unfold count_stat_def page_of_def delete_conv' Let_def)

text \<open>Taking a page number off the clock and evicting the page at once.\<close>

lemma steady_clock:
  assumes "steady s s1" "healthy s1 \<Longrightarrow> clock_ok s1 \<Longrightarrow> clock_ok (s1\<lparr>sb_clock_queue := q\<rparr>)"
  shows "steady s (s1\<lparr>sb_clock_queue := q\<rparr>)"
proof -
  have "steady s1 (s1\<lparr>sb_clock_queue := q\<rparr>)"
    using assms(2) by (simp add: steady_def clocked_def pins_def page_of_def)
  then show ?thesis
    by (rule steady_trans [OF assms(1)])
qed

lemma flush_page_other' [simp]:
  "sb_clock_queue (snd (flush_page_locked n s)) = sb_clock_queue s"
  "sb_env (snd (flush_page_locked n s)) = sb_env s"
  by (simp_all add: flush_page_locked_def Let_def case_prod_unfold count_stat_def split: option.split)

lemma evict_page_other [simp]:
  "sb_clock_queue (snd (evict_page_locked n s)) = sb_clock_queue s"
  "sb_env (snd (evict_page_locked n s)) = sb_env s"
  by (simp_all add: evict_page_locked_def Let_def case_prod_unfold count_stat_def split: option.split)

lemma evict_page_dom: "page_of s k = None \<Longrightarrow> page_of (snd (evict_page_locked n s)) k = None"
  using flush_page_dom [of n s k]
  by (auto simp: evict_page_locked_def Let_def case_prod_unfold count_stat_def page_of_def delete_conv'
      split: option.split)

lemma steady_victim:
  assumes q: "sb_clock_queue s = n # q" and p: "page_of s n = Some p" "\<not> pm_pinned p" "pm_refcnt p = 0"
  shows "steady s (snd (evict_page_locked n (s\<lparr>sb_clock_queue := q\<rparr>)))"
proof -
  let ?s = "s\<lparr>sb_clock_queue := q\<rparr>"
  let ?e = "snd (evict_page_locked n ?s)"
  have po: "page_of ?s = page_of s"
    by (rule page_of_pages) simp
  have "pins ?e \<subseteq> pins ?s"
    using steady_evict_page [OF steady_refl] by (rule steadyD(2))
  moreover have "clock_ok ?e" if "healthy s" "clock_ok s"
    unfolding clock_ok_def
  proof (intro allI impI)
    fix k assume k: "page_of ?e k \<noteq> None"
    have "healthy ?s"
      using that(1) by (simp add: healthy_def)
    then have "k \<noteq> n"
      using k healthy_evict_page [of ?s n p] p by (auto simp: po)
    moreover have "page_of ?s k \<noteq> None"
      by (rule contrapos_nn [OF k evict_page_dom])
    ultimately show "k \<in> set (sb_clock_queue ?e)"
      using that(2) q unfolding po by (auto simp: clock_ok_def)
  qed
  ultimately show ?thesis
    by (simp add: steady_def clocked_def pins_def po)
qed

lemma steady_evict_scan: "steady s (snd (evict_scan i s))"
proof (induction i s rule: evict_scan.induct)
  case (2 i s)
  show ?case
  proof (cases "sb_clock_queue s")
    case q: (Cons n q)
    have po: "page_of (s\<lparr>sb_clock_queue := q'\<rparr>) = page_of s" for q'
      by (rule page_of_pages) simp
    have rot: "steady s (s\<lparr>sb_clock_queue := q @ [n]\<rparr>)"
      using q by (intro steady_clock steady_refl) (auto simp: clock_ok_def po)
    show ?thesis
    proof (cases "page_of s n")
      case None
      then have "steady s (s\<lparr>sb_clock_queue := q\<rparr>)"
        using q by (intro steady_clock steady_refl) (auto simp: clock_ok_def po)
      then show ?thesis
        using 2(1) [OF q None] steady_trans q None by simp
    next
      case (Some p)
      have "steady s (modify_page n (\<lambda>p. p\<lparr>pm_accessed := False\<rparr>) (s\<lparr>sb_clock_queue := q @ [n]\<rparr>))"
        using rot by auto
      then show ?thesis
        using 2(2) [OF q Some] 2(3) [OF q Some] steady_trans [OF rot] steady_trans steady_victim [OF q Some] q Some
        by auto
    qed
  qed (simp add: steady_refl)
qed (simp add: steady_refl)

lemma steady_evict_one: "steady s (snd (evict_one_locked s))"
proof (cases "sb_pages s = []")
  case False
  show ?thesis
    unfolding evict_one_locked_def if_not_P [OF False] by (rule steady_evict_scan)
qed (simp add: evict_one_locked_def steady_refl)

lemma steady_make_room: "steady s (snd (make_room s))"
proof (induction s rule: make_room.induct)
  case (1 s)
  obtain ok s1 where e: "evict_one_locked s = (ok, s1)"
    by fastforce
  then have "steady s s1"
    using steady_evict_one [of s] by simp
  then show ?case
    using 1 e steady_trans by (subst make_room.simps) (auto simp: steady_refl split: bool.split)
qed

lemma steady_shrink: "steady s (shrink s)"
proof (induction s rule: shrink.induct)
  case (1 s)
  obtain ok s1 where e: "evict_one_locked s = (ok, s1)"
    by fastforce
  then have "steady s s1"
    using steady_evict_one [of s] by simp
  then show ?case
    using 1 e steady_trans by (subst shrink.simps) (auto simp: steady_refl split: bool.split)
qed

lemma steady_room_for: "steady s (snd (room_for n s))"
  using steady_make_room steady_refl by (simp add: room_for_def)

lemma steady_get_or_create: "steady s (snd (get_or_create_page_locked n s))"
proof (cases "page_of s n = None \<and> sb_env s (sb_calls s) = None")
  case True
  let ?s = "snd (get_or_create_page_locked n s)"
  obtain p where p: "sb_pages ?s = sb_pages s @ [(n, p)]" "\<not> pm_pinned p"
    using True by (simp add: get_or_create_page_locked_def sys_call_def)
  have "page_of ?s k = (if k = n then Some p else page_of s k)" for k
    using True p(1) by (auto simp: page_of_def map_add_def split: option.split)
  then have po: "page_of ?s = (page_of s)(n \<mapsto> p)"
    by auto
  have "sb_clock_queue ?s = sb_clock_queue s @ [n]" "sb_env ?s = sb_env s"
    using True by (simp_all add: get_or_create_page_locked_def sys_call_def)
  then show ?thesis
    using p(2) by (auto simp: steady_def clocked_def clock_ok_def pins_def po split: if_splits)
next
  case False
  have "steady s (s\<lparr>sb_calls := c\<rparr>)" for c
    by (rule steady_other [OF steady_refl]) simp_all
  then show ?thesis
    using False by (auto simp: get_or_create_page_locked_def sys_call_def steady_refl split: option.split)
qed


lemma steady_readahead_loop: "steady s (readahead_loop n lp ds s)"
proof (induction n lp ds s rule: readahead_loop.induct)
  case (2 n lp i rest s)
  define k where "k = n + word_of_nat i"
  obtain room s1 where r: "room_for k s = (room, s1)"
    by fastforce
  obtain got s2 where g: "get_or_create_page_locked k s1 = (got, s2)"
    by fastforce
  define s3 where "s3 = (case page_of s2 k of
      Some p \<Rightarrow> if pm_state p = NonResident then snd (load_page_locked k s2) else s2 | None \<Rightarrow> s2)"
  have s1: "steady s s1"
    using steady_room_for [of s k] r by simp
  have s2: "steady s s2"
    using steady_trans [OF s1] steady_get_or_create [of s1 k] g by simp
  then have s3: "steady s (shrink s3)"
    using steady_trans [OF _ steady_shrink] by (auto simp: s3_def split: option.split)
  have "readahead_loop n lp (i # rest) s =
      (if \<not> k \<le> lp then s else if \<not> room then s1 else if \<not> got then s2 else readahead_loop n lp rest (shrink s3))"
    by (simp add: Let_def r g s3_def flip: k_def)
  moreover have "steady (shrink s3) (readahead_loop n lp rest (shrink s3))" if "k \<le> lp" "room" "got"
    using 2 [of k "(room, s1)" room s1 "(got, s2)" got s2 s3] that r g by (simp add: k_def s3_def)
  ultimately show ?case
    using s1 s2 steady_trans [OF s3] by (auto simp: steady_refl)
qed (simp add: steady_refl)

lemma steady_readahead: "steady s s1 \<Longrightarrow> steady s (readahead n s1)"
  unfolding readahead_def Let_def
  by (intro steady_modify steady_trans [OF _ steady_readahead_loop]) auto

lemma steady_ensure: "steady s (snd (ensure_page_loaded_locked n ra s))"
proof -
  obtain room s1 where r: "room_for n s = (room, s1)"
    by fastforce
  obtain got s2 where g: "get_or_create_page_locked n s1 = (got, s2)"
    by fastforce
  obtain ok s3 where l: "load_page_locked n (shrink s2) = (ok, s3)"
    by fastforce
  have s1: "steady s s1"
    using steady_room_for [of s n] r by simp
  have s2: "steady s s2"
    using steady_trans [OF s1] steady_get_or_create [of s1 n] g by simp
  have s3: "steady s s3"
    using steady_load [OF steady_trans [OF s2 steady_shrink], of n] l by simp
  show ?thesis
    using s1 s2 s3 steady_readahead [OF s3] by (auto simp: ensure_page_loaded_locked_def r g l split: option.split)
qed

text \<open>The clock finds a victim: the page at some place of the queue is reached before the attempts
  run out, and a second time if it had been accessed.\<close>

lemma healthy_evict_scan:
  assumes "healthy s" "sb_clock_queue s = pre @ n # post" "page_of s n = Some p" "\<not> pm_pinned p" "pm_refcnt p = 0"
    and "\<And>k p. page_of s k = Some p \<Longrightarrow> pm_state p \<noteq> Loading \<and> pm_state p \<noteq> Evicting"
    and "length pre + 1 + (if pm_accessed p then length (sb_clock_queue s) else 0) \<le> i"
  shows "fst (evict_scan i s)"
  using assms
proof (induction i arbitrary: s pre post p)
  case (Suc i)
  obtain m q where q: "sb_clock_queue s = m # q"
    using Suc(3) by (cases pre) auto
  have po: "page_of (s\<lparr>sb_clock_queue := x\<rparr>) = page_of s" for x
    by (rule page_of_pages) simp
  have h: "healthy (s\<lparr>sb_clock_queue := x\<rparr>)" for x
    using Suc(2) by (simp add: healthy_def)
  show ?case
  proof (cases "m = n \<and> pre = []")
    case True
    then have post: "q = post"
      using q Suc(3) by simp
    show ?thesis
    proof (cases "pm_accessed p")
      case acc: True
      let ?s = "modify_page n (\<lambda>p. p\<lparr>pm_accessed := False\<rparr>) (s\<lparr>sb_clock_queue := post @ [n]\<rparr>)"
      have "page_of ?s n = Some (p\<lparr>pm_accessed := False\<rparr>)"
        using Suc(4) by (simp add: page_of_map_entry po)
      then have "fst (evict_scan i ?s)"
        using Suc(5-8) acc h True q Suc(3)
        by (intro Suc(1) [where pre = post and post = "[]" and p = "p\<lparr>pm_accessed := False\<rparr>"]) (auto simp: page_of_map_entry po split: if_splits)
      then show ?thesis
        using True q Suc(4-7) acc post by simp
    next
      case False
      then show ?thesis
        using True q Suc(4-7) healthy_evict_page [of "s\<lparr>sb_clock_queue := q\<rparr>" n p] h by (simp add: po)
    qed
  next
    case False
    then obtain pre' where pre: "pre = m # pre'" "q = pre' @ n # post"
      using q Suc(3) by (cases pre) auto
    show ?thesis
    proof (cases "page_of s m")
      case None
      have "fst (evict_scan i (s\<lparr>sb_clock_queue := q\<rparr>))"
        using Suc(4-8) h pre q Suc(3) by (intro Suc(1) [where pre = pre' and post = post]) (auto simp: po split: if_splits)
      then show ?thesis
        using q None by simp
    next
      case (Some pm)
      have rot: "fst (evict_scan i (s\<lparr>sb_clock_queue := q @ [m]\<rparr>))"
        using Suc(4-8) h pre q Suc(3)
        by (intro Suc(1) [where pre = pre' and post = "post @ [m]"]) (auto simp: po split: if_splits)
      let ?s = "modify_page m (\<lambda>p. p\<lparr>pm_accessed := False\<rparr>) (s\<lparr>sb_clock_queue := q @ [m]\<rparr>)"
      have acc: "fst (evict_scan i ?s)"
      proof (rule Suc(1) [where pre = pre' and post = "post @ [m]" and p = "if m = n then p\<lparr>pm_accessed := False\<rparr> else p"])
        show "page_of ?s n = Some (if m = n then p\<lparr>pm_accessed := False\<rparr> else p)"
          using Suc(4) by (auto simp: page_of_map_entry po)
      qed (use Suc(4-8) h pre q Suc(3) in \<open>auto simp: page_of_map_entry po split: if_splits\<close>)
      show ?thesis
        using rot acc q Some healthy_evict_page [of "s\<lparr>sb_clock_queue := q\<rparr>" m pm] h
        by (simp add: po)
    qed
  qed
qed simp


definition live :: "SsdStreamingBackend \<Rightarrow> bool" where
  "live s \<longleftrightarrow> ready s \<and> healthy s \<and> clock_ok s \<and> card (pins s) < unat (cf_cache_pages (sb_config s))"

lemma page_keys: "{n. page_of s n \<noteq> None} = fst ` set (sb_pages s)"
  by (auto simp: page_of_def map_of_eq_None_iff)

lemma finite_pins: "finite (pins s)"
proof (rule finite_subset)
  show "pins s \<subseteq> fst ` set (sb_pages s)"
    using page_keys [of s] by (auto simp: pins_def)
qed simp

lemma live_steady:
  assumes "live s" "ready s'" "sb_config s' = sb_config s" "steady s s'" shows "live s'"
proof -
  have "card (pins s') \<le> card (pins s)"
    using assms(4) finite_pins by (intro card_mono) (auto dest: steadyD)
  then show ?thesis
    using assms by (auto simp: live_def steady_def clocked_def healthy_def)
qed

lemma live_keeps: "live s \<Longrightarrow> keeps no_refs s s' \<Longrightarrow> steady s s' \<Longrightarrow> live s'"
  by (rule live_steady [OF _ keeps_ready keeps_config])

lemma unpinned_page:
  assumes "ssd_inv s" "card (pins s) < length (sb_pages s)"
  shows "\<exists>n p. page_of s n = Some p \<and> \<not> pm_pinned p"
proof (rule ccontr)
  assume "\<nexists>n p. page_of s n = Some p \<and> \<not> pm_pinned p"
  then have "fst ` set (sb_pages s) \<subseteq> pins s"
    unfolding page_keys [symmetric] by (auto simp: pins_def)
  then have "card (fst ` set (sb_pages s)) \<le> card (pins s)"
    by (rule card_mono [OF finite_pins])
  moreover have "card (fst ` set (sb_pages s)) = length (sb_pages s)"
    using assms(1) distinct_card [of "map fst (sb_pages s)"] by (simp add: ssd_inv_def)
  ultimately show False
    using assms(2) by simp
qed

lemma live_evict_one:
  assumes "live s" "unat (cf_cache_pages (sb_config s)) \<le> length (sb_pages s)"
  shows "fst (evict_one_locked s)"
proof -
  have inv: "ssd_inv s" "refs no_refs s" "healthy s" "clock_ok s"
    using assms(1) by (simp_all add: live_def ready_def)
  obtain n p where p: "page_of s n = Some p" "\<not> pm_pinned p"
    using unpinned_page [OF inv(1)] assms by (auto simp: live_def)
  then have "n \<in> set (sb_clock_queue s)"
    using inv(4) by (auto simp: clock_ok_def)
  then obtain pre post where q: "sb_clock_queue s = pre @ n # post"
    by (meson split_list)
  have "fst (evict_scan (length (sb_clock_queue s) * 2 + 1) s)"
  proof (rule healthy_evict_scan [OF inv(3) q p])
    show "pm_refcnt p = 0"
      using inv(2) p by (auto simp: refs_def)
    show "\<And>k p. page_of s k = Some p \<Longrightarrow> pm_state p \<noteq> Loading \<and> pm_state p \<noteq> Evicting"
      using ssd_invD(2) [OF inv(1)] by (simp add: page_ok_def)
  qed (simp add: q)
  then show ?thesis
    by (simp add: evict_one_locked_def del: evict_scan.simps)
qed

lemma live_make_room: "live s \<Longrightarrow> fst (make_room s)"
proof (induction s rule: make_room.induct)
  case (1 s)
  show ?case
  proof (cases "unat (cf_cache_pages (sb_config s)) \<le> length (sb_pages s) \<and> sb_pages s \<noteq> []")
    case True
    then obtain s1 where e: "evict_one_locked s = (True, s1)"
      using live_evict_one [OF 1(2)] by (metis prod.collapse eq_True)
    have "live s1"
      using live_keeps [OF 1(2) keeps_evict_one [OF _ _ e]] 1(2) steady_evict_one [of s] e
      by (auto simp: live_def ready_def)
    then show ?thesis
      using 1(1) [OF True e [symmetric]] True e by (subst make_room.simps) simp
  next
    case False
    then show ?thesis
      by (subst make_room.simps) auto
  qed
qed

lemma healthy_load:
  assumes "healthy s" "page_of s n = Some p" "pm_backing_slot p * page_bytes s < cf_capacity_bytes (sb_config s)"
  shows "fst (load_page_locked n s)"
  using assms healthy_io(2) [of "modify_page n f s" for f] by (simp add: load_page_locked_def Let_def case_prod_unfold)

lemma live_ensure:
  assumes "live s" "key_ok s n" "n * page_bytes s < cf_capacity_bytes (sb_config s)"
  shows "fst (ensure_page_loaded_locked n ra s)"
proof -
  have inv: "ssd_inv s" "refs no_refs s"
    using assms(1) by (simp_all add: live_def ready_def)
  obtain s1 where r: "room_for n s = (True, s1)"
    using live_make_room [OF assms(1)] by (metis room_for_def prod.collapse eq_True)
  note k1 = keeps_room_for [OF inv r]
  have l1: "live s1"
    using live_keeps [OF assms(1) k1] steady_room_for [of s n] r by simp
  obtain s2 where g: "get_or_create_page_locked n s1 = (True, s2)"
    using l1 healthy_call [of s1] by (cases "page_of s1 n") (simp_all add: get_or_create_page_locked_def live_def)
  have k2: "keeps no_refs s1 s2" "page_of s2 n \<noteq> None"
    using keeps_get_or_create [OF keepsD [OF k1] _ _ _ g] assms(2) key_ok_keeps [OF k1]
      room_for_room [OF r keepsD(1) [OF k1]] by auto
  have l2: "live s2"
    using live_keeps [OF l1 k2(1)] steady_get_or_create [of s1 n] g by simp
  obtain p where p: "page_of s2 n = Some p"
    using k2(2) by blast
  note k = keeps_trans [OF k1 k2(1)]
  have "shrink s2 = s2"
    using keepsD(1) [OF k] by (subst shrink.simps) (simp add: ssd_inv_def not_less [symmetric])
  moreover have "fst (load_page_locked n s2)"
  proof (rule healthy_load [OF _ p])
    show "pm_backing_slot p * page_bytes s2 < cf_capacity_bytes (sb_config s2)"
      using ssd_invD(2) [OF keepsD(1) [OF k] p] assms(3) keeps_config [OF k] by (simp add: page_ok_def page_bytes_def)
  qed (use l2 in \<open>simp add: live_def\<close>)
  ultimately show ?thesis
    by (auto simp: ensure_page_loaded_locked_def r g case_prod_unfold Let_def split: option.split)
qed

text \<open>One round of the read and write loops.\<close>

lemma live_round:
  assumes "live s" "unat addr + unat len \<le> unat (cf_capacity_bytes (sb_config s))" "copied < len"
  shows "\<exists>s1 p. ensure_page_loaded_locked (addr_to_page (addr + copied) s) ra s = (True, s1)
          \<and> page_of s1 (addr_to_page (addr + copied) s) = Some p \<and> resident p
          \<and> keeps no_refs s s1 \<and> live s1"
proof -
  let ?n = "addr_to_page (addr + copied) s"
  have inv: "ssd_inv s" "refs no_refs s"
    using assms(1) by (auto simp: live_def ready_def)
  have key: "key_ok s ?n"
    by (simp add: key_ok_page)
  have lt: "unat copied < unat len"
    using assms(3) by (simp add: word_less_nat_alt)
  have cap: "unat (cf_capacity_bytes (sb_config s)) < 18446744073709551616"
    by (rule unat_u64_lt)
  have cur: "unat (addr + copied) = unat addr + unat copied"
    using lt cap assms(2) by (intro unat_add_u64) linarith
  have "unat (?n * page_bytes s) = unat ?n * unat (page_bytes s)"
    using key unfolding key_ok_def by (rule unat_mult_u64)
  also have "\<dots> \<le> unat (addr + copied)"
    by (simp add: addr_to_page_def unat_div)
  also have "\<dots> < unat (cf_capacity_bytes (sb_config s))"
    using assms(2) lt cur by linarith
  finally have "fst (ensure_page_loaded_locked ?n ra s)"
    by (intro live_ensure [OF assms(1) key]) (simp add: word_less_nat_alt)
  then obtain s1 where e: "ensure_page_loaded_locked ?n ra s = (True, s1)"
    by (metis prod.collapse eq_True)
  note k = keeps_ensure [OF inv key e]
  then have "live s1"
    using live_keeps [OF assms(1)] steady_ensure [of s ?n ra] e by simp
  then show ?thesis
    using e k by blast
qed

lemma live_read_loop:
  assumes "live s" "unat addr + unat len \<le> unat (cf_capacity_bytes (sb_config s))"
  shows "\<exists>d s'. read_loop addr len copied dst s = Some (True, d, s')"
  using assms
proof (induction addr len copied dst s rule: read_loop.induct)
  case (1 addr len copied dst s)
  show ?case
  proof (cases "copied < len")
    case True
    have pb: "page_bytes s \<noteq> 0"
      using 1(2) by (auto simp: live_def ready_def ssd_inv_def)
    obtain s1 p where e: "ensure_page_loaded_locked (addr_to_page (addr + copied) s) (copied = 0) s = (True, s1)"
        "page_of s1 (addr_to_page (addr + copied) s) = Some p" "keeps no_refs s s1" "live s1"
      using live_round [OF 1(2,3) True] by blast
    show ?thesis
      using 1(1) [OF True pb refl refl refl refl e(1) [symmetric] _ e(2)] 1(3) e keeps_config [OF e(3)]
        True pb by (subst read_loop.simps) (simp add: Let_def)
  next
    case False
    then show ?thesis
      by (subst read_loop.simps) simp
  qed
qed

lemma steady_write_loop: "write_loop addr src len copied s = Some (ok, s') \<Longrightarrow> steady s s'"
proof (induction addr src len copied s rule: write_loop.induct)
  case (1 addr src len copied s)
  let ?n = "addr_to_page (addr + copied) s"
  obtain ok1 s1 where e: "ensure_page_loaded_locked ?n False s = (ok1, s1)"
    by fastforce
  have st: "steady s s1"
    using steady_ensure [of s ?n False] e by simp
  show ?case
  proof (cases "copied < len \<and> page_bytes s \<noteq> 0 \<and> ok1 \<and> page_of s1 ?n \<noteq> None")
    case True
    then obtain p where p: "page_of s1 ?n = Some p"
      by blast
    show ?thesis
      by (rule steady_trans [OF _ 1(1) [OF _ _ refl refl refl refl e [symmetric] _ p refl refl]])
        (use True 1(2) e p st in \<open>auto simp: write_loop.simps [of addr src len copied] Let_def\<close>)
  next
    case False
    then show ?thesis
      using 1(2) e st steady_refl
      by (subst (asm) write_loop.simps) (auto simp: Let_def split: if_splits option.splits)
  qed
qed

lemma steady_read_loop: "read_loop addr len copied dst s = Some (ok, d, s') \<Longrightarrow> steady s s'"
proof (induction addr len copied dst s rule: read_loop.induct)
  case (1 addr len copied dst s)
  let ?n = "addr_to_page (addr + copied) s"
  obtain ok1 s1 where e: "ensure_page_loaded_locked ?n (copied = 0) s = (ok1, s1)"
    by fastforce
  have st: "steady s s1"
    using steady_ensure [of s ?n "copied = 0"] e by simp
  show ?case
  proof (cases "copied < len \<and> page_bytes s \<noteq> 0 \<and> ok1 \<and> page_of s1 ?n \<noteq> None")
    case True
    then obtain p where p: "page_of s1 ?n = Some p"
      by blast
    show ?thesis
      by (rule steady_trans [OF st 1(1) [OF _ _ refl refl refl refl e [symmetric] _ p]])
        (use True 1(2) e p in \<open>auto simp: read_loop.simps [of addr len copied] Let_def\<close>)
  next
    case False
    then show ?thesis
      using 1(2) e st steady_refl
      by (subst (asm) read_loop.simps) (auto simp: Let_def split: if_splits option.splits)
  qed
qed

lemma live_write_loop:
  assumes "live s" "unat addr + unat len \<le> unat (cf_capacity_bytes (sb_config s))" "length src = unat len"
    and "ssd_mem s = overwrite m addr (take (unat copied) src)"
  shows "\<exists>s'. write_loop addr src len copied s = Some (True, s')"
  using assms
proof (induction addr src len copied s rule: write_loop.induct)
  case (1 addr src len copied s)
  show ?case
  proof (cases "copied < len")
    case True
    let ?n = "addr_to_page (addr + copied) s"
    have pb: "page_bytes s \<noteq> 0"
      using 1(2) by (auto simp: live_def ready_def ssd_inv_def)
    obtain s1 p where e: "ensure_page_loaded_locked ?n False s = (True, s1)"
        "page_of s1 ?n = Some p" "resident p" "keeps no_refs s s1" "live s1"
      using live_round [OF 1(2,3) True] by blast
    note fr = keeps_mem [OF e(4)] keeps_config [OF e(4)]
    have here: "addr_to_page (addr + copied) s1 = ?n" "chunk_size addr len copied s1 = chunk_size addr len copied s"
        "page_offset (addr + copied) s1 = page_offset (addr + copied) s"
      using page_bytes_cong [OF fr(2)] by (simp_all add: addr_to_page_def chunk_size_def page_offset_def)
    define s2 where "s2 = store_chunk addr src len copied s1"
    have fits: "unat addr + unat len \<le> 18446744073709551616"
      using 1(3) unat_u64_lt [of "cf_capacity_bytes (sb_config s)"] by linarith
    have s2: "ready s2" "sb_config s2 = sb_config s"
        "ssd_mem s2 = overwrite m addr (take (unat (copied + chunk_size addr len copied s)) src)"
      using store_chunk_mem [of s1 addr copied p len src m] e(2,3,5) True fits 1(4,5) fr
      by (simp_all add: here s2_def live_def)
    have "steady s1 s2"
      unfolding s2_def store_chunk_def Let_def by (intro steady_stamp steady_modify steady_refl) simp
    then have "live s2"
      by (rule live_steady [OF e(5) s2(1) trans [OF s2(2) fr(2) [symmetric]]])
    then have "\<exists>s'. write_loop addr src len (copied + chunk_size addr len copied s) s2 = Some (True, s')"
      using 1(1) [OF True pb refl refl refl refl e(1) [symmetric] _ e(2) refl, of s2] s2 1(3,4)
      by (simp add: s2_def store_chunk_def Let_def here)
    moreover have "write_loop addr src len copied s = write_loop addr src len (copied + chunk_size addr len copied s) s2"
      using True pb e by (subst write_loop.simps) (simp add: Let_def s2_def store_chunk_def here)
    ultimately show ?thesis
      by simp
  next
    case False
    then show ?thesis
      by (subst write_loop.simps) simp
  qed
qed

section \<open>The clock over the public operations\<close>

lemma clocked_flush_pages: "clocked s (snd (flush_pages ns ok s))"
proof (induction ns arbitrary: ok s)
  case (Cons n ns)
  have "clocked s (snd (flush_page_locked n s))"
    using steadyD(1) [OF steady_flush [OF steady_refl]] .
  then show ?case
    using clocked_trans [OF _ Cons] by (simp add: case_prod_unfold Let_def)
qed (simp add: clocked_refl)

lemma clocked_map_pages: "clocked s (s\<lparr>sb_pages := map (\<lambda>(n, p). (n, f p)) (sb_pages s)\<rparr>)"
  by (rule clockedI) (auto simp: page_of_def map_of_map)

lemma clocked_sys_call: "clocked s (snd (sys_call s))"
  by (rule clockedI) (simp_all add: sys_call_def page_of_def)

lemma clocked_flush: "clocked s (snd (ssd_flush s))"
proof (cases "sb_initialized s")
  case True
  let ?r = "flush_pages (map fst (sb_pages s)) True (hold_all s)"
  have c: "clocked s (release_all (snd ?r))"
    unfolding hold_all_def release_all_def
    by (rule clocked_trans [OF clocked_trans [OF clocked_map_pages clocked_flush_pages] clocked_map_pages])
  then have "clocked s (snd (sys_call (release_all (snd ?r))))"
    using clocked_sys_call by (rule clocked_trans)
  then show ?thesis
    using True c by (auto simp: ssd_flush_def case_prod_unfold Let_def split: option.split)
qed (simp add: ssd_flush_def clocked_refl)

lemma clocked_prefetch: "clocked s (snd (prefetch_loop ns s))"
proof (induction ns arbitrary: s)
  case (Cons n ns)
  have "clocked s (snd (ensure_page_loaded_locked n False s))"
    using steady_ensure by (rule steadyD(1))
  then show ?case
    using clocked_trans [OF _ Cons] by (simp add: case_prod_unfold Let_def)
qed (simp add: clocked_refl)

lemma clocked_evict: "clocked s (snd (evict_loop ns ok s))"
proof (induction ns arbitrary: ok s)
  case (Cons n ns)
  have "clocked s (snd (evict_page_locked n s))"
    using steadyD(1) [OF steady_evict_page [OF steady_refl]] .
  then show ?case
    using clocked_trans [OF _ Cons] by (simp add: case_prod_unfold Let_def)
qed (simp add: clocked_refl)

lemma clocked_pin: "clocked s (snd (pin_loop ns s))"
proof (induction ns arbitrary: s)
  case (Cons n ns)
  have "clocked s (snd (ensure_page_loaded_locked n False s))"
    using steady_ensure by (rule steadyD(1))
  then show ?case
    using clocked_trans [OF clocked_trans [OF _ clocked_modify] Cons] by (simp add: case_prod_unfold Let_def)
qed (simp add: clocked_refl)

lemma clocked_unpin: "clocked s (unpin_loop ns s)"
  unfolding unpin_loop_def by (induction ns arbitrary: s) (auto simp: clocked_refl intro: clocked_trans [OF clocked_modify])

lemma clocked_streaming: "clocked s (snd (streaming_loop ns s))"
proof (induction ns arbitrary: s)
  case (Cons n ns)
  let ?s1 = "snd (room_for n s)"
  have c1: "clocked s ?s1"
    using steady_room_for by (rule steadyD(1))
  have c2: "clocked s (snd (get_or_create_page_locked n ?s1))"
    using c1 steadyD(1) [OF steady_get_or_create] by (rule clocked_trans)
  show ?case
    using c1 c2 clocked_trans [OF clocked_trans [OF c2 clocked_modify] Cons] by (simp add: case_prod_unfold Let_def)
qed (simp add: clocked_refl)

lemma clocked_guarded: "(\<And>ns. clocked s (snd (loop ns s))) \<Longrightarrow> clocked s (snd (guarded a n loop s))"
  by (simp add: guarded_def clocked_refl)

lemma clocked_hints:
  "clocked s (snd (ssd_prefetch a n s))" "clocked s (snd (ssd_evict_after a n s))"
  "clocked s (snd (ssd_pin a n s))" "clocked s (snd (ssd_unpin a n s))" "clocked s (snd (ssd_set_streaming a n s))"
  unfolding ssd_prefetch_def ssd_evict_after_def ssd_pin_def ssd_unpin_def ssd_set_streaming_def
  by (rule clocked_guarded, simp add: clocked_prefetch clocked_evict clocked_pin clocked_unpin clocked_streaming)+

lemma steady_read: "ssd_read a nul n s = Some (ok, bs, s') \<Longrightarrow> steady s s'"
  unfolding ssd_read_def
  by (auto split: if_splits option.splits bool.splits intro: steady_refl steady_read_loop)

lemma steady_write: "ssd_write a src n s = Some (ok, s') \<Longrightarrow> steady s s'"
  unfolding ssd_write_def
  by (auto split: if_splits option.splits bool.splits intro: steady_refl steady_write_loop)

lemma clocked_step: "ssd_step p s = Some (ok, bs, s') \<Longrightarrow> clocked s s'"
  by (cases p) (auto simp: case_prod_unfold Let_def clocked_flush clocked_hints
      intro: steadyD(1) [OF steady_read] steadyD(1) [OF steady_write])

lemma clocked_run: "ssd_run ops s = Some (lg, s') \<Longrightarrow> clocked s s'"
proof (induction ops arbitrary: s lg)
  case (Cons p ops)
  then show ?case
    by (auto split: option.splits intro: clocked_trans [OF clocked_step])
qed (simp add: clocked_refl)

section \<open>Accesses succeed\<close>

lemma range_valid_within:
  assumes "unat addr + unat len \<le> unat (cf_capacity_bytes (sb_config s))" "len \<noteq> 0"
  shows "range_valid addr len s"
proof -
  have cap: "unat (cf_capacity_bytes (sb_config s)) < 18446744073709551616"
    by (rule unat_u64_lt)
  have len: "unat (len - 1) = unat len - 1" "0 < unat len"
    using assms(2) by (simp_all add: unat_minus_one unat_gt_0)
  have "unat (UINT64_MAX - (len - 1)) = 18446744073709551615 - unat (len - 1)"
    by (subst unat_sub) (simp_all add: word_le_nat_alt)
  then have "unat addr \<le> unat (UINT64_MAX - (len - 1))"
    using assms(1) cap len by linarith
  then have "addr \<le> UINT64_MAX - (len - 1)"
    by (simp only: word_le_nat_alt)
  moreover have "unat (addr + len) = unat addr + unat len"
    using assms(1) cap by (intro unat_add_u64) linarith
  ultimately show ?thesis
    using assms by (simp add: range_valid_def not_less word_le_nat_alt)
qed

lemma live_read:
  assumes "live s" "sb_initialized s" "unat a + unat n \<le> unat (cf_capacity_bytes (sb_config s))" "n \<noteq> 0"
  shows "\<exists>bs s'. ssd_read a False n s = Some (True, bs, s')"
proof -
  obtain d s1 where "read_loop a n 0 [] s = Some (True, d, s1)"
    using live_read_loop [OF assms(1,3)] by blast
  then show ?thesis
    using range_valid_within [OF assms(3,4)] assms(2) by (simp add: ssd_read_def)
qed

lemma live_write:
  assumes "live s" "sb_initialized s" "unat a + length bs \<le> unat (cf_capacity_bytes (sb_config s))" "bs \<noteq> []"
  shows "\<exists>s'. ssd_write a (Some bs) (word_of_nat (length bs)) s = Some (True, s')
           \<and> ready s' \<and> sb_config s' = sb_config s \<and> sb_initialized s' = sb_initialized s
           \<and> ssd_mem s' = overwrite (ssd_mem s) a bs"
proof -
  let ?n = "word_of_nat (length bs) :: u64"
  have lt: "length bs < 18446744073709551616"
    using assms(3) unat_u64_lt [of "cf_capacity_bytes (sb_config s)"] by linarith
  then have n: "unat ?n = length bs"
    by (simp add: unat_of_nat)
  then have "?n \<noteq> 0"
    using assms(4) by (metis length_0_conv unat_0)
  then have "range_valid a ?n s"
    using assms(3) n by (intro range_valid_within) simp_all
  moreover obtain s1 where "write_loop a bs ?n 0 s = Some (True, s1)"
    using live_write_loop [OF assms(1), of a ?n bs "ssd_mem s" 0] assms(3) n
    by (auto simp: overwrite_def fun_eq_iff)
  ultimately obtain s' where w: "ssd_write a (Some bs) ?n s = Some (True, s')"
    using assms(2) by (simp add: ssd_write_def)
  then show ?thesis
    using ssd_write_step [OF _ lt, of s a] assms(1) by (auto simp: live_def)
qed

lemma mem_slice_overwrite:
  assumes "length bs < 18446744073709551616"
  shows "mem_slice (overwrite m a bs) a (length bs) = bs"
  using assms by (intro nth_equalityI) (simp_all add: mem_slice_def overwrite_def unat_of_nat)

lemma initialize_live:
  assumes "initialize (new_SsdStreamingBackend c disk env) = (True, s)"
  shows "clock_ok s \<and> sb_env s = env"
proof -
  have "sb_pages s = []" "sb_env s = env"
    using assms by (auto simp: initialize_def new_SsdStreamingBackend_def sys_call_def Let_def
        split: if_splits option.splits prod.splits)
  then show ?thesis
    by (simp add: clock_ok_def page_of_def)
qed

text \<open>
  C13: The page cache never gets stuck. If no system call fails, then after any sequence of
  operations on an initialised backend that leaves fewer pages pinned than the cache holds, a write
  to any range inside the capacity succeeds - the clock always finds a page to evict - and reading
  the range back succeeds and returns the bytes just written.
\<close>

theorem healthy_accesses_succeed:
  assumes "initialize (new_SsdStreamingBackend c disk (\<lambda>k. None)) = (True, s)"
    and "\<And>off. length (disk off) = unat (cf_page_size c)" and "list_all op_fits ops"
    and "ssd_run ops s = Some (lg, s1)"
    and "card (pins s1) < unat (cf_cache_pages (sb_config s1))"
    and "bs \<noteq> []" and "unat a + length bs \<le> unat (cf_capacity_bytes (sb_config s1))"
  shows "\<exists>s2 s3. ssd_write a (Some bs) (word_of_nat (length bs)) s1 = Some (True, s2)
           \<and> ssd_read a False (word_of_nat (length bs)) s2 = Some (True, bs, s3)"
proof -
  note init = initialize_ready [OF assms(1,2)]
  have s1: "ready s1" "sb_initialized s1"
    using ssd_run_flat [OF conjunct1 [OF init] assms(3)] assms(4) init by auto
  have "healthy s1" "clock_ok s1"
    using clocked_run [OF assms(4)] initialize_live [OF assms(1)] by (auto simp: clocked_def healthy_def)
  then have l1: "live s1"
    using s1(1) assms(5) by (simp add: live_def)
  obtain s2 where w: "ssd_write a (Some bs) (word_of_nat (length bs)) s1 = Some (True, s2)"
      "ready s2" "sb_config s2 = sb_config s1" "sb_initialized s2" "ssd_mem s2 = overwrite (ssd_mem s1) a bs"
    using live_write [OF l1 s1(2) assms(7,6)] s1(2) by blast
  note l2 = live_steady [OF l1 w(2,3) steady_write [OF w(1)]]
  have lt: "length bs < 18446744073709551616"
    using assms(7) unat_u64_lt [of "cf_capacity_bytes (sb_config s1)"] by linarith
  then have n: "unat (word_of_nat (length bs) :: u64) = length bs"
    by (simp add: unat_of_nat)
  then have "(word_of_nat (length bs) :: u64) \<noteq> 0"
    using assms(6) by (metis length_0_conv unat_0)
  then obtain d s3 where r: "ssd_read a False (word_of_nat (length bs)) s2 = Some (True, d, s3)"
    using live_read [OF l2 w(4), of a "word_of_nat (length bs)"] assms(7) w(3) n by auto
  have "d = mem_slice (ssd_mem s2) a (unat (word_of_nat (length bs) :: u64))"
    using ssd_read_step [OF w(2), of a False "word_of_nat (length bs)"] r by auto
  then have "d = bs"
    by (simp only: w(5) n mem_slice_overwrite [OF lt])
  then show ?thesis
    using w(1) r by blast
qed

lemma card_pins_le: "card (pins s) \<le> length (filter (\<lambda>(n, p). pm_pinned p) (sb_pages s))"
proof -
  have "pins s \<subseteq> fst ` set (filter (\<lambda>(n, p). pm_pinned p) (sb_pages s))"
    unfolding pins_def page_of_def by (force dest: map_of_SomeD)
  then have "card (pins s) \<le> card (set (map fst (filter (\<lambda>(n, p). pm_pinned p) (sb_pages s))))"
    by (intro card_mono) simp_all
  also have "\<dots> \<le> length (map fst (filter (\<lambda>(n, p). pm_pinned p) (sb_pages s)))"
    by (rule card_length)
  finally show ?thesis
    by simp
qed

lemma healthy_run_state:
  "length (filter (\<lambda>(n, p). pm_pinned p) (sb_pages healthy_run)) = 0
   \<and> unat (cf_cache_pages (sb_config healthy_run)) = 1
   \<and> unat (cf_capacity_bytes (sb_config healthy_run)) = 8192"
  by code_simp

theorem healthy_accesses_succeed_witness:
  "\<exists>s2 s3. ssd_write 8190 (Some [9, 8]) (word_of_nat (length [9, 8 :: u8])) healthy_run = Some (True, s2)
      \<and> ssd_read 8190 False (word_of_nat (length [9, 8 :: u8])) s2 = Some (True, [9, 8], s3)"
proof -
  obtain lg where run: "ssd_run [Op_write 510 [1, 2, 3]] (snd (initialize healthy_ssd)) = Some (lg, healthy_run)"
    using healthy_run_log by blast
  have few: "card (pins healthy_run) < unat (cf_cache_pages (sb_config healthy_run))"
    using card_pins_le [of healthy_run] healthy_run_state by simp
  show ?thesis
    by (rule healthy_accesses_succeed [OF healthy_initialize example_page_length _ run few]) (simp_all add: healthy_run_state)
qed

end
