(* ===== verification/GPU_Transport.thy ===== *)
theory GPU_Transport
  imports Prelude
begin

text \<open>
  The command transport of the guest GPU library,
  \<open>src/qemu_integration/guest_libcuda/cxl_gpu_transport.c\<close>: register accesses, the data and batch
  windows, and the submission of a command through the RAM descriptor with its polling loop.

  BAR2 is shared with the device. The device is not part of the sources, so its effect on BAR2
  between two polls is a function \<open>tr_device\<close> of the model, indexed by the number of polls so far,
  and \<open>CLOCK_MONOTONIC\<close> is a sequence of readings; the theorems name what they need of either.
  Registers outside the descriptor are bytes of the mapping in little-endian order. Opening the
  device (a search through \<open>/sys\<close> and a memory mapping) and the \<open>flock\<close> calls are not modelled.
\<close>

section \<open>The shared window\<close>

record CXLGPURAMCommandDescriptor =
  d_protocol_version :: u32
  d_descriptor_size :: u32
  d_request_submission :: u64
  d_request_device_generation :: u64
  d_request_command :: u64
  d_request_call_id :: u64
  d_request_case_epoch :: u64
  d_params :: "u64 list"
  d_completion_submission :: u64
  d_completion_device_generation :: u64
  d_completion_status :: u64
  d_result :: u64
  d_results :: "u64 list"
  d_active_case_epoch :: u64
  d_device_generation :: u64

record bar2 =
  b_regs :: "nat \<Rightarrow> u8"
  b_data :: "nat \<Rightarrow> u8"
  b_descriptor :: CXLGPURAMCommandDescriptor
  b_batch_data :: "nat \<Rightarrow> u8"

record CxlGpuTransport =
  tr_mapped :: bool
  tr_pci_fd :: int
  tr_bar_size :: u64
  tr_unusable :: bool
  tr_bar2 :: bar2
  tr_device :: "nat \<Rightarrow> bar2 \<Rightarrow> bar2"
  tr_polls :: nat
  tr_clock :: "nat \<Rightarrow> u64"
  tr_clock_reads :: nat
  tr_rung :: "bar2 list"

text \<open>\<open>tr_rung\<close> keeps BAR2 as it was at each doorbell, in the order of the doorbells.\<close>

abbreviation tr_descriptor :: "CxlGpuTransport \<Rightarrow> CXLGPURAMCommandDescriptor" where
  "tr_descriptor t \<equiv> b_descriptor (tr_bar2 t)"

abbreviation (input) CXL_GPU_REG_CALL_ID :: u32 where "CXL_GPU_REG_CALL_ID \<equiv> 0x28"
abbreviation (input) CXL_GPU_REG_PARAM0 :: u32 where "CXL_GPU_REG_PARAM0 \<equiv> 0x40"
abbreviation (input) CXL_GPU_REG_PARAM7 :: u32 where "CXL_GPU_REG_PARAM7 \<equiv> 0x78"
abbreviation (input) CXL_GPU_REG_RESULT0 :: u32 where "CXL_GPU_REG_RESULT0 \<equiv> 0x80"
abbreviation (input) CXL_GPU_REG_RESULT3 :: u32 where "CXL_GPU_REG_RESULT3 \<equiv> 0x98"
abbreviation (input) CXL_GPU_DATA_SIZE :: u64 where "CXL_GPU_DATA_SIZE \<equiv> 0x800000"
abbreviation (input) CXL_GPU_BATCH_DATA_SIZE :: u64 where "CXL_GPU_BATCH_DATA_SIZE \<equiv> 0x2000000"
abbreviation (input) CXL_GPU_DESCRIPTOR_DOORBELL_OFFSET :: nat where "CXL_GPU_DESCRIPTOR_DOORBELL_OFFSET \<equiv> 0x10"
abbreviation (input) CXL_GPU_DESCRIPTOR_COMPLETION_COMPLETE :: u64 where "CXL_GPU_DESCRIPTOR_COMPLETION_COMPLETE \<equiv> 1"
abbreviation (input) CXL_GPU_DESCRIPTOR_COMPLETION_ERROR :: u64 where "CXL_GPU_DESCRIPTOR_COMPLETION_ERROR \<equiv> 2"
abbreviation (input) CXL_GPU_ERROR_UNKNOWN :: u32 where "CXL_GPU_ERROR_UNKNOWN \<equiv> 999"
abbreviation (input) CXL_GPU_CMD_CASE_BEGIN :: u32 where "CXL_GPU_CMD_CASE_BEGIN \<equiv> 8"

definition upd_descriptor :: "(CXLGPURAMCommandDescriptor \<Rightarrow> CXLGPURAMCommandDescriptor)
    \<Rightarrow> CxlGpuTransport \<Rightarrow> CxlGpuTransport" where
  "upd_descriptor f t = t\<lparr>tr_bar2 := (tr_bar2 t)\<lparr>b_descriptor := f (tr_descriptor t)\<rparr>\<rparr>"


section \<open>Bytes\<close>

text \<open>Bytes of a mapping in the order of their addresses.\<close>

definition get_bytes :: "(nat \<Rightarrow> u8) \<Rightarrow> nat \<Rightarrow> nat \<Rightarrow> u8 list" where
  "get_bytes m k n = map m [k ..< k + n]"

definition set_bytes :: "nat \<Rightarrow> u8 list \<Rightarrow> (nat \<Rightarrow> u8) \<Rightarrow> nat \<Rightarrow> u8" where
  "set_bytes k bs m i = (if k \<le> i \<and> i < k + length bs then bs ! (i - k) else m i)"

definition load32 :: "(nat \<Rightarrow> u8) \<Rightarrow> nat \<Rightarrow> u32" where
  "load32 m k = word_rcat (rev (get_bytes m k 4))"

definition load64 :: "(nat \<Rightarrow> u8) \<Rightarrow> nat \<Rightarrow> u64" where
  "load64 m k = word_rcat (rev (get_bytes m k 8))"

definition store32 :: "nat \<Rightarrow> u32 \<Rightarrow> (nat \<Rightarrow> u8) \<Rightarrow> nat \<Rightarrow> u8" where
  "store32 k v = set_bytes k (map (\<lambda>i. ucast (drop_bit (8 * i) v)) [0 ..< 4])"

definition store64 :: "nat \<Rightarrow> u64 \<Rightarrow> (nat \<Rightarrow> u8) \<Rightarrow> nat \<Rightarrow> u8" where
  "store64 k v = set_bytes k (map (\<lambda>i. ucast (drop_bit (8 * i) v)) [0 ..< 8])"


section \<open>Registers\<close>

definition is_param :: "u32 \<Rightarrow> bool" where
  "is_param off \<longleftrightarrow> CXL_GPU_REG_PARAM0 \<le> off \<and> off \<le> CXL_GPU_REG_PARAM7 \<and> (off - CXL_GPU_REG_PARAM0) mod 8 = 0"

definition param_index :: "u32 \<Rightarrow> nat" where
  "param_index off = unat ((off - CXL_GPU_REG_PARAM0) div 8)"

definition is_result :: "u32 \<Rightarrow> bool" where
  "is_result off \<longleftrightarrow> CXL_GPU_REG_RESULT0 \<le> off \<and> off \<le> CXL_GPU_REG_RESULT3 \<and> (off - CXL_GPU_REG_RESULT0) mod 8 = 0"

definition result_index :: "u32 \<Rightarrow> nat" where
  "result_index off = unat ((off - CXL_GPU_REG_RESULT0) div 8)"

definition cxl_gpu_transport_read32 :: "CxlGpuTransport \<Rightarrow> u32 \<Rightarrow> u32" where
  "cxl_gpu_transport_read32 t off =
     (if is_param off then ucast (d_params (tr_descriptor t) ! param_index off)
      else load32 (b_regs (tr_bar2 t)) (unat off))"

definition cxl_gpu_transport_read64 :: "CxlGpuTransport \<Rightarrow> u32 \<Rightarrow> u64" where
  "cxl_gpu_transport_read64 t off =
     (if is_param off then d_params (tr_descriptor t) ! param_index off
      else if off = CXL_GPU_REG_CALL_ID then d_request_call_id (tr_descriptor t)
      else if is_result off then d_results (tr_descriptor t) ! result_index off
      else load64 (b_regs (tr_bar2 t)) (unat off))"

definition set_param :: "nat \<Rightarrow> u64 \<Rightarrow> CxlGpuTransport \<Rightarrow> CxlGpuTransport" where
  "set_param i v = upd_descriptor (\<lambda>d. d\<lparr>d_params := (d_params d)[i := v]\<rparr>)"

definition set_regs :: "((nat \<Rightarrow> u8) \<Rightarrow> nat \<Rightarrow> u8) \<Rightarrow> CxlGpuTransport \<Rightarrow> CxlGpuTransport" where
  "set_regs f t = t\<lparr>tr_bar2 := (tr_bar2 t)\<lparr>b_regs := f (b_regs (tr_bar2 t))\<rparr>\<rparr>"

definition cxl_gpu_transport_write32 :: "u32 \<Rightarrow> u32 \<Rightarrow> CxlGpuTransport \<Rightarrow> CxlGpuTransport" where
  "cxl_gpu_transport_write32 off v t =
     (if tr_unusable t then t
      else if is_param off then set_param (param_index off) (ucast v) t
      else set_regs (store32 (unat off) v) t)"

definition cxl_gpu_transport_write64 :: "u32 \<Rightarrow> u64 \<Rightarrow> CxlGpuTransport \<Rightarrow> CxlGpuTransport" where
  "cxl_gpu_transport_write64 off v t =
     (if tr_unusable t then t
      else if is_param off then set_param (param_index off) v t
      else if off = CXL_GPU_REG_CALL_ID then upd_descriptor (\<lambda>d. d\<lparr>d_request_call_id := v\<rparr>) t
      else if is_result off
        then upd_descriptor (\<lambda>d. d\<lparr>d_results := (d_results d)[result_index off := v]\<rparr>) t
      else set_regs (store64 (unat off) v) t)"


section \<open>Data and batch windows\<close>

text \<open>A write or read that does not fit the window is dropped without an error.\<close>

definition window_fits :: "u64 \<Rightarrow> u64 \<Rightarrow> u64 \<Rightarrow> bool" where
  "window_fits size_of off len \<longleftrightarrow> \<not> (off > size_of \<or> len > size_of - off)"

definition cxl_gpu_transport_data_write :: "u64 \<Rightarrow> u8 list \<Rightarrow> CxlGpuTransport \<Rightarrow> CxlGpuTransport" where
  "cxl_gpu_transport_data_write off src t =
     (if \<not> window_fits CXL_GPU_DATA_SIZE off (word_of_nat (length src)) then t
      else t\<lparr>tr_bar2 := (tr_bar2 t)\<lparr>b_data := set_bytes (unat off) src (b_data (tr_bar2 t))\<rparr>\<rparr>)"

text \<open>The destination keeps its old contents when the read is dropped.\<close>

definition cxl_gpu_transport_data_read :: "u64 \<Rightarrow> u8 list \<Rightarrow> CxlGpuTransport \<Rightarrow> u8 list" where
  "cxl_gpu_transport_data_read off dst t =
     (if \<not> window_fits CXL_GPU_DATA_SIZE off (word_of_nat (length dst)) then dst
      else get_bytes (b_data (tr_bar2 t)) (unat off) (length dst))"

definition cxl_gpu_transport_batch_write :: "u64 \<Rightarrow> u8 list option \<Rightarrow> CxlGpuTransport \<Rightarrow> int \<times> CxlGpuTransport" where
  "cxl_gpu_transport_batch_write off src t =
     (case src of
        None \<Rightarrow> (- 1, t)
      | Some bs \<Rightarrow>
          if \<not> tr_mapped t \<or> \<not> window_fits CXL_GPU_BATCH_DATA_SIZE off (word_of_nat (length bs)) then (- 1, t)
          else (0, t\<lparr>tr_bar2 := (tr_bar2 t)\<lparr>b_batch_data := set_bytes (unat off) bs (b_batch_data (tr_bar2 t))\<rparr>\<rparr>))"

definition cxl_gpu_transport_batch_read :: "u64 \<Rightarrow> u64 \<Rightarrow> CxlGpuTransport \<Rightarrow> u8 list option" where
  "cxl_gpu_transport_batch_read off len t =
     (if \<not> tr_mapped t \<or> \<not> window_fits CXL_GPU_BATCH_DATA_SIZE off len then None
      else Some (get_bytes (b_batch_data (tr_bar2 t)) (unat off) (unat len)))"


section \<open>Commands\<close>

definition monotonic_ns :: "CxlGpuTransport \<Rightarrow> u64 \<times> CxlGpuTransport" where
  "monotonic_ns t = (tr_clock t (tr_clock_reads t), t\<lparr>tr_clock_reads := Suc (tr_clock_reads t)\<rparr>)"

text \<open>What the guest sees at its next poll: BAR2 after the device has acted.\<close>

definition observe :: "CxlGpuTransport \<Rightarrow> CxlGpuTransport" where
  "observe t = t\<lparr>tr_bar2 := tr_device t (tr_polls t) (tr_bar2 t), tr_polls := Suc (tr_polls t)\<rparr>"

definition completed :: "u64 \<Rightarrow> u64 \<Rightarrow> CXLGPURAMCommandDescriptor \<Rightarrow> bool" where
  "completed submission generation d \<longleftrightarrow>
     (d_completion_status d = CXL_GPU_DESCRIPTOR_COMPLETION_COMPLETE
      \<or> d_completion_status d = CXL_GPU_DESCRIPTOR_COMPLETION_ERROR)
     \<and> d_completion_submission d = submission \<and> d_completion_device_generation d = generation"

definition fail_stop :: "u32 \<Rightarrow> CxlGpuTransport \<Rightarrow> u32 \<times> u32 \<times> CxlGpuTransport" where
  "fail_stop polls t = (CXL_GPU_ERROR_UNKNOWN, polls, t\<lparr>tr_unusable := True\<rparr>)"

text \<open>
  The polling loop. The deadline is set by the first clock reading; from the 64th poll on every
  round reads the clock again. A reading of 0 is a failed clock call and ends the loop.
\<close>

partial_function (option) poll_loop ::
    "u64 \<Rightarrow> u64 \<Rightarrow> u32 \<Rightarrow> u64 \<Rightarrow> CxlGpuTransport \<Rightarrow> (u32 \<times> u32 \<times> CxlGpuTransport) option" where
  "poll_loop submission generation polls deadline t =
     (let t1 = observe t; polls1 = polls + 1; d = tr_descriptor t1 in
      if completed submission generation d
      then Some (ucast (d_result d), polls1,
                 if d_completion_status d = CXL_GPU_DESCRIPTOR_COMPLETION_ERROR then t1\<lparr>tr_unusable := True\<rparr> else t1)
      else
        let (now, t2) = (if deadline = 0 then monotonic_ns t1 else (1, t1)) in
        if now = 0 then Some (fail_stop polls1 t2)
        else
          let deadline1 = (if deadline = 0 then now + 60000000000 else deadline) in
          if 64 \<le> polls1 then
            let (now1, t3) = monotonic_ns t2 in
            if now1 = 0 \<or> deadline1 \<le> now1 then Some (fail_stop polls1 t3)
            else poll_loop submission generation polls1 deadline1 t3
          else poll_loop submission generation polls1 deadline1 t2)"

declare poll_loop.simps [code]

text \<open>Filling in the request and ringing the doorbell.\<close>

definition submit :: "u64 \<Rightarrow> u64 \<Rightarrow> u32 \<Rightarrow> CxlGpuTransport \<Rightarrow> CxlGpuTransport" where
  "submit submission generation command t =
     (let t1 = upd_descriptor (\<lambda>d. d\<lparr>d_protocol_version := 3, d_descriptor_size := 0x100,
                  d_request_submission := submission, d_request_device_generation := generation,
                  d_request_command := ucast command,
                  d_request_case_epoch := (if command = CXL_GPU_CMD_CASE_BEGIN then 0 else d_active_case_epoch d)\<rparr>) t;
          t2 = set_regs (store32 CXL_GPU_DESCRIPTOR_DOORBELL_OFFSET 1) t1 in
      t2\<lparr>tr_rung := tr_rung t2 @ [tr_bar2 t2]\<rparr>)"

definition cxl_gpu_transport_execute :: "u32 \<Rightarrow> CxlGpuTransport \<Rightarrow> (u32 \<times> u32 \<times> CxlGpuTransport) option" where
  "cxl_gpu_transport_execute command t =
     (if tr_unusable t \<or> \<not> tr_mapped t then Some (CXL_GPU_ERROR_UNKNOWN, 0, t)
      else
        let generation = d_device_generation (tr_descriptor t);
            previous = d_completion_submission (tr_descriptor t) in
        if generation = 0 \<or> previous = UINT64_MAX then Some (fail_stop 0 t)
        else poll_loop (previous + 1) generation 0 0 (submit (previous + 1) generation command t))"

definition cxl_gpu_transport_close :: "CxlGpuTransport \<Rightarrow> CxlGpuTransport" where
  "cxl_gpu_transport_close t =
     t\<lparr>tr_mapped := False, tr_pci_fd := - 1, tr_bar_size := 0, tr_unusable := False\<rparr>"


section \<open>Runs of commands\<close>

text \<open>A caller writes its parameters to the registers from \<open>PARAM0\<close> on and executes the command.\<close>

fun write_params :: "nat \<Rightarrow> u64 list \<Rightarrow> CxlGpuTransport \<Rightarrow> CxlGpuTransport" where
  "write_params i [] t = t"
| "write_params i (v # vs) t =
     write_params (Suc i) vs (cxl_gpu_transport_write64 (CXL_GPU_REG_PARAM0 + 8 * word_of_nat i) v t)"

fun command_run :: "(u32 \<times> u64 list) list \<Rightarrow> CxlGpuTransport \<Rightarrow> (u32 list \<times> CxlGpuTransport) option" where
  "command_run [] t = Some ([], t)"
| "command_run ((command, params) # cs) t =
     (case cxl_gpu_transport_execute command (write_params 0 params t) of
        None \<Rightarrow> None
      | Some (r, polls, t1) \<Rightarrow> map_option (\<lambda>(rs, t2). (r # rs, t2)) (command_run cs t1))"

text \<open>
  A device that follows the protocol: between two polls it leaves the request alone and either
  leaves the completion alone or completes the pending request with its answer.
\<close>

definition request_of :: "CXLGPURAMCommandDescriptor \<Rightarrow> u64 \<times> u64 \<times> u64 \<times> u64 list \<times> u64" where
  "request_of d = (d_request_submission d, d_request_device_generation d, d_request_command d, d_params d,
                   d_device_generation d)"

definition completion_of :: "CXLGPURAMCommandDescriptor \<Rightarrow> u64 \<times> u64 \<times> u64 \<times> u64" where
  "completion_of d = (d_completion_submission d, d_completion_device_generation d, d_completion_status d, d_result d)"

definition conforming :: "(u64 \<Rightarrow> u64 list \<Rightarrow> u64) \<Rightarrow> (nat \<Rightarrow> bar2 \<Rightarrow> bar2) \<Rightarrow> bool" where
  "conforming answer device \<longleftrightarrow>
     (\<forall>k b. let d = b_descriptor b; d' = b_descriptor (device k b) in
        request_of d' = request_of d
        \<and> (completion_of d' = completion_of d
           \<or> d_completion_submission d' = d_request_submission d
             \<and> d_result d' = answer (d_request_command d) (d_params d)))"


section \<open>Properties\<close>

lemma upd_descriptor_simps [simp]:
  "tr_descriptor (upd_descriptor f t) = f (tr_descriptor t)" "tr_unusable (upd_descriptor f t) = tr_unusable t"
  "tr_mapped (upd_descriptor f t) = tr_mapped t" "tr_rung (upd_descriptor f t) = tr_rung t"
  "tr_device (upd_descriptor f t) = tr_device t" "tr_clock (upd_descriptor f t) = tr_clock t"
  "tr_clock_reads (upd_descriptor f t) = tr_clock_reads t"
  by (simp_all add: upd_descriptor_def)

lemma set_regs_simps [simp]:
  "tr_descriptor (set_regs f t) = tr_descriptor t" "tr_unusable (set_regs f t) = tr_unusable t"
  "tr_mapped (set_regs f t) = tr_mapped t" "tr_rung (set_regs f t) = tr_rung t"
  "tr_device (set_regs f t) = tr_device t" "tr_clock (set_regs f t) = tr_clock t"
  "tr_clock_reads (set_regs f t) = tr_clock_reads t"
  by (simp_all add: set_regs_def)

lemma observe_simps [simp]:
  "tr_unusable (observe t) = tr_unusable t" "tr_mapped (observe t) = tr_mapped t" "tr_rung (observe t) = tr_rung t"
  "tr_device (observe t) = tr_device t" "tr_clock (observe t) = tr_clock t"
  "tr_clock_reads (observe t) = tr_clock_reads t"
  by (simp_all add: observe_def)

lemma observe_conforming:
  assumes "conforming answer (tr_device t)"
  shows "request_of (tr_descriptor (observe t)) = request_of (tr_descriptor t)"
    and "completion_of (tr_descriptor (observe t)) = completion_of (tr_descriptor t)
       \<or> d_completion_submission (tr_descriptor (observe t)) = d_request_submission (tr_descriptor t)
         \<and> d_result (tr_descriptor (observe t)) = answer (d_request_command (tr_descriptor t)) (d_params (tr_descriptor t))"
  using assms unfolding conforming_def observe_def Let_def by simp_all

lemma submit_simps [simp]:
  "tr_unusable (submit s g c t) = tr_unusable t" "tr_mapped (submit s g c t) = tr_mapped t"
  "tr_device (submit s g c t) = tr_device t" "tr_clock (submit s g c t) = tr_clock t"
  "tr_clock_reads (submit s g c t) = tr_clock_reads t"
  "request_of (tr_descriptor (submit s g c t))
     = (s, g, ucast c, d_params (tr_descriptor t), d_device_generation (tr_descriptor t))"
  "completion_of (tr_descriptor (submit s g c t)) = completion_of (tr_descriptor t)"
  "tr_rung (submit s g c t) = tr_rung t @ [tr_bar2 (submit s g c t)]"
  by (simp_all add: submit_def Let_def request_of_def completion_of_def)

definition request_sent :: "bar2 \<Rightarrow> u64 \<times> u64 \<times> u64 list" where
  "request_sent b = (d_request_submission (b_descriptor b), d_request_command (b_descriptor b), d_params (b_descriptor b))"

text \<open>What stays true of the descriptor while a command is pending.\<close>

definition pending :: "(u64 \<Rightarrow> u64 list \<Rightarrow> u64) \<Rightarrow> u64 \<Rightarrow> u64 \<Rightarrow> u64 list \<Rightarrow> CxlGpuTransport \<Rightarrow> bool" where
  "pending answer submission command params t \<longleftrightarrow>
     conforming answer (tr_device t)
     \<and> d_request_submission (tr_descriptor t) = submission \<and> d_request_command (tr_descriptor t) = command
     \<and> d_params (tr_descriptor t) = params \<and> d_device_generation (tr_descriptor t) \<noteq> 0
     \<and> (d_completion_submission (tr_descriptor t) \<noteq> submission \<or> d_result (tr_descriptor t) = answer command params)"

lemma pending_observe:
  assumes "pending answer s c ps t" shows "pending answer s c ps (observe t)"
  using assms observe_conforming [of answer t]
  by (auto simp: pending_def request_of_def completion_of_def)

lemma pending_cong:
  "tr_bar2 t' = tr_bar2 t \<Longrightarrow> tr_device t' = tr_device t \<Longrightarrow> pending answer s c ps t' = pending answer s c ps t"
  by (simp add: pending_def)

text \<open>The part of the transport a poll does not touch.\<close>

definition same_client :: "CxlGpuTransport \<Rightarrow> CxlGpuTransport \<Rightarrow> bool" where
  "same_client t t' \<longleftrightarrow> tr_rung t' = tr_rung t \<and> tr_mapped t' = tr_mapped t \<and> tr_device t' = tr_device t
     \<and> tr_clock t' = tr_clock t"

lemma same_client_trans: "same_client t t1 \<Longrightarrow> same_client t1 t2 \<Longrightarrow> same_client t t2"
  by (simp add: same_client_def)

lemma poll_loop_same_client:
  assumes "poll_loop s g polls deadline t = Some y" shows "same_client t (snd (snd y))"
  using assms
proof (rule poll_loop.raw_induct [where P = "\<lambda>s g polls deadline t y. same_client t (snd (snd y))", rotated])
  fix loop s g polls deadline t y
  assume IH: "\<And>s g polls deadline t y. loop s g polls deadline t = Some y \<Longrightarrow> same_client t (snd (snd y))"
    and eq: "(let t1 = observe t; polls1 = polls + 1; d = tr_descriptor t1 in
      if completed s g d
      then Some (ucast (d_result d), polls1,
                 if d_completion_status d = CXL_GPU_DESCRIPTOR_COMPLETION_ERROR then t1\<lparr>tr_unusable := True\<rparr> else t1)
      else
        let (now, t2) = (if deadline = 0 then monotonic_ns t1 else (1, t1)) in
        if now = 0 then Some (fail_stop polls1 t2)
        else
          let deadline1 = (if deadline = 0 then now + 60000000000 else deadline) in
          if 64 \<le> polls1 then
            let (now1, t3) = monotonic_ns t2 in
            if now1 = 0 \<or> deadline1 \<le> now1 then Some (fail_stop polls1 t3)
            else loop s g polls1 deadline1 t3
          else loop s g polls1 deadline1 t2) = Some y"
  have step: "same_client t (snd (snd y))" if "loop s g n dl t' = Some y" "same_client t t'" for n dl t'
    using same_client_trans [OF that(2) IH [OF that(1)]] .
  show "same_client t (snd (snd y))"
    using eq by (auto simp: Let_def monotonic_ns_def fail_stop_def same_client_def split: if_splits elim!: step [unfolded same_client_def])
qed

lemma execute_rings:
  assumes "cxl_gpu_transport_execute command t = Some (r, n, t')" "tr_mapped t" "\<not> tr_unusable t"
    and "d_device_generation (tr_descriptor t) \<noteq> 0" "d_completion_submission (tr_descriptor t) \<noteq> UINT64_MAX"
  shows "tr_rung t' = tr_rung t @ [tr_bar2 (submit (d_completion_submission (tr_descriptor t) + 1)
                                              (d_device_generation (tr_descriptor t)) command t)]"
  using assms poll_loop_same_client by (fastforce simp: cxl_gpu_transport_execute_def same_client_def Let_def)

definition poll_outcome :: "(u64 \<Rightarrow> u64 list \<Rightarrow> u64) \<Rightarrow> u64 \<Rightarrow> u64 \<Rightarrow> u64 \<Rightarrow> u64 list \<Rightarrow> CxlGpuTransport
    \<Rightarrow> u32 \<times> u32 \<times> CxlGpuTransport \<Rightarrow> bool" where
  "poll_outcome answer s g c ps t y \<longleftrightarrow>
     same_client t (snd (snd y)) \<and> pending answer s c ps (snd (snd y))
     \<and> (tr_unusable (snd (snd y)) \<or> completed s g (tr_descriptor (snd (snd y)))
          \<and> fst y = ucast (d_result (tr_descriptor (snd (snd y)))))"

lemma poll_outcome_step:
  "same_client t t1 \<Longrightarrow> poll_outcome answer s g c ps t1 y \<Longrightarrow> poll_outcome answer s g c ps t y"
  by (simp add: poll_outcome_def same_client_def)

lemma poll_loop_pending:
  assumes "poll_loop s g polls deadline t = Some y" "pending answer s c ps t"
  shows "poll_outcome answer s g c ps t y"
proof -
  have "pending answer s c ps t \<longrightarrow> poll_outcome answer s g c ps t y"
    using assms(1)
  proof (rule poll_loop.raw_induct [where P = "\<lambda>s g polls deadline t y.
      pending answer s c ps t \<longrightarrow> poll_outcome answer s g c ps t y", rotated])
    fix loop s g polls deadline t y
    assume IH: "\<And>s g polls deadline t y. loop s g polls deadline t = Some y \<Longrightarrow>
        pending answer s c ps t \<longrightarrow> poll_outcome answer s g c ps t y"
      and eq: "(let t1 = observe t; polls1 = polls + 1; d = tr_descriptor t1 in
      if completed s g d
      then Some (ucast (d_result d), polls1,
                 if d_completion_status d = CXL_GPU_DESCRIPTOR_COMPLETION_ERROR then t1\<lparr>tr_unusable := True\<rparr> else t1)
      else
        let (now, t2) = (if deadline = 0 then monotonic_ns t1 else (1, t1)) in
        if now = 0 then Some (fail_stop polls1 t2)
        else
          let deadline1 = (if deadline = 0 then now + 60000000000 else deadline) in
          if 64 \<le> polls1 then
            let (now1, t3) = monotonic_ns t2 in
            if now1 = 0 \<or> deadline1 \<le> now1 then Some (fail_stop polls1 t3)
            else loop s g polls1 deadline1 t3
          else loop s g polls1 deadline1 t2) = Some y"
    show "pending answer s c ps t \<longrightarrow> poll_outcome answer s g c ps t y"
    proof
      assume "pending answer s c ps t"
      then have obs: "pending answer s c ps (observe t)"
        by (rule pending_observe)
      have idle: "same_client t t' \<and> pending answer s c ps t'"
        if "tr_bar2 t' = tr_bar2 (observe t)" "tr_device t' = tr_device t" "tr_rung t' = tr_rung t"
          "tr_mapped t' = tr_mapped t" "tr_clock t' = tr_clock t" for t'
        using that obs by (simp add: same_client_def pending_def)
      have stop: "poll_outcome answer s g c ps t (fail_stop n t')"
        if "tr_bar2 t' = tr_bar2 (observe t)" "tr_device t' = tr_device t" "tr_rung t' = tr_rung t"
          "tr_mapped t' = tr_mapped t" "tr_clock t' = tr_clock t" for n t'
        using idle [of "t'\<lparr>tr_unusable := True\<rparr>"] that by (simp add: poll_outcome_def fail_stop_def)
      have step: "poll_outcome answer s g c ps t y" if "loop s g n dl t' = Some y"
          "tr_bar2 t' = tr_bar2 (observe t)" "tr_device t' = tr_device t" "tr_rung t' = tr_rung t"
          "tr_mapped t' = tr_mapped t" "tr_clock t' = tr_clock t" for n dl t'
        using IH [OF that(1)] idle [OF that(2-)] poll_outcome_step by blast
      show "poll_outcome answer s g c ps t y"
      proof (cases "completed s g (tr_descriptor (observe t))")
        case True
        then show ?thesis
          using eq idle [of "observe t"] idle [of "(observe t)\<lparr>tr_unusable := True\<rparr>"]
          by (auto simp: Let_def poll_outcome_def split: if_splits)
      next
        case False
        then show ?thesis
          using eq
          by (auto simp: Let_def monotonic_ns_def split: if_splits intro!: stop elim!: step)
      qed
    qed
  qed
  then show ?thesis
    using assms(2) by blast
qed

text \<open>A usable transport between two commands.\<close>

definition idle :: "(u64 \<Rightarrow> u64 list \<Rightarrow> u64) \<Rightarrow> CxlGpuTransport \<Rightarrow> bool" where
  "idle answer t \<longleftrightarrow> conforming answer (tr_device t) \<and> tr_mapped t \<and> \<not> tr_unusable t
     \<and> d_device_generation (tr_descriptor t) \<noteq> 0 \<and> length (d_params (tr_descriptor t)) = 8"

lemma execute_answers:
  assumes "idle answer t" "d_completion_submission (tr_descriptor t) \<noteq> UINT64_MAX"
    and "cxl_gpu_transport_execute command t = Some (r, n, t')"
  defines "s \<equiv> d_completion_submission (tr_descriptor t) + 1"
  defines "ps \<equiv> d_params (tr_descriptor t)"
  shows "\<exists>b. tr_rung t' = tr_rung t @ [b] \<and> request_sent b = (s, ucast command, ps)"
    and "tr_mapped t'"
    and "\<not> tr_unusable t' \<Longrightarrow> idle answer t' \<and> d_completion_submission (tr_descriptor t') = s
           \<and> r = ucast (answer (ucast command) ps)"
proof -
  define g where "g = d_device_generation (tr_descriptor t)"
  let ?t = "submit s g command t"
  have loop: "poll_loop s g 0 0 ?t = Some (r, n, t')"
    using assms by (simp add: cxl_gpu_transport_execute_def idle_def Let_def g_def)
  have "s \<noteq> d_completion_submission (tr_descriptor t)"
    by (simp add: s_def)
  then have "pending answer s (ucast command) ps ?t"
    using assms(1) submit_simps(6,7) [of s g command t]
    by (auto simp: pending_def idle_def ps_def request_of_def completion_of_def)
  then have out: "poll_outcome answer s g (ucast command) ps ?t (r, n, t')"
    by (rule poll_loop_pending [OF loop])
  then have "tr_rung t' = tr_rung t @ [tr_bar2 ?t]"
    by (simp add: poll_outcome_def same_client_def)
  then show "\<exists>b. tr_rung t' = tr_rung t @ [b] \<and> request_sent b = (s, ucast command, ps)"
    using submit_simps(6) [of s g command t] by (auto simp: request_of_def request_sent_def ps_def)
  show "tr_mapped t'"
    using out assms(1) by (simp add: poll_outcome_def same_client_def idle_def)
  show "idle answer t' \<and> d_completion_submission (tr_descriptor t') = s \<and> r = ucast (answer (ucast command) ps)"
    if "\<not> tr_unusable t'"
    using out that assms(1)
    by (auto simp: poll_outcome_def same_client_def pending_def completed_def idle_def ps_def)
qed

lemma param_register:
  assumes "i < 8"
  shows "is_param (CXL_GPU_REG_PARAM0 + 8 * word_of_nat i)" "param_index (CXL_GPU_REG_PARAM0 + 8 * word_of_nat i) = i"
proof -
  have "i \<in> set [0 ..< 8]"
    using assms by simp
  then have "is_param (CXL_GPU_REG_PARAM0 + 8 * word_of_nat i) \<and> param_index (CXL_GPU_REG_PARAM0 + 8 * word_of_nat i) = i"
    by (simp add: upt_rec is_param_def param_index_def) (elim disjE; simp)
  then show "is_param (CXL_GPU_REG_PARAM0 + 8 * word_of_nat i)" "param_index (CXL_GPU_REG_PARAM0 + 8 * word_of_nat i) = i"
    by blast+
qed

lemma write_params_set:
  assumes "\<not> tr_unusable t" "i + length vs \<le> 8" "length (d_params (tr_descriptor t)) = 8"
  shows "write_params i vs t = upd_descriptor (\<lambda>d. d\<lparr>d_params :=
           take i (d_params d) @ vs @ drop (i + length vs) (d_params d)\<rparr>) t"
  using assms
proof (induction i vs t rule: write_params.induct)
  case (1 i t)
  then show ?case
    by (simp add: upd_descriptor_def)
next
  case (2 i v vs t)
  have w: "cxl_gpu_transport_write64 (CXL_GPU_REG_PARAM0 + 8 * word_of_nat i) v t = set_param i v t"
    using 2(2,3) param_register [of i] by (simp add: cxl_gpu_transport_write64_def)
  have "take (Suc i) ((d_params (tr_descriptor t))[i := v]) = take i (d_params (tr_descriptor t)) @ [v]"
    using 2(3,4) by (simp add: take_Suc_conv_app_nth)
  then show ?case
    using 2 by (simp add: w set_param_def upd_descriptor_def)
qed

lemma write_params_idle:
  assumes "idle answer t" "length ps = 8"
  shows "idle answer (write_params 0 ps t)" "d_params (tr_descriptor (write_params 0 ps t)) = ps"
    "d_completion_submission (tr_descriptor (write_params 0 ps t)) = d_completion_submission (tr_descriptor t)"
    "tr_rung (write_params 0 ps t) = tr_rung t"
  using assms write_params_set [of t 0 ps] by (simp_all add: idle_def)

lemma write_params_unusable: "tr_unusable t \<Longrightarrow> write_params i vs t = t"
  by (induction i vs t rule: write_params.induct) (simp_all add: cxl_gpu_transport_write64_def)

lemma command_run_unusable:
  "tr_unusable t \<Longrightarrow> command_run cs t = Some (replicate (length cs) CXL_GPU_ERROR_UNKNOWN, t)"
  by (induction cs t rule: command_run.induct)
    (simp_all add: write_params_unusable cxl_gpu_transport_execute_def)

text \<open>The requests of a list of commands, with consecutive submission numbers.\<close>

fun requests :: "u64 \<Rightarrow> (u32 \<times> u64 list) list \<Rightarrow> (u64 \<times> u64 \<times> u64 list) list" where
  "requests s [] = []"
| "requests s ((c, ps) # cs) = (s, ucast c, ps) # requests (s + 1) cs"

definition run_outcome :: "(u64 \<Rightarrow> u64 list \<Rightarrow> u64) \<Rightarrow> (u32 \<times> u64 list) list \<Rightarrow> CxlGpuTransport
    \<Rightarrow> u32 list \<Rightarrow> CxlGpuTransport \<Rightarrow> bool" where
  "run_outcome answer cs t rs t' \<longleftrightarrow>
     (\<exists>n ds. n \<le> length cs \<and> (tr_unusable t' \<longleftrightarrow> n < length cs)
        \<and> take n rs = map (\<lambda>(c, ps). ucast (answer (ucast c) ps)) (take n cs)
        \<and> drop (Suc n) rs = replicate (length cs - Suc n) CXL_GPU_ERROR_UNKNOWN
        \<and> tr_rung t' = tr_rung t @ ds
        \<and> map request_sent ds = requests (d_completion_submission (tr_descriptor t) + 1) (take (Suc n) cs))"

lemma command_run_outcome:
  assumes "idle answer t" "list_all (\<lambda>(c, ps). length ps = 8) cs"
    and "unat (d_completion_submission (tr_descriptor t)) + length cs < 18446744073709551616"
    and "command_run cs t = Some (rs, t')"
  shows "run_outcome answer cs t rs t'"
  using assms
proof (induction cs arbitrary: t rs)
  case Nil
  then show ?case
    by (auto simp: run_outcome_def idle_def)
next
  case (Cons x cs)
  obtain c ps where x: "x = (c, ps)"
    by fastforce
  let ?t = "write_params 0 ps t"
  let ?p = "d_completion_submission (tr_descriptor t)"
  have ps: "length ps = 8" "list_all (\<lambda>(c, ps). length ps = 8) cs"
    using Cons(3) by (simp_all add: x)
  note w = write_params_idle [OF Cons(2) ps(1)]
  obtain r n t1 rs1 where run: "cxl_gpu_transport_execute c ?t = Some (r, n, t1)"
      "command_run cs t1 = Some (rs1, t')" "rs = r # rs1"
    using Cons(5) by (auto simp: x split: option.splits)
  have "?p \<noteq> UINT64_MAX"
    using Cons(4) by auto
  then have "d_completion_submission (tr_descriptor ?t) \<noteq> UINT64_MAX"
    by (simp add: w)
  note ex = execute_answers [OF w(1) this run(1), unfolded w(2-)]
  obtain d where d: "tr_rung t1 = tr_rung t @ [d]" "request_sent d = (?p + 1, ucast c, ps)"
    using ex(1) by auto
  show ?case
  proof (cases "tr_unusable t1")
    case True
    then have "rs1 = replicate (length cs) CXL_GPU_ERROR_UNKNOWN" "t' = t1"
      using run(2) command_run_unusable by simp_all
    then show ?thesis
      unfolding run_outcome_def using True d run(3)
      by (intro exI [of _ 0] exI [of _ "[d]"]) (simp add: x)
  next
    case False
    note ok = ex(3) [OF False]
    have p1: "unat (?p + 1) = unat ?p + 1"
      using Cons(4) by (subst unat_add_u64) simp_all
    have "run_outcome answer cs t1 rs1 t'"
      using ok Cons(4) p1 by (intro Cons(1) [OF _ ps(2) _ run(2)]) simp_all
    then obtain k ds where "k \<le> length cs" "tr_unusable t' \<longleftrightarrow> k < length cs"
        "take k rs1 = map (\<lambda>(c, ps). ucast (answer (ucast c) ps)) (take k cs)"
        "drop (Suc k) rs1 = replicate (length cs - Suc k) CXL_GPU_ERROR_UNKNOWN"
        "tr_rung t' = tr_rung t1 @ ds"
        "map request_sent ds = requests (d_completion_submission (tr_descriptor t1) + 1) (take (Suc k) cs)"
      by (auto simp: run_outcome_def)
    then show ?thesis
      unfolding run_outcome_def using d run(3) ok
      by (intro exI [of _ "Suc k"] exI [of _ "d # ds"]) (simp add: x)
  qed
qed


text \<open>A device that answers every request at the next poll with the sum of command and first parameter.\<close>

definition prompt_device :: "nat \<Rightarrow> bar2 \<Rightarrow> bar2" where
  "prompt_device k b = b\<lparr>b_descriptor := (b_descriptor b)\<lparr>
       d_completion_submission := d_request_submission (b_descriptor b),
       d_completion_device_generation := d_request_device_generation (b_descriptor b),
       d_completion_status := CXL_GPU_DESCRIPTOR_COMPLETION_COMPLETE,
       d_result := d_request_command (b_descriptor b) + hd (d_params (b_descriptor b))\<rparr>\<rparr>"

definition new_descriptor :: CXLGPURAMCommandDescriptor where
  "new_descriptor = \<lparr>d_protocol_version = 0, d_descriptor_size = 0, d_request_submission = 0,
     d_request_device_generation = 0, d_request_command = 0, d_request_call_id = 0, d_request_case_epoch = 0,
     d_params = replicate 8 0, d_completion_submission = 0, d_completion_device_generation = 0,
     d_completion_status = 0, d_result = 0, d_results = replicate 4 0, d_active_case_epoch = 0,
     d_device_generation = 1\<rparr>"

definition new_transport :: "(nat \<Rightarrow> bar2 \<Rightarrow> bar2) \<Rightarrow> (nat \<Rightarrow> u64) \<Rightarrow> CxlGpuTransport" where
  "new_transport device clock = \<lparr>tr_mapped = True, tr_pci_fd = 3, tr_bar_size = 0x2802000, tr_unusable = False,
     tr_bar2 = \<lparr>b_regs = \<lambda>i. 0, b_data = \<lambda>i. 0, b_descriptor = new_descriptor, b_batch_data = \<lambda>i. 0\<rparr>,
     tr_device = device, tr_polls = 0, tr_clock = clock, tr_clock_reads = 0, tr_rung = []\<rparr>"

definition example_commands :: "(u32 \<times> u64 list) list" where
  "example_commands = [(0x40, [7, 0, 0, 0, 0, 0, 0, 0]), (0x10, [5, 0, 0, 0, 0, 0, 0, 0])]"

lemma prompt_conforming: "conforming (\<lambda>c ps. c + hd ps) prompt_device"
  by (simp add: conforming_def prompt_device_def request_of_def Let_def)

lemma execute_first_poll:
  fixes c :: u32
  assumes "tr_mapped t" "\<not> tr_unusable t" "d_device_generation (tr_descriptor t) \<noteq> 0"
    and "d_completion_submission (tr_descriptor t) \<noteq> UINT64_MAX"
  defines "t1 \<equiv> observe (submit (d_completion_submission (tr_descriptor t) + 1) (d_device_generation (tr_descriptor t)) c t)"
  assumes "completed (d_completion_submission (tr_descriptor t) + 1) (d_device_generation (tr_descriptor t)) (tr_descriptor t1)"
    and "d_completion_status (tr_descriptor t1) \<noteq> CXL_GPU_DESCRIPTOR_COMPLETION_ERROR"
  shows "cxl_gpu_transport_execute c t = Some (ucast (d_result (tr_descriptor t1)), 1, t1)"
  using assms(1-4) assms(6,7) unfolding t1_def
  by (simp add: cxl_gpu_transport_execute_def Let_def) (subst poll_loop.simps, simp add: Let_def)

lemma prompt_execute:
  assumes "tr_device t = prompt_device" "tr_mapped t" "\<not> tr_unusable t" "d_device_generation (tr_descriptor t) \<noteq> 0"
    and "d_completion_submission (tr_descriptor t) \<noteq> UINT64_MAX"
  shows "cxl_gpu_transport_execute c t
       = Some (ucast (ucast c + hd (d_params (tr_descriptor t))), 1,
               observe (submit (d_completion_submission (tr_descriptor t) + 1) (d_device_generation (tr_descriptor t)) c t))"
  using assms
  by (subst execute_first_poll) (simp_all add: observe_def prompt_device_def completed_def submit_def Let_def)

lemma example_commands_run:
  "\<exists>t'. command_run example_commands (new_transport prompt_device (\<lambda>k. 1)) = Some ([0x47, 0x15], t')"
  by (simp add: example_commands_def write_params_set new_transport_def new_descriptor_def prompt_execute
      observe_def submit_def Let_def prompt_device_def upd_descriptor_def set_regs_def
      del: write_params.simps)


text \<open>Spinning polls left before the next clock reading; the poll counter may wrap.\<close>

definition spins_left :: "u32 \<Rightarrow> nat" where
  "spins_left polls = 64 - unat (polls + 1)"

lemma spins_left_dec:
  assumes "\<not> 64 \<le> polls + 1" shows "spins_left (polls + 1) < spins_left polls"
proof -
  have lt: "unat (polls + 1) < 64"
    using assms by (simp add: word_le_nat_alt)
  have "unat (polls + 1 + 1) = unat (polls + 1) + 1"
    using lt unat_add_no_wrap [of "polls + 1" 1] by simp
  then show ?thesis
    using lt by (simp add: spins_left_def)
qed

lemma poll_loop_returns:
  assumes "deadline \<noteq> 0" "tr_clock_reads t \<le> k" "tr_clock t k = 0 \<or> deadline \<le> tr_clock t k"
  shows "\<exists>y. poll_loop s g polls deadline t = Some y"
  using assms
proof (induction "(k - tr_clock_reads t) * 65 + spins_left polls" arbitrary: polls t rule: less_induct)
  case less
  let ?now = "tr_clock t (tr_clock_reads t)"
  let ?t2 = "(observe t)\<lparr>tr_clock_reads := Suc (tr_clock_reads t)\<rparr>"
  have spins: "\<exists>y. poll_loop s g (polls + 1) deadline (observe t) = Some y" if "\<not> 64 \<le> polls + 1"
    using that spins_left_dec [OF that] less(2-) by (intro less(1)) simp_all
  have reads: "\<exists>y. poll_loop s g (polls + 1) deadline ?t2 = Some y" if "?now \<noteq> 0" "\<not> deadline \<le> ?now"
  proof (rule less(1))
    have "tr_clock_reads t \<noteq> k"
      using that less(4) by blast
    then have "k - tr_clock_reads t = Suc (k - tr_clock_reads ?t2)"
      using less(3) by simp
    moreover have "spins_left (polls + 1) \<le> 64"
      by (simp add: spins_left_def)
    ultimately show "(k - tr_clock_reads ?t2) * 65 + spins_left (polls + 1) < (k - tr_clock_reads t) * 65 + spins_left polls"
      by simp
    show "tr_clock_reads ?t2 \<le> k"
      using less(3) \<open>tr_clock_reads t \<noteq> k\<close> by simp
  qed (use less(2-) in simp_all)
  show ?case
    using spins reads less(2)
    by (subst poll_loop.simps) (simp add: Let_def monotonic_ns_def fail_stop_def)
qed

text \<open>
  C35: A command always returns. Whatever the device does, if the clock runs - some later reading
  reports a failure or has passed the first reading by the sixty seconds of the timeout - the
  polling loop ends, even if the poll counter wraps around.
\<close>

theorem execute_returns:
  assumes "unat (tr_clock t (tr_clock_reads t)) + 60000000000 < 18446744073709551616"
    and "tr_clock_reads t < k"
    and "tr_clock t k = 0 \<or> tr_clock t (tr_clock_reads t) + 60000000000 \<le> tr_clock t k"
  shows "\<exists>r polls t'. cxl_gpu_transport_execute command t = Some (r, polls, t')"
proof -
  let ?now = "tr_clock t (tr_clock_reads t)"
  have "?now + 60000000000 \<noteq> 0"
    using assms(1) unat_add_u64 [of ?now 60000000000] by (auto simp: unat_eq_zero [symmetric])
  then have "\<exists>y. poll_loop s g (0 + 1) (?now + 60000000000) ((observe (submit s g command t))\<lparr>tr_clock_reads := Suc (tr_clock_reads t)\<rparr>) = Some y" for s g
    using assms by (intro poll_loop_returns [where k = k]) simp_all
  moreover have "\<not> 64 \<le> (1 :: u32)"
    by (simp add: word_le_nat_alt)
  ultimately have "\<exists>y. poll_loop s g 0 0 (submit s g command t) = Some y" for s g
    by (subst poll_loop.simps) (simp add: Let_def monotonic_ns_def fail_stop_def)
  then show ?thesis
    by (simp add: cxl_gpu_transport_execute_def fail_stop_def Let_def)
qed

theorem execute_returns_witness:
  "\<exists>r polls t'. cxl_gpu_transport_execute 0x40
     (new_transport (\<lambda>k b. b) (\<lambda>k. if k < 100 then 5 else 60000000005)) = Some (r, polls, t')"
  by (rule execute_returns [where k = 100]) (simp_all add: new_transport_def)

end
