(* ===== verification/GPU_Context.thy ===== *)
theory GPU_Context
  imports Prelude
begin

text \<open>
  Context bookkeeping of the guest GPU library,
  \<open>src/qemu_integration/guest_libcuda/cxl_gpu_context_state.c\<close>.

  The process has one context token and a mode behind a lock; every thread has a depth of its
  own in thread-local storage, a counter that stands for its stack of current contexts. Every
  function runs under the lock, so it is one atomic step; \<open>g_current_depth\<close> maps a thread to its
  depth. An output pointer that may be null is a flag of the call, and the value written through
  it an \<^typ>\<open>'a option\<close>.

  The specification keeps for each thread an explicit stack of tokens and counts retains as a
  natural number. The refinement theorem shows that the depths are enough: every call returns what
  the stacks would return, for every interleaving of any number of threads.
\<close>

section \<open>State\<close>

type_synonym thread = nat
type_synonym CUresult = int

abbreviation (input) CXL_CUDA_SUCCESS :: CUresult where "CXL_CUDA_SUCCESS \<equiv> 0"
abbreviation (input) CXL_CUDA_ERROR_OUT_OF_MEMORY :: CUresult where "CXL_CUDA_ERROR_OUT_OF_MEMORY \<equiv> 2"
abbreviation (input) CXL_CUDA_ERROR_INVALID_CONTEXT :: CUresult where "CXL_CUDA_ERROR_INVALID_CONTEXT \<equiv> 201"
abbreviation (input) CXL_CUDA_ERROR_PRIMARY_CONTEXT_ACTIVE :: CUresult where "CXL_CUDA_ERROR_PRIMARY_CONTEXT_ACTIVE \<equiv> 708"
abbreviation (input) CXL_CUDA_ERROR_CONTEXT_IS_DESTROYED :: CUresult where "CXL_CUDA_ERROR_CONTEXT_IS_DESTROYED \<equiv> 709"
abbreviation (input) CXL_CUDA_ERROR_NOT_SUPPORTED :: CUresult where "CXL_CUDA_ERROR_NOT_SUPPORTED \<equiv> 801"

datatype CxlCudaContextMode =
    CXL_CUDA_CONTEXT_EMPTY
  | CXL_CUDA_CONTEXT_ORDINARY_LIVE
  | CXL_CUDA_CONTEXT_ORDINARY_DESTROYED
  | CXL_CUDA_CONTEXT_PRIMARY_LIVE
  | CXL_CUDA_CONTEXT_PRIMARY_INACTIVE

record CxlCudaContextProcessState =
  g_token :: u64
  g_mode :: CxlCudaContextMode
  g_primary_retain_count :: u32
  g_current_depth :: "thread \<Rightarrow> u32"

definition new_context_state :: CxlCudaContextProcessState where
  "new_context_state = \<lparr>g_token = 0, g_mode = CXL_CUDA_CONTEXT_EMPTY, g_primary_retain_count = 0,
     g_current_depth = \<lambda>t. 0\<rparr>"

definition set_depth :: "thread \<Rightarrow> u32 \<Rightarrow> CxlCudaContextProcessState \<Rightarrow> CxlCudaContextProcessState" where
  "set_depth t d s = s\<lparr>g_current_depth := (g_current_depth s)(t := d)\<rparr>"

definition token_is_live_locked :: "u64 \<Rightarrow> CxlCudaContextProcessState \<Rightarrow> bool" where
  "token_is_live_locked token s \<longleftrightarrow> token \<noteq> 0 \<and> token = g_token s
     \<and> (g_mode s = CXL_CUDA_CONTEXT_ORDINARY_LIVE \<or> g_mode s = CXL_CUDA_CONTEXT_PRIMARY_LIVE)"


section \<open>Operations\<close>

definition cxl_cuda_context_state_reset :: "thread \<Rightarrow> CxlCudaContextProcessState \<Rightarrow> CxlCudaContextProcessState" where
  "cxl_cuda_context_state_reset t s =
     set_depth t 0 (s\<lparr>g_token := 0, g_mode := CXL_CUDA_CONTEXT_EMPTY, g_primary_retain_count := 0\<rparr>)"

definition cxl_cuda_context_state_view :: "thread \<Rightarrow> CxlCudaContextProcessState \<Rightarrow> u64 \<times> CxlCudaContextMode \<times> u32 \<times> u32" where
  "cxl_cuda_context_state_view t s = (g_token s, g_mode s, g_primary_retain_count s, g_current_depth s t)"

definition cxl_cuda_context_prepare_ordinary_create :: "CxlCudaContextProcessState \<Rightarrow> CUresult" where
  "cxl_cuda_context_prepare_ordinary_create s =
     (if g_mode s \<noteq> CXL_CUDA_CONTEXT_EMPTY then CXL_CUDA_ERROR_NOT_SUPPORTED else CXL_CUDA_SUCCESS)"

definition cxl_cuda_context_commit_ordinary_create ::
    "thread \<Rightarrow> u64 \<Rightarrow> CxlCudaContextProcessState \<Rightarrow> CUresult \<times> CxlCudaContextProcessState" where
  "cxl_cuda_context_commit_ordinary_create t token s =
     (if token = 0 \<or> g_mode s \<noteq> CXL_CUDA_CONTEXT_EMPTY then (CXL_CUDA_ERROR_NOT_SUPPORTED, s)
      else (CXL_CUDA_SUCCESS,
            set_depth t 1 (s\<lparr>g_token := token, g_mode := CXL_CUDA_CONTEXT_ORDINARY_LIVE\<rparr>)))"

text \<open>The outputs are \<open>needs_create\<close> and \<open>existing_token\<close>.\<close>

definition cxl_cuda_context_prepare_primary_retain ::
    "bool \<Rightarrow> CxlCudaContextProcessState \<Rightarrow> CUresult \<times> (bool \<times> u64) option \<times> CxlCudaContextProcessState" where
  "cxl_cuda_context_prepare_primary_retain out_null s =
     (if out_null then (CXL_CUDA_ERROR_INVALID_CONTEXT, None, s)
      else case g_mode s of
        CXL_CUDA_CONTEXT_EMPTY \<Rightarrow> (CXL_CUDA_SUCCESS, Some (True, 0), s)
      | CXL_CUDA_CONTEXT_PRIMARY_LIVE \<Rightarrow>
          (CXL_CUDA_SUCCESS, Some (False, g_token s),
           s\<lparr>g_primary_retain_count := g_primary_retain_count s + 1\<rparr>)
      | _ \<Rightarrow> (CXL_CUDA_ERROR_NOT_SUPPORTED, None, s))"

definition cxl_cuda_context_commit_primary_retain ::
    "u64 \<Rightarrow> CxlCudaContextProcessState \<Rightarrow> CUresult \<times> CxlCudaContextProcessState" where
  "cxl_cuda_context_commit_primary_retain token s =
     (if token = 0 \<or> g_mode s \<noteq> CXL_CUDA_CONTEXT_EMPTY then (CXL_CUDA_ERROR_NOT_SUPPORTED, s)
      else (CXL_CUDA_SUCCESS,
            s\<lparr>g_token := token, g_mode := CXL_CUDA_CONTEXT_PRIMARY_LIVE, g_primary_retain_count := 1\<rparr>))"

definition cxl_cuda_context_primary_release ::
    "CxlCudaContextProcessState \<Rightarrow> CUresult \<times> CxlCudaContextProcessState" where
  "cxl_cuda_context_primary_release s =
     (if g_mode s \<noteq> CXL_CUDA_CONTEXT_PRIMARY_LIVE \<or> g_primary_retain_count s = 0
      then (CXL_CUDA_ERROR_INVALID_CONTEXT, s)
      else
        let s1 = s\<lparr>g_primary_retain_count := g_primary_retain_count s - 1\<rparr> in
        (CXL_CUDA_SUCCESS,
         if g_primary_retain_count s1 = 0 then s1\<lparr>g_mode := CXL_CUDA_CONTEXT_PRIMARY_INACTIVE\<rparr> else s1))"

definition cxl_cuda_context_primary_set_zero_flags :: "CxlCudaContextProcessState \<Rightarrow> CUresult" where
  "cxl_cuda_context_primary_set_zero_flags s =
     (case g_mode s of
        CXL_CUDA_CONTEXT_EMPTY \<Rightarrow> CXL_CUDA_SUCCESS
      | CXL_CUDA_CONTEXT_PRIMARY_LIVE \<Rightarrow> CXL_CUDA_ERROR_PRIMARY_CONTEXT_ACTIVE
      | _ \<Rightarrow> CXL_CUDA_ERROR_NOT_SUPPORTED)"

text \<open>The outputs are \<open>flags\<close> and \<open>active\<close>.\<close>

definition cxl_cuda_context_primary_get_state ::
    "bool \<Rightarrow> CxlCudaContextProcessState \<Rightarrow> CUresult \<times> (u32 \<times> int) option" where
  "cxl_cuda_context_primary_get_state out_null s =
     (if out_null then (CXL_CUDA_ERROR_INVALID_CONTEXT, None)
      else (CXL_CUDA_SUCCESS, Some (0, if g_mode s = CXL_CUDA_CONTEXT_PRIMARY_LIVE then 1 else 0)))"

definition cxl_cuda_context_primary_reset :: "CxlCudaContextProcessState \<Rightarrow> CUresult" where
  "cxl_cuda_context_primary_reset s =
     (if g_mode s = CXL_CUDA_CONTEXT_PRIMARY_LIVE then CXL_CUDA_ERROR_PRIMARY_CONTEXT_ACTIVE else CXL_CUDA_SUCCESS)"

definition cxl_cuda_context_prepare_destroy :: "u64 \<Rightarrow> CxlCudaContextProcessState \<Rightarrow> CUresult" where
  "cxl_cuda_context_prepare_destroy token s =
     (if \<not> token_is_live_locked token s \<or> g_mode s \<noteq> CXL_CUDA_CONTEXT_ORDINARY_LIVE
      then CXL_CUDA_ERROR_INVALID_CONTEXT else CXL_CUDA_SUCCESS)"

definition cxl_cuda_context_commit_destroy ::
    "thread \<Rightarrow> u64 \<Rightarrow> CxlCudaContextProcessState \<Rightarrow> CUresult \<times> CxlCudaContextProcessState" where
  "cxl_cuda_context_commit_destroy t token s =
     (if \<not> token_is_live_locked token s \<or> g_mode s \<noteq> CXL_CUDA_CONTEXT_ORDINARY_LIVE
      then (CXL_CUDA_ERROR_INVALID_CONTEXT, s)
      else
        let s1 = s\<lparr>g_mode := CXL_CUDA_CONTEXT_ORDINARY_DESTROYED\<rparr> in
        (CXL_CUDA_SUCCESS,
         if g_current_depth s1 t > 0 then set_depth t (g_current_depth s1 t - 1) s1 else s1))"

definition cxl_cuda_context_get_current :: "thread \<Rightarrow> bool \<Rightarrow> CxlCudaContextProcessState \<Rightarrow> CUresult \<times> u64 option" where
  "cxl_cuda_context_get_current t out_null s =
     (if out_null then (CXL_CUDA_ERROR_INVALID_CONTEXT, None)
      else (CXL_CUDA_SUCCESS, Some (if g_current_depth s t = 0 then 0 else g_token s)))"

definition cxl_cuda_context_set_current ::
    "thread \<Rightarrow> u64 \<Rightarrow> CxlCudaContextProcessState \<Rightarrow> CUresult \<times> CxlCudaContextProcessState" where
  "cxl_cuda_context_set_current t token s =
     (if token = 0
      then (CXL_CUDA_SUCCESS, if g_current_depth s t > 0 then set_depth t (g_current_depth s t - 1) s else s)
      else if \<not> token_is_live_locked token s then (CXL_CUDA_ERROR_INVALID_CONTEXT, s)
      else (CXL_CUDA_SUCCESS, if g_current_depth s t = 0 then set_depth t 1 s else s))"

definition cxl_cuda_context_push_current ::
    "thread \<Rightarrow> u64 \<Rightarrow> CxlCudaContextProcessState \<Rightarrow> CUresult \<times> CxlCudaContextProcessState" where
  "cxl_cuda_context_push_current t token s =
     (if \<not> token_is_live_locked token s then (CXL_CUDA_ERROR_INVALID_CONTEXT, s)
      else if g_current_depth s t = UINT32_MAX then (CXL_CUDA_ERROR_OUT_OF_MEMORY, s)
      else (CXL_CUDA_SUCCESS, set_depth t (g_current_depth s t + 1) s))"

definition cxl_cuda_context_pop_current ::
    "thread \<Rightarrow> bool \<Rightarrow> CxlCudaContextProcessState \<Rightarrow> CUresult \<times> u64 option \<times> CxlCudaContextProcessState" where
  "cxl_cuda_context_pop_current t out_null s =
     (if out_null \<or> g_current_depth s t = 0 then (CXL_CUDA_ERROR_INVALID_CONTEXT, None, s)
      else (CXL_CUDA_SUCCESS, Some (g_token s), set_depth t (g_current_depth s t - 1) s))"

definition cxl_cuda_context_get_current_live ::
    "thread \<Rightarrow> bool \<Rightarrow> CxlCudaContextProcessState \<Rightarrow> CUresult \<times> u64 option" where
  "cxl_cuda_context_get_current_live t out_null s =
     (if out_null \<or> g_current_depth s t = 0 then (CXL_CUDA_ERROR_INVALID_CONTEXT, None)
      else if g_mode s = CXL_CUDA_CONTEXT_ORDINARY_DESTROYED \<or> g_mode s = CXL_CUDA_CONTEXT_PRIMARY_INACTIVE
      then (CXL_CUDA_ERROR_CONTEXT_IS_DESTROYED, None)
      else if \<not> token_is_live_locked (g_token s) s then (CXL_CUDA_ERROR_INVALID_CONTEXT, None)
      else (CXL_CUDA_SUCCESS, Some (g_token s)))"


section \<open>Runs of calls\<close>

datatype ctx_op =
    Op_create u64
  | Op_prepare_retain
  | Op_commit_retain u64
  | Op_release
  | Op_set_zero_flags
  | Op_get_state
  | Op_primary_reset
  | Op_destroy u64
  | Op_get_current
  | Op_set_current u64
  | Op_push_current u64
  | Op_pop_current
  | Op_get_current_live

text \<open>A call by a thread returns its result code and the token it hands out, if any.\<close>

fun ctx_step :: "thread \<Rightarrow> ctx_op \<Rightarrow> CxlCudaContextProcessState
    \<Rightarrow> (CUresult \<times> u64 option) \<times> CxlCudaContextProcessState" where
  "ctx_step t (Op_create token) s =
     (let (r, s1) = cxl_cuda_context_commit_ordinary_create t token s in ((r, None), s1))"
| "ctx_step t Op_prepare_retain s =
     (let (r, out, s1) = cxl_cuda_context_prepare_primary_retain False s in ((r, map_option snd out), s1))"
| "ctx_step t (Op_commit_retain token) s =
     (let (r, s1) = cxl_cuda_context_commit_primary_retain token s in ((r, None), s1))"
| "ctx_step t Op_release s = (let (r, s1) = cxl_cuda_context_primary_release s in ((r, None), s1))"
| "ctx_step t Op_set_zero_flags s = ((cxl_cuda_context_primary_set_zero_flags s, None), s)"
| "ctx_step t Op_get_state s =
     (let (r, out) = cxl_cuda_context_primary_get_state False s in
      ((r, map_option (\<lambda>(flags, active). word_of_int active) out), s))"
| "ctx_step t Op_primary_reset s = ((cxl_cuda_context_primary_reset s, None), s)"
| "ctx_step t (Op_destroy token) s =
     (let (r, s1) = cxl_cuda_context_commit_destroy t token s in ((r, None), s1))"
| "ctx_step t Op_get_current s = (cxl_cuda_context_get_current t False s, s)"
| "ctx_step t (Op_set_current token) s =
     (let (r, s1) = cxl_cuda_context_set_current t token s in ((r, None), s1))"
| "ctx_step t (Op_push_current token) s =
     (let (r, s1) = cxl_cuda_context_push_current t token s in ((r, None), s1))"
| "ctx_step t Op_pop_current s =
     (let (r, out, s1) = cxl_cuda_context_pop_current t False s in ((r, out), s1))"
| "ctx_step t Op_get_current_live s = (cxl_cuda_context_get_current_live t False s, s)"

fun ctx_run :: "(thread \<times> ctx_op) list \<Rightarrow> CxlCudaContextProcessState
    \<Rightarrow> (CUresult \<times> u64 option) list \<times> CxlCudaContextProcessState" where
  "ctx_run [] s = ([], s)"
| "ctx_run ((t, p) # ps) s = (let (r, s1) = ctx_step t p s; (rs, s2) = ctx_run ps s1 in (r # rs, s2))"


section \<open>Specification\<close>

datatype life =
    Unused
  | Ordinary (life_token: u64) (life_live: bool)
  | Primary (life_token: u64) (life_retains: nat)

text \<open>The context of the process and, for each thread, its stack of current tokens.\<close>

type_synonym ctx_spec = "life \<times> (thread \<Rightarrow> u64 list)"

fun alive :: "u64 \<Rightarrow> life \<Rightarrow> bool" where
  "alive token Unused = False"
| "alive token (Ordinary x l) = (token = x \<and> l)"
| "alive token (Primary x n) = (token = x \<and> 0 < n)"

fun spec_call :: "thread \<Rightarrow> ctx_op \<Rightarrow> ctx_spec \<Rightarrow> (CUresult \<times> u64 option) \<times> ctx_spec" where
  "spec_call t (Op_create token) (l, st) =
     (if token = 0 \<or> l \<noteq> Unused then ((CXL_CUDA_ERROR_NOT_SUPPORTED, None), (l, st))
      else ((CXL_CUDA_SUCCESS, None), (Ordinary token True, st(t := token # st t))))"
| "spec_call t Op_prepare_retain (l, st) =
     (case l of
        Unused \<Rightarrow> ((CXL_CUDA_SUCCESS, Some 0), (l, st))
      | Primary x (Suc n) \<Rightarrow> ((CXL_CUDA_SUCCESS, Some x), (Primary x (Suc (Suc n)), st))
      | _ \<Rightarrow> ((CXL_CUDA_ERROR_NOT_SUPPORTED, None), (l, st)))"
| "spec_call t (Op_commit_retain token) (l, st) =
     (if token = 0 \<or> l \<noteq> Unused then ((CXL_CUDA_ERROR_NOT_SUPPORTED, None), (l, st))
      else ((CXL_CUDA_SUCCESS, None), (Primary token 1, st)))"
| "spec_call t Op_release (l, st) =
     (case l of
        Primary x (Suc n) \<Rightarrow> ((CXL_CUDA_SUCCESS, None), (Primary x n, st))
      | _ \<Rightarrow> ((CXL_CUDA_ERROR_INVALID_CONTEXT, None), (l, st)))"
| "spec_call t Op_set_zero_flags (l, st) =
     ((case l of Unused \<Rightarrow> CXL_CUDA_SUCCESS
       | Primary x (Suc n) \<Rightarrow> CXL_CUDA_ERROR_PRIMARY_CONTEXT_ACTIVE
       | _ \<Rightarrow> CXL_CUDA_ERROR_NOT_SUPPORTED, None), (l, st))"
| "spec_call t Op_get_state (l, st) =
     ((CXL_CUDA_SUCCESS, Some (case l of Primary x (Suc n) \<Rightarrow> 1 | _ \<Rightarrow> 0)), (l, st))"
| "spec_call t Op_primary_reset (l, st) =
     ((case l of Primary x (Suc n) \<Rightarrow> CXL_CUDA_ERROR_PRIMARY_CONTEXT_ACTIVE | _ \<Rightarrow> CXL_CUDA_SUCCESS, None), (l, st))"
| "spec_call t (Op_destroy token) (l, st) =
     (if l = Ordinary token True then ((CXL_CUDA_SUCCESS, None), (Ordinary token False, st(t := tl (st t))))
      else ((CXL_CUDA_ERROR_INVALID_CONTEXT, None), (l, st)))"
| "spec_call t Op_get_current (l, st) =
     ((CXL_CUDA_SUCCESS, Some (case st t of [] \<Rightarrow> 0 | x # xs \<Rightarrow> x)), (l, st))"
| "spec_call t (Op_set_current token) (l, st) =
     (if token = 0 then ((CXL_CUDA_SUCCESS, None), (l, st(t := tl (st t))))
      else if \<not> alive token l then ((CXL_CUDA_ERROR_INVALID_CONTEXT, None), (l, st))
      else ((CXL_CUDA_SUCCESS, None), (l, st(t := token # tl (st t)))))"
| "spec_call t (Op_push_current token) (l, st) =
     (if \<not> alive token l then ((CXL_CUDA_ERROR_INVALID_CONTEXT, None), (l, st))
      else if length (st t) = 4294967295 then ((CXL_CUDA_ERROR_OUT_OF_MEMORY, None), (l, st))
      else ((CXL_CUDA_SUCCESS, None), (l, st(t := token # st t))))"
| "spec_call t Op_pop_current (l, st) =
     (case st t of
        [] \<Rightarrow> ((CXL_CUDA_ERROR_INVALID_CONTEXT, None), (l, st))
      | x # xs \<Rightarrow> ((CXL_CUDA_SUCCESS, Some x), (l, st(t := xs))))"
| "spec_call t Op_get_current_live (l, st) =
     ((case st t of
         [] \<Rightarrow> (CXL_CUDA_ERROR_INVALID_CONTEXT, None)
       | x # xs \<Rightarrow> if alive x l then (CXL_CUDA_SUCCESS, Some x) else (CXL_CUDA_ERROR_CONTEXT_IS_DESTROYED, None)),
      (l, st))"

fun spec_calls :: "(thread \<times> ctx_op) list \<Rightarrow> ctx_spec \<Rightarrow> (CUresult \<times> u64 option) list \<times> ctx_spec" where
  "spec_calls [] l = ([], l)"
| "spec_calls ((t, p) # ps) l = (let (r, l1) = spec_call t p l; (rs, l2) = spec_calls ps l1 in (r # rs, l2))"


section \<open>Refinement\<close>

fun life_of :: "CxlCudaContextProcessState \<Rightarrow> life \<Rightarrow> bool" where
  "life_of s Unused = (g_mode s = CXL_CUDA_CONTEXT_EMPTY)"
| "life_of s (Ordinary x l) = (g_mode s = (if l then CXL_CUDA_CONTEXT_ORDINARY_LIVE else CXL_CUDA_CONTEXT_ORDINARY_DESTROYED)
     \<and> g_token s = x \<and> x \<noteq> 0)"
| "life_of s (Primary x n) = (g_mode s = (if 0 < n then CXL_CUDA_CONTEXT_PRIMARY_LIVE else CXL_CUDA_CONTEXT_PRIMARY_INACTIVE)
     \<and> g_token s = x \<and> x \<noteq> 0 \<and> unat (g_primary_retain_count s) = n)"

definition ctx_rel :: "CxlCudaContextProcessState \<Rightarrow> ctx_spec \<Rightarrow> bool" where
  "ctx_rel s l \<longleftrightarrow> life_of s (fst l)
     \<and> (\<forall>t. snd l t = replicate (unat (g_current_depth s t)) (g_token s))
     \<and> (fst l = Unused \<longrightarrow> (\<forall>t. g_current_depth s t = 0))"

lemma ctx_relD:
  assumes "ctx_rel s (l, st)"
  shows "life_of s l" "st t = replicate (unat (g_current_depth s t)) (g_token s)"
    "l = Unused \<Longrightarrow> g_current_depth s t = 0"
  using assms by (simp_all add: ctx_rel_def)

lemma alive_iff: "life_of s l \<Longrightarrow> alive x l \<longleftrightarrow> token_is_live_locked x s"
  by (cases l) (auto simp: token_is_live_locked_def)

lemma unat_0_iff: "unat (w :: u32) = 0 \<longleftrightarrow> w = 0"
  by (rule unat_eq_zero)

fun retains :: "ctx_op \<Rightarrow> bool" where
  "retains Op_prepare_retain = True"
| "retains _ = False"

definition retain_count :: "life \<Rightarrow> nat" where
  "retain_count l = (case l of Primary x n \<Rightarrow> n | _ \<Rightarrow> 0)"

lemma unat_u32_max: "unat (w :: u32) = 4294967295 \<longleftrightarrow> w = UINT32_MAX"
  by (simp add: word_unat_eq_iff)

lemma life_of_set_depth [simp]: "life_of (set_depth t d s) l = life_of s l"
  by (cases l) (simp_all add: set_depth_def)

lemma ctx_rel_depth:
  assumes "ctx_rel s (l, st)" "xs = replicate (unat d) (g_token s)" "l = Unused \<Longrightarrow> d = 0"
  shows "ctx_rel (set_depth t d s) (l, st(t := xs))"
proof -
  have "life_of (set_depth t d s) l"
    using assms(1) by (simp add: ctx_rel_def)
  then show ?thesis
    using assms unfolding ctx_rel_def by (simp add: set_depth_def)
qed

lemma replicate_push: "d \<noteq> UINT32_MAX \<Longrightarrow> replicate (unat (d + 1)) x = x # replicate (unat d) x" for d :: u32
proof -
  assume "d \<noteq> UINT32_MAX"
  then have "unat d \<noteq> 4294967295"
    by (simp add: unat_u32_max)
  then have "unat d + 1 < 4294967296"
    using unat_u32_lt [of d] by linarith
  then have "unat (d + 1) = Suc (unat d)"
    using unat_add_no_wrap [of d 1] by simp
  then show ?thesis
    by simp
qed

lemma replicate_pop: "replicate (unat (d - 1)) x = tl (replicate (unat d) x)" if "d \<noteq> 0" for d :: u32
  using unat_pred [OF that] by (cases "unat d") simp_all

text \<open>One call: same result, related states.\<close>

definition sim :: "thread \<Rightarrow> ctx_op \<Rightarrow> CxlCudaContextProcessState \<Rightarrow> ctx_spec \<Rightarrow> bool" where
  "sim t p s l \<longleftrightarrow> fst (ctx_step t p s) = fst (spec_call t p l) \<and> ctx_rel (snd (ctx_step t p s)) (snd (spec_call t p l))"

lemma unused_iff: "life_of s l \<Longrightarrow> g_mode s = CXL_CUDA_CONTEXT_EMPTY \<longleftrightarrow> l = Unused"
  by (cases l) auto

lemma primary_live_iff:
  "life_of s l \<Longrightarrow> g_mode s = CXL_CUDA_CONTEXT_PRIMARY_LIVE \<longleftrightarrow> (\<exists>n. l = Primary (g_token s) (Suc n))"
  by (cases l) (auto simp: gr0_conv_Suc)

lemma ordinary_live_iff:
  "life_of s l \<Longrightarrow> l = Ordinary x True \<longleftrightarrow> token_is_live_locked x s \<and> g_mode s = CXL_CUDA_CONTEXT_ORDINARY_LIVE"
  by (cases l) (auto simp: token_is_live_locked_def)

lemma sim_create:
  assumes "ctx_rel s (l, st)" shows "sim t (Op_create x) s (l, st)" "sim t (Op_commit_retain x) s (l, st)"
  using assms unused_iff [OF ctx_relD(1) [OF assms]]
  by (auto simp: sim_def cxl_cuda_context_commit_ordinary_create_def cxl_cuda_context_commit_primary_retain_def
      ctx_rel_def set_depth_def)

lemma sim_retain:
  assumes "ctx_rel s (l, st)" "Suc (retain_count l) < 4294967296" shows "sim t Op_prepare_retain s (l, st)"
proof (cases l)
  case (Primary x n)
  show ?thesis
  proof (cases n)
    case (Suc m)
    have "unat (g_primary_retain_count s + 1) = Suc (Suc m)"
      using assms Primary Suc unat_add_no_wrap [of "g_primary_retain_count s" 1]
      by (simp add: ctx_rel_def retain_count_def)
    then show ?thesis
      using assms Primary Suc by (auto simp: sim_def cxl_cuda_context_prepare_primary_retain_def ctx_rel_def)
  qed (use assms Primary in \<open>auto simp: sim_def cxl_cuda_context_prepare_primary_retain_def ctx_rel_def\<close>)
qed (use assms in \<open>auto simp: sim_def cxl_cuda_context_prepare_primary_retain_def ctx_rel_def split: if_splits\<close>)

lemma sim_release:
  assumes "ctx_rel s (l, st)" shows "sim t Op_release s (l, st)"
proof (cases l)
  case (Primary x n)
  show ?thesis
  proof (cases n)
    case (Suc m)
    have c: "g_primary_retain_count s \<noteq> 0"
      using assms Primary Suc by (auto simp: ctx_rel_def)
    have "unat (g_primary_retain_count s - 1) = m"
      using unat_pred [OF c] assms Primary Suc by (simp add: ctx_rel_def)
    moreover from this have "g_primary_retain_count s - 1 = 0 \<longleftrightarrow> m = 0"
      using unat_0_iff [of "g_primary_retain_count s - 1"] by simp
    ultimately show ?thesis
      using assms Primary Suc c
      by (auto simp: sim_def cxl_cuda_context_primary_release_def ctx_rel_def Let_def)
  qed (use assms Primary in \<open>auto simp: sim_def cxl_cuda_context_primary_release_def ctx_rel_def Let_def\<close>)
qed (use assms in \<open>auto simp: sim_def cxl_cuda_context_primary_release_def ctx_rel_def Let_def\<close>)

lemma sim_queries:
  assumes "ctx_rel s (l, st)"
  shows "sim t Op_set_zero_flags s (l, st)" "sim t Op_get_state s (l, st)" "sim t Op_primary_reset s (l, st)"
    "sim t Op_get_current s (l, st)" "sim t Op_get_current_live s (l, st)"
proof -
  note st = ctx_relD(2) [OF assms, of t]
  show "sim t Op_set_zero_flags s (l, st)" "sim t Op_get_state s (l, st)" "sim t Op_primary_reset s (l, st)"
    using assms
    by (cases l; auto simp: sim_def cxl_cuda_context_primary_set_zero_flags_def cxl_cuda_context_primary_get_state_def
        cxl_cuda_context_primary_reset_def ctx_rel_def gr0_conv_Suc split: nat.split)+
  show "sim t Op_get_current s (l, st)"
    using assms st by (cases "unat (g_current_depth s t)")
      (auto simp: sim_def cxl_cuda_context_get_current_def unat_eq_zero)
  show "sim t Op_get_current_live s (l, st)"
  proof (cases "g_current_depth s t = 0")
    case False
    then obtain k where k: "unat (g_current_depth s t) = Suc k"
      by (metis not0_implies_Suc unat_0_iff)
    moreover have "l \<noteq> Unused"
      using False ctx_relD(3) [OF assms] by blast
    ultimately show ?thesis
      using assms st False ctx_relD(1) [OF assms]
      by (cases l) (auto simp: sim_def cxl_cuda_context_get_current_live_def token_is_live_locked_def split: if_splits)
  qed (use assms st in \<open>simp add: sim_def cxl_cuda_context_get_current_live_def\<close>)
qed

lemma sim_stack:
  assumes "ctx_rel s (l, st)"
  shows "sim t (Op_destroy x) s (l, st)" "sim t (Op_set_current x) s (l, st)" "sim t (Op_push_current x) s (l, st)"
    "sim t Op_pop_current s (l, st)"
proof -
  let ?d = "g_current_depth s t"
  note life = ctx_relD(1) [OF assms]
  note st = ctx_relD(2) [OF assms, of t]
  have pop: "ctx_rel (set_depth t (?d - 1) s) (l, st(t := tl (st t)))" if "?d \<noteq> 0"
    using that ctx_relD(3) [OF assms, of t] st by (intro ctx_rel_depth [OF assms]) (simp_all add: replicate_pop)
  have keep: "st(t := tl (st t)) = st" if "?d = 0"
    using st that by (auto simp: fun_eq_iff)
  show "sim t Op_pop_current s (l, st)"
  proof (cases "?d = 0")
    case False
    then show ?thesis
      using pop [OF False] st
      by (cases "unat ?d") (simp_all add: sim_def cxl_cuda_context_pop_current_def unat_0_iff)
  qed (use assms st in \<open>simp add: sim_def cxl_cuda_context_pop_current_def\<close>)
  show "sim t (Op_push_current x) s (l, st)"
  proof (cases "token_is_live_locked x s \<and> ?d \<noteq> UINT32_MAX")
    case True
    then have "ctx_rel (set_depth t (?d + 1) s) (l, st(t := x # st t))"
      using life st by (intro ctx_rel_depth [OF assms]) (auto simp: replicate_push token_is_live_locked_def unused_iff)
    then show ?thesis
      using True alive_iff [OF life, of x] st by (simp add: sim_def cxl_cuda_context_push_current_def unat_u32_max)
  qed (use assms alive_iff [OF life, of x] st in \<open>auto simp: sim_def cxl_cuda_context_push_current_def unat_u32_max\<close>)
  show "sim t (Op_set_current x) s (l, st)"
  proof (cases "x \<noteq> 0 \<and> token_is_live_locked x s")
    case True
    then have tok: "x = g_token s" "l \<noteq> Unused"
      using life by (auto simp: token_is_live_locked_def)
    show ?thesis
    proof (cases "?d = 0")
      case d: True
      have "ctx_rel (set_depth t 1 s) (l, st(t := x # tl (st t)))"
        using tok st d by (intro ctx_rel_depth [OF assms]) simp_all
      then show ?thesis
        using True d alive_iff [OF life, of x] by (simp add: sim_def cxl_cuda_context_set_current_def)
    next
      case False
      then have "st(t := x # tl (st t)) = st"
        using st tok(1) by (cases "unat ?d") (auto simp: fun_eq_iff unat_0_iff)
      then show ?thesis
        using True False assms alive_iff [OF life, of x] by (simp add: sim_def cxl_cuda_context_set_current_def)
    qed
  next
    case False
    then show ?thesis
      using assms pop keep alive_iff [OF life, of x]
      by (cases "?d = 0") (auto simp: sim_def cxl_cuda_context_set_current_def word_gt_0)
  qed
  show "sim t (Op_destroy x) s (l, st)"
  proof (cases "token_is_live_locked x s \<and> g_mode s = CXL_CUDA_CONTEXT_ORDINARY_LIVE")
    case True
    then have l: "l = Ordinary x True"
      using ordinary_live_iff [OF life] by blast
    let ?s = "s\<lparr>g_mode := CXL_CUDA_CONTEXT_ORDINARY_DESTROYED\<rparr>"
    have rel: "ctx_rel ?s (Ordinary x False, st)"
      using assms l by (simp add: ctx_rel_def)
    show ?thesis
    proof (cases "?d = 0")
      case d: True
      then show ?thesis
        using True l rel keep by (simp add: sim_def cxl_cuda_context_commit_destroy_def Let_def)
    next
      case False
      then have "ctx_rel (set_depth t (?d - 1) ?s) (Ordinary x False, st(t := tl (st t)))"
        using st by (intro ctx_rel_depth [OF rel]) (simp_all add: replicate_pop)
      then show ?thesis
        using True False l by (simp add: sim_def cxl_cuda_context_commit_destroy_def Let_def)
    qed
  next
    case False
    then have "l \<noteq> Ordinary x True"
      using ordinary_live_iff [OF life] by blast
    then show ?thesis
      using False assms by (auto simp: sim_def cxl_cuda_context_commit_destroy_def)
  qed
qed

lemma ctx_step_sim:
  assumes "ctx_rel s (l, st)" "retains p \<longrightarrow> Suc (retain_count l) < 4294967296"
  shows "sim t p s (l, st)"
  using assms by (cases p) (simp_all add: sim_create sim_retain sim_release sim_queries sim_stack)

lemma retain_count_step: "retain_count (fst (snd (spec_call t p (l, st)))) \<le> retain_count l + (if retains p then 1 else 0)
     \<or> retain_count (fst (snd (spec_call t p (l, st)))) \<le> 1"
  by (cases p; cases l) (auto simp: retain_count_def split: nat.split list.split)

lemma ctx_run_sim:
  assumes "ctx_rel s l" "max 1 (retain_count (fst l)) + length (filter (\<lambda>(t, p). retains p) ps) < 4294967296"
  shows "fst (ctx_run ps s) = fst (spec_calls ps l)"
  using assms
proof (induction ps arbitrary: s l)
  case (Cons x ps)
  obtain t p where x: "x = (t, p)"
    by fastforce
  obtain c st where l: "l = (c, st)"
    by fastforce
  have "sim t p s (c, st)"
    using Cons(2,3) by (intro ctx_step_sim) (auto simp: x l)
  then have step: "fst (ctx_step t p s) = fst (spec_call t p l)" "ctx_rel (snd (ctx_step t p s)) (snd (spec_call t p l))"
    by (simp_all add: sim_def l)
  have "max 1 (retain_count (fst (snd (spec_call t p l)))) + length (filter (\<lambda>(t, p). retains p) ps) < 4294967296"
    using Cons(3) retain_count_step [of t p c st] by (auto simp: x l split: if_splits)
  then have "fst (ctx_run ps (snd (ctx_step t p s))) = fst (spec_calls ps (snd (spec_call t p l)))"
    by (rule Cons(1) [OF step(2)])
  then show ?case
    using step(1) by (simp add: x case_prod_unfold Let_def)
qed simp

text \<open>
  C17: A depth per thread is enough. For every interleaving of context calls by any number of
  threads - creating, retaining, releasing and destroying the context, setting, pushing, popping
  and querying the current one - every call returns exactly what a process would return that keeps
  for every thread an explicit stack of context tokens and an unbounded retain count, as long as
  the retains stay below the 32 bits of the counter.
\<close>

theorem context_depth_refines_stacks:
  assumes "length (filter (\<lambda>(t, p). retains p) ps) < 4294967295"
  shows "fst (ctx_run ps new_context_state) = fst (spec_calls ps (Unused, \<lambda>t. []))"
proof (rule ctx_run_sim)
  show "ctx_rel new_context_state (Unused, \<lambda>t. [])"
    by (simp add: ctx_rel_def new_context_state_def)
qed (use assms in \<open>simp add: retain_count_def\<close>)

text \<open>Two threads: the second still holds the destroyed context and is told so.\<close>

definition example_calls :: "(thread \<times> ctx_op) list" where
  "example_calls = [(1, Op_create 19), (2, Op_set_current 19), (2, Op_push_current 19), (1, Op_destroy 19),
     (2, Op_get_current), (2, Op_get_current_live), (2, Op_pop_current), (1, Op_get_current)]"

theorem context_depth_refines_stacks_witness:
  "fst (ctx_run example_calls new_context_state) = fst (spec_calls example_calls (Unused, \<lambda>t. []))
   \<and> fst (spec_calls example_calls (Unused, \<lambda>t. []))
     = [(0, None), (0, None), (0, None), (0, None), (0, Some 19), (709, None), (0, Some 19), (0, Some 0)]"
proof
  show "fst (ctx_run example_calls new_context_state) = fst (spec_calls example_calls (Unused, \<lambda>t. []))"
    by (rule context_depth_refines_stacks) (simp add: example_calls_def)
qed (simp add: example_calls_def Let_def)

lemma retain_many:
  assumes "g_mode s = CXL_CUDA_CONTEXT_PRIMARY_LIVE"
  shows "snd (ctx_run (replicate n (t, Op_prepare_retain)) s)
       = s\<lparr>g_primary_retain_count := g_primary_retain_count s + word_of_nat n\<rparr>"
  using assms
proof (induction n arbitrary: s)
  case (Suc n)
  then show ?case
    by (simp add: cxl_cuda_context_prepare_primary_retain_def case_prod_unfold Let_def ac_simps)
qed simp

text \<open>
  The retain count has no overflow check, unlike the depth. After a primary context has been
  retained \<open>2 ^ 32\<close> times the counter is back at zero: the context is still live, every retain
  succeeded, and yet a release is refused and the context can never be released again.
\<close>

lemma retain_count_overflows:
  "g_mode (snd (ctx_run ((1, Op_commit_retain 31) # replicate 4294967295 (1, Op_prepare_retain)) new_context_state))
     = CXL_CUDA_CONTEXT_PRIMARY_LIVE
   \<and> fst (ctx_step 1 Op_release
       (snd (ctx_run ((1, Op_commit_retain 31) # replicate 4294967295 (1, Op_prepare_retain)) new_context_state)))
     = (CXL_CUDA_ERROR_INVALID_CONTEXT, None)"
proof -
  let ?s = "snd (ctx_step 1 (Op_commit_retain 31) new_context_state)"
  have s: "g_mode ?s = CXL_CUDA_CONTEXT_PRIMARY_LIVE" "g_primary_retain_count ?s = 1"
    by (simp_all add: cxl_cuda_context_commit_primary_retain_def new_context_state_def)
  then have "snd (ctx_run (replicate 4294967295 (1, Op_prepare_retain)) ?s) = ?s\<lparr>g_primary_retain_count := 0\<rparr>"
    using retain_many [OF s(1), of 4294967295 1] by simp
  then show ?thesis
    using s(1) by (simp add: cxl_cuda_context_primary_release_def case_prod_unfold Let_def del: ctx_step.simps)
      (simp add: cxl_cuda_context_primary_release_def case_prod_unfold Let_def)
qed

end
