(* ===== verification/GPU_Launch.thy ===== *)
theory GPU_Launch
  imports GPU_Transport GPU_Context
begin

text \<open>
  Kernel launches of the guest GPU library, from \<open>libcuda.c\<close> in
  \<open>src/qemu_integration/guest_libcuda\<close>: object and stream handles, the two-level cache of kernel
  parameter layouts that the device reports, and the calls that pack kernel arguments into the
  data window and send the launch.

  A call that would write outside a buffer is the value \<open>Out_of_bounds\<close>, and one whose device
  command never returns is \<open>Diverges\<close>. A kernel argument is the memory it points to, a null
  pointer is \<open>None\<close>, and whether an allocation succeeds is decided by the environment. Debug output
  and the observation ledger are left out.
\<close>

section \<open>Handles and streams\<close>

abbreviation (input) CUDA_ERROR_INVALID_VALUE :: CUresult where "CUDA_ERROR_INVALID_VALUE \<equiv> 1"
abbreviation (input) CUDA_ERROR_OUT_OF_MEMORY :: CUresult where "CUDA_ERROR_OUT_OF_MEMORY \<equiv> 2"
abbreviation (input) CUDA_ERROR_NOT_INITIALIZED :: CUresult where "CUDA_ERROR_NOT_INITIALIZED \<equiv> 3"
abbreviation (input) CUDA_ERROR_INVALID_HANDLE :: CUresult where "CUDA_ERROR_INVALID_HANDLE \<equiv> 400"
abbreviation (input) CUDA_ERROR_NOT_SUPPORTED :: CUresult where "CUDA_ERROR_NOT_SUPPORTED \<equiv> 801"

definition cxl_gpu_handle_from_id :: "u64 \<Rightarrow> u64" where
  "cxl_gpu_handle_from_id i = i + 1"

definition cxl_gpu_id_from_handle :: "u64 \<Rightarrow> u64" where
  "cxl_gpu_id_from_handle h = h - 1"

definition cxl_gpu_handle_id :: "u64 \<Rightarrow> u64 option" where
  "cxl_gpu_handle_id h =
     (if h = 0 then None
      else let v = cxl_gpu_id_from_handle h in if v > 0xFFFFFFFF then None else Some v)"

abbreviation (input) CXL_GPU_STREAM_HANDLE_TAG :: u64 where "CXL_GPU_STREAM_HANDLE_TAG \<equiv> 0x100000000"

definition cxl_gpu_stream_handle_from_id :: "u64 \<Rightarrow> u64" where
  "cxl_gpu_stream_handle_from_id i = CXL_GPU_STREAM_HANDLE_TAG OR i"

definition cxl_gpu_stream_handle_id :: "u64 \<Rightarrow> u64 option" where
  "cxl_gpu_stream_handle_id v =
     (if v < CXL_GPU_STREAM_HANDLE_TAG \<or> v > CXL_GPU_STREAM_HANDLE_TAG + 0xFFFFFFFF then None
      else Some (v - CXL_GPU_STREAM_HANDLE_TAG))"

definition cxl_gpu_stream_wire :: "u64 \<Rightarrow> u64 option" where
  "cxl_gpu_stream_wire stream =
     (if stream = 0 then Some 0xFFFFFFFFFFFFFFFF
      else if stream = 1 then Some 0xFFFFFFFFFFFFFFFE
      else if stream = 2 then Some 0xFFFFFFFFFFFFFFFD
      else cxl_gpu_stream_handle_id stream)"


section \<open>State\<close>

record FunctionParamLayout =
  fl_function :: u64
  fl_num_args :: u32
  fl_extent :: u64
  fl_offsets :: "u64 list"
  fl_sizes :: "u64 list"

record libcuda =
  lc_initialized :: bool
  lc_pid :: u32
  lc_sequence :: u32
  lc_transport :: CxlGpuTransport
  lc_pages :: "nat \<Rightarrow> (nat \<Rightarrow> FunctionParamLayout option) option"
  lc_alloc :: "nat \<Rightarrow> bool"
  lc_allocs :: nat

datatype 'a call = Returns 'a | Diverges | Out_of_bounds

definition bind_call :: "'a call \<Rightarrow> ('a \<Rightarrow> 'b call) \<Rightarrow> 'b call" where
  "bind_call x f = (case x of Returns y \<Rightarrow> f y | Diverges \<Rightarrow> Diverges | Out_of_bounds \<Rightarrow> Out_of_bounds)"

lemma bind_call_simps [simp]:
  "bind_call (Returns x) f = f x" "bind_call Diverges f = Diverges" "bind_call Out_of_bounds f = Out_of_bounds"
  by (simp_all add: bind_call_def)

lemma bind_call_Returns: "bind_call x f = Returns y \<longleftrightarrow> (\<exists>z. x = Returns z \<and> f z = Returns y)"
  by (cases x) simp_all

lemma bind_call_bounds:
  "bind_call x f = Out_of_bounds \<longleftrightarrow> x = Out_of_bounds \<or> (\<exists>z. x = Returns z \<and> f z = Out_of_bounds)"
  by (cases x) simp_all

definition reg_write64 :: "u32 \<Rightarrow> u64 \<Rightarrow> libcuda \<Rightarrow> libcuda" where
  "reg_write64 off v s = s\<lparr>lc_transport := cxl_gpu_transport_write64 off v (lc_transport s)\<rparr>"

definition reg_read64 :: "u32 \<Rightarrow> libcuda \<Rightarrow> u64" where
  "reg_read64 off s = cxl_gpu_transport_read64 (lc_transport s) off"

definition data_write :: "u64 \<Rightarrow> u8 list \<Rightarrow> libcuda \<Rightarrow> libcuda" where
  "data_write off src s = s\<lparr>lc_transport := cxl_gpu_transport_data_write off src (lc_transport s)\<rparr>"

definition data_read :: "u64 \<Rightarrow> u8 list \<Rightarrow> libcuda \<Rightarrow> u8 list" where
  "data_read off dst s = cxl_gpu_transport_data_read off dst (lc_transport s)"

definition calloc :: "libcuda \<Rightarrow> bool \<times> libcuda" where
  "calloc s = (lc_alloc s (lc_allocs s), s\<lparr>lc_allocs := Suc (lc_allocs s)\<rparr>)"

text \<open>A command, tagged for tracing with the process and a sequence number.\<close>

definition execute_cmd_traced :: "u32 \<Rightarrow> libcuda \<Rightarrow> (CUresult \<times> libcuda) call" where
  "execute_cmd_traced cmd s =
     (let sequence = lc_sequence s + 1;
          call_id = push_bit 32 (ucast (lc_pid s)) OR ucast sequence;
          s1 = reg_write64 CXL_GPU_REG_CALL_ID call_id (s\<lparr>lc_sequence := sequence\<rparr>) in
      case cxl_gpu_transport_execute cmd (lc_transport s1) of
        None \<Rightarrow> Diverges
      | Some (r, polls, t) \<Rightarrow> Returns (uint r, reg_write64 CXL_GPU_REG_CALL_ID 0 (s1\<lparr>lc_transport := t\<rparr>)))"


section \<open>Parameter layouts\<close>

abbreviation (input) CXL_MAX_KERNEL_ARGS :: nat where "CXL_MAX_KERNEL_ARGS \<equiv> 64"

record CXLFunctionParamLayoutWire =
  wl_num_args :: u32
  wl_reserved :: u32
  wl_extent :: u64
  wl_offsets :: "u64 list"
  wl_sizes :: "u64 list"

text \<open>The 1040 bytes of the structure in the data window, read in little-endian order.\<close>

definition layout_wire :: "u8 list \<Rightarrow> CXLFunctionParamLayoutWire" where
  "layout_wire bs =
     (let m = (\<lambda>i. bs ! i) in
      \<lparr>wl_num_args = load32 m 0, wl_reserved = load32 m 4, wl_extent = load64 m 8,
       wl_offsets = map (\<lambda>i. load64 m (16 + 16 * i)) [0 ..< CXL_MAX_KERNEL_ARGS],
       wl_sizes = map (\<lambda>i. load64 m (24 + 16 * i)) [0 ..< CXL_MAX_KERNEL_ARGS]\<rparr>)"

definition page_index :: "u64 \<Rightarrow> nat" where
  "page_index function_id = unat (drop_bit 16 function_id)"

definition page_slot :: "u64 \<Rightarrow> nat" where
  "page_slot function_id = unat (function_id AND 0xFFFF)"

definition function_param_layout_find :: "u64 \<Rightarrow> libcuda \<Rightarrow> FunctionParamLayout option" where
  "function_param_layout_find function s =
     (case cxl_gpu_handle_id function of
        None \<Rightarrow> None
      | Some i \<Rightarrow> (case lc_pages s (page_index i) of None \<Rightarrow> None | Some page \<Rightarrow> page (page_slot i)))"

definition function_param_layout_insert :: "FunctionParamLayout \<Rightarrow> libcuda \<Rightarrow> bool \<times> libcuda" where
  "function_param_layout_insert layout s =
     (case cxl_gpu_handle_id (fl_function layout) of
        None \<Rightarrow> (False, s)
      | Some i \<Rightarrow>
          let (got, s1) = (case lc_pages s (page_index i) of
                             Some page \<Rightarrow> (Some page, s)
                           | None \<Rightarrow> let (ok, s1) = calloc s in (if ok then Some (\<lambda>slot. None) else None, s1)) in
          (case got of
             None \<Rightarrow> (False, s1)
           | Some page \<Rightarrow>
               (True, s1\<lparr>lc_pages := (lc_pages s1)(page_index i \<mapsto> page(page_slot i \<mapsto> layout))\<rparr>)))"

definition function_param_layouts_clear :: "libcuda \<Rightarrow> libcuda" where
  "function_param_layouts_clear s = s\<lparr>lc_pages := (\<lambda>i. None)\<rparr>"

definition params_fit :: "CXLFunctionParamLayoutWire \<Rightarrow> bool" where
  "params_fit wire \<longleftrightarrow> list_all (\<lambda>i. \<not> (wl_offsets wire ! i > wl_extent wire
      \<or> wl_sizes wire ! i > wl_extent wire - wl_offsets wire ! i)) [0 ..< unat (wl_num_args wire)]"

definition keep_first :: "nat \<Rightarrow> u64 list \<Rightarrow> u64 list" where
  "keep_first n xs = take n xs @ replicate (CXL_MAX_KERNEL_ARGS - n) 0"

text \<open>Checking what the device says about a function, and keeping it.\<close>

definition store_layout :: "u64 \<Rightarrow> CXLFunctionParamLayoutWire \<Rightarrow> libcuda \<Rightarrow> CUresult \<times> FunctionParamLayout option \<times> libcuda" where
  "store_layout function wire s =
     (if wl_reserved wire \<noteq> 0 \<or> unat (wl_num_args wire) > CXL_MAX_KERNEL_ARGS
         \<or> wl_extent wire > CXL_GPU_DATA_SIZE \<or> \<not> params_fit wire
      then (CUDA_ERROR_INVALID_VALUE, None, s)
      else
        let n = unat (wl_num_args wire);
            layout = \<lparr>fl_function = function, fl_num_args = wl_num_args wire, fl_extent = wl_extent wire,
                      fl_offsets = keep_first n (wl_offsets wire), fl_sizes = keep_first n (wl_sizes wire)\<rparr>;
            (ok, s1) = calloc s in
        if \<not> ok then (CUDA_ERROR_OUT_OF_MEMORY, None, s1)
        else
          let (inserted, s2) = function_param_layout_insert layout s1 in
          if \<not> inserted then (CUDA_ERROR_OUT_OF_MEMORY, None, s2)
          else (CXL_CUDA_SUCCESS, Some layout, s2))"

text \<open>The layout of a function: from the cache, or from the device.\<close>

definition function_param_layout_copy :: "u64 \<Rightarrow> libcuda \<Rightarrow> (CUresult \<times> FunctionParamLayout option \<times> libcuda) call" where
  "function_param_layout_copy function s =
     (case cxl_gpu_handle_id function of
        None \<Rightarrow> Returns (CUDA_ERROR_INVALID_HANDLE, None, s)
      | Some function_id \<Rightarrow>
          (case function_param_layout_find function s of
             Some layout \<Rightarrow> Returns (CXL_CUDA_SUCCESS, Some layout, s)
           | None \<Rightarrow>
               bind_call (execute_cmd_traced 0x47 (reg_write64 0x40 function_id s)) (\<lambda>(r, s1).
                 if r \<noteq> CXL_CUDA_SUCCESS then Returns (r, None, s1)
                 else Returns (store_layout function (layout_wire (data_read 0 (replicate 1040 0) s1)) s1))))"

text \<open>The outputs are the offset and the size of the parameter.\<close>

definition cuFuncGetParamInfo :: "u64 \<Rightarrow> u64 \<Rightarrow> bool \<Rightarrow> libcuda \<Rightarrow> (CUresult \<times> (u64 \<times> u64) option \<times> libcuda) call" where
  "cuFuncGetParamInfo hfunc paramIndex offset_null s =
     (if \<not> lc_initialized s then Returns (CUDA_ERROR_NOT_INITIALIZED, None, s)
      else if hfunc = 0 \<or> offset_null then Returns (CUDA_ERROR_INVALID_VALUE, None, s)
      else bind_call (function_param_layout_copy hfunc s) (\<lambda>(r, got, s1).
        case got of
          None \<Rightarrow> Returns (r, None, s1)
        | Some layout \<Rightarrow>
            if paramIndex \<ge> ucast (fl_num_args layout) then Returns (CUDA_ERROR_INVALID_VALUE, None, s1)
            else Returns (CXL_CUDA_SUCCESS,
                          Some (fl_offsets layout ! unat paramIndex, fl_sizes layout ! unat paramIndex), s1)))"


section \<open>Launches\<close>

type_synonym memory_at = "nat \<Rightarrow> u8"
type_synonym kernel_params = "(nat \<Rightarrow> memory_at option) option"

text \<open>\<open>memcpy\<close> into a buffer; writing past its end is undefined behaviour.\<close>

definition memcpy_into :: "u8 list \<Rightarrow> nat \<Rightarrow> u8 list \<Rightarrow> u8 list call" where
  "memcpy_into buf off src =
     (if off + length src \<le> length buf then Returns (take off buf @ src @ drop (off + length src) buf)
      else Out_of_bounds)"

definition params_present :: "kernel_params \<Rightarrow> nat \<Rightarrow> bool" where
  "params_present kernelParams n \<longleftrightarrow>
     list_all (\<lambda>i. case kernelParams of None \<Rightarrow> False | Some ps \<Rightarrow> ps i \<noteq> None) [0 ..< n]"

definition param_bytes :: "kernel_params \<Rightarrow> FunctionParamLayout \<Rightarrow> nat \<Rightarrow> u8 list" where
  "param_bytes kernelParams layout i =
     (case kernelParams of
        None \<Rightarrow> []
      | Some ps \<Rightarrow> (case ps i of None \<Rightarrow> [] | Some m \<Rightarrow> get_bytes m 0 (unat (fl_sizes layout ! i))))"

fun pack_loop :: "kernel_params \<Rightarrow> FunctionParamLayout \<Rightarrow> nat list \<Rightarrow> u8 list \<Rightarrow> u8 list call" where
  "pack_loop kernelParams layout [] buf = Returns buf"
| "pack_loop kernelParams layout (i # is) buf =
     bind_call (memcpy_into buf (unat (fl_offsets layout ! i)) (param_bytes kernelParams layout i))
       (pack_loop kernelParams layout is)"

text \<open>The parameter buffer; \<open>None\<close> when it cannot be allocated, empty when there is nothing to pass.\<close>

definition pack_params :: "kernel_params \<Rightarrow> FunctionParamLayout \<Rightarrow> libcuda \<Rightarrow> (u8 list option \<times> libcuda) call" where
  "pack_params kernelParams layout s =
     (if fl_extent layout = 0 then Returns (Some [], s)
      else
        let (ok, s1) = calloc s in
        if \<not> ok then Returns (None, s1)
        else bind_call (pack_loop kernelParams layout [0 ..< unat (fl_num_args layout)]
                          (replicate (unat (fl_extent layout)) 0)) (\<lambda>buf. Returns (Some buf, s1)))"

definition two_words :: "u32 \<Rightarrow> u32 \<Rightarrow> u64" where
  "two_words high low = push_bit 32 (ucast high) OR ucast low"

record launch_dims =
  gridDimX :: u32
  gridDimY :: u32
  gridDimZ :: u32
  blockDimX :: u32
  blockDimY :: u32
  blockDimZ :: u32
  sharedMemBytes :: u32

definition cuLaunchKernel :: "u64 \<Rightarrow> launch_dims \<Rightarrow> u64 \<Rightarrow> kernel_params \<Rightarrow> bool \<Rightarrow> libcuda \<Rightarrow> (CUresult \<times> libcuda) call" where
  "cuLaunchKernel f dims hStream kernelParams extra s =
     (if \<not> lc_initialized s then Returns (CUDA_ERROR_NOT_INITIALIZED, s)
      else if f = 0 then Returns (CUDA_ERROR_INVALID_HANDLE, s)
      else case cxl_gpu_stream_wire hStream of
        None \<Rightarrow> Returns (CUDA_ERROR_INVALID_HANDLE, s)
      | Some stream_wire \<Rightarrow>
          if kernelParams = None \<and> extra then Returns (CUDA_ERROR_NOT_SUPPORTED, s)
          else bind_call (function_param_layout_copy f s) (\<lambda>(r, got, s1).
            case got of
              None \<Rightarrow> Returns (r, s1)
            | Some layout \<Rightarrow>
                if \<not> params_present kernelParams (unat (fl_num_args layout))
                then Returns (CUDA_ERROR_INVALID_VALUE, s1)
                else bind_call (pack_params kernelParams layout s1) (\<lambda>(packed, s2).
                  case packed of
                    None \<Rightarrow> Returns (CUDA_ERROR_OUT_OF_MEMORY, s2)
                  | Some buf \<Rightarrow>
                      let s3 = (if fl_extent layout \<noteq> 0 then data_write 0 buf s2 else s2);
                          s4 = reg_write64 0x40 (cxl_gpu_id_from_handle f) s3;
                          s5 = reg_write64 0x48 (two_words (gridDimY dims) (gridDimX dims)) s4;
                          s6 = reg_write64 0x50 (two_words (blockDimX dims) (gridDimZ dims)) s5;
                          s7 = reg_write64 0x58 (two_words (blockDimZ dims) (blockDimY dims)) s6;
                          s8 = reg_write64 0x60 (two_words (fl_num_args layout) (sharedMemBytes dims)) s7;
                          s9 = reg_write64 0x68 (fl_extent layout) s8;
                          s10 = reg_write64 0x70 stream_wire s9 in
                      execute_cmd_traced 0x40 s10)))"

definition cuGraphExecKernelNodeSetParams ::
    "u64 \<Rightarrow> u64 \<Rightarrow> (u64 \<times> launch_dims \<times> kernel_params \<times> bool) option \<Rightarrow> libcuda \<Rightarrow> (CUresult \<times> libcuda) call" where
  "cuGraphExecKernelNodeSetParams hGraphExec hNode nodeParams s =
     (if \<not> lc_initialized s then Returns (CUDA_ERROR_NOT_INITIALIZED, s)
      else case nodeParams of
        None \<Rightarrow> Returns (CUDA_ERROR_INVALID_VALUE, s)
      | Some (func, dims, kernelParams, extra) \<Rightarrow>
          if hGraphExec = 0 \<or> hNode = 0 \<or> func = 0 then Returns (CUDA_ERROR_INVALID_VALUE, s)
          else if kernelParams = None \<and> extra then Returns (CUDA_ERROR_NOT_SUPPORTED, s)
          else bind_call (function_param_layout_copy func s) (\<lambda>(r, got, s1).
            case got of
              None \<Rightarrow> Returns (r, s1)
            | Some layout \<Rightarrow>
                if \<not> params_present kernelParams (unat (fl_num_args layout))
                then Returns (CUDA_ERROR_INVALID_VALUE, s1)
                else bind_call (pack_params kernelParams layout s1) (\<lambda>(packed, s2).
                  case packed of
                    None \<Rightarrow> Returns (CUDA_ERROR_OUT_OF_MEMORY, s2)
                  | Some buf \<Rightarrow>
                      let s3 = (if fl_extent layout \<noteq> 0 then data_write 0 buf s2 else s2);
                          s4 = reg_write64 0x40 (cxl_gpu_id_from_handle hGraphExec) s3;
                          s5 = reg_write64 0x48 (cxl_gpu_id_from_handle hNode) s4;
                          s6 = reg_write64 0x50 (cxl_gpu_id_from_handle func) s5;
                          s7 = reg_write64 0x58 (two_words (gridDimY dims) (gridDimX dims)) s6;
                          s8 = reg_write64 0x60 (two_words (blockDimX dims) (gridDimZ dims)) s7;
                          s9 = reg_write64 0x68 (two_words (blockDimZ dims) (blockDimY dims)) s8;
                          s10 = reg_write64 0x70 (two_words (fl_num_args layout) (sharedMemBytes dims)) s9;
                          s11 = reg_write64 0x78 (fl_extent layout) s10 in
                      execute_cmd_traced 0x39 s11)))"



section \<open>The layout cache\<close>

definition layout_ok :: "FunctionParamLayout \<Rightarrow> bool" where
  "layout_ok lay \<longleftrightarrow> unat (fl_num_args lay) \<le> CXL_MAX_KERNEL_ARGS
     \<and> length (fl_offsets lay) = CXL_MAX_KERNEL_ARGS \<and> length (fl_sizes lay) = CXL_MAX_KERNEL_ARGS
     \<and> fl_extent lay \<le> CXL_GPU_DATA_SIZE
     \<and> (\<forall>i < unat (fl_num_args lay). unat (fl_offsets lay ! i) + unat (fl_sizes lay ! i) \<le> unat (fl_extent lay))"

text \<open>The cache as a map from function ids to layouts.\<close>

definition cached :: "libcuda \<Rightarrow> u64 \<Rightarrow> FunctionParamLayout option" where
  "cached s i = (if i \<le> 0xFFFFFFFF
     then (case lc_pages s (page_index i) of None \<Rightarrow> None | Some page \<Rightarrow> page (page_slot i)) else None)"

definition layouts_inv :: "libcuda \<Rightarrow> bool" where
  "layouts_inv s \<longleftrightarrow> (\<forall>i lay. cached s i = Some lay \<longrightarrow> layout_ok lay \<and> cxl_gpu_handle_id (fl_function lay) = Some i)"

lemma page_inj:
  assumes "page_index i = page_index j" "page_slot i = page_slot j" shows "i = j"
proof -
  have "(0xFFFF :: u64) = mask 16"
    by (simp add: mask_eq_exp_minus_1)
  then have "i AND mask 16 = j AND mask 16" "drop_bit 16 i = drop_bit 16 j"
    using assms unfolding page_index_def page_slot_def by (metis word_unat_eq_iff)+
  moreover have "w = push_bit 16 (drop_bit 16 w) OR (w AND mask 16)" for w :: u64
    by (rule bit_word_eqI) (auto simp: bit_simps)
  ultimately show ?thesis
    by metis
qed

lemma handle_id_le: "cxl_gpu_handle_id h = Some i \<Longrightarrow> i \<le> 0xFFFFFFFF"
  by (auto simp: cxl_gpu_handle_id_def Let_def not_less split: if_splits)

lemma find_cached:
  "function_param_layout_find h s = (case cxl_gpu_handle_id h of None \<Rightarrow> None | Some i \<Rightarrow> cached s i)"
  using handle_id_le by (auto simp: function_param_layout_find_def cached_def split: option.split)

lemma calloc_frame [simp]:
  "lc_pages (snd (calloc s)) = lc_pages s" "lc_initialized (snd (calloc s)) = lc_initialized s"
  "lc_transport (snd (calloc s)) = lc_transport s" "cached (snd (calloc s)) = cached s"
  by (simp_all add: calloc_def cached_def fun_eq_iff)

lemma insert_eq:
  assumes "cxl_gpu_handle_id (fl_function lay) = Some i" "function_param_layout_insert lay s = (ok, s')"
  shows "\<exists>n. s' = (if ok
       then s\<lparr>lc_allocs := n, lc_pages := (lc_pages s)(page_index i \<mapsto>
              (case lc_pages s (page_index i) of None \<Rightarrow> (\<lambda>slot. None) | Some page \<Rightarrow> page)(page_slot i \<mapsto> lay))\<rparr>
       else s\<lparr>lc_allocs := n\<rparr>)"
proof (cases "lc_pages s (page_index i)")
  case None
  then show ?thesis
    using assms by (intro exI [of _ "Suc (lc_allocs s)"])
      (auto simp: function_param_layout_insert_def calloc_def split: if_splits)
next
  case (Some page)
  then show ?thesis
    using assms by (intro exI [of _ "lc_allocs s"]) (auto simp: function_param_layout_insert_def)
qed

lemma cached_put:
  assumes "i \<le> 0xFFFFFFFF"
  shows "cached (s\<lparr>lc_allocs := n, lc_pages := (lc_pages s)(page_index i \<mapsto>
              (case lc_pages s (page_index i) of None \<Rightarrow> (\<lambda>slot. None) | Some page \<Rightarrow> page)(page_slot i \<mapsto> lay))\<rparr>)
       = (cached s)(i \<mapsto> lay)"
proof
  fix j
  show "cached (s\<lparr>lc_allocs := n, lc_pages := (lc_pages s)(page_index i \<mapsto>
              (case lc_pages s (page_index i) of None \<Rightarrow> (\<lambda>slot. None) | Some page \<Rightarrow> page)(page_slot i \<mapsto> lay))\<rparr>) j
      = ((cached s)(i \<mapsto> lay)) j"
  proof (cases "i = j")
    case False
    then have "page_index j = page_index i \<Longrightarrow> page_slot j \<noteq> page_slot i"
      using page_inj [of i j] by auto
    then show ?thesis
      using False by (auto simp: cached_def split: option.split)
  qed (use assms in \<open>simp add: cached_def\<close>)
qed

lemma insert_cached:
  assumes "cxl_gpu_handle_id (fl_function lay) = Some i" "function_param_layout_insert lay s = (ok, s')"
  shows "cached s' = (if ok then (cached s)(i \<mapsto> lay) else cached s)"
    "lc_initialized s' = lc_initialized s" "lc_transport s' = lc_transport s"
proof -
  have "cached (s\<lparr>lc_allocs := n\<rparr>) = cached s" for n
    by (simp add: cached_def fun_eq_iff)
  then show "cached s' = (if ok then (cached s)(i \<mapsto> lay) else cached s)"
    using insert_eq [OF assms] cached_put [OF handle_id_le [OF assms(1)]] by (auto split: if_splits)
  show "lc_initialized s' = lc_initialized s" "lc_transport s' = lc_transport s"
    using insert_eq [OF assms] by (auto split: if_splits)
qed

text \<open>What a command and the register accesses leave alone.\<close>

lemma reg_write64_frame [simp]:
  "lc_pages (reg_write64 off v s) = lc_pages s" "lc_initialized (reg_write64 off v s) = lc_initialized s"
  "cached (reg_write64 off v s) = cached s"
  by (simp_all add: reg_write64_def cached_def fun_eq_iff)

lemma data_write_frame [simp]:
  "lc_pages (data_write off bs s) = lc_pages s" "lc_initialized (data_write off bs s) = lc_initialized s"
  "cached (data_write off bs s) = cached s"
  by (simp_all add: data_write_def cached_def fun_eq_iff)

lemma execute_cmd_frame:
  assumes "execute_cmd_traced cmd s = Returns (r, s')"
  shows "cached s' = cached s" "lc_initialized s' = lc_initialized s"
  using assms by (auto simp: execute_cmd_traced_def reg_write64_def cached_def fun_eq_iff Let_def split: option.splits)

lemma execute_cmd_bounds [simp]: "execute_cmd_traced cmd s \<noteq> Out_of_bounds"
  by (simp add: execute_cmd_traced_def Let_def split: option.split prod.split)

lemma layouts_inv_cong: "cached s' = cached s \<Longrightarrow> layouts_inv s' = layouts_inv s"
  by (simp add: layouts_inv_def)

lemma length_keep_first [simp]: "n \<le> CXL_MAX_KERNEL_ARGS \<Longrightarrow> length xs = CXL_MAX_KERNEL_ARGS \<Longrightarrow>
    length (keep_first n xs) = CXL_MAX_KERNEL_ARGS"
  by (simp add: keep_first_def)

lemma keep_first_nth: "i < n \<Longrightarrow> n \<le> length xs \<Longrightarrow> keep_first n xs ! i = xs ! i"
  by (simp add: keep_first_def nth_append)

lemma length_layout_wire [simp]: "length (wl_offsets (layout_wire bs)) = CXL_MAX_KERNEL_ARGS"
    "length (wl_sizes (layout_wire bs)) = CXL_MAX_KERNEL_ARGS"
  by (simp_all add: layout_wire_def Let_def)

text \<open>The checks on the device's answer establish the bounds of a layout.\<close>

lemma checked_layout_ok:
  assumes "length (wl_offsets w) = CXL_MAX_KERNEL_ARGS" "length (wl_sizes w) = CXL_MAX_KERNEL_ARGS"
    and "unat (wl_num_args w) \<le> CXL_MAX_KERNEL_ARGS" "wl_extent w \<le> CXL_GPU_DATA_SIZE" "params_fit w"
  shows "layout_ok \<lparr>fl_function = f, fl_num_args = wl_num_args w, fl_extent = wl_extent w,
           fl_offsets = keep_first (unat (wl_num_args w)) (wl_offsets w),
           fl_sizes = keep_first (unat (wl_num_args w)) (wl_sizes w)\<rparr>"
proof -
  have "unat (wl_offsets w ! i) + unat (wl_sizes w ! i) \<le> unat (wl_extent w)" if "i < unat (wl_num_args w)" for i
  proof -
    have fit: "wl_offsets w ! i \<le> wl_extent w" "wl_sizes w ! i \<le> wl_extent w - wl_offsets w ! i"
      using assms(5) that by (auto simp: params_fit_def list_all_iff not_less)
    then show ?thesis
      using unat_diff_word [OF fit(1)] by (simp add: word_le_nat_alt)
  qed
  then show ?thesis
    using assms by (simp add: layout_ok_def keep_first_nth)
qed

lemma store_layout_frame:
  assumes "layouts_inv s" "cxl_gpu_handle_id f = Some i" "store_layout f w s = (r, got, s')"
    and "length (wl_offsets w) = CXL_MAX_KERNEL_ARGS" "length (wl_sizes w) = CXL_MAX_KERNEL_ARGS"
  shows "layouts_inv s' \<and> lc_initialized s' = lc_initialized s \<and> lc_transport s' = lc_transport s
      \<and> (\<forall>lay. got = Some lay \<longrightarrow> r = 0 \<and> layout_ok lay \<and> cached s' i = Some lay)"
proof -
  obtain ok s1 where c: "calloc s = (ok, s1)"
    by fastforce
  have s1: "cached s1 = cached s" "lc_initialized s1 = lc_initialized s" "lc_transport s1 = lc_transport s"
    using calloc_frame [of s] c by simp_all
  then have inv: "layouts_inv s1"
    using assms(1) layouts_inv_cong by blast
  let ?n = "unat (wl_num_args w)"
  define lay where "lay = \<lparr>fl_function = f, fl_num_args = wl_num_args w, fl_extent = wl_extent w,
      fl_offsets = keep_first ?n (wl_offsets w), fl_sizes = keep_first ?n (wl_sizes w)\<rparr>"
  obtain ins s2 where ins: "function_param_layout_insert lay s1 = (ins, s2)"
    by fastforce
  have f: "cxl_gpu_handle_id (fl_function lay) = Some i"
    using assms(2) by (simp add: lay_def)
  note put = insert_cached [OF f ins]
  show ?thesis
  proof (cases "wl_reserved w \<noteq> 0 \<or> ?n > CXL_MAX_KERNEL_ARGS \<or> wl_extent w > CXL_GPU_DATA_SIZE \<or> \<not> params_fit w \<or> \<not> ok")
    case True
    then have "s' = s \<or> s' = s1" "got = None"
      using assms(3) c by (auto simp: store_layout_def Let_def split: if_splits prod.splits)
    then show ?thesis
      using inv s1 assms(1) by auto
  next
    case False
    then have lay: "layout_ok lay"
      using checked_layout_ok [of w f] assms(4,5) by (simp add: lay_def not_less)
    have "s' = s2" "got = (if ins then Some lay else None)" "ins \<longrightarrow> r = 0"
      using assms(3) False c ins by (auto simp: store_layout_def Let_def lay_def split: if_splits)
    moreover have "layouts_inv s2"
      using inv put(1) lay f by (auto simp: layouts_inv_def split: if_splits)
    ultimately show ?thesis
      using put s1 lay by auto
  qed
qed

definition copy_ok :: "u64 \<Rightarrow> libcuda \<Rightarrow> CUresult \<times> FunctionParamLayout option \<times> libcuda \<Rightarrow> bool" where
  "copy_ok f s x = (case x of (r, got, s') \<Rightarrow>
     layouts_inv s' \<and> lc_initialized s' = lc_initialized s
     \<and> (\<forall>lay. got = Some lay \<longrightarrow> r = 0 \<and> layout_ok lay \<and> cached s' (cxl_gpu_id_from_handle f) = Some lay))"

lemma layout_copy_ok:
  assumes "layouts_inv s" "function_param_layout_copy f s = Returns x"
  shows "copy_ok f s x"
proof (cases "cxl_gpu_handle_id f")
  case None
  then show ?thesis
    using assms by (auto simp: function_param_layout_copy_def copy_ok_def)
next
  case (Some i)
  then have i: "cxl_gpu_id_from_handle f = i"
    by (auto simp: cxl_gpu_handle_id_def Let_def split: if_splits)
  show ?thesis
  proof (cases "cached s i")
    case (Some lay)
    then have "x = (0, Some lay, s)"
      using assms(2) \<open>cxl_gpu_handle_id f = Some i\<close> by (simp add: function_param_layout_copy_def find_cached)
    then show ?thesis
      using assms(1) Some i by (simp add: layouts_inv_def copy_ok_def)
  next
    case None
    obtain c s1 where e: "execute_cmd_traced 0x47 (reg_write64 0x40 i s) = Returns (c, s1)"
        "x = (if c \<noteq> 0 then (c, None, s1) else store_layout f (layout_wire (data_read 0 (replicate 1040 0) s1)) s1)"
      using assms(2) Some None
      by (auto simp: function_param_layout_copy_def find_cached bind_call_Returns split: if_splits)
    note fr = execute_cmd_frame [OF e(1)]
    have inv: "layouts_inv s1"
      using assms(1) fr(1) by (simp add: layouts_inv_def)
    show ?thesis
      using e(2) inv fr store_layout_frame [OF inv Some] i
      by (cases "store_layout f (layout_wire (data_read 0 (replicate 1040 0) s1)) s1")
        (auto simp: copy_ok_def)
  qed
qed

lemma layout_copy_bounds [simp]: "function_param_layout_copy f s \<noteq> Out_of_bounds"
  by (auto simp: function_param_layout_copy_def bind_call_bounds split: option.split)



section \<open>Packing\<close>

lemma length_param_bytes:
  assumes "params_present kps n" "i < n"
  shows "length (param_bytes kps lay i) = unat (fl_sizes lay ! i)"
proof -
  obtain ps m where "kps = Some ps" "ps i = Some m"
    using assms by (force simp: params_present_def list_all_iff split: option.splits)
  then show ?thesis
    by (simp add: param_bytes_def get_bytes_def)
qed

lemma length_param_bytes_le: "length (param_bytes kps lay i) \<le> unat (fl_sizes lay ! i)"
  by (simp add: param_bytes_def get_bytes_def split: option.split)

lemma pack_loop_fits:
  assumes "layout_ok lay" "set is \<subseteq> {0 ..< unat (fl_num_args lay)}" "length buf = unat (fl_extent lay)"
  shows "\<exists>buf'. pack_loop kps lay is buf = Returns buf' \<and> length buf' = unat (fl_extent lay)"
  using assms(2,3)
proof (induction "is" arbitrary: buf)
  case (Cons i "is")
  have "unat (fl_offsets lay ! i) + unat (fl_sizes lay ! i) \<le> unat (fl_extent lay)"
    using assms(1) Cons(2) by (simp add: layout_ok_def)
  then have "unat (fl_offsets lay ! i) + length (param_bytes kps lay i) \<le> length buf"
    using length_param_bytes_le [of kps lay i] Cons(3) by linarith
  then show ?case
    using Cons by (simp add: memcpy_into_def)
qed simp

lemma pack_params_fits:
  assumes "layout_ok lay"
  shows "pack_params kps lay s \<noteq> Out_of_bounds"
    and "pack_params kps lay s = Returns (packed, s') \<Longrightarrow> cached s' = cached s \<and> lc_initialized s' = lc_initialized s
           \<and> lc_transport s' = lc_transport s"
proof -
  obtain ok s1 where c: "calloc s = (ok, s1)"
    by fastforce
  have s1: "cached s1 = cached s" "lc_initialized s1 = lc_initialized s" "lc_transport s1 = lc_transport s"
    using calloc_frame [of s] c by simp_all
  obtain buf where buf: "pack_loop kps lay [0 ..< unat (fl_num_args lay)] (replicate (unat (fl_extent lay)) 0) = Returns buf"
    using pack_loop_fits [OF assms, of "[0 ..< unat (fl_num_args lay)]" "replicate (unat (fl_extent lay)) 0" kps] by auto
  show "pack_params kps lay s \<noteq> Out_of_bounds"
    by (simp add: pack_params_def c buf)
  show "pack_params kps lay s = Returns (packed, s') \<Longrightarrow> cached s' = cached s \<and> lc_initialized s' = lc_initialized s
      \<and> lc_transport s' = lc_transport s"
    using s1 by (auto simp: pack_params_def c buf split: if_splits)
qed

text \<open>Calls of a client, in any order; the context calls clear the cache of layouts.\<close>

datatype launch_call =
    Call_param_info u64 u64 bool
  | Call_launch u64 launch_dims u64 kernel_params bool
  | Call_set_node u64 u64 "(u64 \<times> launch_dims \<times> kernel_params \<times> bool) option"
  | Call_clear

fun launch_step :: "launch_call \<Rightarrow> libcuda \<Rightarrow> (CUresult \<times> libcuda) call" where
  "launch_step (Call_param_info f i null) s =
     bind_call (cuFuncGetParamInfo f i null s) (\<lambda>(r, out, s1). Returns (r, s1))"
| "launch_step (Call_launch f dims stream kps extra) s = cuLaunchKernel f dims stream kps extra s"
| "launch_step (Call_set_node g n ps) s = cuGraphExecKernelNodeSetParams g n ps s"
| "launch_step Call_clear s = Returns (CXL_CUDA_SUCCESS, function_param_layouts_clear s)"

fun launch_run :: "launch_call list \<Rightarrow> libcuda \<Rightarrow> (CUresult list \<times> libcuda) call" where
  "launch_run [] s = Returns ([], s)"
| "launch_run (c # cs) s = bind_call (launch_step c s) (\<lambda>(r, s1).
     bind_call (launch_run cs s1) (\<lambda>(rs, s2). Returns (r # rs, s2)))"

definition safe_call :: "(CUresult \<times> libcuda) call \<Rightarrow> bool" where
  "safe_call x \<longleftrightarrow> x \<noteq> Out_of_bounds \<and> (\<forall>r s'. x = Returns (r, s') \<longrightarrow> layouts_inv s')"

lemma safe_Returns [simp]: "safe_call (Returns (r, s)) = layouts_inv s"
  by (simp add: safe_call_def)

lemma safe_bind:
  assumes "x \<noteq> Out_of_bounds" "\<And>y. x = Returns y \<Longrightarrow> safe_call (f y)"
  shows "safe_call (bind_call x f)"
  using assms by (cases x) (simp_all add: safe_call_def)

lemma safe_execute: "layouts_inv s \<Longrightarrow> safe_call (execute_cmd_traced cmd s)"
  unfolding safe_call_def using layouts_inv_cong [OF execute_cmd_frame(1), of cmd s] by simp

lemma layouts_inv_writes [simp]:
  "layouts_inv (reg_write64 off v s) = layouts_inv s" "layouts_inv (data_write doff bs s) = layouts_inv s"
  by (simp_all add: layouts_inv_def)

text \<open>The common middle part of both launching calls.\<close>

lemma safe_packed:
  assumes "layouts_inv s" "\<And>s' buf. layouts_inv s' \<Longrightarrow> safe_call (send buf s')" "layout_ok lay"
  shows "safe_call (bind_call (pack_params kps lay s) (\<lambda>(packed, s2).
           case packed of None \<Rightarrow> Returns (r, s2) | Some buf \<Rightarrow> send buf s2))"
proof (rule safe_bind)
  fix y
  assume "pack_params kps lay s = Returns y"
  then have "layouts_inv (snd y)"
    using pack_params_fits(2) [OF assms(3), of kps s "fst y" "snd y"] assms(1) by (simp add: layouts_inv_def)
  then show "safe_call (case y of (packed, s2) \<Rightarrow> case packed of None \<Rightarrow> Returns (r, s2) | Some buf \<Rightarrow> send buf s2)"
    using assms(2) by (auto split: prod.split option.split)
qed (rule pack_params_fits(1) [OF assms(3)])

lemma safe_with_layout:
  assumes "layouts_inv s"
    and "\<And>s1 lay. layouts_inv s1 \<Longrightarrow> layout_ok lay \<Longrightarrow> safe_call (use lay s1)"
  shows "safe_call (bind_call (function_param_layout_copy f s) (\<lambda>(r, got, s1).
           case got of None \<Rightarrow> Returns (r, s1) | Some lay \<Rightarrow> use lay s1))"
proof (rule safe_bind)
  fix y
  assume "function_param_layout_copy f s = Returns y"
  then have "copy_ok f s y"
    by (rule layout_copy_ok [OF assms(1)])
  then show "safe_call (case y of (r, got, s1) \<Rightarrow> case got of None \<Rightarrow> Returns (r, s1) | Some lay \<Rightarrow> use lay s1)"
    using assms(2) by (auto simp: copy_ok_def split: prod.splits option.split)
qed simp

lemma safe_launch:
  assumes "layouts_inv s" shows "safe_call (cuLaunchKernel f dims stream kps extra s)"
  unfolding cuLaunchKernel_def Let_def
  using assms
  by (auto split: option.split intro!: safe_with_layout safe_packed safe_execute)

lemma safe_set_node:
  assumes "layouts_inv s" shows "safe_call (cuGraphExecKernelNodeSetParams g n ps s)"
  unfolding cuGraphExecKernelNodeSetParams_def Let_def
  using assms
  by (auto split: option.split intro!: safe_with_layout safe_packed safe_execute)

lemma safe_param_info:
  assumes "layouts_inv s" shows "safe_call (launch_step (Call_param_info f i null) s)"
proof (cases "lc_initialized s \<and> f \<noteq> 0 \<and> \<not> null")
  case True
  have "bind_call (cuFuncGetParamInfo f i null s) (\<lambda>(r, out, s1). Returns (r, s1))
      = bind_call (function_param_layout_copy f s) (\<lambda>(r, got, s1).
          case got of None \<Rightarrow> Returns (r, s1)
          | Some lay \<Rightarrow> Returns (if i \<ge> ucast (fl_num_args lay) then CUDA_ERROR_INVALID_VALUE else CXL_CUDA_SUCCESS, s1))"
    using True by (cases "function_param_layout_copy f s") (auto simp: cuFuncGetParamInfo_def split: option.split)
  then show ?thesis
    using assms by (simp only: launch_step.simps) (rule safe_with_layout, simp_all)
qed (use assms in \<open>auto simp: cuFuncGetParamInfo_def\<close>)

lemma launch_step_safe:
  assumes "layouts_inv s" shows "safe_call (launch_step c s)"
proof (cases c)
  case Call_clear
  then show ?thesis
    by (simp add: function_param_layouts_clear_def layouts_inv_def cached_def)
qed (use assms safe_param_info safe_launch safe_set_node in simp_all)

lemma launch_run_safe: "layouts_inv s \<Longrightarrow> launch_run cs s \<noteq> Out_of_bounds"
proof (induction cs arbitrary: s)
  case (Cons c cs)
  note safe = launch_step_safe [OF Cons(2), of c]
  show ?case
  proof (cases "launch_step c s")
    case (Returns y)
    then have "launch_run cs (snd y) \<noteq> Out_of_bounds"
      using safe Cons(1) by (cases y) (simp add: safe_call_def)
    then show ?thesis
      using Returns by (auto simp: bind_call_bounds case_prod_unfold)
  qed (use safe in \<open>simp_all add: safe_call_def\<close>)
qed simp




section \<open>What the device receives\<close>

lemma two_words_low [simp]: "ucast (two_words h l) = l"
  unfolding two_words_def by (rule bit_word_eqI) (auto simp: bit_simps)

lemma two_words_high [simp]: "ucast (drop_bit 32 (two_words h l)) = h"
  unfolding two_words_def by (rule bit_word_eqI) (auto simp: bit_simps dest: bit_imp_le_length)

text \<open>Reading a launch request back: function, dimensions, argument count, extent and stream.\<close>

definition decode_launch :: "u64 list \<Rightarrow> u64 \<times> launch_dims \<times> u32 \<times> u64 \<times> u64" where
  "decode_launch ps =
     (ps ! 0,
      \<lparr>gridDimX = ucast (ps ! 1), gridDimY = ucast (drop_bit 32 (ps ! 1)), gridDimZ = ucast (ps ! 2),
       blockDimX = ucast (drop_bit 32 (ps ! 2)), blockDimY = ucast (ps ! 3), blockDimZ = ucast (drop_bit 32 (ps ! 3)),
       sharedMemBytes = ucast (ps ! 4)\<rparr>,
      ucast (drop_bit 32 (ps ! 4)), ps ! 5, ps ! 6)"

definition can_send :: "CxlGpuTransport \<Rightarrow> bool" where
  "can_send t \<longleftrightarrow> tr_mapped t \<and> \<not> tr_unusable t \<and> d_device_generation (tr_descriptor t) \<noteq> 0
     \<and> d_completion_submission (tr_descriptor t) \<noteq> UINT64_MAX \<and> length (d_params (tr_descriptor t)) = 8"

lemma execute_cmd_rings:
  assumes "execute_cmd_traced cmd s = Returns (r, s')" "can_send (lc_transport s)"
  shows "\<exists>b. tr_rung (lc_transport s') = tr_rung (lc_transport s) @ [b]
          \<and> d_request_command (b_descriptor b) = ucast cmd
          \<and> d_params (b_descriptor b) = d_params (tr_descriptor (lc_transport s))
          \<and> b_data b = b_data (tr_bar2 (lc_transport s))"
proof -
  obtain call_id s1 where s1: "s1 = reg_write64 CXL_GPU_REG_CALL_ID call_id (s\<lparr>lc_sequence := lc_sequence s + 1\<rparr>)"
      and ex: "(case cxl_gpu_transport_execute cmd (lc_transport s1) of None \<Rightarrow> Diverges
        | Some (r, polls, t) \<Rightarrow> Returns (uint r, reg_write64 CXL_GPU_REG_CALL_ID 0 (s1\<lparr>lc_transport := t\<rparr>)))
        = Returns (r, s')"
    using assms(1) unfolding execute_cmd_traced_def Let_def by blast
  have t1: "lc_transport s1 = upd_descriptor (\<lambda>d. d\<lparr>d_request_call_id := call_id\<rparr>) (lc_transport s)"
    using assms(2) by (simp add: s1 reg_write64_def cxl_gpu_transport_write64_def can_send_def is_param_def word_le_nat_alt)
  obtain r1 polls t where run: "cxl_gpu_transport_execute cmd (lc_transport s1) = Some (r1, polls, t)"
      and s': "s' = reg_write64 CXL_GPU_REG_CALL_ID 0 (s1\<lparr>lc_transport := t\<rparr>)"
    using ex by (auto split: option.splits)
  have "tr_rung (lc_transport s') = tr_rung t"
    by (simp add: s' reg_write64_def cxl_gpu_transport_write64_def set_param_def)
  moreover have "tr_rung t = tr_rung (lc_transport s1) @ [tr_bar2 (submit
      (d_completion_submission (tr_descriptor (lc_transport s1)) + 1)
      (d_device_generation (tr_descriptor (lc_transport s1))) cmd (lc_transport s1))]"
    using assms(2) by (intro execute_rings [OF run]) (simp_all add: t1 can_send_def)
  ultimately show ?thesis
    by (simp add: t1 submit_def upd_descriptor_def set_regs_def Let_def)
qed

text \<open>The slots of the parameters in the buffer.\<close>

definition slots_apart :: "FunctionParamLayout \<Rightarrow> bool" where
  "slots_apart lay \<longleftrightarrow> (\<forall>i j. i < j \<longrightarrow> j < unat (fl_num_args lay) \<longrightarrow>
     unat (fl_offsets lay ! i) + unat (fl_sizes lay ! i) \<le> unat (fl_offsets lay ! j)
     \<or> unat (fl_offsets lay ! j) + unat (fl_sizes lay ! j) \<le> unat (fl_offsets lay ! i))"

definition slice :: "u8 list \<Rightarrow> nat \<Rightarrow> nat \<Rightarrow> u8 list" where
  "slice buf off n = take n (drop off buf)"

lemma slice_memcpy:
  assumes "memcpy_into buf off src = Returns buf'"
  shows "slice buf' off (length src) = src"
    and "\<And>o2 n. o2 + n \<le> off \<or> off + length src \<le> o2 \<Longrightarrow> slice buf' o2 n = slice buf o2 n"
proof -
  have fit: "off + length src \<le> length buf" "buf' = take off buf @ src @ drop (off + length src) buf"
    using assms by (auto simp: memcpy_into_def split: if_splits)
  then show "slice buf' off (length src) = src"
    by (simp add: slice_def)
  show "slice buf' o2 n = slice buf o2 n" if "o2 + n \<le> off \<or> off + length src \<le> o2" for o2 n
    using that fit by (auto simp: slice_def drop_take min_def le_diff_conv2)
qed

lemma pack_loop_kept:
  assumes "pack_loop kps lay is buf = Returns buf'"
    and "\<And>j. j \<in> set is \<Longrightarrow> o2 + n \<le> unat (fl_offsets lay ! j)
           \<or> unat (fl_offsets lay ! j) + unat (fl_sizes lay ! j) \<le> o2"
  shows "slice buf' o2 n = slice buf o2 n"
  using assms
proof (induction "is" arbitrary: buf)
  case (Cons i "is")
  obtain b1 where b1: "memcpy_into buf (unat (fl_offsets lay ! i)) (param_bytes kps lay i) = Returns b1"
      "pack_loop kps lay is b1 = Returns buf'"
    using Cons(2) by (auto simp: bind_call_Returns)
  have "o2 + n \<le> unat (fl_offsets lay ! i) \<or> unat (fl_offsets lay ! i) + length (param_bytes kps lay i) \<le> o2"
    using Cons(3) [of i] length_param_bytes_le [of kps lay i] by auto
  then have "slice b1 o2 n = slice buf o2 n"
    by (rule slice_memcpy(2) [OF b1(1)])
  then show ?case
    using Cons(1) [OF b1(2)] Cons(3) by simp
qed simp

lemma pack_loop_slots:
  assumes "slots_apart lay" "params_present kps (unat (fl_num_args lay))" "k \<le> unat (fl_num_args lay)"
    and "pack_loop kps lay [k ..< unat (fl_num_args lay)] buf = Returns buf'"
    and "k \<le> i" "i < unat (fl_num_args lay)"
  shows "slice buf' (unat (fl_offsets lay ! i)) (unat (fl_sizes lay ! i)) = param_bytes kps lay i"
  using assms(3-)
proof (induction "unat (fl_num_args lay) - k" arbitrary: k buf)
  case (Suc n)
  let ?n = "unat (fl_num_args lay)"
  have upt: "[k ..< ?n] = k # [Suc k ..< ?n]"
    using Suc(2) by (simp add: upt_conv_Cons)
  obtain b1 where b1: "memcpy_into buf (unat (fl_offsets lay ! k)) (param_bytes kps lay k) = Returns b1"
      "pack_loop kps lay [Suc k ..< ?n] b1 = Returns buf'"
    using Suc(4) by (auto simp: upt bind_call_Returns)
  show ?case
  proof (cases "i = k")
    case True
    have len: "length (param_bytes kps lay i) = unat (fl_sizes lay ! i)"
      using assms(2) Suc(6) by (rule length_param_bytes)
    have "slice buf' (unat (fl_offsets lay ! i)) (unat (fl_sizes lay ! i))
        = slice b1 (unat (fl_offsets lay ! i)) (unat (fl_sizes lay ! i))"
      using assms(1) True by (intro pack_loop_kept [OF b1(2)]) (auto simp: slots_apart_def)
    also have "\<dots> = param_bytes kps lay i"
      using slice_memcpy(1) [OF b1(1)] True len by simp
    finally show ?thesis .
  next
    case False
    then show ?thesis
      using Suc(2,3,5,6) b1(2) by (intro Suc(1) [of "Suc k" b1]) simp_all
  qed
qed simp

lemma get_bytes_set_bytes:
  assumes "off + n \<le> length buf" shows "get_bytes (set_bytes 0 buf m) off n = slice buf off n"
  using assms by (intro nth_equalityI) (simp_all add: get_bytes_def set_bytes_def slice_def)

text \<open>The buffer of a checked layout arrives whole in the data window.\<close>

lemma data_write_whole:
  assumes "fl_extent lay \<le> CXL_GPU_DATA_SIZE" "length buf = unat (fl_extent lay)"
  shows "b_data (tr_bar2 (lc_transport (data_write 0 buf s))) = set_bytes 0 buf (b_data (tr_bar2 (lc_transport s)))"
proof -
  have "word_of_nat (length buf) = fl_extent lay"
    using assms(2) by (simp add: word_unat_eq_iff unat_of_nat)
  then show ?thesis
    using assms(1) by (simp add: data_write_def cxl_gpu_transport_data_write_def window_fits_def not_less)
qed

lemma data_write_other [simp]:
  "tr_descriptor (lc_transport (data_write off buf s)) = tr_descriptor (lc_transport s)"
  "tr_rung (lc_transport (data_write off buf s)) = tr_rung (lc_transport s)"
  "can_send (lc_transport (data_write off buf s)) = can_send (lc_transport s)"
  by (simp_all add: data_write_def cxl_gpu_transport_data_write_def can_send_def)

text \<open>Seven register writes fill the first seven parameters.\<close>

lemma seven_params:
  fixes p0 p1 p2 p3 p4 p5 p6 :: u64
  assumes "can_send (lc_transport s)"
  defines "s7 \<equiv> reg_write64 0x70 p6 (reg_write64 0x68 p5 (reg_write64 0x60 p4 (reg_write64 0x58 p3
                   (reg_write64 0x50 p2 (reg_write64 0x48 p1 (reg_write64 0x40 p0 s))))))"
  shows "can_send (lc_transport s7)" "tr_rung (lc_transport s7) = tr_rung (lc_transport s)"
    "take 7 (d_params (tr_descriptor (lc_transport s7))) = [p0, p1, p2, p3, p4, p5, p6]"
    "b_data (tr_bar2 (lc_transport s7)) = b_data (tr_bar2 (lc_transport s))"
proof -
  define ps where "ps = [p0, p1, p2, p3, p4, p5, p6]"
  have len: "length ps = 7"
    by (simp add: ps_def)
  have "lc_transport s7 = write_params 0 ps (lc_transport s)"
    by (simp add: s7_def ps_def reg_write64_def)
  then have t: "lc_transport s7 = upd_descriptor (\<lambda>d. d\<lparr>d_params := ps @ drop 7 (d_params d)\<rparr>) (lc_transport s)"
    using assms(1) write_params_set [of "lc_transport s" 0 ps] by (simp add: len can_send_def)
  have "take 7 (ps @ xs) = ps" for xs
    by (simp add: len)
  with t show "can_send (lc_transport s7)" "tr_rung (lc_transport s7) = tr_rung (lc_transport s)"
    "take 7 (d_params (tr_descriptor (lc_transport s7))) = [p0, p1, p2, p3, p4, p5, p6]"
    "b_data (tr_bar2 (lc_transport s7)) = b_data (tr_bar2 (lc_transport s))"
    using assms(1) by (simp_all add: can_send_def upd_descriptor_def len ps_def [symmetric])
qed

lemma decode_launch_take:
  assumes "take 7 ps = [p0, two_words gy gx, two_words bx gz, two_words bz by1, two_words na sh, p5, p6]"
  shows "decode_launch ps = (p0, \<lparr>gridDimX = gx, gridDimY = gy, gridDimZ = gz, blockDimX = bx, blockDimY = by1,
           blockDimZ = bz, sharedMemBytes = sh\<rparr>, na, p5, p6)"
proof -
  have nth: "ps ! i = take 7 ps ! i" if "i < 7" for i
    using that by simp
  show ?thesis
    by (simp add: decode_launch_def nth assms del: nth_take)
qed

lemma pack_params_buffer:
  assumes "layout_ok lay" "slots_apart lay" "params_present kps (unat (fl_num_args lay))" "lc_alloc s (lc_allocs s)"
  shows "\<exists>buf n. pack_params kps lay s = Returns (Some buf, s\<lparr>lc_allocs := n\<rparr>)
           \<and> length buf = unat (fl_extent lay)
           \<and> (\<forall>i < unat (fl_num_args lay).
                slice buf (unat (fl_offsets lay ! i)) (unat (fl_sizes lay ! i)) = param_bytes kps lay i)"
proof (cases "fl_extent lay = 0")
  case True
  then have "unat (fl_sizes lay ! i) = 0" if "i < unat (fl_num_args lay)" for i
    using assms(1) that by (auto simp: layout_ok_def)
  then have "param_bytes kps lay i = []" if "i < unat (fl_num_args lay)" for i
    using length_param_bytes [OF assms(3) that, of lay] that by simp
  then show ?thesis
    using True by (intro exI [of _ "[]"] exI [of _ "lc_allocs s"]) (simp add: pack_params_def slice_def)
next
  case False
  let ?n = "unat (fl_num_args lay)"
  obtain buf where buf: "pack_loop kps lay [0 ..< ?n] (replicate (unat (fl_extent lay)) 0) = Returns buf"
      "length buf = unat (fl_extent lay)"
    using pack_loop_fits [OF assms(1), of "[0 ..< ?n]" "replicate (unat (fl_extent lay)) 0" kps] by auto
  then have "slice buf (unat (fl_offsets lay ! i)) (unat (fl_sizes lay ! i)) = param_bytes kps lay i" if "i < ?n" for i
    using pack_loop_slots [OF assms(2,3), of 0] that by simp
  then show ?thesis
    using False assms(4) buf
    by (intro exI [of _ buf] exI [of _ "Suc (lc_allocs s)"]) (simp add: pack_params_def calloc_def)
qed

text \<open>
  C28: A launch reaches the device as the caller meant it. When the layout of the function is known
  and the device accepts commands, a launch rings the doorbell once with the launch command; the
  parameter registers decode to the function, the grid and block dimensions, the shared memory
  size, the number of arguments, the extent and the stream of the call, and the data window holds
  every argument at its offset, provided the slots of the layout do not overlap.
\<close>

theorem launch_reaches_device:
  assumes "layouts_inv s" "cached s i = Some lay" "cxl_gpu_handle_id f = Some i" "slots_apart lay"
    and "lc_initialized s" "lc_alloc s (lc_allocs s)" "can_send (lc_transport s)"
    and "cxl_gpu_stream_wire stream = Some w" "params_present kps (unat (fl_num_args lay))" "kps \<noteq> None \<or> \<not> extra"
    and "cuLaunchKernel f dims stream kps extra s = Returns (r, s')"
  shows "\<exists>b. tr_rung (lc_transport s') = tr_rung (lc_transport s) @ [b]
           \<and> d_request_command (b_descriptor b) = 0x40
           \<and> decode_launch (d_params (b_descriptor b)) = (i, dims, fl_num_args lay, fl_extent lay, w)
           \<and> (\<forall>j < unat (fl_num_args lay). get_bytes (b_data b) (unat (fl_offsets lay ! j)) (unat (fl_sizes lay ! j))
                = param_bytes kps lay j)"
proof -
  have lay: "layout_ok lay"
    using assms(1,2) by (simp add: layouts_inv_def)
  have f: "f \<noteq> 0" "cxl_gpu_id_from_handle f = i"
    using assms(3) by (auto simp: cxl_gpu_handle_id_def Let_def split: if_splits)
  have copy: "function_param_layout_copy f s = Returns (0, Some lay, s)"
    using assms(2,3) by (simp add: function_param_layout_copy_def find_cached)
  obtain buf n where buf: "pack_params kps lay s = Returns (Some buf, s\<lparr>lc_allocs := n\<rparr>)"
      "length buf = unat (fl_extent lay)"
      "\<And>j. j < unat (fl_num_args lay) \<Longrightarrow>
         slice buf (unat (fl_offsets lay ! j)) (unat (fl_sizes lay ! j)) = param_bytes kps lay j"
    using pack_params_buffer [OF lay assms(4,9,6)] by blast
  define s3 where "s3 = (if fl_extent lay \<noteq> 0 then data_write 0 buf (s\<lparr>lc_allocs := n\<rparr>) else s\<lparr>lc_allocs := n\<rparr>)"
  have s3: "can_send (lc_transport s3)" "tr_rung (lc_transport s3) = tr_rung (lc_transport s)"
    using assms(7) by (simp_all add: s3_def)
  have data: "get_bytes (b_data (tr_bar2 (lc_transport s3))) (unat (fl_offsets lay ! j)) (unat (fl_sizes lay ! j))
      = param_bytes kps lay j" if "j < unat (fl_num_args lay)" for j
  proof -
    have fit: "unat (fl_offsets lay ! j) + unat (fl_sizes lay ! j) \<le> unat (fl_extent lay)"
      using lay that by (simp add: layout_ok_def)
    show ?thesis
    proof (cases "fl_extent lay = 0")
      case True
      then have "unat (fl_sizes lay ! j) = 0"
        using fit by simp
      then show ?thesis
        using length_param_bytes [OF assms(9) that, of lay] by (simp add: get_bytes_def)
    next
      case False
      have "fl_extent lay \<le> CXL_GPU_DATA_SIZE"
        using lay by (simp add: layout_ok_def)
      then show ?thesis
        using False buf(2) buf(3) [OF that] fit by (simp add: s3_def data_write_whole get_bytes_set_bytes)
    qed
  qed
  define s7 where "s7 = reg_write64 0x70 w (reg_write64 0x68 (fl_extent lay)
      (reg_write64 0x60 (two_words (fl_num_args lay) (sharedMemBytes dims))
      (reg_write64 0x58 (two_words (blockDimZ dims) (blockDimY dims))
      (reg_write64 0x50 (two_words (blockDimX dims) (gridDimZ dims))
      (reg_write64 0x48 (two_words (gridDimY dims) (gridDimX dims)) (reg_write64 0x40 i s3))))))"
  note s7 = seven_params [OF s3(1), where ?p0.0 = i and ?p1.0 = "two_words (gridDimY dims) (gridDimX dims)"
      and ?p2.0 = "two_words (blockDimX dims) (gridDimZ dims)" and ?p3.0 = "two_words (blockDimZ dims) (blockDimY dims)"
      and ?p4.0 = "two_words (fl_num_args lay) (sharedMemBytes dims)" and ?p5.0 = "fl_extent lay" and ?p6.0 = w,
      folded s7_def]
  have "execute_cmd_traced 0x40 s7 = Returns (r, s')"
    using assms(5,8-11) f copy buf(1) by (auto simp: cuLaunchKernel_def Let_def s3_def s7_def)
  from execute_cmd_rings [OF this s7(1)] show ?thesis
    using s7 s3(2) data decode_launch_take [OF s7(3)] by (auto simp: data)
qed

text \<open>A function of two arguments, of eight and of four bytes.\<close>

definition example_layout :: FunctionParamLayout where
  "example_layout = \<lparr>fl_function = 6, fl_num_args = 2, fl_extent = 12,
     fl_offsets = [0, 8] @ replicate 62 0, fl_sizes = [8, 4] @ replicate 62 0\<rparr>"

definition example_libcuda :: libcuda where
  "example_libcuda = \<lparr>lc_initialized = True, lc_pid = 4, lc_sequence = 0,
     lc_transport = new_transport prompt_device (\<lambda>k. 1), lc_pages = [0 \<mapsto> [5 \<mapsto> example_layout]],
     lc_alloc = \<lambda>k. True, lc_allocs = 0\<rparr>"

definition example_dims :: launch_dims where
  "example_dims = \<lparr>gridDimX = 4, gridDimY = 3, gridDimZ = 2, blockDimX = 32, blockDimY = 8, blockDimZ = 1,
     sharedMemBytes = 64\<rparr>"

definition example_params :: kernel_params where
  "example_params = Some (\<lambda>i. Some (\<lambda>k. word_of_nat (16 * i + k)))"

lemma example_layout_ok: "layout_ok example_layout" "slots_apart example_layout"
    "cxl_gpu_handle_id (fl_function example_layout) = Some 5"
proof -
  have two: "i < 2 \<Longrightarrow> i = 0 \<or> i = 1" for i :: nat
    by linarith
  show "layout_ok example_layout"
    by (auto simp: layout_ok_def example_layout_def word_le_nat_alt dest!: two)
  show "slots_apart example_layout"
    by (auto simp: slots_apart_def example_layout_def dest!: two)
  show "cxl_gpu_handle_id (fl_function example_layout) = Some 5"
    by code_simp
qed

lemma example_cached: "cached example_libcuda i = (if i = 5 then Some example_layout else None)"
proof -
  have five: "page_index 5 = 0" "page_slot 5 = 5" "(5 :: u64) \<le> 0xFFFFFFFF"
    by (simp_all add: page_index_def page_slot_def word_le_nat_alt)
  have "page_slot i \<noteq> 5" if "i \<noteq> 5" "page_index i = 0"
    using page_inj [of i 5] that five by metis
  then show ?thesis
    by (cases "i = 5"; cases "page_index i = 0") (simp_all add: cached_def example_libcuda_def five)
qed

lemma device_frame [simp]:
  "tr_device (lc_transport (reg_write64 off v s)) = tr_device (lc_transport s)"
  "tr_device (lc_transport (data_write doff bs s)) = tr_device (lc_transport s)"
  by (simp_all add: reg_write64_def cxl_gpu_transport_write64_def set_param_def data_write_def
      cxl_gpu_transport_data_write_def)

lemma prompt_cmd:
  assumes "tr_device (lc_transport s) = prompt_device" "can_send (lc_transport s)"
  shows "\<exists>r s'. execute_cmd_traced cmd s = Returns (r, s')"
proof -
  let ?s = "\<lambda>id. reg_write64 CXL_GPU_REG_CALL_ID id (s\<lparr>lc_sequence := lc_sequence s + 1\<rparr>)"
  have "lc_transport (?s id) = upd_descriptor (\<lambda>d. d\<lparr>d_request_call_id := id\<rparr>) (lc_transport s)" for id
    using assms(2) by (simp add: reg_write64_def cxl_gpu_transport_write64_def can_send_def is_param_def word_le_nat_alt)
  then have "\<exists>r p t. cxl_gpu_transport_execute cmd (lc_transport (?s id)) = Some (r, p, t)" for id
    using assms by (simp add: prompt_execute can_send_def)
  then show ?thesis
    unfolding execute_cmd_traced_def Let_def by (auto split: option.split)
qed

lemma example_libcuda_state:
  "lc_initialized example_libcuda" "can_send (lc_transport example_libcuda)"
  "tr_device (lc_transport example_libcuda) = prompt_device" "lc_alloc example_libcuda (lc_allocs example_libcuda)"
  by (simp_all add: example_libcuda_def can_send_def new_transport_def new_descriptor_def)

lemma example_present: "params_present example_params n"
  by (simp add: params_present_def example_params_def list_all_iff)

lemma example_launch: "\<exists>r s'. cuLaunchKernel 6 example_dims 0 example_params False example_libcuda = Returns (r, s')"
proof -
  have copy: "function_param_layout_copy 6 example_libcuda = Returns (0, Some example_layout, example_libcuda)"
    using example_layout_ok(3) example_cached [of 5]
    by (simp add: function_param_layout_copy_def find_cached example_layout_def)
  obtain buf n where buf: "pack_params example_params example_layout example_libcuda
      = Returns (Some buf, example_libcuda\<lparr>lc_allocs := n\<rparr>)"
    using pack_params_buffer [OF example_layout_ok(1,2) example_present example_libcuda_state(4)] by blast
  define s3 where "s3 = (if fl_extent example_layout \<noteq> 0 then data_write 0 buf (example_libcuda\<lparr>lc_allocs := n\<rparr>)
      else example_libcuda\<lparr>lc_allocs := n\<rparr>)"
  have s3: "can_send (lc_transport s3)" "tr_device (lc_transport s3) = prompt_device"
    using example_libcuda_state by (simp_all add: s3_def)
  show ?thesis
    using prompt_cmd [OF _ seven_params(1) [OF s3(1)]] s3(2) copy example_present buf example_libcuda_state(1)
    by (simp add: cuLaunchKernel_def cxl_gpu_stream_wire_def Let_def flip: s3_def)
qed

theorem launch_reaches_device_witness:
  "\<exists>r s' b. cuLaunchKernel 6 example_dims 0 example_params False example_libcuda = Returns (r, s')
     \<and> tr_rung (lc_transport s') = tr_rung (lc_transport example_libcuda) @ [b]
     \<and> d_request_command (b_descriptor b) = 0x40
     \<and> decode_launch (d_params (b_descriptor b))
         = (5, example_dims, fl_num_args example_layout, fl_extent example_layout, 0xFFFFFFFFFFFFFFFF)
     \<and> (\<forall>j < unat (fl_num_args example_layout).
           get_bytes (b_data b) (unat (fl_offsets example_layout ! j)) (unat (fl_sizes example_layout ! j))
           = param_bytes example_params example_layout j)"
proof -
  obtain r s' where launch: "cuLaunchKernel 6 example_dims 0 example_params False example_libcuda = Returns (r, s')"
    using example_launch by blast
  have inv: "layouts_inv example_libcuda" "cached example_libcuda 5 = Some example_layout"
      "cxl_gpu_handle_id 6 = Some 5"
    using example_cached example_layout_ok by (auto simp: layouts_inv_def example_layout_def)
  have "cxl_gpu_stream_wire 0 = Some 0xFFFFFFFFFFFFFFFF"
    by (simp add: cxl_gpu_stream_wire_def)
  from launch_reaches_device [OF inv example_layout_ok(2) example_libcuda_state(1,4,2) this example_present _ launch]
  show ?thesis
    using launch by (auto simp: example_params_def)
qed


end
