(* ===== verification/GPU_Driver.thy ===== *)
theory GPU_Driver
  imports GPU_Launch
begin

text \<open>
  The context calls of the driver interface in \<open>libcuda.c\<close>: they combine the context bookkeeping,
  the device commands and the context-local storage table. A call that creates or retains a
  context first asks the bookkeeping, then runs the device command under the command lock and then
  commits; these are two separate atomic steps, and the second half of the theory lets threads
  interleave between them.

  The destructor callbacks of the storage table belong to the client; the model records the calls.
\<close>

section \<open>Context-local storage\<close>

record ContextStorageEntry =
  se_in_use :: bool
  se_context :: u64
  se_state_mgr :: u64
  se_ctx_state :: u64
  se_dtor_cb :: u64

definition empty_entry :: ContextStorageEntry where
  "empty_entry = \<lparr>se_in_use = False, se_context = 0, se_state_mgr = 0, se_ctx_state = 0, se_dtor_cb = 0\<rparr>"

abbreviation (input) CONTEXT_STORAGE_MAX_ENTRIES :: nat where "CONTEXT_STORAGE_MAX_ENTRIES \<equiv> 128"

record driver = libcuda +
  dr_context :: CxlCudaContextProcessState
  dr_storage :: "ContextStorageEntry list"
  dr_put_count :: u32
  dr_get_count :: u32
  dr_dtor_calls :: "(u64 \<times> u64 \<times> u64 \<times> u64) list"

definition entry_for :: "u64 \<Rightarrow> u64 \<Rightarrow> ContextStorageEntry \<Rightarrow> bool" where
  "entry_for context state_mgr e \<longleftrightarrow> se_in_use e \<and> se_context e = context \<and> se_state_mgr e = state_mgr"

text \<open>
  One pass over the table: the index of the entry of the key, if any, and of the first free entry
  seen before it.
\<close>

fun scan_storage :: "u64 \<Rightarrow> u64 \<Rightarrow> nat \<Rightarrow> nat option \<Rightarrow> ContextStorageEntry list \<Rightarrow> nat option \<times> nat option" where
  "scan_storage context state_mgr i free [] = (None, free)"
| "scan_storage context state_mgr i free (e # es) =
     (if entry_for context state_mgr e then (Some i, free)
      else scan_storage context state_mgr (Suc i)
             (if \<not> se_in_use e \<and> free = None then Some i else free) es)"

definition context_local_storage_put :: "u64 \<Rightarrow> u64 \<Rightarrow> u64 \<Rightarrow> u64 \<Rightarrow> driver \<Rightarrow> CUresult \<times> driver" where
  "context_local_storage_put context state_mgr ctx_state dtor_cb s =
     (let s1 = s\<lparr>dr_put_count := dr_put_count s + 1\<rparr>;
          new = \<lparr>se_in_use = True, se_context = context, se_state_mgr = state_mgr, se_ctx_state = ctx_state,
                 se_dtor_cb = dtor_cb\<rparr> in
      case scan_storage context state_mgr 0 None (dr_storage s) of
        (Some i, _) \<Rightarrow>
          (CXL_CUDA_SUCCESS, s1\<lparr>dr_storage := (dr_storage s)[i := (dr_storage s ! i)\<lparr>se_state_mgr := state_mgr,
             se_ctx_state := ctx_state, se_dtor_cb := dtor_cb\<rparr>]\<rparr>)
      | (None, None) \<Rightarrow> (CUDA_ERROR_OUT_OF_MEMORY, s1)
      | (None, Some free_slot) \<Rightarrow> (CXL_CUDA_SUCCESS, s1\<lparr>dr_storage := (dr_storage s)[free_slot := new]\<rparr>))"

text \<open>Deleting always reports \<open>CUDA_ERROR_DEINITIALIZED\<close>.\<close>

definition context_local_storage_delete :: "u64 \<Rightarrow> u64 \<Rightarrow> driver \<Rightarrow> CUresult \<times> driver" where
  "context_local_storage_delete context state_mgr s =
     (4, case scan_storage context state_mgr 0 None (dr_storage s) of
           (Some i, _) \<Rightarrow> s\<lparr>dr_storage := (dr_storage s)[i := empty_entry]\<rparr>
         | _ \<Rightarrow> s)"

definition context_local_storage_get :: "thread \<Rightarrow> bool \<Rightarrow> u64 \<Rightarrow> u64 \<Rightarrow> driver \<Rightarrow> CUresult \<times> u64 option \<times> driver" where
  "context_local_storage_get t out_null context state_mgr s =
     (let s1 = s\<lparr>dr_get_count := dr_get_count s + 1\<rparr> in
      if out_null then (CUDA_ERROR_INVALID_VALUE, None, s1)
      else case scan_storage context state_mgr 0 None (dr_storage s) of
        (Some i, _) \<Rightarrow> (CXL_CUDA_SUCCESS, Some (se_ctx_state (dr_storage s ! i)), s1)
      | _ \<Rightarrow>
          (case cxl_cuda_context_get_current t False (dr_context s) of
             (r, out) \<Rightarrow>
               if r \<noteq> CXL_CUDA_SUCCESS \<or> out = Some 0 then (CXL_CUDA_ERROR_INVALID_CONTEXT, Some 0, s1)
               else (CUDA_ERROR_INVALID_HANDLE, Some 0, s1)))"

definition of_context :: "u64 \<Rightarrow> ContextStorageEntry \<Rightarrow> bool" where
  "of_context context e \<longleftrightarrow> se_in_use e \<and> (context = 0 \<or> se_context e = context)"

definition context_storage_clear_context :: "u64 \<Rightarrow> bool \<Rightarrow> driver \<Rightarrow> driver" where
  "context_storage_clear_context context call_dtors s =
     (let callbacks = filter (\<lambda>e. of_context context e \<and> call_dtors \<and> se_dtor_cb e \<noteq> 0) (dr_storage s) in
      s\<lparr>dr_storage := map (\<lambda>e. if of_context context e then empty_entry else e) (dr_storage s),
        dr_dtor_calls := dr_dtor_calls s
          @ map (\<lambda>e. (se_dtor_cb e, se_context e, se_state_mgr e, se_ctx_state e)) callbacks\<rparr>)"


section \<open>Context calls\<close>

abbreviation (input) CUDA_ERROR_INVALID_DEVICE :: CUresult where "CUDA_ERROR_INVALID_DEVICE \<equiv> 101"

definition on_context :: "(CxlCudaContextProcessState \<Rightarrow> CUresult \<times> CxlCudaContextProcessState) \<Rightarrow> driver \<Rightarrow> CUresult \<times> driver" where
  "on_context f s = (let (r, c) = f (dr_context s) in (r, s\<lparr>dr_context := c\<rparr>))"

definition clear_layouts :: "driver \<Rightarrow> driver" where
  "clear_layouts s = s\<lparr>lc_pages := (\<lambda>i. None)\<rparr>"

text \<open>A command of the driver: the base part of the state, the rest is kept.\<close>

definition driver_cmd :: "u32 \<Rightarrow> driver \<Rightarrow> (CUresult \<times> driver) call" where
  "driver_cmd cmd s = bind_call (execute_cmd_traced cmd (libcuda.truncate s)) (\<lambda>(r, b).
     Returns (r, libcuda.extend b (driver.fields (dr_context s) (dr_storage s) (dr_put_count s) (dr_get_count s)
                                     (dr_dtor_calls s))))"

definition result0 :: "driver \<Rightarrow> u64" where
  "result0 s = cxl_gpu_transport_read64 (lc_transport s) 0x80"

text \<open>The part of creating a context that runs under the command lock.\<close>

definition create_under_lock :: "thread \<Rightarrow> driver \<Rightarrow> (CUresult \<times> u64 option \<times> driver) call" where
  "create_under_lock t s =
     bind_call (driver_cmd 0x10 s) (\<lambda>(r, s1).
       if r \<noteq> CXL_CUDA_SUCCESS then Returns (r, None, s1)
       else
         let (r1, s2) = on_context (cxl_cuda_context_commit_ordinary_create t (result0 s1)) s1 in
         Returns (r1, Some (result0 s1), s2))"

text \<open>The output is the context handle; it is written even when the commit fails.\<close>

definition cuCtxCreate_v2 :: "thread \<Rightarrow> bool \<Rightarrow> u32 \<Rightarrow> int \<Rightarrow> driver \<Rightarrow> (CUresult \<times> u64 option \<times> driver) call" where
  "cuCtxCreate_v2 t ctx_null flags dev s =
     (if \<not> lc_initialized s then Returns (CUDA_ERROR_NOT_INITIALIZED, None, s)
      else if ctx_null then Returns (CUDA_ERROR_INVALID_VALUE, None, s)
      else if dev \<noteq> 0 then Returns (CUDA_ERROR_INVALID_DEVICE, None, s)
      else if flags \<noteq> 0 then Returns (CUDA_ERROR_NOT_SUPPORTED, None, s)
      else
        let r = cxl_cuda_context_prepare_ordinary_create (dr_context s) in
        if r \<noteq> CXL_CUDA_SUCCESS then Returns (r, None, s) else create_under_lock t s)"

definition cuCtxDestroy_v2 :: "thread \<Rightarrow> u64 \<Rightarrow> driver \<Rightarrow> (CUresult \<times> driver) call" where
  "cuCtxDestroy_v2 t ctx s =
     (if \<not> lc_initialized s then Returns (CUDA_ERROR_NOT_INITIALIZED, s)
      else
        let r = cxl_cuda_context_prepare_destroy ctx (dr_context s) in
        if r \<noteq> CXL_CUDA_SUCCESS then Returns (r, s)
        else bind_call (driver_cmd 0x11 s) (\<lambda>(r1, s1).
          if r1 \<noteq> CXL_CUDA_SUCCESS then Returns (r1, s1)
          else
            let (r2, s2) = on_context (cxl_cuda_context_commit_destroy t ctx)
                             (context_storage_clear_context ctx True s1) in
            Returns (r2, clear_layouts s2)))"

definition cuCtxGetCurrent :: "thread \<Rightarrow> bool \<Rightarrow> driver \<Rightarrow> CUresult \<times> u64 option" where
  "cuCtxGetCurrent t null s =
     (if null then (CUDA_ERROR_INVALID_VALUE, None) else cxl_cuda_context_get_current t False (dr_context s))"

definition cuCtxSetCurrent :: "thread \<Rightarrow> u64 \<Rightarrow> driver \<Rightarrow> CUresult \<times> driver" where
  "cuCtxSetCurrent t ctx = on_context (cxl_cuda_context_set_current t ctx)"

definition cuCtxPushCurrent_v2 :: "thread \<Rightarrow> u64 \<Rightarrow> driver \<Rightarrow> CUresult \<times> driver" where
  "cuCtxPushCurrent_v2 t ctx = on_context (cxl_cuda_context_push_current t ctx)"

definition cuCtxPopCurrent_v2 :: "thread \<Rightarrow> bool \<Rightarrow> driver \<Rightarrow> CUresult \<times> u64 option \<times> driver" where
  "cuCtxPopCurrent_v2 t null s =
     (if null then (CUDA_ERROR_INVALID_VALUE, None, s)
      else let (r, out, c) = cxl_cuda_context_pop_current t False (dr_context s) in (r, out, s\<lparr>dr_context := c\<rparr>))"

definition cuCtxGetDevice :: "thread \<Rightarrow> bool \<Rightarrow> driver \<Rightarrow> CUresult \<times> int option" where
  "cuCtxGetDevice t null s =
     (if null then (CUDA_ERROR_INVALID_VALUE, None)
      else let (r, out) = cxl_cuda_context_get_current_live t False (dr_context s) in
           if r \<noteq> CXL_CUDA_SUCCESS then (r, None) else (CXL_CUDA_SUCCESS, Some 0))"

definition cuCtxGetFlags :: "thread \<Rightarrow> bool \<Rightarrow> driver \<Rightarrow> CUresult \<times> u32 option" where
  "cuCtxGetFlags t null s =
     (if null then (CUDA_ERROR_INVALID_VALUE, None)
      else let (r, out) = cxl_cuda_context_get_current_live t False (dr_context s) in
           if r \<noteq> CXL_CUDA_SUCCESS then (r, None) else (CXL_CUDA_SUCCESS, Some 0))"

text \<open>The part of the first retain that runs under the command lock.\<close>

definition retain_under_lock :: "driver \<Rightarrow> (CUresult \<times> u64 option \<times> driver) call" where
  "retain_under_lock s =
     bind_call (driver_cmd 0x10 s) (\<lambda>(r, s1).
       if r \<noteq> CXL_CUDA_SUCCESS then Returns (r, None, s1)
       else
         let (r1, s2) = on_context (cxl_cuda_context_commit_primary_retain (result0 s1)) s1 in
         Returns (r1, if r1 = CXL_CUDA_SUCCESS then Some (result0 s1) else None, s2))"

definition cuDevicePrimaryCtxRetain :: "bool \<Rightarrow> int \<Rightarrow> driver \<Rightarrow> (CUresult \<times> u64 option \<times> driver) call" where
  "cuDevicePrimaryCtxRetain null dev s =
     (if \<not> lc_initialized s then Returns (CUDA_ERROR_NOT_INITIALIZED, None, s)
      else if null then Returns (CUDA_ERROR_INVALID_VALUE, None, s)
      else if dev \<noteq> 0 then Returns (CUDA_ERROR_INVALID_DEVICE, None, s)
      else case cxl_cuda_context_prepare_primary_retain False (dr_context s) of
        (r, Some (True, _), c) \<Rightarrow> retain_under_lock (s\<lparr>dr_context := c\<rparr>)
      | (r, Some (False, token), c) \<Rightarrow> Returns (CXL_CUDA_SUCCESS, Some token, s\<lparr>dr_context := c\<rparr>)
      | (r, None, c) \<Rightarrow> Returns (r, None, s\<lparr>dr_context := c\<rparr>))"

definition cuDevicePrimaryCtxRelease :: "int \<Rightarrow> driver \<Rightarrow> CUresult \<times> driver" where
  "cuDevicePrimaryCtxRelease dev s =
     (if dev \<noteq> 0 then (CUDA_ERROR_INVALID_DEVICE, s)
      else let (r, s1) = on_context cxl_cuda_context_primary_release s in
           (r, if r = CXL_CUDA_SUCCESS then clear_layouts s1 else s1))"

definition cuDevicePrimaryCtxSetFlags :: "int \<Rightarrow> u32 \<Rightarrow> driver \<Rightarrow> CUresult" where
  "cuDevicePrimaryCtxSetFlags dev flags s =
     (if dev \<noteq> 0 then CUDA_ERROR_INVALID_DEVICE
      else if flags \<noteq> 0 then CUDA_ERROR_NOT_SUPPORTED
      else cxl_cuda_context_primary_set_zero_flags (dr_context s))"

definition cuDevicePrimaryCtxGetState :: "int \<Rightarrow> bool \<Rightarrow> driver \<Rightarrow> CUresult \<times> (u32 \<times> int) option" where
  "cuDevicePrimaryCtxGetState dev null s =
     (if dev \<noteq> 0 then (CUDA_ERROR_INVALID_DEVICE, None)
      else if null then (CUDA_ERROR_INVALID_VALUE, None)
      else cxl_cuda_context_primary_get_state False (dr_context s))"

definition cuDevicePrimaryCtxReset :: "int \<Rightarrow> driver \<Rightarrow> CUresult \<times> driver" where
  "cuDevicePrimaryCtxReset dev s =
     (if dev \<noteq> 0 then (CUDA_ERROR_INVALID_DEVICE, s)
      else let r = cxl_cuda_context_primary_reset (dr_context s) in
           (r, if r = CXL_CUDA_SUCCESS then clear_layouts s else s))"



section \<open>The storage table is a map\<close>

text \<open>
  Interface of a keyed store: a client that only puts and drops keys sees a map. The laws are
  discharged for the context-local storage table and for the cache of kernel parameter layouts.
\<close>

locale keyed_store =
  fixes inv :: "'s \<Rightarrow> bool" and view :: "'s \<Rightarrow> 'k \<Rightarrow> 'v option"
    and put :: "'k \<Rightarrow> 'v \<Rightarrow> 's \<Rightarrow> bool \<times> 's" and valid :: "'k \<Rightarrow> 'v \<Rightarrow> bool"
  assumes put_inv: "inv s \<Longrightarrow> valid k v \<Longrightarrow> inv (snd (put k v s))"
    and put_view: "inv s \<Longrightarrow> valid k v \<Longrightarrow>
      view (snd (put k v s)) = (if fst (put k v s) then (view s)(k \<mapsto> v) else view s)"
begin

fun puts :: "('k \<times> 'v) list \<Rightarrow> 's \<Rightarrow> bool \<times> 's" where
  "puts [] s = (True, s)"
| "puts ((k, v) # ps) s = (let (ok, s1) = put k v s; (oks, s2) = puts ps s1 in (ok \<and> oks, s2))"

lemma puts_inv: "inv s \<Longrightarrow> list_all (\<lambda>(k, v). valid k v) ps \<Longrightarrow> inv (snd (puts ps s))"
  by (induction ps arbitrary: s) (auto simp: case_prod_unfold Let_def put_inv)

lemma puts_view:
  "inv s \<Longrightarrow> list_all (\<lambda>(k, v). valid k v) ps \<Longrightarrow> fst (puts ps s) \<Longrightarrow> view (snd (puts ps s)) = view s ++ map_of (rev ps)"
  by (induction ps arbitrary: s) (auto simp: case_prod_unfold Let_def put_inv put_view)

end

text \<open>The pairs of key and value in use, in the order of the table.\<close>

definition storage_pairs :: "ContextStorageEntry list \<Rightarrow> ((u64 \<times> u64) \<times> (u64 \<times> u64)) list" where
  "storage_pairs es = map (\<lambda>e. ((se_context e, se_state_mgr e), (se_ctx_state e, se_dtor_cb e))) (filter se_in_use es)"

definition storage_inv :: "driver \<Rightarrow> bool" where
  "storage_inv s \<longleftrightarrow> distinct (map fst (storage_pairs (dr_storage s)))"

definition stored :: "driver \<Rightarrow> u64 \<times> u64 \<Rightarrow> (u64 \<times> u64) option" where
  "stored s = map_of (storage_pairs (dr_storage s))"

lemma storage_pairs_simps [simp]:
  "storage_pairs [] = []" "storage_pairs (as @ bs) = storage_pairs as @ storage_pairs bs"
  "storage_pairs (e # es) = (if se_in_use e
     then ((se_context e, se_state_mgr e), (se_ctx_state e, se_dtor_cb e)) # storage_pairs es else storage_pairs es)"
  by (simp_all add: storage_pairs_def)

lemma scan_storage_hit:
  assumes "scan_storage c m i free es = (Some j, free')"
  shows "\<exists>as e bs. es = as @ e # bs \<and> j = i + length as \<and> entry_for c m e \<and> (c, m) \<notin> fst ` set (storage_pairs as)"
  using assms
proof (induction es arbitrary: i free)
  case (Cons e es)
  show ?case
  proof (cases "entry_for c m e")
    case True
    then show ?thesis
      using Cons(2) by (intro exI [of _ "[]"] exI [of _ e] exI [of _ es]) simp
  next
    case False
    then have "scan_storage c m (Suc i) (if \<not> se_in_use e \<and> free = None then Some i else free) es = (Some j, free')"
      using Cons(2) by simp
    from Cons(1) [OF this] obtain as e' bs where "es = as @ e' # bs" "j = Suc i + length as" "entry_for c m e'"
        "(c, m) \<notin> fst ` set (storage_pairs as)"
      by blast
    then show ?thesis
      using False by (intro exI [of _ "e # as"] exI [of _ e'] exI [of _ bs]) (auto simp: entry_for_def)
  qed
qed simp

lemma scan_storage_miss:
  assumes "scan_storage c m i free es = (None, free')"
  shows "(c, m) \<notin> fst ` set (storage_pairs es)"
    and "free = None \<Longrightarrow> free' = None \<Longrightarrow> list_all se_in_use es"
    and "free = None \<Longrightarrow> free' = Some j \<Longrightarrow> \<exists>as e bs. es = as @ e # bs \<and> j = i + length as \<and> \<not> se_in_use e"
proof -
  show "(c, m) \<notin> fst ` set (storage_pairs es)"
    using assms by (induction es arbitrary: i free) (auto simp: entry_for_def split: if_splits)
  have keep: "scan_storage c m i (Some x) es = (None, free') \<Longrightarrow> free' = Some x" for i x es
    by (induction es arbitrary: i) (auto split: if_splits)
  have "(free' = None \<longrightarrow> list_all se_in_use es)
      \<and> (\<forall>j. free' = Some j \<longrightarrow> (\<exists>as e bs. es = as @ e # bs \<and> j = i + length as \<and> \<not> se_in_use e))" if "free = None"
    using assms unfolding that
  proof (induction es arbitrary: i)
    case (Cons e es)
    show ?case
    proof (cases "se_in_use e")
      case True
      then have "scan_storage c m (Suc i) None es = (None, free')"
        using Cons(2) by (auto split: if_splits)
      from Cons(1) [OF this] have IH: "(free' = None \<longrightarrow> list_all se_in_use es)
          \<and> (\<forall>j. free' = Some j \<longrightarrow> (\<exists>as e bs. es = as @ e # bs \<and> j = Suc i + length as \<and> \<not> se_in_use e))"
        by blast
      have "\<exists>as e' bs. e # es = as @ e' # bs \<and> j = i + length as \<and> \<not> se_in_use e'" if j: "free' = Some j" for j
      proof -
        obtain as e' bs where "es = as @ e' # bs" "j = Suc i + length as" "\<not> se_in_use e'"
          using IH j by blast
        then show ?thesis
          by (intro exI [of _ "e # as"] exI [of _ e'] exI [of _ bs]) simp
      qed
      then show ?thesis
        using IH True by simp
    next
      case False
      then have "free' = Some i"
        using Cons(2) keep by (auto simp: entry_for_def split: if_splits)
      then show ?thesis
        using False by auto
    qed
  qed simp
  then show "free = None \<Longrightarrow> free' = None \<Longrightarrow> list_all se_in_use es"
    "free = None \<Longrightarrow> free' = Some j \<Longrightarrow> \<exists>as e bs. es = as @ e # bs \<and> j = i + length as \<and> \<not> se_in_use e"
    by blast+
qed

text \<open>The operations on the table, as updates of the map.\<close>

definition storage_put :: "u64 \<times> u64 \<Rightarrow> u64 \<times> u64 \<Rightarrow> driver \<Rightarrow> bool \<times> driver" where
  "storage_put k v s =
     (let (r, s1) = context_local_storage_put (fst k) (snd k) (fst v) (snd v) s in (r = CXL_CUDA_SUCCESS, s1))"

lemma storage_put_map:
  assumes "storage_inv s"
  shows "storage_inv (snd (storage_put k v s))"
    "stored (snd (storage_put k v s)) = (if fst (storage_put k v s) then (stored s)(k \<mapsto> v) else stored s)"
proof -
  obtain c m where k: "k = (c, m)"
    by fastforce
  obtain x d where v: "v = (x, d)"
    by fastforce
  let ?es = "dr_storage s"
  obtain hit free where scan: "scan_storage c m 0 None ?es = (hit, free)"
    by fastforce
  have "storage_inv (snd (storage_put k v s))
    \<and> stored (snd (storage_put k v s)) = (if fst (storage_put k v s) then (stored s)(k \<mapsto> v) else stored s)"
  proof (cases hit)
    case (Some j)
    obtain as e bs where es: "?es = as @ e # bs" "j = length as" "entry_for c m e" "(c, m) \<notin> fst ` set (storage_pairs as)"
      using scan_storage_hit [OF scan [unfolded Some]] by auto
    then have keys: "se_in_use e" "se_context e = c" "se_state_mgr e = m"
      by (simp_all add: entry_for_def)
    have "map_of (storage_pairs as) (c, m) = None"
      using es(4) by (simp add: map_of_eq_None_iff)
    then show ?thesis
      using assms es scan Some keys
      by (auto simp: storage_put_def context_local_storage_put_def k v Let_def storage_inv_def stored_def map_add_def
          split: option.split)
  next
    case None
    note miss = scan_storage_miss [OF scan [unfolded None]]
    show ?thesis
    proof (cases free)
      case (Some j)
      obtain as e bs where es: "?es = as @ e # bs" "j = length as" "\<not> se_in_use e"
        using miss(3) [OF refl Some] by auto
      have "map_of (storage_pairs as) (c, m) = None" "map_of (storage_pairs bs) (c, m) = None"
        using miss(1) es by (auto simp: map_of_eq_None_iff)
      then show ?thesis
        using assms es scan Some None miss(1)
        by (auto simp: storage_put_def context_local_storage_put_def k v Let_def storage_inv_def stored_def map_add_def
            fun_eq_iff split: option.split)
    qed (use assms scan None in \<open>simp add: storage_put_def context_local_storage_put_def k v Let_def storage_inv_def stored_def\<close>)
  qed
  then show "storage_inv (snd (storage_put k v s))"
    "stored (snd (storage_put k v s)) = (if fst (storage_put k v s) then (stored s)(k \<mapsto> v) else stored s)"
    by blast+
qed

interpretation ctx_storage: keyed_store storage_inv stored storage_put "\<lambda>k v. True"
  by unfold_locales (simp_all add: storage_put_map)

text \<open>The cache of parameter layouts satisfies the same interface.\<close>

definition layout_put :: "u64 \<Rightarrow> FunctionParamLayout \<Rightarrow> libcuda \<Rightarrow> bool \<times> libcuda" where
  "layout_put i lay s = function_param_layout_insert lay s"

interpretation layout_cache: keyed_store layouts_inv cached layout_put
  "\<lambda>i lay. layout_ok lay \<and> cxl_gpu_handle_id (fl_function lay) = Some i"
proof
  fix s i lay
  assume a: "layouts_inv s" "layout_ok lay \<and> cxl_gpu_handle_id (fl_function lay) = Some i"
  then show "cached (snd (layout_put i lay s)) = (if fst (layout_put i lay s) then (cached s)(i \<mapsto> lay) else cached s)"
    unfolding layout_put_def using insert_cached(1) [of lay i s] by simp
  then show "layouts_inv (snd (layout_put i lay s))"
    using a by (auto simp: layouts_inv_def split: if_splits)
qed

text \<open>Deleting, clearing and reading.\<close>

lemma storage_delete_map:
  assumes "storage_inv s"
  shows "storage_inv (snd (context_local_storage_delete c m s))"
    "stored (snd (context_local_storage_delete c m s)) = (stored s)((c, m) := None)"
proof -
  obtain hit free where scan: "scan_storage c m 0 None (dr_storage s) = (hit, free)"
    by fastforce
  have "storage_inv (snd (context_local_storage_delete c m s))
    \<and> stored (snd (context_local_storage_delete c m s)) = (stored s)((c, m) := None)"
  proof (cases hit)
    case (Some j)
    obtain as e bs where es: "dr_storage s = as @ e # bs" "j = length as" "entry_for c m e"
        "(c, m) \<notin> fst ` set (storage_pairs as)"
      using scan_storage_hit [OF scan [unfolded Some]] by auto
    then have "map_of (storage_pairs as) (c, m) = None" "map_of (storage_pairs bs) (c, m) = None"
      using assms by (auto simp: map_of_eq_None_iff storage_inv_def entry_for_def)
    then show ?thesis
      using assms es scan Some
      by (auto simp: context_local_storage_delete_def storage_inv_def stored_def empty_entry_def entry_for_def
          map_add_def fun_eq_iff split: option.split)
  next
    case None
    then have "stored s (c, m) = None"
      using scan_storage_miss(1) [OF scan [unfolded None]] by (simp add: stored_def map_of_eq_None_iff)
    then show ?thesis
      using assms scan None by (auto simp: context_local_storage_delete_def fun_eq_iff)
  qed
  then show "storage_inv (snd (context_local_storage_delete c m s))"
    "stored (snd (context_local_storage_delete c m s)) = (stored s)((c, m) := None)"
    by blast+
qed

lemma storage_get_map:
  "context_local_storage_get t False c m s =
     (case stored s (c, m) of
        Some (x, d) \<Rightarrow> (CXL_CUDA_SUCCESS, Some x, s\<lparr>dr_get_count := dr_get_count s + 1\<rparr>)
      | None \<Rightarrow> (if snd (cxl_cuda_context_get_current t False (dr_context s)) = Some 0
                 then CXL_CUDA_ERROR_INVALID_CONTEXT else CUDA_ERROR_INVALID_HANDLE, Some 0,
                 s\<lparr>dr_get_count := dr_get_count s + 1\<rparr>))"
proof -
  obtain hit free where scan: "scan_storage c m 0 None (dr_storage s) = (hit, free)"
    by fastforce
  show ?thesis
  proof (cases hit)
    case (Some j)
    obtain as e bs where es: "dr_storage s = as @ e # bs" "j = length as" "entry_for c m e"
        "(c, m) \<notin> fst ` set (storage_pairs as)"
      using scan_storage_hit [OF scan [unfolded Some]] by auto
    then have "map_of (storage_pairs as) (c, m) = None"
      by (simp add: map_of_eq_None_iff)
    then have "stored s (c, m) = Some (se_ctx_state e, se_dtor_cb e)" "dr_storage s ! j = e"
      using es by (auto simp: stored_def entry_for_def map_add_def)
    then show ?thesis
      using scan Some by (simp add: context_local_storage_get_def Let_def)
  next
    case None
    then have "stored s (c, m) = None"
      using scan_storage_miss(1) [OF scan [unfolded None]] by (simp add: stored_def map_of_eq_None_iff)
    then show ?thesis
      using scan None by (simp add: context_local_storage_get_def cxl_cuda_context_get_current_def Let_def)
  qed
qed

lemma storage_pairs_cleared:
  "storage_pairs (map (\<lambda>e. if of_context c e then empty_entry else e) es)
     = filter (\<lambda>(k, v). c \<noteq> 0 \<and> fst k \<noteq> c) (storage_pairs es)"
  by (induction es) (auto simp: of_context_def empty_entry_def)

lemma storage_clear_map:
  assumes "storage_inv s"
  shows "storage_inv (context_storage_clear_context c d s)"
    "stored (context_storage_clear_context c d s) = (\<lambda>k. if c = 0 \<or> fst k = c then None else stored s k)"
proof -
  show "storage_inv (context_storage_clear_context c d s)"
    using assms distinct_map_filter
    by (auto simp: storage_inv_def context_storage_clear_context_def Let_def storage_pairs_cleared)
  show "stored (context_storage_clear_context c d s) = (\<lambda>k. if c = 0 \<or> fst k = c then None else stored s k)"
  proof
    fix k
    have "map_of (filter (\<lambda>(k, v). c \<noteq> 0 \<and> fst k \<noteq> c) xs) k = (if c = 0 \<or> fst k = c then None else map_of xs k)"
      for xs :: "((u64 \<times> u64) \<times> u64 \<times> u64) list"
      by (induction xs) auto
    then show "stored (context_storage_clear_context c d s) k = (if c = 0 \<or> fst k = c then None else stored s k)"
      by (simp add: stored_def context_storage_clear_context_def Let_def storage_pairs_cleared)
  qed
qed

text \<open>Sequences of storage calls and the map they should implement.\<close>

datatype storage_op =
    Store u64 u64 u64 u64
  | Drop u64 u64
  | Fetch thread u64 u64
  | Clear u64 bool

fun storage_step :: "storage_op \<Rightarrow> driver \<Rightarrow> (CUresult \<times> u64 option) \<times> driver" where
  "storage_step (Store c m x d) s = (let (r, s1) = context_local_storage_put c m x d s in ((r, None), s1))"
| "storage_step (Drop c m) s = (let (r, s1) = context_local_storage_delete c m s in ((r, None), s1))"
| "storage_step (Fetch t c m) s = (let (r, out, s1) = context_local_storage_get t False c m s in ((r, out), s1))"
| "storage_step (Clear c d) s = ((CXL_CUDA_SUCCESS, None), context_storage_clear_context c d s)"

fun storage_run :: "storage_op list \<Rightarrow> driver \<Rightarrow> (CUresult \<times> u64 option) list \<times> driver" where
  "storage_run [] s = ([], s)"
| "storage_run (p # ps) s = (let (r, s1) = storage_step p s; (rs, s2) = storage_run ps s1 in (r # rs, s2))"

type_synonym storage_map = "u64 \<times> u64 \<Rightarrow> (u64 \<times> u64) option"

fun map_step :: "CxlCudaContextProcessState \<Rightarrow> storage_op \<Rightarrow> storage_map \<Rightarrow> (CUresult \<times> u64 option) \<times> storage_map" where
  "map_step cs (Store c m x d) f =
     (if f (c, m) \<noteq> None \<or> card (dom f) < CONTEXT_STORAGE_MAX_ENTRIES
      then ((CXL_CUDA_SUCCESS, None), f((c, m) \<mapsto> (x, d))) else ((CUDA_ERROR_OUT_OF_MEMORY, None), f))"
| "map_step cs (Drop c m) f = ((4, None), f((c, m) := None))"
| "map_step cs (Fetch t c m) f =
     (case f (c, m) of
        Some (x, d) \<Rightarrow> ((CXL_CUDA_SUCCESS, Some x), f)
      | None \<Rightarrow> ((if snd (cxl_cuda_context_get_current t False cs) = Some 0
                  then CXL_CUDA_ERROR_INVALID_CONTEXT else CUDA_ERROR_INVALID_HANDLE, Some 0), f))"
| "map_step cs (Clear c d) f = ((CXL_CUDA_SUCCESS, None), \<lambda>k. if c = 0 \<or> fst k = c then None else f k)"

fun map_run :: "CxlCudaContextProcessState \<Rightarrow> storage_op list \<Rightarrow> storage_map \<Rightarrow> (CUresult \<times> u64 option) list \<times> storage_map" where
  "map_run cs [] f = ([], f)"
| "map_run cs (p # ps) f = (let (r, f1) = map_step cs p f; (rs, f2) = map_run cs ps f1 in (r # rs, f2))"

lemma card_stored:
  assumes "storage_inv s" shows "card (dom (stored s)) = length (filter se_in_use (dr_storage s))"
proof -
  have "dom (stored s) = set (map fst (storage_pairs (dr_storage s)))"
    by (simp add: stored_def dom_map_of_conv_image_fst)
  then show ?thesis
    using assms distinct_card [of "map fst (storage_pairs (dr_storage s))"]
    by (simp add: storage_inv_def) (simp add: storage_pairs_def)
qed

lemma storage_put_accepts:
  assumes "storage_inv s" "length (dr_storage s) = CONTEXT_STORAGE_MAX_ENTRIES"
  shows "fst (storage_put k v s) \<longleftrightarrow> stored s k \<noteq> None \<or> card (dom (stored s)) < CONTEXT_STORAGE_MAX_ENTRIES"
    "fst (context_local_storage_put (fst k) (snd k) (fst v) (snd v) s)
       = (if fst (storage_put k v s) then CXL_CUDA_SUCCESS else CUDA_ERROR_OUT_OF_MEMORY)"
proof -
  obtain c m where k: "k = (c, m)"
    by fastforce
  obtain hit free where scan: "scan_storage c m 0 None (dr_storage s) = (hit, free)"
    by fastforce
  show "fst (context_local_storage_put (fst k) (snd k) (fst v) (snd v) s)
      = (if fst (storage_put k v s) then CXL_CUDA_SUCCESS else CUDA_ERROR_OUT_OF_MEMORY)"
    using scan by (cases hit; cases free) (simp_all add: storage_put_def context_local_storage_put_def k Let_def)
  show "fst (storage_put k v s) \<longleftrightarrow> stored s k \<noteq> None \<or> card (dom (stored s)) < CONTEXT_STORAGE_MAX_ENTRIES"
  proof (cases hit)
    case (Some j)
    then have "stored s k \<noteq> None"
      using scan_storage_hit [OF scan [unfolded Some]]
      by (auto simp: k stored_def entry_for_def map_add_def split: option.split)
    then show ?thesis
      using scan Some by (simp add: storage_put_def context_local_storage_put_def k Let_def)
  next
    case None
    note miss = scan_storage_miss [OF scan [unfolded None]]
    have none: "stored s k = None"
      using miss(1) by (simp add: stored_def k map_of_eq_None_iff)
    show ?thesis
    proof (cases free)
      case None2: None
      then have "filter se_in_use (dr_storage s) = dr_storage s"
        using miss(2) by (simp add: list_all_iff)
      then show ?thesis
        using scan None None2 none assms card_stored [OF assms(1)]
        by (simp add: storage_put_def context_local_storage_put_def k Let_def)
    next
      case (Some j)
      obtain as e bs where "dr_storage s = as @ e # bs" "\<not> se_in_use e"
        using miss(3) [OF refl Some] by auto
      then have "length (filter se_in_use (dr_storage s)) < length (dr_storage s)"
        by (simp add: less_Suc_eq_le add_mono)
      then show ?thesis
        using scan None Some assms card_stored [OF assms(1)]
        by (simp add: storage_put_def context_local_storage_put_def k Let_def)
    qed
  qed
qed

lemma storage_length:
  "length (dr_storage (snd (storage_step p s))) = length (dr_storage s)"
  "dr_context (snd (storage_step p s)) = dr_context s"
  by (cases p; auto simp: context_local_storage_put_def context_local_storage_delete_def context_local_storage_get_def
      context_storage_clear_context_def Let_def split: prod.splits option.splits)+

lemma storage_step_map:
  assumes "storage_inv s" "length (dr_storage s) = CONTEXT_STORAGE_MAX_ENTRIES"
  shows "storage_inv (snd (storage_step p s))"
    "(fst (storage_step p s), stored (snd (storage_step p s))) = map_step (dr_context s) p (stored s)"
proof -
  have "storage_inv (snd (storage_step p s))
    \<and> (fst (storage_step p s), stored (snd (storage_step p s))) = map_step (dr_context s) p (stored s)"
  proof (cases p)
    case (Store c m x d)
    have "snd (storage_put (c, m) (x, d) s) = snd (context_local_storage_put c m x d s)"
      by (simp add: storage_put_def case_prod_unfold Let_def)
    then show ?thesis
      using storage_put_map [OF assms(1), of "(c, m)" "(x, d)"] storage_put_accepts [OF assms, of "(c, m)" "(x, d)"] Store
      by (simp add: case_prod_unfold Let_def)
  next
    case (Drop c m)
    then show ?thesis
      using storage_delete_map [OF assms(1)]
      by (simp add: case_prod_unfold Let_def) (simp add: context_local_storage_delete_def)
  next
    case (Fetch t c m)
    have "storage_inv (s\<lparr>dr_get_count := n\<rparr>) = storage_inv s" "stored (s\<lparr>dr_get_count := n\<rparr>) = stored s" for n
      by (simp_all add: storage_inv_def stored_def)
    then show ?thesis
      using assms(1) Fetch by (simp add: storage_get_map case_prod_unfold Let_def split: option.split)
  next
    case (Clear c d)
    then show ?thesis
      using storage_clear_map [OF assms(1)] by simp
  qed
  then show "storage_inv (snd (storage_step p s))"
    "(fst (storage_step p s), stored (snd (storage_step p s))) = map_step (dr_context s) p (stored s)"
    by blast+
qed


text \<open>A device that answers every command with success and hands out the token 7.\<close>

definition granting_device :: "nat \<Rightarrow> bar2 \<Rightarrow> bar2" where
  "granting_device k b = b\<lparr>b_descriptor := (b_descriptor b)\<lparr>
       d_completion_submission := d_request_submission (b_descriptor b),
       d_completion_device_generation := d_request_device_generation (b_descriptor b),
       d_completion_status := CXL_GPU_DESCRIPTOR_COMPLETION_COMPLETE, d_result := 0, d_results := [7, 0, 0, 0]\<rparr>\<rparr>"

definition example_driver :: driver where
  "example_driver = \<lparr>lc_initialized = True, lc_pid = 4, lc_sequence = 0,
     lc_transport = new_transport granting_device (\<lambda>k. 1), lc_pages = (\<lambda>i. None), lc_alloc = (\<lambda>k. True), lc_allocs = 0,
     dr_context = new_context_state, dr_storage = replicate CONTEXT_STORAGE_MAX_ENTRIES empty_entry,
     dr_put_count = 0, dr_get_count = 0, dr_dtor_calls = []\<rparr>"

definition example_storage_ops :: "storage_op list" where
  "example_storage_ops = [Store 7 1 100 0, Store 7 2 200 9, Store 7 1 101 0, Fetch 0 7 1, Clear 7 True, Fetch 0 7 2]"

lemma example_storage: "storage_inv example_driver" "stored example_driver = Map.empty"
    "length (dr_storage example_driver) = CONTEXT_STORAGE_MAX_ENTRIES"
proof -
  have "storage_pairs (replicate n empty_entry) = []" for n
    by (induction n) (simp_all add: empty_entry_def)
  then show "storage_inv example_driver" "stored example_driver = Map.empty"
      "length (dr_storage example_driver) = CONTEXT_STORAGE_MAX_ENTRIES"
    by (simp_all add: storage_inv_def stored_def example_driver_def)
qed



section \<open>Two first retains at the same time\<close>

lemma driver_cmd_context:
  assumes "driver_cmd cmd s = Returns (r, s')" shows "dr_context s' = dr_context s"
  using assms by (auto simp: driver_cmd_def bind_call_Returns libcuda.extend_def driver.fields_def)

text \<open>
  Two threads that retain the primary context for the first time can both be told to create it:
  the question and the commit are separate steps. The first to run its device command commits.
  The second has a device context created for it as well, is then refused with
  \<open>CUDA_ERROR_NOT_SUPPORTED\<close> and the new device context is lost, while the same call one step
  later would have succeeded with the token of the first.
\<close>

lemma concurrent_first_retain_refused:
  assumes "g_mode (dr_context s) = CXL_CUDA_CONTEXT_EMPTY" "lc_initialized s"
    and "retain_under_lock s = Returns (CXL_CUDA_SUCCESS, Some a, s1)"
    and "driver_cmd 0x10 s1 = Returns (CXL_CUDA_SUCCESS, s2)"
  shows "cxl_cuda_context_prepare_primary_retain False (dr_context s) = (CXL_CUDA_SUCCESS, Some (True, 0), dr_context s)
       \<and> (\<exists>s3. retain_under_lock s1 = Returns (CXL_CUDA_ERROR_NOT_SUPPORTED, None, s3))
       \<and> cxl_cuda_context_prepare_primary_retain False (dr_context s1)
         = (CXL_CUDA_SUCCESS, Some (False, a), (dr_context s1)\<lparr>g_primary_retain_count := 2\<rparr>)"
proof -
  obtain c s0 where "driver_cmd 0x10 s = Returns (c, s0)" "g_mode (dr_context s1) = CXL_CUDA_CONTEXT_PRIMARY_LIVE"
      "g_token (dr_context s1) = a" "g_primary_retain_count (dr_context s1) = 1"
    using assms(3)
    by (auto simp: retain_under_lock_def bind_call_Returns on_context_def cxl_cuda_context_commit_primary_retain_def
        Let_def split: if_splits)
  moreover have "g_mode (dr_context s2) = g_mode (dr_context s1)"
    using driver_cmd_context [OF assms(4)] by simp
  ultimately show ?thesis
    using assms(1,4)
    by (simp add: cxl_cuda_context_prepare_primary_retain_def retain_under_lock_def on_context_def
        cxl_cuda_context_commit_primary_retain_def Let_def)
qed

definition grants :: "CxlGpuTransport \<Rightarrow> bool" where
  "grants t \<longleftrightarrow> tr_device t = granting_device \<and> can_send t \<and> unat (d_completion_submission (tr_descriptor t)) < 100"

lemma call_id_register: "\<not> is_param CXL_GPU_REG_CALL_ID"
  by (simp add: is_param_def word_le_nat_alt)

lemma result0_register: "cxl_gpu_transport_read64 t 0x80 = d_results (tr_descriptor t) ! 0"
  by (simp add: cxl_gpu_transport_read64_def is_param_def is_result_def result_index_def word_le_nat_alt)

lemma grants_execute:
  assumes "grants t"
  shows "\<exists>t'. cxl_gpu_transport_execute cmd t = Some (0, 1, t') \<and> tr_device t' = granting_device \<and> can_send t'
          \<and> d_results (tr_descriptor t') = [7, 0, 0, 0]
          \<and> d_completion_submission (tr_descriptor t') = d_completion_submission (tr_descriptor t) + 1"
proof -
  let ?p = "d_completion_submission (tr_descriptor t)"
  have "unat (?p + 1) = unat ?p + 1"
    using assms unat_add_u64 [of ?p 1] by (simp add: grants_def)
  then have "?p + 1 \<noteq> UINT64_MAX" "?p \<noteq> UINT64_MAX"
    using assms by (auto simp: grants_def)
  then show ?thesis
    using assms
    by (subst execute_first_poll)
      (simp_all add: grants_def can_send_def observe_def granting_device_def completed_def submit_def Let_def
        upd_descriptor_def set_regs_def)
qed

lemma granting_cmd:
  assumes "grants (lc_transport s)"
  shows "\<exists>s'. driver_cmd cmd s = Returns (0, s') \<and> tr_device (lc_transport s') = granting_device
          \<and> can_send (lc_transport s') \<and> result0 s' = 7
          \<and> d_completion_submission (tr_descriptor (lc_transport s')) = d_completion_submission (tr_descriptor (lc_transport s)) + 1"
proof -
  let ?b = "libcuda.truncate s"
  let ?t = "\<lambda>id. cxl_gpu_transport_write64 CXL_GPU_REG_CALL_ID id (lc_transport s)"
  have w: "cxl_gpu_transport_write64 CXL_GPU_REG_CALL_ID id t = upd_descriptor (\<lambda>d. d\<lparr>d_request_call_id := id\<rparr>) t"
    if "can_send t" for id t
    using that by (simp add: cxl_gpu_transport_write64_def call_id_register can_send_def)
  have "grants (?t id)" for id
    using assms by (simp add: w grants_def can_send_def)
  then obtain t' where t': "cxl_gpu_transport_execute cmd (?t id) = Some (0, 1, t' id)" "tr_device (t' id) = granting_device"
      "can_send (t' id)" "d_results (tr_descriptor (t' id)) = [7, 0, 0, 0]"
      "d_completion_submission (tr_descriptor (t' id)) = d_completion_submission (tr_descriptor (?t id)) + 1" for id
    using grants_execute [of "?t id" cmd for id] by metis
  have send: "can_send (lc_transport s)"
    using assms by (simp add: grants_def)
  show ?thesis
    using t' by (simp add: driver_cmd_def execute_cmd_traced_def reg_write64_def libcuda.truncate_def libcuda.extend_def
        driver.fields_def Let_def w [OF send] w [OF t'(3)] result0_def result0_register can_send_def)
qed

lemma concurrent_first_retain_refused_witness:
  "\<exists>s1 s2. retain_under_lock example_driver = Returns (CXL_CUDA_SUCCESS, Some 7, s1)
     \<and> driver_cmd 0x10 s1 = Returns (CXL_CUDA_SUCCESS, s2)
     \<and> (\<exists>s3. retain_under_lock s1 = Returns (CXL_CUDA_ERROR_NOT_SUPPORTED, None, s3))"
proof -
  have ex: "grants (lc_transport example_driver)" "g_mode (dr_context example_driver) = CXL_CUDA_CONTEXT_EMPTY"
      "lc_initialized example_driver"
    by (simp_all add: grants_def example_driver_def can_send_def new_transport_def new_descriptor_def new_context_state_def)
  obtain s0 where s0: "driver_cmd 0x10 example_driver = Returns (0, s0)" "tr_device (lc_transport s0) = granting_device"
      "can_send (lc_transport s0)" "result0 s0 = 7"
      "d_completion_submission (tr_descriptor (lc_transport s0))
         = d_completion_submission (tr_descriptor (lc_transport example_driver)) + 1"
    using granting_cmd [OF ex(1)] by blast
  define s1 where "s1 = s0\<lparr>dr_context := (dr_context s0)\<lparr>g_token := 7, g_mode := CXL_CUDA_CONTEXT_PRIMARY_LIVE,
      g_primary_retain_count := 1\<rparr>\<rparr>"
  have s1: "retain_under_lock example_driver = Returns (CXL_CUDA_SUCCESS, Some 7, s1)"
    using s0(1,4) ex(2) driver_cmd_context [OF s0(1)]
    by (simp add: retain_under_lock_def on_context_def cxl_cuda_context_commit_primary_retain_def s1_def Let_def)
  have "grants (lc_transport s1)"
    using s0 by (simp add: s1_def grants_def example_driver_def new_transport_def new_descriptor_def)
  then obtain s2 where s2: "driver_cmd 0x10 s1 = Returns (0, s2)"
    using granting_cmd by blast
  show ?thesis
    using concurrent_first_retain_refused [OF ex(2,3) s1 s2] s1 s2 by blast
qed

end
