(* ===== verification/Remote_Expander.thy ===== *)
theory Remote_Expander
  imports CXL_Expander Coherency_Engine
begin

text \<open>
  The endpoints of the topology tree and the objects they share. \<open>RemoteCXLExpander\<close> of
  src/src/cxlendpoint.cpp is a memory expander that stands for the memory of another node: it
  overrides the latency, the bandwidth and \<open>insert\<close>, reaches its node over a fabric link, consults
  the coherency engine and keeps a shadow directory.

  Expanders are objects that the tree, the list of configured endpoints and the device map of the
  controller all point to, and one expander may hang in several places. The store of these objects
  is explicit: a pointer is an index into \<open>fa_heap\<close>, and no endpoint is ever freed. A remote
  expander points to the coherency engine, which the controller may replace: an engine that is gone
  is missing from \<open>fa_engines\<close>, and using it is undefined, the outcome \<^const>\<open>None\<close>. The engines use
  the LogP model of the controller, \<open>fa_logp\<close>. The members \<open>tcp_transport_\<close>, \<open>msg_manager_\<close> and
  \<open>hdm_decoder_\<close> are never used by the methods and left out.
\<close>

record ShadowEntry =
  sh_local_state :: MHSLDCacheState
  sh_last_access_time :: u64
  sh_valid :: bool

record RemoteCXLExpander =
  rx_remote_node_id :: u32
  rx_local_node_id :: u32
  rx_fabric_link :: FabricLink
  rx_coherency_engine :: "nat option"
  rx_remote_base_addr :: u64
  rx_remote_capacity :: u64
  rx_shadow_directory :: "u64 \<rightharpoonup> ShadowEntry"

datatype endpoint = Local (ep_exp: CXLMemExpander) | Remote (ep_exp: CXLMemExpander) (ep_remote: RemoteCXLExpander)

type_synonym eptr = nat

record fabric =
  fa_heap :: "endpoint list"
  fa_engines :: "nat \<rightharpoonup> CoherencyEngine"
  fa_logp :: LogPModel

type_synonym accesses = "(u64 \<times> u64) list"

fun upd_exp :: "(CXLMemExpander \<Rightarrow> CXLMemExpander) \<Rightarrow> endpoint \<Rightarrow> endpoint" where
  "upd_exp f (Local x) = Local (f x)"
| "upd_exp f (Remote x r) = Remote (f x) r"

definition on_exp :: "(CXLMemExpander \<Rightarrow> 'r \<times> CXLMemExpander) \<Rightarrow> endpoint \<Rightarrow> 'r \<times> endpoint" where
  "on_exp f e = (let (r, x) = f (ep_exp e) in (r, upd_exp (\<lambda>_. x) e))"

definition at_ep :: "eptr \<Rightarrow> (endpoint \<Rightarrow> 'r \<times> endpoint) \<Rightarrow> fabric \<Rightarrow> 'r \<times> fabric" where
  "at_ep p f w = (let (r, e) = f (fa_heap w ! p) in (r, w\<lparr>fa_heap := (fa_heap w)[p := e]\<rparr>))"


section \<open>RemoteCXLExpander\<close>

definition new_RemoteCXLExpander ::
  "int \<Rightarrow> u32 \<Rightarrow> u32 \<Rightarrow> u64 \<Rightarrow> u64 \<Rightarrow> FabricLinkConfig \<Rightarrow> CXLMemExpander \<times> RemoteCXLExpander" where
  "new_RemoteCXLExpander i remote_node local_node remote_base remote_capacity link_cfg =
     (new_CXLMemExpander 25 25 100 150 i (signed (ucast (remote_capacity div (1024 * 1024)) :: u32)),
      \<lparr>rx_remote_node_id = remote_node, rx_local_node_id = local_node,
       rx_fabric_link = new_FabricLink local_node remote_node link_cfg, rx_coherency_engine = None,
       rx_remote_base_addr = remote_base, rx_remote_capacity = remote_capacity,
       rx_shadow_directory = Map.empty\<rparr>)"

definition invalidate_shadow :: "u64 \<Rightarrow> RemoteCXLExpander \<Rightarrow> RemoteCXLExpander" where
  "invalidate_shadow addr r = (case rx_shadow_directory r (cl_align addr) of
       None \<Rightarrow> r
     | Some e \<Rightarrow> r\<lparr>rx_shadow_directory :=
         (rx_shadow_directory r)(cl_align addr \<mapsto> e\<lparr>sh_valid := False, sh_local_state := INVALID\<rparr>)\<rparr>)"

definition update_shadow :: "u64 \<Rightarrow> MHSLDCacheState \<Rightarrow> u64 \<Rightarrow> RemoteCXLExpander \<Rightarrow> RemoteCXLExpander" where
  "update_shadow addr state ts r = r\<lparr>rx_shadow_directory := (rx_shadow_directory r)(cl_align addr \<mapsto>
       \<lparr>sh_local_state = state, sh_last_access_time = ts, sh_valid = True\<rparr>)\<rparr>"

definition rx_insert ::
  "u64 \<Rightarrow> u64 \<Rightarrow> int \<Rightarrow> CXLMemExpander \<Rightarrow> RemoteCXLExpander \<Rightarrow> int \<times> CXLMemExpander \<times> RemoteCXLExpander" where
  "rx_insert timestamp phys_addr index x r =
     (if index \<noteq> ex_id x then (0, x, r)
      else
        let x1 = x\<lparr>ex_last_timestamp := max (ex_last_timestamp x) timestamp\<rparr>;
            occ = \<lparr>occ_timestamp = timestamp, occ_address = phys_addr, occ_access_count = 0\<rparr> in
        if phys_addr = 0 then (1, inc_store x1, r)
        else if phys_addr \<in> ex_address_cache x1 \<and> phys_addr \<in> occ_address ` set (ex_occupation x1)
        then (2, inc_load (x1\<lparr>ex_occupation := erase_first phys_addr (ex_occupation x1) @ [occ]\<rparr>),
              update_shadow phys_addr SHARED timestamp r)
        else (1, inc_store (x1\<lparr>ex_occupation := ex_occupation x1 @ [occ],
                               ex_address_cache := insert phys_addr (ex_address_cache x1)\<rparr>),
              update_shadow phys_addr SHARED timestamp r))"

definition in_remote_range :: "RemoteCXLExpander \<Rightarrow> u64 \<Rightarrow> bool" where
  "in_remote_range r addr \<longleftrightarrow>
     \<not> (addr < rx_remote_base_addr r \<or> rx_remote_base_addr r + rx_remote_capacity r \<le> addr)"

text \<open>A read through an engine, which works on the LogP model of the controller.\<close>

definition engine_read :: "nat \<Rightarrow> CoherencyRequest \<Rightarrow> fabric \<Rightarrow> (CoherencyResponse \<times> fabric) option" where
  "engine_read i req w = (case fa_engines w i of
       None \<Rightarrow> None
     | Some ce \<Rightarrow>
         let (resp, ce1) = process_read req (ce\<lparr>ce_logp_model := map_option (\<lambda>_. fa_logp w) (ce_logp_model ce)\<rparr>) in
         Some (resp, w\<lparr>fa_engines := (fa_engines w)(i \<mapsto> ce1),
                       fa_logp := (case ce_logp_model ce1 of None \<Rightarrow> fa_logp w | Some m \<Rightarrow> m)\<rparr>))"

definition rx_coherency_latency :: "u64 \<Rightarrow> u64 \<Rightarrow> RemoteCXLExpander \<Rightarrow> fabric \<Rightarrow> (double \<times> fabric) option" where
  "rx_coherency_latency timestamp addr r w = (case rx_coherency_engine r of
       None \<Rightarrow> Some (0, w)
     | Some i \<Rightarrow> map_option (\<lambda>(resp, w1). (resp_latency_ns resp, w1))
         (engine_read i \<lparr>req_addr = addr, req_node = rx_local_node_id r, req_head = 0, req_is_write = False,
            req_timestamp = timestamp\<rparr> w))"

fun rx_latency_loop :: "accesses \<Rightarrow> double \<Rightarrow> nat \<Rightarrow> CXLMemExpander \<Rightarrow> RemoteCXLExpander \<Rightarrow> fabric
    \<Rightarrow> (double \<times> nat \<times> RemoteCXLExpander \<times> fabric) option" where
  "rx_latency_loop [] lat n x r w = Some (lat, n, r, w)"
| "rx_latency_loop ((timestamp, addr) # rest) lat n x r w =
     (if \<not> in_remote_range r addr then rx_latency_loop rest lat n x r w
      else
        let (link, l1) = calculate_traversal_latency timestamp 64 (rx_fabric_link r);
            r1 = r\<lparr>rx_fabric_link := l1\<rparr> in
        case rx_coherency_latency timestamp addr r1 w of
          None \<Rightarrow> None
        | Some (coherency, w1) \<Rightarrow>
            rx_latency_loop rest
              (lat + (ex_frontend_latency x + ex_forward_latency x + link + coherency + ex_latency_read x
                      + ex_response_latency x + calculate_congestion_delay x))
              (Suc n) x r1 w1)"

definition rx_calculate_latency ::
  "accesses \<Rightarrow> CXLMemExpander \<Rightarrow> RemoteCXLExpander \<Rightarrow> fabric \<Rightarrow> (double \<times> RemoteCXLExpander \<times> fabric) option" where
  "rx_calculate_latency elem x r w =
     map_option (\<lambda>(lat, n, r1, w1). (if 0 < n then lat / real n else 0, r1, w1)) (rx_latency_loop elem 0 0 x r w)"

definition rx_calculate_bandwidth :: "accesses \<Rightarrow> RemoteCXLExpander \<Rightarrow> double" where
  "rx_calculate_bandwidth elem r =
     (if elem = [] then 0
      else
        let window_start = fst (last elem) - 20000000;
            access_count = length (filter (\<lambda>(timestamp, addr). window_start \<le> timestamp
              \<and> rx_remote_base_addr r \<le> addr \<and> addr < rx_remote_base_addr r + rx_remote_capacity r) elem);
            bw_gbps = double_of_u64 (of_nat access_count * 64) / (2 / 100) / (1024 * 1024 * 1024) in
        min (bw_gbps - fl_bandwidth_gbps (fl_config (rx_fabric_link r))) 0)"


section \<open>Virtual calls on an endpoint\<close>

definition ep_insert :: "u64 \<Rightarrow> u64 \<Rightarrow> u64 \<Rightarrow> int \<Rightarrow> endpoint \<Rightarrow> int \<times> endpoint" where
  "ep_insert timestamp tid phys_addr index e = (case e of
       Local x \<Rightarrow> on_exp (ex_insert timestamp tid phys_addr index) e
     | Remote x r \<Rightarrow> let (k, x1, r1) = rx_insert timestamp phys_addr index x r in (k, Remote x1 r1))"

definition ep_record_access :: "u64 \<Rightarrow> u64 \<Rightarrow> u64 \<Rightarrow> int \<Rightarrow> bool \<Rightarrow> endpoint \<Rightarrow> int \<times> endpoint" where
  "ep_record_access timestamp tid phys_addr index is_write =
     on_exp (ex_record_access timestamp tid phys_addr index is_write)"

definition ep_calculate_bandwidth :: "accesses \<Rightarrow> endpoint \<Rightarrow> double \<times> endpoint" where
  "ep_calculate_bandwidth elem e = (case e of
       Local x \<Rightarrow> on_exp (ex_calculate_bandwidth elem) e
     | Remote x r \<Rightarrow> (rx_calculate_bandwidth elem r, e))"

definition ep_calculate_latency :: "accesses \<Rightarrow> double \<Rightarrow> eptr \<Rightarrow> fabric \<Rightarrow> (double \<times> fabric) option" where
  "ep_calculate_latency elem dram p w = (case fa_heap w ! p of
       Local x \<Rightarrow> Some (at_ep p (on_exp (ex_calculate_latency elem dram)) w)
     | Remote x r \<Rightarrow> map_option (\<lambda>(lat, r1, w1). (lat, w1\<lparr>fa_heap := (fa_heap w1)[p := Remote x r1]\<rparr>))
         (rx_calculate_latency elem x r w))"

end
