(* ===== verification/CXL_Switch.thy ===== *)
theory CXL_Switch
  imports Remote_Expander "HOL-Library.Multiset"
begin

text \<open>
  The switch tree of src/include/cxlendpoint.h and src/src/cxlendpoint.cpp (\<open>CXLSwitch\<close>). A switch
  holds pointers to expanders and owns child switches; every operation visits its expanders in
  order and then its children, recursively. The tree is a datatype, since a child switch has one
  parent; the expanders live in the store of the fabric.

  The congestion pass works on a vector in place: it overwrites an element with the last one and
  shrinks the vector. The member \<open>timeseries_map\<close> is never used and left out.
\<close>

record CXLSwitchEvent =
  swe_load :: u64
  swe_store :: u64
  swe_conflict :: u64

record switch_data =
  sw_id :: int
  sw_counter :: CXLSwitchEvent
  sw_bandwidth_model :: BandwidthModelConfig
  sw_epoch :: int
  sw_last_timestamp :: u64
  sw_congestion_latency :: double

datatype CXLSwitch = CXLSwitch (sw_data: switch_data) (sw_expanders: "eptr list") (sw_switches: "CXLSwitch list")

definition new_switch_data :: "int \<Rightarrow> switch_data" where
  "new_switch_data i = \<lparr>sw_id = i, sw_counter = \<lparr>swe_load = 0, swe_store = 0, swe_conflict = 0\<rparr>,
     sw_bandwidth_model = normalize_bandwidth_model default_bandwidth_model, sw_epoch = 0, sw_last_timestamp = 0,
     sw_congestion_latency = 2 / 100\<rparr>"

definition new_CXLSwitch :: "int \<Rightarrow> CXLSwitch" where
  "new_CXLSwitch i = CXLSwitch (new_switch_data i) [] []"

definition sw_inc_load :: "switch_data \<Rightarrow> switch_data" where
  "sw_inc_load s = s\<lparr>sw_counter := (sw_counter s)\<lparr>swe_load := swe_load (sw_counter s) + 1\<rparr>\<rparr>"

definition sw_inc_store :: "switch_data \<Rightarrow> switch_data" where
  "sw_inc_store s = s\<lparr>sw_counter := (sw_counter s)\<lparr>swe_store := swe_store (sw_counter s) + 1\<rparr>\<rparr>"

definition sw_inc_conflict :: "switch_data \<Rightarrow> switch_data" where
  "sw_inc_conflict s = s\<lparr>sw_counter := (sw_counter s)\<lparr>swe_conflict := swe_conflict (sw_counter s) + 1\<rparr>\<rparr>"


section \<open>Configuration and bookkeeping\<close>

fun sw_configure_bandwidth_model :: "BandwidthModelConfig \<Rightarrow> CXLSwitch \<Rightarrow> CXLSwitch" where
  "sw_configure_bandwidth_model c (CXLSwitch s es ws) =
     CXLSwitch (s\<lparr>sw_bandwidth_model := normalize_bandwidth_model c\<rparr>) es (map (sw_configure_bandwidth_model c) ws)"

definition sw_set_epoch :: "int \<Rightarrow> CXLSwitch \<Rightarrow> CXLSwitch" where
  "sw_set_epoch e sw = (case sw of CXLSwitch s es ws \<Rightarrow> CXLSwitch (s\<lparr>sw_epoch := e\<rparr>) es ws)"

text \<open>Only the expanders of the switch itself are aged, each with its own sequence of coins.\<close>

definition sw_free_stats :: "(nat \<Rightarrow> bool) list \<Rightarrow> CXLSwitch \<Rightarrow> fabric \<Rightarrow> fabric" where
  "sw_free_stats coins sw w =
     fold (\<lambda>(p, coin) w. snd (at_ep p (on_exp (\<lambda>x. ((), ex_free_stats coin x))) w)) (zip (sw_expanders sw) coins) w"

fun sw_delete_entry :: "u64 \<Rightarrow> u64 \<Rightarrow> CXLSwitch \<Rightarrow> fabric \<Rightarrow> fabric" where
  "sw_delete_entry addr len (CXLSwitch s es ws) w =
     fold (sw_delete_entry addr len) ws
       (fold (\<lambda>p w. snd (at_ep p (on_exp (\<lambda>x. ((), ex_delete_entry addr len x))) w)) es w)"

text \<open>
  \<open>get_access\<close> asks every expander and every child twice, first only for the size of the result;
  asking a second time changes nothing and is left out.
\<close>

fun eps_get_access :: "u64 \<Rightarrow> eptr list \<Rightarrow> fabric \<Rightarrow> accesses \<times> fabric" where
  "eps_get_access timestamp [] w = ([], w)"
| "eps_get_access timestamp (p # ps) w =
     (let (a, w1) = at_ep p (on_exp (ex_get_access timestamp)) w; (b, w2) = eps_get_access timestamp ps w1 in (a @ b, w2))"

fun sw_get_access :: "u64 \<Rightarrow> CXLSwitch \<Rightarrow> fabric \<Rightarrow> accesses \<times> fabric"
  and sws_get_access :: "u64 \<Rightarrow> CXLSwitch list \<Rightarrow> fabric \<Rightarrow> accesses \<times> fabric" where
  "sw_get_access timestamp (CXLSwitch s es ws) w =
     (let (a, w1) = eps_get_access timestamp es w; (b, w2) = sws_get_access timestamp ws w1 in (a @ b, w2))"
| "sws_get_access timestamp [] w = ([], w)"
| "sws_get_access timestamp (sw # sws) w =
     (let (a, w1) = sw_get_access timestamp sw w; (b, w2) = sws_get_access timestamp sws w1 in (a @ b, w2))"


section \<open>Recording accesses\<close>

text \<open>The loop over the expanders of one switch: the first one that accepts ends it.\<close>

fun offer :: "(endpoint \<Rightarrow> int \<times> endpoint) \<Rightarrow> eptr list \<Rightarrow> fabric \<Rightarrow> int \<times> fabric" where
  "offer f [] w = (0, w)"
| "offer f (p # ps) w = (let (ret, w1) = at_ep p f w in if ret = 1 \<or> ret = 2 then (ret, w1) else offer f ps w1)"

definition count_ret :: "int \<Rightarrow> switch_data \<Rightarrow> switch_data" where
  "count_ret ret s = (if ret = 1 then sw_inc_store s else if ret = 2 then sw_inc_load s else s)"

text \<open>
  \<open>insert\<close> and \<open>record_access\<close> are the same walk with another call at the expanders: expanders
  first, then the children, and every switch on the way to the one that accepts counts it.
\<close>

fun sw_offer :: "(endpoint \<Rightarrow> int \<times> endpoint) \<Rightarrow> CXLSwitch \<Rightarrow> fabric \<Rightarrow> int \<times> CXLSwitch \<times> fabric"
  and sws_offer :: "(endpoint \<Rightarrow> int \<times> endpoint) \<Rightarrow> CXLSwitch list \<Rightarrow> fabric \<Rightarrow> int \<times> CXLSwitch list \<times> fabric" where
  "sw_offer f (CXLSwitch s es ws) w =
     (let (ret, w1) = offer f es w in
      if ret = 1 \<or> ret = 2 then (ret, CXLSwitch (count_ret ret s) es ws, w1)
      else let (ret2, ws2, w2) = sws_offer f ws w1 in (ret2, CXLSwitch (count_ret ret2 s) es ws2, w2))"
| "sws_offer f [] w = (0, [], w)"
| "sws_offer f (sw # sws) w =
     (let (ret, sw1, w1) = sw_offer f sw w in
      if ret = 1 \<or> ret = 2 then (ret, sw1 # sws, w1)
      else let (ret2, sws2, w2) = sws_offer f sws w1 in (ret2, sw1 # sws2, w2))"

definition sw_insert :: "u64 \<Rightarrow> u64 \<Rightarrow> u64 \<Rightarrow> int \<Rightarrow> CXLSwitch \<Rightarrow> fabric \<Rightarrow> int \<times> CXLSwitch \<times> fabric" where
  "sw_insert timestamp tid phys_addr index = sw_offer (ep_insert timestamp tid phys_addr index)"

definition sw_record_access ::
  "u64 \<Rightarrow> u64 \<Rightarrow> u64 \<Rightarrow> int \<Rightarrow> bool \<Rightarrow> CXLSwitch \<Rightarrow> fabric \<Rightarrow> int \<times> CXLSwitch \<times> fabric" where
  "sw_record_access timestamp tid phys_addr index is_write =
     sw_offer (ep_record_access timestamp tid phys_addr index is_write)"


section \<open>Latency and bandwidth\<close>

text \<open>\<open>is_address_local\<close> may rebuild the range cache of the expander it asks.\<close>

fun eps_contain :: "u64 \<Rightarrow> eptr list \<Rightarrow> fabric \<Rightarrow> bool \<times> fabric" where
  "eps_contain addr [] w = (False, w)"
| "eps_contain addr (p # ps) w =
     (let (b, w1) = at_ep p (on_exp (is_address_local addr)) w in if b then (True, w1) else eps_contain addr ps w1)"

fun contains_address :: "u64 \<Rightarrow> CXLSwitch \<Rightarrow> fabric \<Rightarrow> bool \<times> fabric"
  and any_contains :: "u64 \<Rightarrow> CXLSwitch list \<Rightarrow> fabric \<Rightarrow> bool \<times> fabric" where
  "contains_address addr (CXLSwitch s es ws) w =
     (let (b, w1) = eps_contain addr es w in if b then (True, w1) else any_contains addr ws w1)"
| "any_contains addr [] w = (False, w)"
| "any_contains addr (sw # sws) w =
     (let (b, w1) = contains_address addr sw w in if b then (True, w1) else any_contains addr sws w1)"

fun eps_calculate_latency :: "accesses \<Rightarrow> double \<Rightarrow> eptr list \<Rightarrow> fabric \<Rightarrow> (double \<times> fabric) option" where
  "eps_calculate_latency elem dram [] w = Some (0, w)"
| "eps_calculate_latency elem dram (p # ps) w = (case ep_calculate_latency elem dram p w of
       None \<Rightarrow> None
     | Some (a, w1) \<Rightarrow> map_option (\<lambda>(b, w2). (a + b, w2)) (eps_calculate_latency elem dram ps w1))"

fun sw_calculate_latency :: "accesses \<Rightarrow> double \<Rightarrow> CXLSwitch \<Rightarrow> fabric \<Rightarrow> (double \<times> fabric) option"
  and sws_calculate_latency :: "accesses \<Rightarrow> double \<Rightarrow> CXLSwitch list \<Rightarrow> fabric \<Rightarrow> (double \<times> fabric) option" where
  "sw_calculate_latency elem dram (CXLSwitch s es ws) w = (case eps_calculate_latency elem dram es w of
       None \<Rightarrow> None
     | Some (a, w1) \<Rightarrow> map_option (\<lambda>(b, w2). (a + b, w2)) (sws_calculate_latency elem dram ws w1))"
| "sws_calculate_latency elem dram [] w = Some (0, w)"
| "sws_calculate_latency elem dram (sw # sws) w = (case sw_calculate_latency elem dram sw w of
       None \<Rightarrow> None
     | Some (a, w1) \<Rightarrow> map_option (\<lambda>(b, w2). (a + b, w2)) (sws_calculate_latency elem dram sws w1))"

fun eps_calculate_bandwidth :: "accesses \<Rightarrow> eptr list \<Rightarrow> fabric \<Rightarrow> double \<times> fabric" where
  "eps_calculate_bandwidth elem [] w = (0, w)"
| "eps_calculate_bandwidth elem (p # ps) w =
     (let (a, w1) = at_ep p (ep_calculate_bandwidth elem) w; (b, w2) = eps_calculate_bandwidth elem ps w1 in (a + b, w2))"

text \<open>The penalty of the switch itself, over the accesses that one of its expanders holds.\<close>

definition switch_penalty :: "accesses \<Rightarrow> CXLSwitch \<Rightarrow> fabric \<Rightarrow> double \<times> fabric" where
  "switch_penalty elem sw w =
     (let ((n, lo, hi), w1) = access_window (\<lambda>addr. contains_address addr sw) elem 0 UINT64_MAX 0 w;
          s = sw_data sw;
          read_ops = double_of_u64 (swe_load (sw_counter s));
          write_ops = double_of_u64 (swe_store (sw_counter s) + swe_conflict (sw_counter s));
          read_ratio = (if 0 < read_ops + write_ops then read_ops / (read_ops + write_ops) else 1);
          lat = sw_congestion_latency s in
      (if 0 < n then calculate_mlc_bandwidth_penalty (sw_bandwidth_model s) n lo hi read_ratio lat (lat * (3/2)) else 0, w1))"

fun sw_calculate_bandwidth :: "accesses \<Rightarrow> CXLSwitch \<Rightarrow> fabric \<Rightarrow> double \<times> fabric"
  and sws_calculate_bandwidth :: "accesses \<Rightarrow> CXLSwitch list \<Rightarrow> fabric \<Rightarrow> double \<times> fabric" where
  "sw_calculate_bandwidth elem (CXLSwitch s es ws) w =
     (let (own, w1) = switch_penalty elem (CXLSwitch s es ws) w;
          (a, w2) = eps_calculate_bandwidth elem es w1;
          (b, w3) = sws_calculate_bandwidth elem ws w2 in (own + a + b, w3))"
| "sws_calculate_bandwidth elem [] w = (0, w)"
| "sws_calculate_bandwidth elem (sw # sws) w =
     (let (a, w1) = sw_calculate_bandwidth elem sw w; (b, w2) = sws_calculate_bandwidth elem sws w1 in (a + b, w2))"

record rob_info =
  rob_m_count :: "int \<rightharpoonup> int"
  rob_llcm_base :: int
  rob_llcm_count :: int
  rob_ins_count :: int

abbreviation (input) ROB_SIZE :: int where "ROB_SIZE \<equiv> 512"

definition rob_remote_ratio :: "rob_info \<Rightarrow> double" where
  "rob_remote_ratio rob = (case (rob_m_count rob 0, rob_m_count rob 1) of
       (Some local_count, Some remote_count) \<Rightarrow>
         if 0 < local_count + remote_count then real_of_int remote_count / real_of_int (local_count + remote_count) else 0
     | _ \<Rightarrow> 0)"

definition rob_access_latency :: "rob_info \<Rightarrow> double \<Rightarrow> double \<Rightarrow> double" where
  "rob_access_latency rob dram base =
     (let llc_miss_ratio = (if 0 < rob_ins_count rob
                            then real_of_int (rob_llcm_count rob) / real_of_int (rob_ins_count rob) else 0);
          lat1 = (if real_of_int ROB_SIZE * (8/10) \<le> real_of_int (rob_ins_count rob)
                  then base * (1 + llc_miss_ratio * (1/2)) else base);
          lat2 = (case rob_m_count rob 1 of
                    Some remote_count \<Rightarrow> if 0 < remote_count then lat1 * (1 + rob_remote_ratio rob * (3/10)) else lat1
                  | None \<Rightarrow> lat1) in
      lat2 + dram * (rob_remote_ratio rob + 1/10))"

fun rob_latency_loop :: "rob_info \<Rightarrow> double \<Rightarrow> double \<Rightarrow> accesses \<Rightarrow> double \<Rightarrow> nat \<Rightarrow> CXLMemExpander
    \<Rightarrow> (double \<times> nat) \<times> CXLMemExpander" where
  "rob_latency_loop rob dram base [] lat n x = ((lat, n), x)"
| "rob_latency_loop rob dram base ((timestamp, addr) # rest) lat n x =
     (let (is_endpoint_access, x1) = is_address_local addr x in
      if is_endpoint_access then rob_latency_loop rob dram base rest lat n x1
      else rob_latency_loop rob dram base rest (lat + rob_access_latency rob dram base) (Suc n) x1)"

definition get_endpoint_rob_latency :: "eptr \<Rightarrow> accesses \<Rightarrow> rob_info \<Rightarrow> double \<Rightarrow> fabric \<Rightarrow> double \<times> fabric" where
  "get_endpoint_rob_latency p elem rob dram w =
     (let x = ep_exp (fa_heap w ! p);
          base = (ex_latency_read x + ex_latency_write x) / 2;
          ((lat, n), w1) = at_ep p (on_exp (\<lambda>x. rob_latency_loop rob dram base elem 0 0 (update_address_cache x))) w in
      (if 0 < n then lat / real n else 0, w1))"


section \<open>Congestion\<close>

text \<open>
  The loop over the sorted timestamps. \<open>std::swap(*it, *end); pop_back()\<close> replaces the element at
  \<open>i\<close> by the last one and drops the last one.
\<close>

function close_pairs :: "nat \<Rightarrow> u64 list \<Rightarrow> nat \<Rightarrow> u64 list \<times> nat" where
  "close_pairs i xs n =
     (if Suc i < length xs then
        if xs ! Suc i - xs ! i < 2000 then close_pairs i (butlast (xs[i := last xs])) (Suc n)
        else close_pairs (Suc i) xs n
      else (xs, n))"
  by pat_completeness auto
termination
  by (relation "measure (\<lambda>(i, xs, n). length xs - i)") auto

declare close_pairs.simps [simp del]

text \<open>The accesses of one address in order of time: latency factor and number of conflicts.\<close>

fun same_address :: "(u64 \<times> bool) list \<Rightarrow> double \<times> nat" where
  "same_address ((t1, w1) # (t2, w2) # rest) =
     (let (f, n) = same_address ((t2, w2) # rest) in
      if t2 - t1 < 2000 then
        if w1 \<or> w2 then (f + (if w1 \<and> w2 then 2 else 3/2), Suc n) else (f + 1/2, n)
      else (f, n))"
| "same_address _ = (0, 0)"

definition recent_entries :: "switch_data \<Rightarrow> eptr list \<Rightarrow> fabric \<Rightarrow> occupation_info list" where
  "recent_entries s es w =
     (let current_time = sw_last_timestamp s - word_of_int (sw_epoch s * 1000) in
      filter (\<lambda>occ. current_time < occ_timestamp occ) (concat (map (\<lambda>p. ex_occupation (ep_exp (fa_heap w ! p))) es)))"

text \<open>The pairs are sorted by time, and at the same time reads come before writes.\<close>

definition address_accesses :: "occupation_info list \<Rightarrow> u64 \<Rightarrow> (u64 \<times> bool) list" where
  "address_accesses os a =
     sort_key fst (sort_key snd (map (\<lambda>occ. (occ_timestamp occ, occ_access_count occ = 0))
       (filter (\<lambda>occ. occ_address occ = a) os)))"

definition own_congestion :: "switch_data \<Rightarrow> eptr list \<Rightarrow> fabric \<Rightarrow> u64 list \<Rightarrow> double \<times> u64 list \<times> switch_data" where
  "own_congestion s es w below =
     (let os = recent_entries s es w;
          (congestion, n) = close_pairs 0 (sort (below @ map occ_timestamp os)) 0;
          per_address = map (\<lambda>a. same_address (address_accesses os a)) (remdups (map occ_address os)) in
      (sw_congestion_latency s * real n + sum_list (map (\<lambda>(f, m). sw_congestion_latency s * f) per_address),
       congestion, (sw_inc_conflict ^^ (n + sum_list (map snd per_address))) s))"

fun sw_calculate_congestion :: "CXLSwitch \<Rightarrow> fabric \<Rightarrow> (double \<times> u64 list) \<times> CXLSwitch"
  and sws_calculate_congestion :: "CXLSwitch list \<Rightarrow> fabric \<Rightarrow> (double \<times> u64 list) \<times> CXLSwitch list" where
  "sw_calculate_congestion (CXLSwitch s es ws) w =
     (let ((lat, below), ws1) = sws_calculate_congestion ws w;
          (own, congestion, s1) = own_congestion s es w below in
      ((lat + own, congestion), CXLSwitch s1 es ws1))"
| "sws_calculate_congestion [] w = ((0, []), [])"
| "sws_calculate_congestion (sw # sws) w =
     (let ((a, xs), sw1) = sw_calculate_congestion sw w; ((b, ys), sws1) = sws_calculate_congestion sws w in
      ((a + b, xs @ ys), sw1 # sws1))"



section \<open>The walk visits the endpoints in order\<close>

text \<open>Expanders of a switch before those of its children: the order of every walk.\<close>

fun sw_endpoints :: "CXLSwitch \<Rightarrow> eptr list" where
  "sw_endpoints (CXLSwitch s es ws) = es @ concat (map sw_endpoints ws)"

lemma offer_append:
  "offer f (ps @ qs) w = (case offer f ps w of (ret, w1) \<Rightarrow> if ret = 1 \<or> ret = 2 then (ret, w1) else offer f qs w1)"
  by (induction ps arbitrary: w) (simp_all split: prod.split)

lemma sws_offer_flat:
  assumes "\<And>sw w. sw \<in> set sws \<Longrightarrow> \<exists>sw1. sw_offer f sw w = (fst (offer f (sw_endpoints sw) w), sw1, snd (offer f (sw_endpoints sw) w))
              \<and> sw_endpoints sw1 = sw_endpoints sw"
  shows "\<exists>sws1. sws_offer f sws w = (fst (offer f (concat (map sw_endpoints sws)) w), sws1,
                                      snd (offer f (concat (map sw_endpoints sws)) w))
           \<and> map sw_endpoints sws1 = map sw_endpoints sws"
  using assms
proof (induction sws arbitrary: w)
  case (Cons sw sws)
  obtain ret w1 where o: "offer f (sw_endpoints sw) w = (ret, w1)"
    by fastforce
  obtain sw1 where 1: "sw_offer f sw w = (ret, sw1, w1)" "sw_endpoints sw1 = sw_endpoints sw"
    using Cons.prems [of sw w] by (auto simp: o)
  obtain sws1 where 2: "sws_offer f sws w1 = (fst (offer f (concat (map sw_endpoints sws)) w1), sws1,
      snd (offer f (concat (map sw_endpoints sws)) w1))" "map sw_endpoints sws1 = map sw_endpoints sws"
    using Cons.IH [of w1] Cons.prems by fastforce
  show ?case
    using 1 2 by (simp add: offer_append o)
qed simp

lemma sw_offer_flat:
  "\<exists>sw1. sw_offer f sw w = (fst (offer f (sw_endpoints sw) w), sw1, snd (offer f (sw_endpoints sw) w))
      \<and> sw_endpoints sw1 = sw_endpoints sw"
proof (induction sw arbitrary: w)
  case (CXLSwitch s es ws)
  obtain ret w1 where o: "offer f es w = (ret, w1)"
    by fastforce
  obtain ws1 where 1: "sws_offer f ws w1 = (fst (offer f (concat (map sw_endpoints ws)) w1), ws1,
      snd (offer f (concat (map sw_endpoints ws)) w1))" "map sw_endpoints ws1 = map sw_endpoints ws"
    using sws_offer_flat [of ws f w1] CXLSwitch by blast
  show ?case
    using 1 by (simp add: offer_append o)
qed


section \<open>The counters of the tree add up\<close>

definition ep_loads :: "fabric \<Rightarrow> eptr \<Rightarrow> u64" where
  "ep_loads w p = ev_load (ex_counter (ep_exp (fa_heap w ! p)))"

definition ep_stores :: "fabric \<Rightarrow> eptr \<Rightarrow> u64" where
  "ep_stores w p = ev_store (ex_counter (ep_exp (fa_heap w ! p)))"

definition sw_loads :: "CXLSwitch \<Rightarrow> u64" where
  "sw_loads sw = swe_load (sw_counter (sw_data sw))"

definition sw_stores :: "CXLSwitch \<Rightarrow> u64" where
  "sw_stores sw = swe_store (sw_counter (sw_data sw))"

definition loads_of :: "fabric \<Rightarrow> eptr list \<Rightarrow> u64" where
  "loads_of w ps = sum_list (map (ep_loads w) ps)"

definition stores_of :: "fabric \<Rightarrow> eptr list \<Rightarrow> u64" where
  "stores_of w ps = sum_list (map (ep_stores w) ps)"

fun counters_ok :: "fabric \<Rightarrow> CXLSwitch \<Rightarrow> bool" where
  "counters_ok w (CXLSwitch s es ws) \<longleftrightarrow>
     swe_load (sw_counter s) = loads_of w es + sum_list (map sw_loads ws)
     \<and> swe_store (sw_counter s) = stores_of w es + sum_list (map sw_stores ws)
     \<and> list_all (counters_ok w) ws"

text \<open>
  A call that counts what it accepts: result 1 is one store, result 2 one load, and any other result
  leaves both counters of the endpoint as they are.
\<close>

definition bump :: "int \<Rightarrow> int \<Rightarrow> u64" where
  "bump k ret = (if ret = k then 1 else 0)"

definition counts_accepted :: "(endpoint \<Rightarrow> int \<times> endpoint) \<Rightarrow> bool" where
  "counts_accepted f \<longleftrightarrow> (\<forall>e. let (ret, e1) = f e in
       ev_load (ex_counter (ep_exp e1)) = ev_load (ex_counter (ep_exp e)) + bump 2 ret
       \<and> ev_store (ex_counter (ep_exp e1)) = ev_store (ex_counter (ep_exp e)) + bump 1 ret)"

definition offer_frame :: "eptr list \<Rightarrow> fabric \<Rightarrow> fabric \<Rightarrow> bool" where
  "offer_frame ps w w1 \<longleftrightarrow> length (fa_heap w1) = length (fa_heap w) \<and> (\<forall>p. p \<notin> set ps \<longrightarrow> fa_heap w1 ! p = fa_heap w ! p)"

lemma offer_frame_trans: "offer_frame ps w w1 \<Longrightarrow> offer_frame qs w1 w2 \<Longrightarrow> offer_frame (ps @ qs) w w2"
  by (simp add: offer_frame_def)

lemma loads_of_Cons [simp]:
  "loads_of w [] = 0" "stores_of w [] = 0"
  "loads_of w (p # ps) = ep_loads w p + loads_of w ps" "stores_of w (p # ps) = ep_stores w p + stores_of w ps"
  by (simp_all add: loads_of_def stores_of_def)

lemma loads_of_frame:
  assumes "offer_frame qs w w1" "set qs \<inter> set ps = {}"
  shows "loads_of w1 ps = loads_of w ps" "stores_of w1 ps = stores_of w ps"
  using assms(2,1) by (induction ps) (auto simp: offer_frame_def ep_loads_def ep_stores_def)

lemma offer_counts:
  assumes f: "counts_accepted f" and "distinct ps" "list_all (\<lambda>p. p < length (fa_heap w)) ps" "offer f ps w = (ret, w1)"
  shows "loads_of w1 ps = loads_of w ps + bump 2 ret \<and> stores_of w1 ps = stores_of w ps + bump 1 ret \<and> offer_frame ps w w1"
  using assms(2-)
proof (induction ps arbitrary: w)
  case Nil
  then show ?case
    by (auto simp: bump_def offer_frame_def)
next
  case (Cons p ps)
  obtain r w0 where a: "at_ep p f w = (r, w0)"
    by fastforce
  have heap: "fa_heap w0 = (fa_heap w)[p := snd (f (fa_heap w ! p))]" "r = fst (f (fa_heap w ! p))"
    using a by (auto simp: at_ep_def Let_def split_beta)
  have p: "ep_loads w0 p = ep_loads w p + bump 2 r" "ep_stores w0 p = ep_stores w p + bump 1 r"
    using f Cons.prems(2) by (auto simp: counts_accepted_def Let_def split_beta ep_loads_def ep_stores_def heap)
  have frame: "offer_frame [p] w w0"
    by (simp add: offer_frame_def heap)
  have rest: "loads_of w0 ps = loads_of w ps" "stores_of w0 ps = stores_of w ps"
    using loads_of_frame [OF frame] Cons.prems(1) by simp_all
  show ?case
  proof (cases "r = 1 \<or> r = 2")
    case True
    then have "ret = r" "w1 = w0"
      using Cons.prems(3) a by auto
    then show ?thesis
      using p rest frame by (simp add: offer_frame_def)
  next
    case False
    then have run: "offer f ps w0 = (ret, w1)"
      using Cons.prems(3) a by simp
    have "list_all (\<lambda>p. p < length (fa_heap w0)) ps"
      using Cons.prems(2) by (simp add: heap)
    then have ih: "loads_of w1 ps = loads_of w0 ps + bump 2 ret" "stores_of w1 ps = stores_of w0 ps + bump 1 ret"
        "offer_frame ps w0 w1"
      using Cons.IH [OF _ _ run] Cons.prems(1) by simp_all
    moreover have "ep_loads w1 p = ep_loads w0 p" "ep_stores w1 p = ep_stores w0 p"
      using ih(3) Cons.prems(1) by (simp_all add: offer_frame_def ep_loads_def ep_stores_def)
    ultimately show ?thesis
      using p rest False offer_frame_trans [OF frame ih(3)] by (simp add: bump_def)
  qed
qed

lemma counters_ok_frame:
  "offer_frame ps w w1 \<Longrightarrow> set ps \<inter> set (sw_endpoints sw) = {} \<Longrightarrow> counters_ok w1 sw = counters_ok w sw"
proof (induction sw)
  case (CXLSwitch s es ws)
  then have es: "loads_of w1 es = loads_of w es" "stores_of w1 es = stores_of w es"
    by (auto intro: loads_of_frame)
  have "counters_ok w1 sw = counters_ok w sw" if "sw \<in> set ws" for sw
    using that CXLSwitch.prems by (intro CXLSwitch.IH) auto
  then show ?case
    using es by (simp add: list_all_iff)
qed

text \<open>A tree whose expanders hang in one place each, in a given store.\<close>

definition tree_ok :: "fabric \<Rightarrow> CXLSwitch \<Rightarrow> bool" where
  "tree_ok w sw \<longleftrightarrow> distinct (sw_endpoints sw) \<and> list_all (\<lambda>p. p < length (fa_heap w)) (sw_endpoints sw)"

definition walk_ok :: "(endpoint \<Rightarrow> int \<times> endpoint) \<Rightarrow> CXLSwitch \<Rightarrow> bool" where
  "walk_ok f sw \<longleftrightarrow> (\<forall>w ret sw1 w1. tree_ok w sw \<longrightarrow> counters_ok w sw \<longrightarrow> sw_offer f sw w = (ret, sw1, w1) \<longrightarrow>
     counters_ok w1 sw1 \<and> offer_frame (sw_endpoints sw) w w1 \<and> sw_endpoints sw1 = sw_endpoints sw
     \<and> sw_loads sw1 = sw_loads sw + bump 2 ret \<and> sw_stores sw1 = sw_stores sw + bump 1 ret)"

lemma sws_walk:
  assumes "\<And>sw. sw \<in> set sws \<Longrightarrow> walk_ok f sw" "distinct (concat (map sw_endpoints sws))"
    and "list_all (\<lambda>p. p < length (fa_heap w)) (concat (map sw_endpoints sws))" "list_all (counters_ok w) sws"
    and "sws_offer f sws w = (ret, sws1, w1)"
  shows "list_all (counters_ok w1) sws1 \<and> offer_frame (concat (map sw_endpoints sws)) w w1
       \<and> map sw_endpoints sws1 = map sw_endpoints sws
       \<and> sum_list (map sw_loads sws1) = sum_list (map sw_loads sws) + bump 2 ret
       \<and> sum_list (map sw_stores sws1) = sum_list (map sw_stores sws) + bump 1 ret"
  using assms
proof (induction sws arbitrary: w sws1)
  case Nil
  then show ?case
    by (auto simp: bump_def offer_frame_def)
next
  case (Cons sw sws)
  obtain r sw' w' where a: "sw_offer f sw w = (r, sw', w')"
    using prod_cases3 by blast
  have walk: "walk_ok f sw" and tree: "tree_ok w sw"
    using Cons.prems(1-3) by (simp_all add: tree_ok_def)
  have 1: "counters_ok w' sw'" "offer_frame (sw_endpoints sw) w w'" "sw_endpoints sw' = sw_endpoints sw"
      "sw_loads sw' = sw_loads sw + bump 2 r" "sw_stores sw' = sw_stores sw + bump 1 r"
    using walk tree a Cons.prems(4) unfolding walk_ok_def by simp_all
  have "counters_ok w' x" if "x \<in> set sws" for x
  proof -
    have "set (sw_endpoints sw) \<inter> set (sw_endpoints x) = {}"
      using that Cons.prems(2) by auto
    then show ?thesis
      using counters_ok_frame [OF 1(2)] that Cons.prems(4) by (simp add: list_all_iff)
  qed
  then have others: "list_all (counters_ok w') sws"
    by (simp add: list_all_iff)
  show ?case
  proof (cases "r = 1 \<or> r = 2")
    case True
    then have "ret = r" "sws1 = sw' # sws" "w1 = w'"
      using Cons.prems(5) a by auto
    then show ?thesis
      using 1 others by (auto simp: offer_frame_def)
  next
    case False
    then obtain sws' where run: "sws_offer f sws w' = (ret, sws', w1)" "sws1 = sw' # sws'"
      using Cons.prems(5) a by (auto split: prod.splits)
    have "list_all (\<lambda>p. p < length (fa_heap w')) (concat (map sw_endpoints sws))"
      using Cons.prems(3) 1(2) by (simp add: offer_frame_def)
    then have ih: "list_all (counters_ok w1) sws'" "offer_frame (concat (map sw_endpoints sws)) w' w1"
        "map sw_endpoints sws' = map sw_endpoints sws"
        "sum_list (map sw_loads sws') = sum_list (map sw_loads sws) + bump 2 ret"
        "sum_list (map sw_stores sws') = sum_list (map sw_stores sws) + bump 1 ret"
      using Cons.IH [OF _ _ _ others run(1)] Cons.prems(1,2) by simp_all
    have "counters_ok w1 sw'"
      using counters_ok_frame [OF ih(2), of sw'] 1(1,3) Cons.prems(2) by auto
    then show ?thesis
      using ih 1 False offer_frame_trans [OF 1(2) ih(2)] by (simp add: run(2) bump_def)
  qed
qed

lemma sw_walk:
  assumes f: "counts_accepted f" shows "walk_ok f sw"
proof (induction sw)
  case (CXLSwitch s es ws)
  show ?case
    unfolding walk_ok_def
  proof (intro allI impI)
    fix w ret sw1 w1
    assume ok: "tree_ok w (CXLSwitch s es ws)" "counters_ok w (CXLSwitch s es ws)"
      and run: "sw_offer f (CXLSwitch s es ws) w = (ret, sw1, w1)"
    obtain r w' where a: "offer f es w = (r, w')"
      by fastforce
    have 1: "loads_of w' es = loads_of w es + bump 2 r" "stores_of w' es = stores_of w es + bump 1 r" "offer_frame es w w'"
      using offer_counts [OF f _ _ a] ok(1) by (auto simp: tree_ok_def)
    have others: "list_all (counters_ok w') ws"
      using ok counters_ok_frame [OF 1(3)] by (auto simp: tree_ok_def list_all_iff)
    show "counters_ok w1 sw1 \<and> offer_frame (sw_endpoints (CXLSwitch s es ws)) w w1
        \<and> sw_endpoints sw1 = sw_endpoints (CXLSwitch s es ws)
        \<and> sw_loads sw1 = sw_loads (CXLSwitch s es ws) + bump 2 ret
        \<and> sw_stores sw1 = sw_stores (CXLSwitch s es ws) + bump 1 ret"
    proof (cases "r = 1 \<or> r = 2")
      case True
      then show ?thesis
        using run a 1 ok others
        by (auto simp: count_ret_def sw_inc_load_def sw_inc_store_def bump_def offer_frame_def sw_loads_def sw_stores_def)
    next
      case False
      then obtain ws' where 2: "sws_offer f ws w' = (ret, ws', w1)" "sw1 = CXLSwitch (count_ret ret s) es ws'"
        using run a by (auto split: prod.splits)
      have "distinct (concat (map sw_endpoints ws))"
          "list_all (\<lambda>p. p < length (fa_heap w')) (concat (map sw_endpoints ws))"
        using ok(1) 1(3) by (auto simp: tree_ok_def offer_frame_def)
      then have ih: "list_all (counters_ok w1) ws'" "offer_frame (concat (map sw_endpoints ws)) w' w1"
          "map sw_endpoints ws' = map sw_endpoints ws"
          "sum_list (map sw_loads ws') = sum_list (map sw_loads ws) + bump 2 ret"
          "sum_list (map sw_stores ws') = sum_list (map sw_stores ws) + bump 1 ret"
        using sws_walk [OF CXLSwitch.IH _ _ others 2(1)] by simp_all
      have "loads_of w1 es = loads_of w' es" "stores_of w1 es = stores_of w' es"
        using loads_of_frame [OF ih(2)] ok(1) by (auto simp: tree_ok_def)
      then show ?thesis
        using ih 1 ok False offer_frame_trans [OF 1(3) ih(2)]
        by (simp add: 2(2) count_ret_def sw_inc_load_def sw_inc_store_def bump_def sw_loads_def sw_stores_def)
    qed
  qed
qed

datatype tree_op =
    Tree_insert u64 u64 u64 int
  | Tree_record u64 u64 u64 int bool

fun tree_call :: "tree_op \<Rightarrow> endpoint \<Rightarrow> int \<times> endpoint" where
  "tree_call (Tree_insert ts tid a i) = ep_insert ts tid a i"
| "tree_call (Tree_record ts tid a i is_write) = ep_record_access ts tid a i is_write"

fun tree_step :: "tree_op \<Rightarrow> CXLSwitch \<Rightarrow> fabric \<Rightarrow> int \<times> CXLSwitch \<times> fabric" where
  "tree_step (Tree_insert ts tid a i) = sw_insert ts tid a i"
| "tree_step (Tree_record ts tid a i is_write) = sw_record_access ts tid a i is_write"

fun tree_run :: "tree_op list \<Rightarrow> CXLSwitch \<Rightarrow> fabric \<Rightarrow> int list \<times> CXLSwitch \<times> fabric" where
  "tree_run [] sw w = ([], sw, w)"
| "tree_run (x # xs) sw w =
     (let (ret, sw1, w1) = tree_step x sw w; (rets, sw2, w2) = tree_run xs sw1 w1 in (ret # rets, sw2, w2))"

fun flat_run :: "tree_op list \<Rightarrow> eptr list \<Rightarrow> fabric \<Rightarrow> int list \<times> fabric" where
  "flat_run [] ps w = ([], w)"
| "flat_run (x # xs) ps w = (let (ret, w1) = offer (tree_call x) ps w; (rets, w2) = flat_run xs ps w1 in (ret # rets, w2))"

lemma tree_step_offer: "tree_step x = sw_offer (tree_call x)"
  by (cases x) (simp_all add: sw_insert_def sw_record_access_def)

lemma ep_exp_upd_exp [simp]: "ep_exp (upd_exp f e) = f (ep_exp e)"
  by (cases e) simp_all

lemma credit_counter [ex_frame]:
  "ex_counter (consume_credit b x) = ex_counter x" "ex_counter (ex_release_credit b x) = ex_counter x"
  "ex_id (consume_credit b x) = ex_id x" "ex_id (ex_release_credit b x) = ex_id x"
  by (auto simp: consume_credit_def ex_release_credit_def)

lemma complete_requests_counter [ex_frame]:
  "ex_counter (complete_requests now l x) = ex_counter x" "ex_id (complete_requests now l x) = ex_id x"
  by (induction now l x rule: complete_requests.induct) (simp_all add: ex_frame)

lemma issue_requests_counter [ex_frame]:
  "ex_counter (issue_requests now x) = ex_counter x \<and> ex_id (issue_requests now x) = ex_id x"
  by (induction now x rule: issue_requests.induct, subst (1 2) issue_requests.simps)
    (simp add: ex_frame Let_def split: list.split)

lemma process_queued_requests_counter [ex_frame]:
  "ex_counter (process_queued_requests now x) = ex_counter x" "ex_id (process_queued_requests now x) = ex_id x"
  by (simp_all add: process_queued_requests_def ex_frame)

lemma ex_insert_counts:
  "ex_insert ts tid a i x = (ret, x1) \<Longrightarrow> ev_load (ex_counter x1) = ev_load (ex_counter x) + bump 2 ret
     \<and> ev_store (ex_counter x1) = ev_store (ex_counter x) + bump 1 ret"
  by (auto simp: ex_insert_def Let_def bump_def inc_load_def inc_store_def inc_hit_old_def ex_frame split: if_splits)

lemma ex_record_counts:
  "ex_record_access ts tid a i is_write x = (ret, x1) \<Longrightarrow> ev_load (ex_counter x1) = ev_load (ex_counter x) + bump 2 ret
     \<and> ev_store (ex_counter x1) = ev_store (ex_counter x) + bump 1 ret"
  by (auto simp: ex_record_access_def Let_def bump_def inc_load_def inc_store_def inc_hit_old_def invalidate_cache_def
      ex_frame split: if_splits)

lemma rx_insert_counts:
  "rx_insert ts a i x r = (ret, x1, r1) \<Longrightarrow> ev_load (ex_counter x1) = ev_load (ex_counter x) + bump 2 ret
     \<and> ev_store (ex_counter x1) = ev_store (ex_counter x) + bump 1 ret"
  by (auto simp: rx_insert_def Let_def bump_def inc_load_def inc_store_def split: if_splits)

lemma tree_call_counts: "counts_accepted (tree_call x)"
proof (cases x)
  case (Tree_insert ts tid a i)
  show ?thesis
    unfolding counts_accepted_def
  proof
    fix e
    show "let (ret, e1) = tree_call x e in ev_load (ex_counter (ep_exp e1)) = ev_load (ex_counter (ep_exp e)) + bump 2 ret
        \<and> ev_store (ex_counter (ep_exp e1)) = ev_store (ex_counter (ep_exp e)) + bump 1 ret"
      using ex_insert_counts [of ts tid a i "ep_exp e"] rx_insert_counts [of ts a i "ep_exp e" "ep_remote e"]
      by (cases e) (auto simp: Tree_insert ep_insert_def on_exp_def Let_def split: prod.splits)
  qed
next
  case (Tree_record ts tid a i is_write)
  then show ?thesis
    using ex_record_counts [of ts tid a i is_write]
    by (auto simp: counts_accepted_def ep_record_access_def on_exp_def Let_def split: prod.splits)
qed

text \<open>
  C31: The counters of the tree add up. In a tree whose expanders hang in one place each, any sequence
  of inserts and recorded accesses answers exactly as if all expanders stood in one list, in the
  order of the walk; and at every switch the loads and stores counted are the sum of those counted
  by its own expanders and by its child switches, the root counting exactly the accepted calls.
\<close>

theorem switch_counters_add_up:
  assumes "tree_ok w sw" "counters_ok w sw" "tree_run xs sw w = (rets, sw1, w1)"
  shows "flat_run xs (sw_endpoints sw) w = (rets, w1) \<and> counters_ok w1 sw1
       \<and> sw_loads sw1 = sw_loads sw + of_nat (count_list rets 2) \<and> sw_stores sw1 = sw_stores sw + of_nat (count_list rets 1)"
  using assms
proof (induction xs arbitrary: sw w rets)
  case (Cons x xs)
  obtain ret sw' w' where a: "tree_step x sw w = (ret, sw', w')"
    using prod_cases3 by blast
  obtain rets' where b: "tree_run xs sw' w' = (rets', sw1, w1)" "rets = ret # rets'"
    using Cons.prems(3) a by (auto split: prod.splits)
  have off: "sw_offer (tree_call x) sw w = (ret, sw', w')"
    using a by (simp add: tree_step_offer)
  have 1: "counters_ok w' sw'" "offer_frame (sw_endpoints sw) w w'" "sw_endpoints sw' = sw_endpoints sw"
      "sw_loads sw' = sw_loads sw + bump 2 ret" "sw_stores sw' = sw_stores sw + bump 1 ret"
    using sw_walk [OF tree_call_counts, of x sw] Cons.prems(1,2) off unfolding walk_ok_def by simp_all
  have "tree_ok w' sw'"
    using Cons.prems(1) 1(2,3) by (simp add: tree_ok_def offer_frame_def)
  from Cons.IH [OF this 1(1) b(1)] show ?case
    using 1(3-5) sw_offer_flat [of "tree_call x" sw w] off b(2) by (auto simp: bump_def split: prod.splits)
qed (auto simp: Let_def)

text \<open>A root with one expander and one child switch with another.\<close>

definition example_tree :: CXLSwitch where
  "example_tree = CXLSwitch (new_switch_data 0) [0] [CXLSwitch (new_switch_data 1) [1] []]"

definition example_fabric :: fabric where
  "example_fabric = \<lparr>fa_heap = [Local (new_CXLMemExpander 20 20 100 150 0 16), Local (new_CXLMemExpander 20 20 200 250 1 16)],
     fa_engines = Map.empty, fa_logp = new_LogPModel default_LogPConfig\<rparr>"

definition example_tree_ops :: "tree_op list" where
  "example_tree_ops = [Tree_insert 10 7 0x1000 1, Tree_record 20 7 0x2000 0 False, Tree_insert 30 7 0 5]"

theorem switch_counters_add_up_witness:
  "case tree_run example_tree_ops example_tree example_fabric of (rets, sw1, w1) \<Rightarrow>
     flat_run example_tree_ops [0, 1] example_fabric = (rets, w1) \<and> counters_ok w1 sw1
     \<and> sw_loads sw1 = of_nat (count_list rets 2) \<and> sw_stores sw1 = of_nat (count_list rets 1) \<and> rets = [1, 2, 0]"
proof -
  obtain rets sw1 w1 where run: "tree_run example_tree_ops example_tree example_fabric = (rets, sw1, w1)"
    using prod_cases3 by blast
  have ok: "tree_ok example_fabric example_tree" "counters_ok example_fabric example_tree"
    by (simp_all add: tree_ok_def example_tree_def example_fabric_def new_switch_data_def new_CXLMemExpander_def
        no_events_def ep_loads_def ep_stores_def sw_loads_def sw_stores_def Let_def)
  have "rets = [1, 2, 0]"
    using run
    by (auto simp: example_tree_ops_def example_tree_def example_fabric_def sw_insert_def sw_record_access_def
        ep_insert_def ep_record_access_def on_exp_def at_ep_def new_CXLMemExpander_def ex_insert_def ex_record_access_def
        can_accept_request_def process_queued_requests_def issue_requests.simps inc_load_def inc_store_def
        invalidate_cache_def Let_def         split: prod.splits if_splits)
  then show ?thesis
    using switch_counters_add_up [OF ok run] run
    by (simp add: example_tree_def sw_loads_def sw_stores_def new_switch_data_def)
qed


section \<open>Congestion is noticed exactly when there is some\<close>

lemma close_pairs_none:
  "(\<And>j. i \<le> j \<Longrightarrow> Suc j < length xs \<Longrightarrow> \<not> xs ! Suc j - xs ! j < 2000) \<Longrightarrow> close_pairs i xs n = (xs, n)"
proof (induction "length xs - i" arbitrary: i)
  case 0
  then show ?case
    by (simp add: close_pairs.simps)
next
  case (Suc k)
  then show ?case
    by (subst close_pairs.simps) simp
qed

lemma close_pairs_length:
  "length (fst (close_pairs i xs n)) + snd (close_pairs i xs n) = length xs + n \<and> n \<le> snd (close_pairs i xs n)"
  by (induction i xs n rule: close_pairs.induct, subst (1 2 3) close_pairs.simps) auto

lemma close_pairs_some:
  "i \<le> j \<Longrightarrow> Suc j < length xs \<Longrightarrow> xs ! Suc j - xs ! j < 2000 \<Longrightarrow> n < snd (close_pairs i xs n)"
proof (induction "j - i" arbitrary: i)
  case 0
  then show ?case
    using close_pairs_length [of i "butlast (xs[i := last xs])" "Suc n"] by (subst close_pairs.simps) simp
next
  case (Suc k)
  then show ?case
    using close_pairs_length [of i "butlast (xs[i := last xs])" "Suc n"] by (subst close_pairs.simps) simp
qed

definition close_times :: "u64 multiset \<Rightarrow> bool" where
  "close_times ts \<longleftrightarrow> (\<exists>a b. {#a, b#} \<subseteq># ts \<and> a \<le> b \<and> unat b - unat a < 2000)"

lemma pair_in_mset: "{#a, b#} \<subseteq># N \<longleftrightarrow> a \<in># N \<and> b \<in># N - {#a#}"
  by (simp add: insert_subset_eq_iff)

lemma close_times_add:
  assumes "\<And>z. z \<in># M \<Longrightarrow> y \<le> z"
  shows "close_times (add_mset y M) \<longleftrightarrow> close_times M \<or> (\<exists>z. z \<in># M \<and> unat z - unat y < 2000)"
proof
  assume "close_times (add_mset y M)"
  then obtain a b where ab: "a \<in># add_mset y M" "b \<in># add_mset y M - {#a#}" "a \<le> b" "unat b - unat a < 2000"
    by (auto simp: close_times_def pair_in_mset)
  show "close_times M \<or> (\<exists>z. z \<in># M \<and> unat z - unat y < 2000)"
  proof (cases "a = y")
    case True
    then show ?thesis
      using ab by auto
  next
    case False
    then have a: "a \<in># M"
      using ab(1) by simp
    show ?thesis
    proof (cases "b \<in># M - {#a#}")
      case True
      then show ?thesis
        using a ab(3,4) by (auto simp: close_times_def pair_in_mset)
    next
      case other: False
      then have "b = y"
        using ab(2) False by (auto split: if_splits)
      then have "a = y"
        using ab(3) assms [OF a] by simp
      then show ?thesis
        using False by simp
    qed
  qed
next
  assume "close_times M \<or> (\<exists>z. z \<in># M \<and> unat z - unat y < 2000)"
  then show "close_times (add_mset y M)"
  proof
    assume "close_times M"
    then obtain a b where ab: "{#a, b#} \<subseteq># M" "a \<le> b" "unat b - unat a < 2000"
      by (auto simp: close_times_def)
    have "M \<subseteq># add_mset y M"
      by simp
    with ab(1) have "{#a, b#} \<subseteq># add_mset y M"
      by (rule subset_mset.order_trans)
    then show ?thesis
      using ab(2,3) unfolding close_times_def by blast
  next
    assume "\<exists>z. z \<in># M \<and> unat z - unat y < 2000"
    then obtain z where z: "z \<in># M" "unat z - unat y < 2000"
      by blast
    then have "{#y, z#} \<subseteq># add_mset y M"
      by (simp add: pair_in_mset)
    then show ?thesis
      using z assms [OF z(1)] unfolding close_times_def by blast
  qed
qed

lemma unat_diff_less:
  fixes a b :: u64
  assumes "a \<le> b" shows "b - a < 2000 \<longleftrightarrow> unat b - unat a < 2000"
  using assms by (simp add: word_less_nat_alt unat_sub)

lemma ex_nat_split: "(\<exists>j. P j) \<longleftrightarrow> P 0 \<or> (\<exists>j. P (Suc j))"
  by (metis not0_implies_Suc)

lemma sorted_close_times:
  "sorted ts \<Longrightarrow> close_times (mset ts) \<longleftrightarrow> (\<exists>j. Suc j < length ts \<and> ts ! Suc j - ts ! j < 2000)"
proof (induction ts)
  case Nil
  then show ?case
    by (simp add: close_times_def)
next
  case (Cons y ts)
  show ?case
  proof (cases ts)
    case Nil
    then show ?thesis
      by (auto simp: close_times_def pair_in_mset)
  next
    case (Cons z zs)
    have le: "y \<le> z" "\<And>x. x \<in> set ts \<Longrightarrow> z \<le> x"
      using Cons.prems local.Cons by auto
    have "(\<exists>x. x \<in> set ts \<and> unat x - unat y < 2000) \<longleftrightarrow> z - y < 2000"
    proof
      assume "\<exists>x. x \<in> set ts \<and> unat x - unat y < 2000"
      then obtain x where "x \<in> set ts" "unat x - unat y < 2000"
        by blast
      moreover have "unat z \<le> unat x"
        using le(2) [OF \<open>x \<in> set ts\<close>] by (simp add: word_le_nat_alt)
      ultimately show "z - y < 2000"
        using unat_diff_less [OF le(1)] by linarith
    qed (use local.Cons unat_diff_less [OF le(1)] in auto)
    moreover have "(\<exists>j. Suc j < length (y # ts) \<and> (y # ts) ! Suc j - (y # ts) ! j < 2000)
        \<longleftrightarrow> z - y < 2000 \<or> (\<exists>j. Suc j < length ts \<and> ts ! Suc j - ts ! j < 2000)"
      using ex_nat_split [of "\<lambda>j. Suc j < length (y # ts) \<and> (y # ts) ! Suc j - (y # ts) ! j < 2000"] local.Cons by simp
    ultimately show ?thesis
      using Cons.IH Cons.prems close_times_add [of "mset ts" y] by auto
  qed
qed

text \<open>
  The congestion pass of a switch finds a conflict among the timestamps exactly when two of them
  are less than 2000 apart, whatever their order; and every conflict it charges takes one timestamp
  out of the list it passes up.
\<close>

lemma congestion_noticed:
  "(0 < snd (close_pairs 0 (sort ts) 0) \<longleftrightarrow> close_times (mset ts))
   \<and> length (fst (close_pairs 0 (sort ts) 0)) + snd (close_pairs 0 (sort ts) 0) = length ts"
proof -
  have "0 < snd (close_pairs 0 (sort ts) 0) \<longleftrightarrow> (\<exists>j. Suc j < length (sort ts) \<and> sort ts ! Suc j - sort ts ! j < 2000)"
    using close_pairs_some [of 0 _ "sort ts" 0] close_pairs_none [of 0 "sort ts" 0] by fastforce
  then show ?thesis
    using sorted_close_times [of "sort ts"] close_pairs_length [of 0 "sort ts" 0] by simp
qed

text \<open>
  The number of conflicts is not the number of close neighbours: the pass moves the last timestamp to
  the front of the pair it merged, and the pair that should come next is then compared with it.
\<close>

lemma congestion_undercounts: "close_pairs 0 [0, 1500, 3000, 4500] 0 = ([4500, 3000], 2)"
  by (simp add: close_pairs.simps)

end
