(* ===== verification/LRU_Cache.thy ===== *)
theory LRU_Cache
  imports Prelude "HOL-Library.AList"
begin

text \<open>
  The two caches of the controller that evict the least recently used key: \<open>LRUCache\<close> of
  src/include/cxlcontroller.h and \<open>HugePagePolicy::TLBCache\<close> of src/include/policy.h. Both keep the
  keys in a \<open>std::list\<close>, most recent first, and a second map from a key to its position in that
  list, so that no operation searches the list.

  The list is modelled with its nodes: an iterator is the number of a node, and erasing through an
  iterator whose node is gone, or taking the last element of an empty list, is undefined behaviour,
  the outcome \<^const>\<open>None\<close> of the operations. Every method holds the mutex of the cache and is one
  step of the model. A \<open>std::unordered_map\<close> is an association list with distinct keys; no operation
  of this theory depends on its order.

  Shown: no operation on a cache with room for one key is ever undefined, the caches behave as a
  bounded recency list, and an access hits exactly when fewer distinct keys than the capacity have
  been used since the last access to the same key.
\<close>


section \<open>Lists with stable iterators\<close>

record std_list =
  l_nodes :: "(nat \<times> u64) list"
  l_fresh :: nat

definition empty_list :: std_list where
  "empty_list = \<lparr>l_nodes = [], l_fresh = 0\<rparr>"

definition erase_node :: "nat \<Rightarrow> std_list \<Rightarrow> std_list option" where
  "erase_node n l =
     (if n \<in> fst ` set (l_nodes l) then Some (l\<lparr>l_nodes := filter (\<lambda>(m, k). m \<noteq> n) (l_nodes l)\<rparr>) else None)"

definition push_front :: "u64 \<Rightarrow> std_list \<Rightarrow> nat \<times> std_list" where
  "push_front k l = (l_fresh l, \<lparr>l_nodes = (l_fresh l, k) # l_nodes l, l_fresh = Suc (l_fresh l)\<rparr>)"

definition last_key :: "std_list \<Rightarrow> u64 option" where
  "last_key l = (if l_nodes l = [] then None else Some (snd (last (l_nodes l))))"

definition pop_last :: "std_list \<Rightarrow> std_list" where
  "pop_last l = l\<lparr>l_nodes := butlast (l_nodes l)\<rparr>"

text \<open>
  The three steps both caches are made of, on a list and its index: erase a key through the index,
  push a key and record where it is, drop the last key and its index entry.
\<close>

type_synonym indexed_list = "std_list \<times> (u64 \<times> nat) list"

definition erase_at :: "u64 \<Rightarrow> indexed_list \<Rightarrow> indexed_list option" where
  "erase_at k = (\<lambda>(l, ix). case map_of ix k of
       None \<Rightarrow> None
     | Some n \<Rightarrow> map_option (\<lambda>l'. (l', ix)) (erase_node n l))"

definition push_at :: "u64 \<Rightarrow> indexed_list \<Rightarrow> indexed_list" where
  "push_at k = (\<lambda>(l, ix). let (n, l') = push_front k l in (l', AList.update k n ix))"

definition drop_last :: "indexed_list \<Rightarrow> (u64 \<times> indexed_list) option" where
  "drop_last = (\<lambda>(l, ix). case last_key l of
       None \<Rightarrow> None
     | Some k \<Rightarrow> Some (k, pop_last l, AList.delete k ix))"


section \<open>LRUCache\<close>

record LRUCacheEntry =
  e_key :: u64
  e_value :: u64
  e_timestamp :: u64

record LRUCache =
  lru_capacity :: int
  lru_cache :: "(u64 \<times> LRUCacheEntry) list"
  lru_order :: indexed_list

definition new_LRUCache :: "int \<Rightarrow> LRUCache" where
  "new_LRUCache capacity = \<lparr>lru_capacity = capacity, lru_cache = [], lru_order = (empty_list, [])\<rparr>"

text \<open>\<open>cache.size() >= capacity\<close> compares a \<open>size_t\<close> with an \<open>int\<close>, which is converted.\<close>

definition lru_full :: "LRUCache \<Rightarrow> bool" where
  "lru_full c \<longleftrightarrow> (word_of_int (lru_capacity c) :: u64) \<le> of_nat (length (lru_cache c))"

definition lru_get :: "u64 \<Rightarrow> u64 \<Rightarrow> LRUCache \<Rightarrow> (u64 option \<times> LRUCache) option" where
  "lru_get key timestamp c = (case map_of (lru_cache c) key of
       None \<Rightarrow> Some (None, c)
     | Some e \<Rightarrow> (case erase_at key (lru_order c) of
           None \<Rightarrow> None
         | Some l \<Rightarrow> Some (Some (e_value e),
             c\<lparr>lru_order := push_at key l,
               lru_cache := AList.update key (e\<lparr>e_timestamp := timestamp\<rparr>) (lru_cache c)\<rparr>)))"

definition lru_make_room :: "u64 \<Rightarrow> LRUCache \<Rightarrow> LRUCache option" where
  "lru_make_room key c =
     (if map_of (lru_cache c) key \<noteq> None then map_option (\<lambda>l. c\<lparr>lru_order := l\<rparr>) (erase_at key (lru_order c))
      else if lru_full c then
        map_option (\<lambda>(k, l). c\<lparr>lru_order := l, lru_cache := AList.delete k (lru_cache c)\<rparr>) (drop_last (lru_order c))
      else Some c)"

definition lru_put :: "u64 \<Rightarrow> u64 \<Rightarrow> u64 \<Rightarrow> LRUCache \<Rightarrow> LRUCache option" where
  "lru_put key value timestamp c = map_option (\<lambda>c1.
       c1\<lparr>lru_order := push_at key (lru_order c1),
         lru_cache := AList.update key \<lparr>e_key = key, e_value = value, e_timestamp = timestamp\<rparr> (lru_cache c1)\<rparr>)
     (lru_make_room key c)"

definition lru_size :: "LRUCache \<Rightarrow> u64" where
  "lru_size c = of_nat (length (lru_cache c))"

definition lru_get_stats :: "LRUCache \<Rightarrow> int \<times> int" where
  "lru_get_stats c = (signed (ucast (lru_size c) :: u32), lru_capacity c)"

definition lru_clear :: "LRUCache \<Rightarrow> LRUCache" where
  "lru_clear c = c\<lparr>lru_cache := [], lru_order := ((fst (lru_order c))\<lparr>l_nodes := []\<rparr>, [])\<rparr>"

definition lru_remove :: "u64 \<Rightarrow> LRUCache \<Rightarrow> (bool \<times> LRUCache) option" where
  "lru_remove key c =
     (if map_of (lru_cache c) key = None then Some (False, c)
      else map_option (\<lambda>(l, ix). (True, c\<lparr>lru_order := (l, AList.delete key ix),
                                          lru_cache := AList.delete key (lru_cache c)\<rparr>))
             (erase_at key (lru_order c)))"

definition lru_contains :: "u64 \<Rightarrow> LRUCache \<Rightarrow> bool" where
  "lru_contains key c \<longleftrightarrow> map_of (lru_cache c) key \<noteq> None"

definition lru_peek :: "u64 \<Rightarrow> LRUCache \<Rightarrow> u64 option" where
  "lru_peek key c = map_option e_value (map_of (lru_cache c) key)"


section \<open>TLBCache\<close>

record TLBCache =
  tlb_capacity :: u64
  tlb_order :: indexed_list

definition new_TLBCache :: "u64 \<Rightarrow> TLBCache" where
  "new_TLBCache capacity = \<lparr>tlb_capacity = capacity, tlb_order = (empty_list, [])\<rparr>"

definition tlb_lookup :: "u64 \<Rightarrow> TLBCache \<Rightarrow> (bool \<times> TLBCache) option" where
  "tlb_lookup page t =
     (if map_of (snd (tlb_order t)) page = None then Some (False, t)
      else map_option (\<lambda>l. (True, t\<lparr>tlb_order := push_at page l\<rparr>)) (erase_at page (tlb_order t)))"

definition tlb_forget :: "u64 \<Rightarrow> indexed_list \<Rightarrow> indexed_list option" where
  "tlb_forget page l =
     (if map_of (snd l) page = None then Some l
      else map_option (\<lambda>(l1, ix). (l1, AList.delete page ix)) (erase_at page l))"

definition tlb_make_room :: "u64 \<Rightarrow> indexed_list \<Rightarrow> indexed_list option" where
  "tlb_make_room capacity l =
     (if capacity \<le> of_nat (length (l_nodes (fst l))) then map_option snd (drop_last l) else Some l)"

definition tlb_insert :: "u64 \<Rightarrow> TLBCache \<Rightarrow> TLBCache option" where
  "tlb_insert page t =
     map_option (\<lambda>l. t\<lparr>tlb_order := push_at page l\<rparr>)
       (Option.bind (tlb_forget page (tlb_order t)) (tlb_make_room (tlb_capacity t)))"


section \<open>The index always points at the keys of the list\<close>

definition il_keys :: "indexed_list \<Rightarrow> u64 list" where
  "il_keys l = map snd (l_nodes (fst l))"

text \<open>
  The nodes are distinct and older than the next one; the keys are distinct; the index maps a key
  to the node that holds it and knows no other key, except those of a set that is being moved.
\<close>

definition il_inv :: "u64 set \<Rightarrow> indexed_list \<Rightarrow> bool" where
  "il_inv moving l \<longleftrightarrow> distinct (map fst (l_nodes (fst l))) \<and> list_all (\<lambda>(n, k). n < l_fresh (fst l)) (l_nodes (fst l))
     \<and> distinct (il_keys l) \<and> moving \<inter> set (il_keys l) = {}
     \<and> (\<forall>k. k \<notin> moving \<longrightarrow> map_of (snd l) k = map_of (map (\<lambda>(n, k). (k, n)) (l_nodes (fst l))) k)"

lemma il_inv_empty [simp]: "il_inv {} (empty_list, [])" "il_keys (empty_list, []) = []"
  by (simp_all add: il_inv_def il_keys_def empty_list_def)

lemma map_of_swap:
  "distinct (map snd ns) \<Longrightarrow> map_of (map (\<lambda>(n, k). (k, n)) ns) k = Some n \<longleftrightarrow> (n, k) \<in> set ns"
  by (induction ns) (force simp: rev_image_eqI)+

lemma map_of_swap_None: "map_of (map (\<lambda>(n, k). (k, n)) ns) k = None \<longleftrightarrow> k \<notin> snd ` set ns"
  by (induction ns) auto

lemma il_index_None:
  assumes "il_inv {} l" shows "map_of (snd l) k = None \<longleftrightarrow> k \<notin> set (il_keys l)"
  using assms by (simp add: il_inv_def map_of_swap_None il_keys_def)

lemma filter_node:
  assumes "distinct (map fst ns)" "distinct (map snd ns)" "(n, k) \<in> set ns"
  shows "filter (\<lambda>(m, j). m \<noteq> n) ns = filter (\<lambda>(m, j). j \<noteq> k) ns"
proof (rule filter_cong [OF refl])
  fix x assume x: "x \<in> set ns"
  then have "fst x = n \<longleftrightarrow> snd x = k"
    using assms by (metis distinct_map fst_conv inj_on_def snd_conv)
  then show "(case x of (m, j) \<Rightarrow> m \<noteq> n) = (case x of (m, j) \<Rightarrow> j \<noteq> k)"
    by (simp add: case_prod_unfold)
qed

lemma map_of_filter_key: "map_of (map (\<lambda>(n, k). (k, n)) (filter (\<lambda>(m, j). j \<noteq> k) ns)) j
    = (if j = k then None else map_of (map (\<lambda>(n, k). (k, n)) ns) j)"
  by (induction ns) auto

lemma erase_at_il:
  assumes inv: "il_inv {} l" and k: "k \<in> set (il_keys l)"
  obtains l' where "erase_at k l = Some l'" "il_inv {k} l'" "il_keys l' = removeAll k (il_keys l)" "snd l' = snd l"
proof -
  let ?ns = "l_nodes (fst l)"
  have d: "distinct (map fst ?ns)" "distinct (map snd ?ns)"
    using inv by (simp_all add: il_inv_def il_keys_def)
  obtain n where n: "(n, k) \<in> set ?ns"
    using k by (auto simp: il_keys_def)
  have ix: "map_of (snd l) k = Some n"
    using inv map_of_swap [OF d(2), of k n] n by (simp add: il_inv_def)
  define l' where "l' = ((fst l)\<lparr>l_nodes := filter (\<lambda>(m, j). j \<noteq> k) ?ns\<rparr>, snd l)"
  have "erase_at k l = Some l'"
    using n ix filter_node [OF d n] by (force simp: erase_at_def erase_node_def l'_def split_beta)
  moreover have "il_keys l' = removeAll k (il_keys l)"
    by (simp add: il_keys_def l'_def filter_map removeAll_filter_not_eq o_def case_prod_unfold) (metis)
  moreover have "il_inv {k} l'"
    using inv by (auto simp: il_inv_def l'_def il_keys_def map_of_filter_key distinct_map_filter list_all_iff)
  ultimately show ?thesis
    using that by (simp add: l'_def)
qed

lemma push_at_il:
  assumes "il_inv M l" "k \<notin> set (il_keys l)" "M \<subseteq> {k}"
  shows "il_inv {} (push_at k l)" "il_keys (push_at k l) = k # il_keys l"
  using assms
  by (auto simp: il_inv_def il_keys_def push_at_def push_front_def split_beta update_conv' list_all_iff less_Suc_eq)

lemma map_of_swap_absent [simp]: "k \<notin> snd ` set ns \<Longrightarrow> map_of (map (\<lambda>(n, k). (k, n)) ns) k = None"
  by (simp add: map_of_swap_None)

lemma drop_last_il:
  assumes inv: "il_inv {} l" and ne: "il_keys l \<noteq> []"
  obtains l' where "drop_last l = Some (last (il_keys l), l')" "il_inv {} l'" "il_keys l' = butlast (il_keys l)"
proof -
  obtain ns n k where ns: "l_nodes (fst l) = ns @ [(n, k)]"
    using ne by (metis il_keys_def list.map_disc_iff rev_exhaust surj_pair)
  have k: "k \<notin> snd ` set ns"
    using inv by (simp add: il_inv_def il_keys_def ns)
  have "map_of (AList.delete k (snd l)) j = map_of (map (\<lambda>(n, k). (k, n)) ns) j" for j
  proof (cases "j = k")
    case False
    then show ?thesis
      using inv by (simp add: il_inv_def ns delete_conv' map_of_append map_add_def split: option.splits)
  qed (simp add: delete_conv' k)
  then have "il_inv {} ((fst l)\<lparr>l_nodes := ns\<rparr>, AList.delete k (snd l))"
    using inv by (simp add: il_inv_def il_keys_def ns)
  moreover have "drop_last l = Some (k, (fst l)\<lparr>l_nodes := ns\<rparr>, AList.delete k (snd l))"
    by (simp add: drop_last_def split_beta last_key_def pop_last_def ns)
  ultimately show ?thesis
    using that by (simp add: il_keys_def ns)
qed

lemma forget_il:
  assumes "il_inv {k} (l, ix)"
  shows "il_inv {} (l, AList.delete k ix)"
  using assms by (simp add: il_inv_def il_keys_def delete_conv')

lemma il_keys_ignores_index: "il_keys (l, ix) = il_keys (l, ix')"
  by (simp add: il_keys_def)


section \<open>LRUCache is a bounded recency list\<close>

datatype lru_op =
    Lru_get u64 u64
  | Lru_put u64 u64 u64
  | Lru_remove u64
  | Lru_clear
  | Lru_contains u64
  | Lru_peek u64
  | Lru_size
  | Lru_stats

datatype lru_answer = Value "u64 option" | Flag bool | Done | Size u64 | Stats int int

fun lru_step :: "lru_op \<Rightarrow> LRUCache \<Rightarrow> (lru_answer \<times> LRUCache) option" where
  "lru_step (Lru_get k t) c = map_option (\<lambda>(v, c'). (Value v, c')) (lru_get k t c)"
| "lru_step (Lru_put k v t) c = map_option (Pair Done) (lru_put k v t c)"
| "lru_step (Lru_remove k) c = map_option (\<lambda>(b, c'). (Flag b, c')) (lru_remove k c)"
| "lru_step Lru_clear c = Some (Done, lru_clear c)"
| "lru_step (Lru_contains k) c = Some (Flag (lru_contains k c), c)"
| "lru_step (Lru_peek k) c = Some (Value (lru_peek k c), c)"
| "lru_step Lru_size c = Some (Size (lru_size c), c)"
| "lru_step Lru_stats c = Some (case_prod Stats (lru_get_stats c), c)"

fun lru_run :: "lru_op list \<Rightarrow> LRUCache \<Rightarrow> (lru_answer list \<times> LRUCache) option" where
  "lru_run [] c = Some ([], c)"
| "lru_run (x # xs) c = Option.bind (lru_step x c) (\<lambda>(a, c1). map_option (\<lambda>(as, c2). (a # as, c2)) (lru_run xs c1))"

text \<open>The specification: entries (key, value, timestamp), most recently used first.\<close>

type_synonym recency = "(u64 \<times> u64 \<times> u64) list"

definition without :: "u64 \<Rightarrow> recency \<Rightarrow> recency" where
  "without k es = filter (\<lambda>e. fst e \<noteq> k) es"

fun recency_step :: "nat \<Rightarrow> lru_op \<Rightarrow> recency \<Rightarrow> lru_answer \<times> recency" where
  "recency_step n (Lru_get k t) es = (case map_of es k of
       None \<Rightarrow> (Value None, es)
     | Some (v, _) \<Rightarrow> (Value (Some v), (k, v, t) # without k es))"
| "recency_step n (Lru_put k v t) es = (Done, take n ((k, v, t) # without k es))"
| "recency_step n (Lru_remove k) es = (Flag (k \<in> fst ` set es), without k es)"
| "recency_step n Lru_clear es = (Done, [])"
| "recency_step n (Lru_contains k) es = (Flag (k \<in> fst ` set es), es)"
| "recency_step n (Lru_peek k) es = (Value (map_option fst (map_of es k)), es)"
| "recency_step n Lru_size es = (Size (of_nat (length es)), es)"
| "recency_step n Lru_stats es = (Stats (int (length es)) (int n), es)"

fun recency_run :: "nat \<Rightarrow> lru_op list \<Rightarrow> recency \<Rightarrow> lru_answer list \<times> recency" where
  "recency_run n [] es = ([], es)"
| "recency_run n (x # xs) es = (let (a, es1) = recency_step n x es; (as, es2) = recency_run n xs es1 in (a # as, es2))"

definition entry_at :: "LRUCache \<Rightarrow> u64 \<Rightarrow> u64 \<times> u64" where
  "entry_at c k = (case map_of (lru_cache c) k of None \<Rightarrow> (0, 0) | Some e \<Rightarrow> (e_value e, e_timestamp e))"

definition lru_abs :: "LRUCache \<Rightarrow> recency" where
  "lru_abs c = map (\<lambda>k. (k, entry_at c k)) (il_keys (lru_order c))"

definition lru_inv :: "LRUCache \<Rightarrow> bool" where
  "lru_inv c \<longleftrightarrow> il_inv {} (lru_order c) \<and> distinct (map fst (lru_cache c))
     \<and> fst ` set (lru_cache c) = set (il_keys (lru_order c))
     \<and> 0 < lru_capacity c \<and> lru_capacity c < 2147483648 \<and> int (length (il_keys (lru_order c))) \<le> lru_capacity c"

lemma lru_inv_length:
  assumes "lru_inv c" shows "length (il_keys (lru_order c)) = length (lru_cache c)"
proof -
  have "distinct (il_keys (lru_order c))"
    using assms by (simp add: lru_inv_def il_inv_def)
  then have "length (il_keys (lru_order c)) = card (set (map fst (lru_cache c)))"
    using assms by (simp add: lru_inv_def distinct_card)
  also have "\<dots> = length (map fst (lru_cache c))"
    using assms unfolding lru_inv_def by (intro distinct_card) simp
  finally show ?thesis by simp
qed

lemma lru_full_iff:
  assumes "lru_inv c" shows "lru_full c \<longleftrightarrow> length (lru_cache c) = nat (lru_capacity c)"
proof -
  have "unat (word_of_int (lru_capacity c) :: u64) = nat (lru_capacity c)"
    using assms by (simp add: lru_inv_def unat_eq_nat_uint uint_word_of_int)
  moreover have "unat (of_nat (length (lru_cache c)) :: u64) = length (lru_cache c)"
    using assms lru_inv_length [OF assms] by (simp add: lru_inv_def unat_of_nat)
  ultimately show ?thesis
    using assms lru_inv_length [OF assms] by (auto simp: lru_full_def word_le_nat_alt lru_inv_def)
qed

lemma lru_cached_iff:
  assumes "lru_inv c" shows "map_of (lru_cache c) k = None \<longleftrightarrow> k \<notin> set (il_keys (lru_order c))"
  using assms by (auto simp: lru_inv_def map_of_eq_None_iff)

lemma lru_abs_keys: "fst ` set (lru_abs c) = set (il_keys (lru_order c))" "map fst (lru_abs c) = il_keys (lru_order c)"
  by (auto simp: lru_abs_def image_image o_def)

lemma map_of_lru_abs:
  "map_of (lru_abs c) k = (if k \<in> set (il_keys (lru_order c)) then Some (entry_at c k) else None)"
  by (simp add: lru_abs_def map_of_map_restrict restrict_map_def)

lemma without_lru_abs: "without k (lru_abs c) = map (\<lambda>k. (k, entry_at c k)) (removeAll k (il_keys (lru_order c)))"
  by (simp add: without_def lru_abs_def filter_map removeAll_filter_not_eq o_def) metis

text \<open>The common end of a hit and of a store: the key goes to the front with its new entry.\<close>

lemma lru_store:
  fixes e :: LRUCacheEntry
  assumes "il_inv M l" "M \<subseteq> {k}" "k \<notin> set (il_keys l)" "distinct (map fst ca)"
    and "insert k (fst ` set ca) = insert k (set (il_keys l))"
    and "int (length (il_keys l)) < lru_capacity c" "lru_capacity c < 2147483648"
  defines "c' \<equiv> c\<lparr>lru_order := push_at k l, lru_cache := AList.update k e ca\<rparr>"
  shows "lru_inv c'"
    and "lru_abs c' = (k, e_value e, e_timestamp e) # map (\<lambda>j. (j, entry_at (c\<lparr>lru_cache := ca\<rparr>) j)) (il_keys l)"
proof -
  have keys: "il_inv {} (push_at k l)" "il_keys (push_at k l) = k # il_keys l"
    using push_at_il [OF assms(1,3,2)] by simp_all
  show "lru_inv c'"
    using assms(4-7) keys by (simp add: lru_inv_def c'_def dom_update distinct_update)
  have "entry_at c' j = entry_at (c\<lparr>lru_cache := ca\<rparr>) j" if "j \<in> set (il_keys l)" for j
    using that assms(3) by (auto simp: entry_at_def c'_def update_conv')
  then show "lru_abs c' = (k, e_value e, e_timestamp e) # map (\<lambda>j. (j, entry_at (c\<lparr>lru_cache := ca\<rparr>) j)) (il_keys l)"
    by (simp add: lru_abs_def c'_def keys(2)) (simp add: entry_at_def update_conv')
qed

definition lru_sim :: "lru_op \<Rightarrow> LRUCache \<Rightarrow> bool" where
  "lru_sim x c \<longleftrightarrow> (\<exists>a c'. lru_step x c = Some (a, c') \<and> lru_inv c' \<and> lru_capacity c' = lru_capacity c
     \<and> recency_step (nat (lru_capacity c)) x (lru_abs c) = (a, lru_abs c'))"

lemma length_removeAll_mem: "x \<in> set xs \<Longrightarrow> length (removeAll x xs) < length xs"
  by (rule length_removeAll_less)

lemma lru_erase:
  assumes inv: "lru_inv c" and k: "k \<in> set (il_keys (lru_order c))"
  obtains l where "erase_at k (lru_order c) = Some l" "il_inv {k} l" "il_keys l = removeAll k (il_keys (lru_order c))"
    "k \<notin> set (il_keys l)" "insert k (fst ` set (lru_cache c)) = insert k (set (il_keys l))"
    "int (length (il_keys l)) < lru_capacity c"
proof -
  obtain l where l: "erase_at k (lru_order c) = Some l" "il_inv {k} l" "il_keys l = removeAll k (il_keys (lru_order c))"
    using erase_at_il [OF _ k] inv unfolding lru_inv_def by metis
  moreover have "insert k (fst ` set (lru_cache c)) = insert k (set (il_keys l))"
    using inv by (auto simp: lru_inv_def l(3))
  moreover have "int (length (il_keys l)) < lru_capacity c"
    using inv length_removeAll_mem [OF k] by (simp add: lru_inv_def l(3))
  ultimately show ?thesis
    using that by simp
qed

lemma lru_sim_get: "lru_inv c \<Longrightarrow> lru_sim (Lru_get k t) c"
proof (cases "k \<in> set (il_keys (lru_order c))")
  case True
  assume inv: "lru_inv c"
  obtain e where e: "map_of (lru_cache c) k = Some e"
    using True lru_cached_iff [OF inv] by fastforce
  obtain l where l: "erase_at k (lru_order c) = Some l" "il_inv {k} l" "il_keys l = removeAll k (il_keys (lru_order c))"
      "k \<notin> set (il_keys l)" "insert k (fst ` set (lru_cache c)) = insert k (set (il_keys l))"
      "int (length (il_keys l)) < lru_capacity c"
    using lru_erase [OF inv True] by blast
  have c: "distinct (map fst (lru_cache c))" "lru_capacity c < 2147483648"
    using inv by (simp_all add: lru_inv_def)
  note st = lru_store [OF l(2) subset_refl l(4) c(1) l(5,6) c(2), of "e\<lparr>e_timestamp := t\<rparr>"]
  show ?thesis
    using st True by (simp add: lru_sim_def lru_get_def e l(1) map_of_lru_abs entry_at_def [of c k] without_lru_abs l(3))
next
  case False
  assume inv: "lru_inv c"
  then show ?thesis
    using False lru_cached_iff [OF inv, THEN iffD2, OF False] by (simp add: lru_sim_def lru_get_def map_of_lru_abs)
qed

lemma keys_delete: "fst ` set (AList.delete k al) = fst ` set al - {k}"
  by (metis delete_keys list.set_map set_removeAll)

lemma lru_sim_put: "lru_inv c \<Longrightarrow> lru_sim (Lru_put k v t) c"
proof -
  assume inv: "lru_inv c"
  let ?ks = "il_keys (lru_order c)" and ?n = "nat (lru_capacity c)"
  let ?e = "\<lparr>e_key = k, e_value = v, e_timestamp = t\<rparr>"
  have c: "distinct (map fst (lru_cache c))" "lru_capacity c < 2147483648" "fst ` set (lru_cache c) = set ?ks"
      "il_inv {} (lru_order c)" "length ?ks \<le> ?n" "0 < ?n" "distinct ?ks"
    using inv by (auto simp: lru_inv_def il_inv_def)
  consider (old) "k \<in> set ?ks" | (room) "k \<notin> set ?ks" "\<not> lru_full c" | (full) "k \<notin> set ?ks" "lru_full c"
    by blast
  then show "lru_sim (Lru_put k v t) c"
  proof cases
    case old
    obtain l where l: "erase_at k (lru_order c) = Some l" "il_inv {k} l" "il_keys l = removeAll k ?ks"
        "k \<notin> set (il_keys l)" "insert k (fst ` set (lru_cache c)) = insert k (set (il_keys l))"
        "int (length (il_keys l)) < lru_capacity c"
      using lru_erase [OF inv old] by blast
    have m: "map_of (lru_cache c) k \<noteq> None"
      using old lru_cached_iff [OF inv] by blast
    have "length (il_keys l) < ?n"
      using l(6) by simp
    then show ?thesis
      using lru_store [OF l(2) subset_refl l(4) c(1) l(5,6) c(2), of ?e] m
      by (simp add: lru_sim_def lru_put_def lru_make_room_def l(1) without_lru_abs l(3) take_Cons')
  next
    case room
    have m: "map_of (lru_cache c) k = None"
      using room(1) lru_cached_iff [OF inv] by blast
    have n: "length ?ks < ?n"
      using room(2) lru_full_iff [OF inv] lru_inv_length [OF inv] c(5) by simp
    then have n': "int (length ?ks) < lru_capacity c"
      by simp
    have eq: "insert k (fst ` set (lru_cache c)) = insert k (set ?ks)"
      using c(3) by simp
    show ?thesis
      using lru_store [OF c(4) empty_subsetI room(1) c(1) eq n' c(2), of ?e] m room n
      by (simp add: lru_sim_def lru_put_def lru_make_room_def without_lru_abs take_Cons')
  next
    case full
    have m: "map_of (lru_cache c) k = None"
      using full(1) lru_cached_iff [OF inv] by blast
    have n: "length ?ks = ?n"
      using full(2) lru_full_iff [OF inv] lru_inv_length [OF inv] by simp
    then have ne: "?ks \<noteq> []"
      using c(6) by auto
    obtain l where l: "drop_last (lru_order c) = Some (last ?ks, l)" "il_inv {} l" "il_keys l = butlast ?ks"
      using drop_last_il [OF c(4) ne] by blast
    let ?ca = "AList.delete (last ?ks) (lru_cache c)"
    have ks: "?ks = butlast ?ks @ [last ?ks]"
      using ne by simp
    have last: "last ?ks \<notin> set (butlast ?ks)"
      using c(7) ks by (metis distinct_append list.set_intros(1) disjoint_iff)
    have "set ?ks = insert (last ?ks) (set (butlast ?ks))"
      by (subst ks) simp
    then have eq: "insert k (fst ` set ?ca) = insert k (set (il_keys l))"
      using c(3) last by (auto simp: l(3) keys_delete)
    have k: "k \<notin> set (il_keys l)"
      using full(1) by (auto simp: l(3) dest: in_set_butlastD)
    have d: "distinct (map fst ?ca)"
      using c(1) by (simp add: distinct_delete)
    have n': "int (length (il_keys l)) < lru_capacity c"
      using n c(6) by (simp add: l(3))
    have same: "entry_at (c\<lparr>lru_cache := ?ca\<rparr>) j = entry_at c j" if "j \<in> set (butlast ?ks)" for j
      using that last by (auto simp: entry_at_def delete_conv')
    have "take (?n - 1) ?ks = butlast ?ks"
      using n by (simp add: butlast_conv_take)
    then show ?thesis
      using lru_store [OF l(2) empty_subsetI k d eq n' c(2), of ?e] m full same c(6)
      by (simp add: lru_sim_def lru_put_def lru_make_room_def l(1,3) without_lru_abs take_Cons' take_map)
  qed
qed

lemma lru_sim_remove: "lru_inv c \<Longrightarrow> lru_sim (Lru_remove k) c"
proof (cases "k \<in> set (il_keys (lru_order c))")
  case True
  assume inv: "lru_inv c"
  obtain l where l: "erase_at k (lru_order c) = Some l" "il_inv {k} l" "il_keys l = removeAll k (il_keys (lru_order c))"
      "k \<notin> set (il_keys l)" "insert k (fst ` set (lru_cache c)) = insert k (set (il_keys l))"
      "int (length (il_keys l)) < lru_capacity c"
    using lru_erase [OF inv True] by blast
  obtain l1 ix where lx: "l = (l1, ix)"
    by (cases l)
  have keys: "il_keys (l1, AList.delete k ix) = removeAll k (il_keys (lru_order c))"
    using l(3) il_keys_ignores_index lx by metis
  have m: "map_of (lru_cache c) k \<noteq> None"
    using True lru_cached_iff [OF inv] by blast
  have "fst ` set (AList.delete k (lru_cache c)) = set (removeAll k (il_keys (lru_order c)))"
    using inv by (simp add: lru_inv_def keys_delete)
  then have "lru_inv (c\<lparr>lru_order := (l1, AList.delete k ix), lru_cache := AList.delete k (lru_cache c)\<rparr>)"
    using inv forget_il [of k l1 ix] l(2,6) lx l(3) by (simp add: lru_inv_def keys distinct_delete del: set_removeAll)
  moreover have "entry_at (c\<lparr>lru_order := x, lru_cache := AList.delete k (lru_cache c)\<rparr>) j = entry_at c j" if "j \<noteq> k" for j x
    using that by (simp add: entry_at_def delete_conv')
  ultimately show ?thesis
    using True m by (auto simp: lru_sim_def lru_remove_def l(1) lx without_lru_abs lru_abs_keys lru_abs_def [of "lru_cache_update _ _"] keys)
next
  case False
  assume inv: "lru_inv c"
  have "without k (lru_abs c) = lru_abs c"
    using False by (simp add: without_lru_abs) (simp add: lru_abs_def)
  then show ?thesis
    using inv False lru_cached_iff [OF inv, THEN iffD2, OF False] by (simp add: lru_sim_def lru_remove_def lru_abs_keys)
qed

lemma lru_step_sim: "lru_inv c \<Longrightarrow> lru_sim x c"
proof (cases x)
  case Lru_clear
  assume inv: "lru_inv c"
  then have "lru_inv (lru_clear c)" "lru_abs (lru_clear c) = []"
    by (simp_all add: lru_inv_def lru_clear_def il_inv_def il_keys_def lru_abs_def)
  then show ?thesis
    using Lru_clear by (simp add: lru_sim_def) (simp add: lru_clear_def)
next
  case (Lru_contains k)
  assume inv: "lru_inv c"
  show ?thesis
    using Lru_contains inv lru_cached_iff [OF inv, of k] by (simp add: lru_sim_def lru_contains_def lru_abs_keys)
next
  case (Lru_peek k)
  assume inv: "lru_inv c"
  show ?thesis
    using Lru_peek inv lru_cached_iff [OF inv, of k]
    by (auto simp: lru_sim_def lru_peek_def map_of_lru_abs entry_at_def split: option.splits)
next
  case Lru_size
  assume inv: "lru_inv c"
  then show ?thesis
    using Lru_size lru_inv_length [OF inv] by (simp add: lru_sim_def lru_size_def lru_abs_def)
next
  case Lru_stats
  assume inv: "lru_inv c"
  have n: "length (lru_cache c) < 2147483648" "0 \<le> lru_capacity c"
    using inv lru_inv_length [OF inv] by (auto simp: lru_inv_def)
  have "signed (ucast (of_nat (length (lru_cache c)) :: u64) :: u32) = int (length (lru_cache c))"
    using n(1) by (simp add: unsigned_of_nat signed_take_bit_int_eq_self signed_of_nat take_bit_nat_eq_self)
  then show ?thesis
    using Lru_stats n inv lru_inv_length [OF inv] by (simp add: lru_sim_def lru_get_stats_def lru_size_def lru_abs_def)
qed (simp_all add: lru_sim_get lru_sim_put lru_sim_remove)

lemma lru_run_sim:
  "lru_inv c \<Longrightarrow> \<exists>c'. lru_run xs c = Some (fst (recency_run (nat (lru_capacity c)) xs (lru_abs c)), c')
     \<and> lru_inv c' \<and> lru_abs c' = snd (recency_run (nat (lru_capacity c)) xs (lru_abs c))"
proof (induction xs arbitrary: c)
  case (Cons x xs)
  obtain a c1 where 1: "lru_step x c = Some (a, c1)" "lru_inv c1" "lru_capacity c1 = lru_capacity c"
      "recency_step (nat (lru_capacity c)) x (lru_abs c) = (a, lru_abs c1)"
    using lru_step_sim [OF Cons.prems, of x] by (auto simp: lru_sim_def)
  show ?case
    using Cons.IH [OF 1(2)] 1 by (auto simp: split_beta Let_def)
qed simp

lemma lru_inv_new: "0 < n \<Longrightarrow> n < 2147483648 \<Longrightarrow> lru_inv (new_LRUCache n) \<and> lru_abs (new_LRUCache n) = []"
  by (simp add: lru_inv_def new_LRUCache_def lru_abs_def)

text \<open>
  C10: The least recently used cache is a bounded recency list. With room for at least one key, no
  sequence of operations ever follows a stale iterator or takes the last element of an empty list,
  and every answer - lookups, sizes, statistics - is the one of the plain list of entries kept in
  order of use and cut at the capacity.
\<close>

theorem lru_cache_refines_recency_list:
  assumes "0 < capacity" "capacity < 2147483648"
  shows "\<exists>c. lru_run xs (new_LRUCache capacity) = Some (fst (recency_run (nat capacity) xs []), c)
          \<and> lru_abs c = snd (recency_run (nat capacity) xs [])"
  using lru_run_sim [of "new_LRUCache capacity" xs] lru_inv_new [OF assms] by (auto simp: new_LRUCache_def)

theorem lru_cache_refines_recency_list_witness:
  "\<exists>c. lru_run [Lru_put 1 10 0, Lru_put 2 20 1, Lru_get 1 2, Lru_put 3 30 3, Lru_get 2 4, Lru_stats] (new_LRUCache 2)
     = Some ([Done, Done, Value (Some 10), Done, Value None, Stats 2 2], c) \<and> lru_abs c = [(3, 30, 3), (1, 10, 2)]"
  using lru_cache_refines_recency_list
    [of 2 "[Lru_put 1 10 0, Lru_put 2 20 1, Lru_get 1 2, Lru_put 3 30 3, Lru_get 2 4, Lru_stats]"]
  by (simp add: without_def)


section \<open>Caches that keep the most recent keys\<close>

text \<open>
  The contract of a bounded cache for a client that looks a key up and inserts it on a miss: a hit
  is a key that is held, and afterwards the keys are those held before with the new one in front,
  cut at the capacity.
\<close>

definition touch_key :: "nat \<Rightarrow> 'k \<Rightarrow> 'k list \<Rightarrow> 'k list" where
  "touch_key n k ks = take n (k # removeAll k ks)"

locale recency_cache =
  fixes good :: "'c \<Rightarrow> bool"
    and room :: "'c \<Rightarrow> nat"
    and held :: "'c \<Rightarrow> 'k list"
    and use_key :: "'k \<Rightarrow> 'c \<Rightarrow> (bool \<times> 'c) option"
  assumes use_key: "good c \<Longrightarrow> \<exists>c'. use_key k c = Some (k \<in> set (held c), c') \<and> good c' \<and> room c' = room c
                      \<and> held c' = touch_key (room c) k (held c)"
begin

fun use_keys :: "'k list \<Rightarrow> 'c \<Rightarrow> (bool list \<times> 'c) option" where
  "use_keys [] c = Some ([], c)"
| "use_keys (k # ks) c =
     Option.bind (use_key k c) (\<lambda>(h, c1). map_option (\<lambda>(hs, c2). (h # hs, c2)) (use_keys ks c1))"

definition recent :: "'k list \<Rightarrow> 'k list" where
  "recent ks = fold (\<lambda>k ys. k # removeAll k ys) ks []"

lemma recent_snoc: "recent (ks @ [k]) = k # removeAll k (recent ks)"
  by (simp add: recent_def)

lemma distinct_recent: "distinct (recent ks)"
  by (induction ks rule: rev_induct) (simp_all add: recent_snoc recent_def [of "[]"] distinct_removeAll)

lemma set_recent: "set (recent ks) = set ks"
  by (induction ks rule: rev_induct) (auto simp: recent_snoc recent_def [of "[]"])

text \<open>Cutting at the capacity after every access is cutting once at the end.\<close>

lemma touch_take:
  assumes "distinct ys" shows "touch_key n k (take n ys) = take n (k # removeAll k ys)"
proof (cases "k \<in> set (take n ys)")
  case True
  then obtain us vs where us: "take n ys = us @ k # vs" "k \<notin> set us"
    by (metis split_list_first)
  have ys: "ys = us @ k # vs @ drop n ys"
    using us(1) append_take_drop_id [of n ys] by simp
  have n: "length us + 1 + length vs \<le> n"
    using us(1) by (metis add.commute add_Suc_right length_Cons length_append length_take min.cobounded2 plus_1_eq_Suc)
  have "k \<notin> set vs" "k \<notin> set (drop n ys)"
    using assms by (subst (asm) ys, simp)+
  then have rm: "removeAll k ys = us @ vs @ drop n ys"
    using us(2) by (subst ys) simp
  show ?thesis
  proof (cases "length (us @ k # vs) = n")
    case True
    then show ?thesis
      using us \<open>k \<notin> set vs\<close> n by (simp add: touch_key_def rm take_Cons')
  next
    case False
    then have "drop n ys = []"
      using us(1) n by (metis length_take min_def drop_all linorder_not_le nat_less_le)
    then show ?thesis
      using us \<open>k \<notin> set vs\<close> by (simp add: touch_key_def rm)
  qed
next
  case False
  have "take (n - 1) (removeAll k ys) = take (n - 1) (take n ys)"
  proof (cases "n \<le> length ys")
    case True
    have "removeAll k ys = take n ys @ removeAll k (drop n ys)"
      using False by (metis append_take_drop_id removeAll_append removeAll_id)
    then show ?thesis
      using True by simp
  next
    case long: False
    then show ?thesis
      using False by simp
  qed
  then show ?thesis
    using False by (cases n) (simp_all add: touch_key_def)
qed

lemma use_keys_recent:
  assumes "good c" "held c = take (room c) (recent us)"
  shows "\<exists>hs c'. use_keys ks c = Some (hs, c') \<and> good c' \<and> room c' = room c \<and> held c' = take (room c) (recent (us @ ks))
           \<and> length hs = length ks
           \<and> (\<forall>i < length ks. hs ! i \<longleftrightarrow> ks ! i \<in> set (take (room c) (recent (us @ take i ks))))"
  using assms
proof (induction ks arbitrary: c us)
  case (Cons k ks)
  obtain c1 where 1: "use_key k c = Some (k \<in> set (held c), c1)" "good c1" "room c1 = room c"
      "held c1 = touch_key (room c) k (held c)"
    using use_key [OF Cons.prems(1)] by blast
  have "held c1 = take (room c1) (recent (us @ [k]))"
    using 1 Cons.prems(2) touch_take [OF distinct_recent] by (simp add: recent_snoc)
  then obtain hs c2 where 2: "use_keys ks c1 = Some (hs, c2)" "good c2" "room c2 = room c"
      "held c2 = take (room c) (recent (us @ k # ks))" "length hs = length ks"
      "\<forall>i < length ks. hs ! i \<longleftrightarrow> ks ! i \<in> set (take (room c) (recent (us @ k # take i ks)))"
    using Cons.IH [OF 1(2), of "us @ [k]"] 1(3) by auto
  then show ?case
    using 1(1) Cons.prems(2) by (auto simp: less_Suc_eq_0_disj)
qed simp

text \<open>The position of a key in order of use is the number of distinct keys used since.\<close>

lemma recent_position:
  assumes "k \<notin> set vs" shows "k \<in> set (take n (recent (us @ k # vs))) \<longleftrightarrow> card (set vs) < n"
proof -
  have "\<exists>pre. recent (us @ k # vs) = pre @ k # removeAll k (fold (\<lambda>j ys. removeAll j ys) vs (recent us))
          \<and> set pre = set vs \<and> distinct pre"
    using assms
  proof (induction vs rule: rev_induct)
    case Nil
    then show ?case
      by (simp add: recent_snoc)
  next
    case (snoc v vs)
    then obtain pre where pre: "recent (us @ k # vs) = pre @ k # removeAll k (fold (\<lambda>j ys. removeAll j ys) vs (recent us))"
        "set pre = set vs" "distinct pre"
      by auto
    have "recent (us @ k # vs @ [v]) = v # removeAll v (recent (us @ k # vs))"
      using recent_snoc [of "us @ k # vs" v] by simp
    then show ?case
      using pre snoc.prems
      by (intro exI [of _ "v # removeAll v pre"]) (auto simp: removeAll_filter_not_eq conj_commute)
  qed
  then obtain pre post where "recent (us @ k # vs) = pre @ k # post" "length pre = card (set vs)" "k \<notin> set pre"
    using assms distinct_card by metis
  moreover have "k \<notin> set (take n pre)"
    using \<open>k \<notin> set pre\<close> by (meson in_set_takeD)
  moreover have "k \<notin> set post"
    using distinct_recent [of "us @ k # vs"] calculation(1) by auto
  ultimately show ?thesis
    by (auto simp: take_Cons' dest: in_set_takeD)
qed

end

text \<open>The two clients: a lookup that inserts on a miss, as the page walk does, and a cached read.\<close>

definition tlb_access :: "u64 \<Rightarrow> TLBCache \<Rightarrow> (bool \<times> TLBCache) option" where
  "tlb_access page t = Option.bind (tlb_lookup page t) (\<lambda>(hit, t1).
       if hit then Some (True, t1) else map_option (Pair False) (tlb_insert page t1))"

definition cached_read :: "u64 \<Rightarrow> u64 \<Rightarrow> u64 \<Rightarrow> LRUCache \<Rightarrow> (bool \<times> LRUCache) option" where
  "cached_read value timestamp key c = Option.bind (lru_get key timestamp c) (\<lambda>(v, c1).
       if v \<noteq> None then Some (True, c1) else map_option (Pair False) (lru_put key value timestamp c1))"

fun tlb_run :: "u64 list \<Rightarrow> TLBCache \<Rightarrow> (bool list \<times> TLBCache) option" where
  "tlb_run [] t = Some ([], t)"
| "tlb_run (p # ps) t = Option.bind (tlb_access p t) (\<lambda>(h, t1). map_option (\<lambda>(hs, t2). (h # hs, t2)) (tlb_run ps t1))"

definition tlb_inv :: "TLBCache \<Rightarrow> bool" where
  "tlb_inv t \<longleftrightarrow> il_inv {} (tlb_order t) \<and> 0 < tlb_capacity t \<and> length (il_keys (tlb_order t)) \<le> unat (tlb_capacity t)"

definition tlb_keys :: "TLBCache \<Rightarrow> u64 list" where
  "tlb_keys t = il_keys (tlb_order t)"

lemma tlb_hit:
  assumes "tlb_inv t" "p \<in> set (tlb_keys t)"
  shows "\<exists>t'. tlb_lookup p t = Some (True, t') \<and> tlb_inv t' \<and> tlb_capacity t' = tlb_capacity t
           \<and> tlb_keys t' = touch_key (unat (tlb_capacity t)) p (tlb_keys t)"
proof -
  have inv: "il_inv {} (tlb_order t)" and p: "p \<in> set (il_keys (tlb_order t))"
    using assms by (simp_all add: tlb_inv_def tlb_keys_def)
  obtain l where l: "erase_at p (tlb_order t) = Some l" "il_inv {p} l" "il_keys l = removeAll p (il_keys (tlb_order t))"
    using erase_at_il [OF inv p] by metis
  have push: "il_inv {} (push_at p l)" "il_keys (push_at p l) = p # il_keys l"
    using push_at_il [OF l(2)] l(3) by simp_all
  have n: "length (p # il_keys l) \<le> unat (tlb_capacity t)"
    using assms(1) length_removeAll_mem [OF p] by (simp add: tlb_inv_def l(3))
  have "map_of (snd (tlb_order t)) p \<noteq> None"
    using il_index_None [OF inv] p by blast
  then show ?thesis
    using assms(1) push n l(1,3) by (auto simp: tlb_lookup_def tlb_inv_def tlb_keys_def touch_key_def)
qed

lemma tlb_miss:
  assumes "tlb_inv t" "p \<notin> set (tlb_keys t)"
  shows "tlb_lookup p t = Some (False, t)"
    and "\<exists>t'. tlb_insert p t = Some t' \<and> tlb_inv t' \<and> tlb_capacity t' = tlb_capacity t
           \<and> tlb_keys t' = touch_key (unat (tlb_capacity t)) p (tlb_keys t)"
proof -
  let ?ks = "il_keys (tlb_order t)" and ?n = "unat (tlb_capacity t)"
  have inv: "il_inv {} (tlb_order t)" and p: "p \<notin> set ?ks" and n: "0 < ?n" "length ?ks \<le> ?n"
    using assms by (simp_all add: tlb_inv_def tlb_keys_def word_less_nat_alt)
  have ix: "map_of (snd (tlb_order t)) p = None"
    using il_index_None [OF inv] p by blast
  then show "tlb_lookup p t = Some (False, t)"
    by (simp add: tlb_lookup_def)
  have full: "tlb_capacity t \<le> of_nat (length (l_nodes (fst (tlb_order t)))) \<longleftrightarrow> length ?ks = ?n"
  proof -
    have "length ?ks < 18446744073709551616"
      using n(2) unat_u64_lt [of "tlb_capacity t"] by linarith
    then show ?thesis
      using n(2) by (auto simp: il_keys_def word_le_nat_alt unat_of_nat)
  qed
  obtain l where l: "tlb_make_room (tlb_capacity t) (tlb_order t) = Some l" "il_inv {} l" "il_keys l = take (?n - 1) ?ks"
  proof (cases "length ?ks = ?n")
    case True
    then have "?ks \<noteq> []"
      using n(1) by auto
    then obtain l where "drop_last (tlb_order t) = Some (last ?ks, l)" "il_inv {} l" "il_keys l = butlast ?ks"
      using drop_last_il [OF inv] by blast
    then show ?thesis
      using that True full by (simp add: tlb_make_room_def butlast_conv_take)
  next
    case False
    then show ?thesis
      using that inv full n(2) by (simp add: tlb_make_room_def)
  qed
  have "p \<notin> set (il_keys l)"
    using p l(3) by (auto dest: in_set_takeD)
  then have push: "il_inv {} (push_at p l)" "il_keys (push_at p l) = p # il_keys l"
    using push_at_il [OF l(2)] by simp_all
  have "tlb_insert p t = Some (t\<lparr>tlb_order := push_at p l\<rparr>)"
    using ix l(1) by (simp add: tlb_insert_def tlb_forget_def)
  then show "\<exists>t'. tlb_insert p t = Some t' \<and> tlb_inv t' \<and> tlb_capacity t' = tlb_capacity t
           \<and> tlb_keys t' = touch_key ?n p (tlb_keys t)"
    using assms(1) push l(3) n p by (auto simp: tlb_inv_def tlb_keys_def touch_key_def take_Cons')
qed

lemma tlb_access_ok:
  assumes "tlb_inv t"
  shows "\<exists>t'. tlb_access p t = Some (p \<in> set (tlb_keys t), t') \<and> tlb_inv t' \<and> unat (tlb_capacity t') = unat (tlb_capacity t)
           \<and> tlb_keys t' = touch_key (unat (tlb_capacity t)) p (tlb_keys t)"
  using tlb_hit [OF assms, of p] tlb_miss [OF assms, of p] by (cases "p \<in> set (tlb_keys t)") (auto simp: tlb_access_def)

interpretation tlb: recency_cache tlb_inv "\<lambda>t. unat (tlb_capacity t)" tlb_keys tlb_access
  by unfold_locales (rule tlb_access_ok)

lemma map_fst_without: "map fst (without k es) = removeAll k (map fst es)"
  by (induction es) (auto simp: without_def)

lemma lru_read_ok:
  assumes inv: "lru_inv c"
  shows "\<exists>c'. cached_read v t k c = Some (k \<in> set (map fst (lru_abs c)), c') \<and> lru_inv c'
           \<and> nat (lru_capacity c') = nat (lru_capacity c)
           \<and> map fst (lru_abs c') = touch_key (nat (lru_capacity c)) k (map fst (lru_abs c))"
proof (cases "k \<in> set (map fst (lru_abs c))")
  case True
  obtain a c1 where c1: "lru_step (Lru_get k t) c = Some (a, c1)" "lru_inv c1" "lru_capacity c1 = lru_capacity c"
      "recency_step (nat (lru_capacity c)) (Lru_get k t) (lru_abs c) = (a, lru_abs c1)"
    using lru_sim_get [OF inv, of k t] by (auto simp: lru_sim_def)
  obtain w u where w: "map_of (lru_abs c) k = Some (w, u)"
    using True by (metis (no_types, lifting) map_of_eq_None_iff list.set_map not_None_eq surj_pair)
  have "lru_abs c1 = (k, w, t) # without k (lru_abs c)" "a = Value (Some w)"
    using c1(4) by (simp_all add: w)
  then have keys: "map fst (lru_abs c1) = k # removeAll k (map fst (lru_abs c))" "a = Value (Some w)"
    by (simp_all add: map_fst_without)
  have "length (map fst (lru_abs c)) \<le> nat (lru_capacity c)"
    using inv by (simp add: lru_inv_def lru_abs_keys(2) le_nat_iff)
  then have "length (removeAll k (map fst (lru_abs c))) < nat (lru_capacity c)"
    using length_removeAll_mem [OF True] by linarith
  then have "map fst (lru_abs c1) = touch_key (nat (lru_capacity c)) k (map fst (lru_abs c))"
    by (simp add: touch_key_def keys(1))
  moreover have "lru_get k t c = Some (Some w, c1)"
    using c1(1) keys(2) by (auto simp: map_option_case split: option.splits)
  ultimately show ?thesis
    using c1(2,3) True by (simp add: cached_read_def)
next
  case False
  obtain a c1 where c1: "lru_step (Lru_put k v t) c = Some (a, c1)" "lru_inv c1" "lru_capacity c1 = lru_capacity c"
      "recency_step (nat (lru_capacity c)) (Lru_put k v t) (lru_abs c) = (a, lru_abs c1)"
    using lru_sim_put [OF inv, of k v t] by (auto simp: lru_sim_def)
  have "lru_abs c1 = take (nat (lru_capacity c)) ((k, v, t) # without k (lru_abs c))"
    using c1(4) by simp
  then have "map fst (lru_abs c1) = touch_key (nat (lru_capacity c)) k (map fst (lru_abs c))"
    by (simp only: touch_key_def take_map [symmetric] list.map map_fst_without fst_conv)
  moreover have "lru_get k t c = Some (None, c)"
    using False lru_cached_iff [OF inv, of k] by (simp add: lru_get_def lru_abs_keys(2))
  ultimately show ?thesis
    using c1(1-3) False by (simp add: cached_read_def)
qed

interpretation lru: recency_cache lru_inv "\<lambda>c. nat (lru_capacity c)" "\<lambda>c. map fst (lru_abs c)" "cached_read v t" for v t
  by unfold_locales (rule lru_read_ok)

lemma tlb_run_use_keys: "tlb_run ps t = tlb.use_keys ps t"
  by (induction ps arbitrary: t) (simp_all cong: option.case_cong)

lemma tlb_inv_new: "0 < n \<Longrightarrow> tlb_inv (new_TLBCache n) \<and> tlb_keys (new_TLBCache n) = []"
  by (simp add: tlb_inv_def new_TLBCache_def tlb_keys_def)

text \<open>
  C30: A translation buffer hits exactly on short reuse distances. Whatever pages have been walked
  since it was empty, the next walk of a page hits if and only if the page has been walked before
  and fewer distinct pages than the capacity have been walked since its last walk.
\<close>

theorem tlb_hits_by_reuse_distance:
  assumes "0 < capacity"
  shows "\<exists>hs hit t. tlb_run (ps @ [p]) (new_TLBCache capacity) = Some (hs @ [hit], t) \<and> length hs = length ps
          \<and> (hit \<longleftrightarrow> (\<exists>us vs. ps = us @ p # vs \<and> p \<notin> set vs \<and> card (set vs) < unat capacity))"
proof -
  let ?t = "new_TLBCache capacity"
  have t: "tlb_inv ?t" "tlb_keys ?t = take (unat (tlb_capacity ?t)) (tlb.recent [])" "tlb_capacity ?t = capacity"
    using tlb_inv_new [OF assms] by (simp_all add: tlb.recent_def new_TLBCache_def)
  obtain hs t' where run: "tlb_run (ps @ [p]) ?t = Some (hs, t')" "length hs = Suc (length ps)"
      "hs ! length ps \<longleftrightarrow> p \<in> set (take (unat capacity) (tlb.recent ps))"
    using tlb.use_keys_recent [OF t(1,2), of "ps @ [p]"] by (auto simp: t(3) tlb_run_use_keys)
  have "p \<in> set (take (unat capacity) (tlb.recent ps))
      \<longleftrightarrow> (\<exists>us vs. ps = us @ p # vs \<and> p \<notin> set vs \<and> card (set vs) < unat capacity)"
  proof
    assume p: "p \<in> set (take (unat capacity) (tlb.recent ps))"
    then have "p \<in> set ps"
      using tlb.set_recent [of ps] by (auto dest: in_set_takeD)
    then obtain us vs where ps: "ps = us @ p # vs" "p \<notin> set vs"
      by (metis split_list_last)
    then show "\<exists>us vs. ps = us @ p # vs \<and> p \<notin> set vs \<and> card (set vs) < unat capacity"
      using p tlb.recent_position [OF ps(2)] by blast
  qed (use tlb.recent_position in blast)
  moreover have "hs = take (length ps) hs @ [hs ! length ps]"
    using run(2) by (metis lessI take_Suc_conv_app_nth take_all order_refl)
  ultimately show ?thesis
    using run by (intro exI [of _ "take (length ps) hs"] exI [of _ "hs ! length ps"] exI [of _ "t'"]) simp
qed

theorem tlb_hits_by_reuse_distance_witness:
  "\<exists>hs hit t. tlb_run ([0x1000, 0x2000, 0x3000] @ [0x1000]) (new_TLBCache 2) = Some (hs @ [hit], t) \<and> length hs = 3 \<and> \<not> hit"
proof -
  let ?ps = "[0x1000, 0x2000, 0x3000] :: u64 list"
  obtain hs hit t where run: "tlb_run (?ps @ [0x1000]) (new_TLBCache 2) = Some (hs @ [hit], t)" "length hs = length ?ps"
      "hit \<longleftrightarrow> (\<exists>us vs. ?ps = us @ 0x1000 # vs \<and> 0x1000 \<notin> set vs \<and> card (set vs) < unat (2 :: u64))"
    using tlb_hits_by_reuse_distance [of 2 ?ps "0x1000"] by (auto simp del: tlb_run.simps append.simps)
  have "\<not> hit"
    using run(3) by (auto simp: Cons_eq_append_conv)
  then show ?thesis
    using run(1,2) by auto
qed

end
