(* ===== verification/Controller_State.thy ===== *)
theory Controller_State
  imports CXL_Switch LRU_Cache HDM_Decoder MHSLD GFAM
begin

text \<open>
  The state of \<open>CXLController\<close> (src/include/cxlcontroller.h) and the small operations on it that
  policies and controller share. The controller is the root switch of the topology; the switch part
  of its state is \<open>ct_tree\<close>, and the expanders, coherency engines and the LogP model are in the
  store \<open>ct_fabric\<close>. The four policies are objects of their own and appear in the theory of the
  controller.

  \<open>occupation\<close> is a \<open>std::map\<close> from timestamps: an association list sorted by its distinct keys,
  into which \<open>emplace\<close> inserts only when the key is new. The pointers in \<open>cur_expanders\<close> come from
  \<open>new\<close> and are never null. The GFAM device holds a pointer to the capacity device it was created
  with; \<open>ct_gfam_stale\<close> says that this one has been replaced and freed since.
\<close>

datatype page_type = CACHELINE | PAGE | HUGEPAGE_2M | HUGEPAGE_1G

record CXLCounter =
  cc_local :: u64
  cc_remote :: u64
  cc_hitm :: u64
  cc_backinv :: u64

record lbr =
  lbr_from :: u64
  lbr_to :: u64
  lbr_flags :: u64

record thread_info =
  ti_rob :: rob_info
  ti_llcm_type :: "int list"
  ti_llcm_type_rob :: "int list"

definition new_thread_info :: thread_info where
  "new_thread_info = \<lparr>ti_rob = \<lparr>rob_m_count = Map.empty, rob_llcm_base = 0, rob_llcm_count = 0, rob_ins_count = 0\<rparr>,
     ti_llcm_type = [], ti_llcm_type_rob = []\<rparr>"

record CXLController =
  ct_tree :: CXLSwitch
  ct_fabric :: fabric
  ct_cur_expanders :: "eptr list"
  ct_capacity :: int
  ct_counter :: CXLCounter
  ct_occupation :: "(u64 \<times> occupation_info) list"
  ct_page_type :: page_type
  ct_num_switches :: int
  ct_num_end_points :: int
  ct_last_index :: int
  ct_latency_lat :: double
  ct_bandwidth_lat :: double
  ct_dramlatency :: double
  ct_device_map :: "int \<rightharpoonup> eptr"
  ct_ring_buffer :: "lbr list"
  ct_thread_map :: "u64 \<rightharpoonup> thread_info"
  ct_lru_cache :: LRUCache
  ct_mhsld_device :: "MHSLDDevice option"
  ct_dcd_device :: "DynamicCapacityDevice option"
  ct_gfam_device :: "GFAMDevice option"
  ct_gfam_stale :: bool
  ct_local_node_id :: u32
  ct_hdm_decoder :: "HDMDecoder option"
  ct_coherency :: "nat option"
  ct_next_engine :: nat
  ct_remote_expanders :: "eptr list"
  ct_request_counter :: int

abbreviation ct_last_timestamp :: "CXLController \<Rightarrow> u64" where
  "ct_last_timestamp c \<equiv> sw_last_timestamp (sw_data (ct_tree c))"

abbreviation ct_heap :: "CXLController \<Rightarrow> endpoint list" where
  "ct_heap c \<equiv> fa_heap (ct_fabric c)"

abbreviation ct_exp :: "CXLController \<Rightarrow> eptr \<Rightarrow> CXLMemExpander" where
  "ct_exp c p \<equiv> ep_exp (ct_heap c ! p)"

definition new_CXLController :: "int \<Rightarrow> page_type \<Rightarrow> double \<Rightarrow> CXLController" where
  "new_CXLController capacity pt dram =
     \<lparr>ct_tree = new_CXLSwitch 0,
      ct_fabric = \<lparr>fa_heap = [], fa_engines = Map.empty, fa_logp = new_LogPModel default_LogPConfig\<rparr>,
      ct_cur_expanders = [], ct_capacity = capacity,
      ct_counter = \<lparr>cc_local = 0, cc_remote = 0, cc_hitm = 0, cc_backinv = 0\<rparr>, ct_occupation = [],
      ct_page_type = pt, ct_num_switches = 0, ct_num_end_points = 0, ct_last_index = 0, ct_latency_lat = 0,
      ct_bandwidth_lat = 0, ct_dramlatency = dram, ct_device_map = Map.empty, ct_ring_buffer = [],
      ct_thread_map = Map.empty, ct_lru_cache = new_LRUCache (32 * 1024 * 1024 div 64), ct_mhsld_device = None,
      ct_dcd_device = None, ct_gfam_device = None, ct_gfam_stale = False, ct_local_node_id = 0, ct_hdm_decoder = None, ct_coherency = None,
      ct_next_engine = 0, ct_remote_expanders = [], ct_request_counter = 0\<rparr>"

definition occ_emplace :: "u64 \<Rightarrow> occupation_info \<Rightarrow> (u64 \<times> occupation_info) list \<Rightarrow> (u64 \<times> occupation_info) list" where
  "occ_emplace k v occ = (if k \<in> fst ` set occ then occ else insort_key fst (k, v) occ)"

text \<open>The \<open>switch\<close> over \<open>page_type_\<close> at the head of most policies.\<close>

fun per_size :: "page_type \<Rightarrow> int" where
  "per_size CACHELINE = 64"
| "per_size PAGE = 4096"
| "per_size HUGEPAGE_2M = 2 * 1024 * 1024"
| "per_size HUGEPAGE_1G = 1024 * 1024 * 1024"

text \<open>\<open>n * per_size / 1024 / 1024\<close>, in \<open>size_t\<close>.\<close>

definition used_mb :: "page_type \<Rightarrow> nat \<Rightarrow> u64" where
  "used_mb pt n = of_nat n * word_of_int (per_size pt) div 1024 div 1024"

definition has_room :: "page_type \<Rightarrow> CXLMemExpander \<Rightarrow> bool" where
  "has_room pt x \<longleftrightarrow> used_mb pt (length (ex_occupation x)) < ex_capacity x"

definition local_room :: "CXLController \<Rightarrow> bool" where
  "local_room c \<longleftrightarrow> double_of_u64 (used_mb (ct_page_type c) (length (ct_occupation c))) < real_of_int (ct_capacity c) * (9/10)"

end
