(* ===== verification/Policies.thy ===== *)
theory Policies
  imports Controller_State
begin

text \<open>
  The placement, migration, paging and caching policies of src/include/policy.h and
  src/src/policy.cpp. A policy is a record of its own state; \<open>compute_once\<close> reads the controller
  and returns the decision and the new state, and where it writes to the controller it returns that
  too. A \<open>std::unordered_map\<close> is an association list with distinct keys, its order standing for the
  order of iteration, on which the code must not rely. \<open>operator[]\<close> on such a map creates an entry
  with value zero.

  Shown: the interleaving policy gives every expander exactly its share of turns, and it returns if
  and only if some expander with a share has room; the NUMA policy picks the best score among the
  expanders with room.
\<close>


section \<open>Allocation: InterleavePolicy and NUMAPolicy\<close>

record InterleavePolicy =
  ip_last_remote :: int
  ip_all_size :: int
  ip_percentage :: "int list"

definition new_InterleavePolicy :: InterleavePolicy where
  "new_InterleavePolicy = \<lparr>ip_last_remote = 0, ip_all_size = 0, ip_percentage = []\<rparr>"

text \<open>\<open>int(...)\<close> of a \<open>double\<close> drops the fraction.\<close>

definition trunc_int :: "double \<Rightarrow> int" where
  "trunc_int r = (if 0 \<le> r then \<lfloor>r\<rfloor> else \<lceil>r\<rceil>)"

definition write_shares :: "CXLMemExpander list \<Rightarrow> int list" where
  "write_shares xs = (let to_store = map (\<lambda>x. 1 / ex_latency_write x) xs in
     map (\<lambda>i. trunc_int (i / sum_list to_store * 10)) to_store)"

text \<open>The loop that turns a ticket into an index; the vector ends before only if the shares are wrong.\<close>

fun pick :: "int list \<Rightarrow> int \<Rightarrow> int \<Rightarrow> nat \<Rightarrow> nat option" where
  "pick [] ticket below i = None"
| "pick (p # ps) ticket below i = (if ticket < below + p then Some i else pick ps ticket (below + p) (Suc i))"

text \<open>The code from the label \<open>next\<close>, with \<open>goto next\<close> when the chosen expander is full.\<close>

partial_function (option) interleave_next :: "int list \<Rightarrow> int \<Rightarrow> (nat \<Rightarrow> bool) \<Rightarrow> int \<Rightarrow> (int \<times> int) option" where
  "interleave_next ps all_size room last_remote =
     (if all_size = 0 then Some (- 1, last_remote)
      else
        let ticket = (last_remote + 1) mod all_size in
        case pick ps ticket 0 0 of
          None \<Rightarrow> None
        | Some i \<Rightarrow> if room i then Some (int i, ticket) else interleave_next ps all_size room ticket)"

definition ip_prepare :: "CXLController \<Rightarrow> InterleavePolicy \<Rightarrow> InterleavePolicy" where
  "ip_prepare c p =
     (if ip_percentage p = []
      then let shares = write_shares (map (ct_exp c) (ct_cur_expanders c)) in
           p\<lparr>ip_percentage := shares, ip_all_size := sum_list shares\<rparr>
      else p)"

definition ip_compute_once :: "CXLController \<Rightarrow> InterleavePolicy \<Rightarrow> (int \<times> InterleavePolicy) option" where
  "ip_compute_once c p =
     (if local_room c then Some (- 1, p)
      else
        let p1 = ip_prepare c p in
        map_option (\<lambda>(r, ticket). (r, p1\<lparr>ip_last_remote := ticket\<rparr>))
          (interleave_next (ip_percentage p1) (ip_all_size p1)
             (\<lambda>i. has_room (ct_page_type c) (ct_exp c (ct_cur_expanders c ! i))) (ip_last_remote p1)))"

record NUMAPolicy =
  np_latency_scores :: "double list"

definition latency_score :: "CXLMemExpander \<Rightarrow> double" where
  "latency_score x = 1 / (7/10 * ex_latency_read x + 3/10 * ex_latency_write x)"

definition numa_score :: "page_type \<Rightarrow> double \<Rightarrow> CXLMemExpander \<Rightarrow> double" where
  "numa_score pt s x = s * (1 - double_of_u64 (of_nat (length (ex_occupation x)) * word_of_int (per_size pt))
                              / double_of_u64 (ex_capacity x * 1024 * 1024))"

fun numa_loop :: "page_type \<Rightarrow> nat \<Rightarrow> double list \<Rightarrow> CXLMemExpander list \<Rightarrow> int \<Rightarrow> double \<Rightarrow> int" where
  "numa_loop pt i scores [] best_node best_score = best_node"
| "numa_loop pt i scores (x # xs) best_node best_score =
     (if \<not> has_room pt x then numa_loop pt (Suc i) scores xs best_node best_score
      else
        let current_score = numa_score pt (scores ! i) x in
        if best_score < current_score then numa_loop pt (Suc i) scores xs (int i) current_score
        else numa_loop pt (Suc i) scores xs best_node best_score)"

definition first_room :: "page_type \<Rightarrow> CXLMemExpander list \<Rightarrow> int" where
  "first_room pt xs = (case find (\<lambda>i. has_room pt (xs ! i)) [0..<length xs] of None \<Rightarrow> - 1 | Some i \<Rightarrow> int i)"

definition np_compute_once :: "CXLController \<Rightarrow> NUMAPolicy \<Rightarrow> int \<times> NUMAPolicy" where
  "np_compute_once c p =
     (if local_room c then (- 1, p)
      else
        let xs = map (ct_exp c) (ct_cur_expanders c);
            scores = (if np_latency_scores p = [] then map latency_score xs else np_latency_scores p);
            best = numa_loop (ct_page_type c) 0 scores xs (- 1) (- 1) in
        (if best = - 1 then first_room (ct_page_type c) xs else best, p\<lparr>np_latency_scores := scores\<rparr>))"

datatype AllocationPolicy = Allocation_base | Interleave InterleavePolicy | NUMA NUMAPolicy

fun alloc_compute_once :: "CXLController \<Rightarrow> AllocationPolicy \<Rightarrow> (int \<times> AllocationPolicy) option" where
  "alloc_compute_once c Allocation_base = Some (0, Allocation_base)"
| "alloc_compute_once c (Interleave p) = map_option (\<lambda>(r, p1). (r, Interleave p1)) (ip_compute_once c p)"
| "alloc_compute_once c (NUMA p) = (let (r, p1) = np_compute_once c p in Some (r, NUMA p1))"


section \<open>Migration\<close>

type_synonym counts = "(u64 \<times> u64) list"
type_synonym migrations = "(u64 \<times> u64) list"

definition count_of :: "u64 \<Rightarrow> counts \<Rightarrow> u64" where
  "count_of a m = (case map_of m a of None \<Rightarrow> 0 | Some n \<Rightarrow> n)"

definition count_inc :: "u64 \<Rightarrow> counts \<Rightarrow> counts" where
  "count_inc a m = AList.update a (count_of a m + 1) m"

text \<open>Reading through \<open>operator[]\<close> leaves an entry behind.\<close>

definition count_touch :: "u64 \<Rightarrow> counts \<Rightarrow> counts" where
  "count_touch a m = (if map_of m a = None then AList.update a 0 m else m)"

definition local_addresses :: "CXLController \<Rightarrow> u64 list" where
  "local_addresses c = map (occ_address \<circ> snd) (ct_occupation c)"

definition migration_size :: "CXLController \<Rightarrow> u64" where
  "migration_size c = word_of_int (per_size (ct_page_type c))"

record HeatAwareMigrationPolicy =
  ha_access_count :: counts
  ha_hot_threshold :: u64

definition ha_get_migration_list :: "CXLController \<Rightarrow> HeatAwareMigrationPolicy \<Rightarrow> migrations" where
  "ha_get_migration_list c p =
     map (\<lambda>(a, n). (a, migration_size c)) (filter (\<lambda>(a, n). ha_hot_threshold p < n) (ha_access_count p))"

definition ha_compute_once :: "CXLController \<Rightarrow> HeatAwareMigrationPolicy \<Rightarrow> int \<times> HeatAwareMigrationPolicy" where
  "ha_compute_once c p =
     (let p1 = p\<lparr>ha_access_count := fold count_inc (local_addresses c) (ha_access_count p)\<rparr> in
      (if ha_get_migration_list c p1 = [] then 0 else 1, p1))"

record FrequencyBasedMigrationPolicy =
  fm_access_count :: counts
  fm_hot_threshold :: u64
  fm_cold_threshold :: u64
  fm_last_cleanup :: u64
  fm_cleanup_interval :: u64

fun select_counted :: "(u64 \<Rightarrow> bool) \<Rightarrow> u64 list \<Rightarrow> counts \<Rightarrow> u64 list \<times> counts" where
  "select_counted P [] m = ([], m)"
| "select_counted P (a # as) m =
     (let (bs, m1) = select_counted P as (count_touch a m) in (if P (count_of a m) then a # bs else bs, m1))"

text \<open>
  The expanders of the controller, and then those of the whole tree, whose root is the controller:
  the expanders of the root come twice.
\<close>

definition visited_expanders :: "CXLController \<Rightarrow> eptr list" where
  "visited_expanders c = sw_expanders (ct_tree c) @ sw_endpoints (ct_tree c)"

definition fm_get_migration_list ::
  "CXLController \<Rightarrow> FrequencyBasedMigrationPolicy \<Rightarrow> migrations \<times> FrequencyBasedMigrationPolicy" where
  "fm_get_migration_list c p =
     (let (cold, m1) = select_counted (\<lambda>n. n < fm_cold_threshold p) (local_addresses c) (fm_access_count p);
          held = concat (map (\<lambda>q. map occ_address (ex_occupation (ct_exp c q))) (visited_expanders c));
          (hot, m2) = select_counted (\<lambda>n. fm_hot_threshold p < n) held m1 in
      (map (\<lambda>a. (a, migration_size c)) (cold @ hot), p\<lparr>fm_access_count := m2\<rparr>))"

definition fm_compute_once :: "CXLController \<Rightarrow> FrequencyBasedMigrationPolicy \<Rightarrow> int \<times> FrequencyBasedMigrationPolicy" where
  "fm_compute_once c p =
     (let p1 = p\<lparr>fm_access_count := fold count_inc (local_addresses c) (fm_access_count p)\<rparr>;
          p2 = (if fm_cleanup_interval p1 < ct_last_timestamp c - fm_last_cleanup p1
                then p1\<lparr>fm_access_count := [], fm_last_cleanup := ct_last_timestamp c\<rparr> else p1);
          (ms, p3) = fm_get_migration_list c p2 in
      (if ms = [] then 0 else 1, p3))"

record LoadBalancingMigrationPolicy =
  lb_imbalance_threshold :: double
  lb_migration_interval :: u64
  lb_last_migration :: u64

definition expander_loads :: "CXLController \<Rightarrow> (eptr \<times> u64) list" where
  "expander_loads c =
     map (\<lambda>q. (q, ev_load (ex_counter (ct_exp c q)) + ev_store (ex_counter (ct_exp c q)))) (visited_expanders c)"

text \<open>\<open>std::max_element\<close> returns the first of the largest.\<close>

fun max_load :: "(eptr \<times> u64) \<Rightarrow> (eptr \<times> u64) list \<Rightarrow> eptr \<times> u64" where
  "max_load best [] = best"
| "max_load best (x # xs) = max_load (if snd best < snd x then x else best) xs"

definition lb_compute_once :: "CXLController \<Rightarrow> LoadBalancingMigrationPolicy \<Rightarrow> int \<times> LoadBalancingMigrationPolicy" where
  "lb_compute_once c p =
     (if ct_last_timestamp c - lb_last_migration p < lb_migration_interval p then (0, p)
      else case expander_loads c of
        [] \<Rightarrow> (0, p)
      | l # ls \<Rightarrow>
          let highest = snd (max_load l ls); lowest = fold (\<lambda>x m. min m (snd x)) ls (snd l) in
          if 0 < highest \<and> lb_imbalance_threshold p < double_of_u64 (highest - lowest) / double_of_u64 highest
          then (1, p\<lparr>lb_last_migration := ct_last_timestamp c\<rparr>) else (0, p))"

definition lb_get_migration_list :: "CXLController \<Rightarrow> migrations" where
  "lb_get_migration_list c = (case expander_loads c of
       [] \<Rightarrow> []
     | l # ls \<Rightarrow> map (\<lambda>occ. (occ_address occ, migration_size c)) (take 5 (ex_occupation (ct_exp c (fst (max_load l ls))))))"

record LocalityBasedMigrationPolicy =
  lo_page_access_pattern :: "(u64 \<times> u64 list) list"
  lo_pattern_threshold :: u64
  lo_page_size :: u64

definition page_of :: "LocalityBasedMigrationPolicy \<Rightarrow> u64 \<Rightarrow> u64" where
  "page_of p addr = addr AND NOT (lo_page_size p - 1)"

definition lo_record_access :: "u64 \<Rightarrow> LocalityBasedMigrationPolicy \<Rightarrow> LocalityBasedMigrationPolicy" where
  "lo_record_access addr p =
     (let pg = page_of p addr;
          l = (case map_of (lo_page_access_pattern p) pg of None \<Rightarrow> [] | Some l \<Rightarrow> l) @ [addr] in
      p\<lparr>lo_page_access_pattern := AList.update pg (if 100 < length l then tl l else l) (lo_page_access_pattern p)\<rparr>)"

definition has_locality_pattern :: "LocalityBasedMigrationPolicy \<Rightarrow> u64 list \<Rightarrow> bool" where
  "has_locality_pattern p l \<longleftrightarrow> list_ex (\<lambda>a. lo_pattern_threshold p \<le> of_nat (count_list l a)) l"

definition lo_get_migration_list :: "CXLController \<Rightarrow> LocalityBasedMigrationPolicy \<Rightarrow> migrations" where
  "lo_get_migration_list c p =
     map (\<lambda>(pg, l). (pg, lo_page_size p))
       (filter (\<lambda>(pg, l). has_locality_pattern p l \<and> \<not> list_ex (\<lambda>a. page_of p a = pg) (local_addresses c))
          (lo_page_access_pattern p))"

definition lo_compute_once :: "CXLController \<Rightarrow> LocalityBasedMigrationPolicy \<Rightarrow> int \<times> LocalityBasedMigrationPolicy" where
  "lo_compute_once c p =
     (let p1 = fold lo_record_access (local_addresses c) p in (if lo_get_migration_list c p1 = [] then 0 else 1, p1))"

definition lt_get_migration_list :: "CXLController \<Rightarrow> u64 \<Rightarrow> migrations" where
  "lt_get_migration_list c lifetime_threshold =
     map (\<lambda>(ts, info). (occ_address info, migration_size c))
       (filter (\<lambda>(ts, info). lifetime_threshold < ct_last_timestamp c - ts) (ct_occupation c))"

text \<open>
  \<open>MigrationPolicy::get_migration_list\<close> is not virtual: a call through a pointer to the base class
  runs the base version, which returns the empty list.
\<close>

datatype MigrationPolicy =
    Migration_base
  | HeatAware HeatAwareMigrationPolicy
  | FrequencyBased FrequencyBasedMigrationPolicy
  | LoadBalancing LoadBalancingMigrationPolicy
  | LocalityBased LocalityBasedMigrationPolicy
  | LifetimeBased u64
  | Hybrid "MigrationPolicy list"

definition base_get_migration_list :: "CXLController \<Rightarrow> MigrationPolicy \<Rightarrow> migrations" where
  "base_get_migration_list c p = []"

definition hybrid_get_migration_list :: "CXLController \<Rightarrow> MigrationPolicy list \<Rightarrow> migrations" where
  "hybrid_get_migration_list c ps = remdups_adj (sort_key fst (sort_key snd (concat (map (base_get_migration_list c) ps))))"

fun mig_compute_once :: "CXLController \<Rightarrow> MigrationPolicy \<Rightarrow> int \<times> MigrationPolicy"
  and migs_compute_once :: "CXLController \<Rightarrow> MigrationPolicy list \<Rightarrow> int \<times> MigrationPolicy list" where
  "mig_compute_once c Migration_base = (if base_get_migration_list c Migration_base = [] then 0 else 1, Migration_base)"
| "mig_compute_once c (HeatAware p) = (let (r, p1) = ha_compute_once c p in (r, HeatAware p1))"
| "mig_compute_once c (FrequencyBased p) = (let (r, p1) = fm_compute_once c p in (r, FrequencyBased p1))"
| "mig_compute_once c (LoadBalancing p) = (let (r, p1) = lb_compute_once c p in (r, LoadBalancing p1))"
| "mig_compute_once c (LocalityBased p) = (let (r, p1) = lo_compute_once c p in (r, LocalityBased p1))"
| "mig_compute_once c (LifetimeBased n) = (if lt_get_migration_list c n = [] then 0 else 1, LifetimeBased n)"
| "mig_compute_once c (Hybrid ps) = (let (r, ps1) = migs_compute_once c ps in (r, Hybrid ps1))"
| "migs_compute_once c [] = (0, [])"
| "migs_compute_once c (p # ps) =
     (let (r, p1) = mig_compute_once c p; (s, ps1) = migs_compute_once c ps in (or r s, p1 # ps1))"


section \<open>Paging\<close>

record CXLHugePageEvent =
  tlb_hits_4k :: u64
  tlb_misses_4k :: u64
  tlb_hits_2m :: u64
  tlb_misses_2m :: u64
  tlb_hits_1g :: u64
  tlb_misses_1g :: u64
  ptw_count :: u64

record HugePagePolicy =
  hp_latency_local :: u64
  hp_latency_remote :: u64
  hp_va_pa_cache :: "(u64 \<times> u64) list"
  hp_tlb_4k :: TLBCache
  hp_tlb_2m :: TLBCache
  hp_tlb_1g :: TLBCache
  hp_stats :: CXLHugePageEvent

definition new_HugePagePolicy :: "u64 \<Rightarrow> u64 \<Rightarrow> HugePagePolicy" where
  "new_HugePagePolicy local_latency remote_latency =
     \<lparr>hp_latency_local = local_latency, hp_latency_remote = remote_latency, hp_va_pa_cache = [],
      hp_tlb_4k = new_TLBCache 64, hp_tlb_2m = new_TLBCache 32, hp_tlb_1g = new_TLBCache 4,
      hp_stats = \<lparr>tlb_hits_4k = 0, tlb_misses_4k = 0, tlb_hits_2m = 0, tlb_misses_2m = 0,
                  tlb_hits_1g = 0, tlb_misses_1g = 0, ptw_count = 0\<rparr>\<rparr>"

definition page_base :: "nat \<Rightarrow> u64 \<Rightarrow> u64" where
  "page_base bits addr = addr AND NOT (push_bit bits 1 - 1)"

text \<open>The three-way \<open>switch\<close>es over the page size: address mask, buffer, share of the walk, counter.\<close>

fun page_bits :: "page_type \<Rightarrow> nat" where
  "page_bits HUGEPAGE_2M = 21"
| "page_bits HUGEPAGE_1G = 30"
| "page_bits _ = 12"

fun ptw_reduction :: "page_type \<Rightarrow> double" where
  "ptw_reduction HUGEPAGE_2M = 3/4"
| "ptw_reduction HUGEPAGE_1G = 1/2"
| "ptw_reduction _ = 1"

fun hp_tlb :: "page_type \<Rightarrow> HugePagePolicy \<Rightarrow> TLBCache" where
  "hp_tlb HUGEPAGE_2M p = hp_tlb_2m p"
| "hp_tlb HUGEPAGE_1G p = hp_tlb_1g p"
| "hp_tlb _ p = hp_tlb_4k p"

fun hp_set_tlb :: "page_type \<Rightarrow> TLBCache \<Rightarrow> HugePagePolicy \<Rightarrow> HugePagePolicy" where
  "hp_set_tlb HUGEPAGE_2M t p = p\<lparr>hp_tlb_2m := t\<rparr>"
| "hp_set_tlb HUGEPAGE_1G t p = p\<lparr>hp_tlb_1g := t\<rparr>"
| "hp_set_tlb _ t p = p\<lparr>hp_tlb_4k := t\<rparr>"

fun count_tlb :: "page_type \<Rightarrow> bool \<Rightarrow> CXLHugePageEvent \<Rightarrow> CXLHugePageEvent" where
  "count_tlb HUGEPAGE_2M hit e = (if hit then e\<lparr>tlb_hits_2m := tlb_hits_2m e + 1\<rparr> else e\<lparr>tlb_misses_2m := tlb_misses_2m e + 1\<rparr>)"
| "count_tlb HUGEPAGE_1G hit e = (if hit then e\<lparr>tlb_hits_1g := tlb_hits_1g e + 1\<rparr> else e\<lparr>tlb_misses_1g := tlb_misses_1g e + 1\<rparr>)"
| "count_tlb _ hit e = (if hit then e\<lparr>tlb_hits_4k := tlb_hits_4k e + 1\<rparr> else e\<lparr>tlb_misses_4k := tlb_misses_4k e + 1\<rparr>)"

definition hp_check_page_table_walk ::
  "u64 \<Rightarrow> u64 \<Rightarrow> bool \<Rightarrow> page_type \<Rightarrow> HugePagePolicy \<Rightarrow> (u64 \<times> HugePagePolicy) option" where
  "hp_check_page_table_walk virt_addr phys_addr is_remote pt p =
     (let base_latency = double_of_u64 (if is_remote then hp_latency_remote p else hp_latency_local p);
          pg = page_base (page_bits pt) virt_addr in
      Option.bind (tlb_lookup pg (hp_tlb pt p)) (\<lambda>(hit, t1).
        let p1 = (hp_set_tlb pt t1 p)\<lparr>hp_stats := count_tlb pt hit (hp_stats p)\<rparr> in
        if hit then Some (0, p1)
        else if map_of (hp_va_pa_cache p1) virt_addr \<noteq> None then
          map_option (\<lambda>t2. (u64_of_double (base_latency * (2/10) * ptw_reduction pt), hp_set_tlb pt t2 p1)) (tlb_insert pg t1)
        else
          map_option (\<lambda>t2. (u64_of_double (base_latency * ptw_reduction pt),
              (hp_set_tlb pt t2 p1)\<lparr>hp_stats := (hp_stats p1)\<lparr>ptw_count := ptw_count (hp_stats p1) + 1\<rparr>,
                                     hp_va_pa_cache := AList.update virt_addr phys_addr (hp_va_pa_cache p1)\<rparr>))
            (tlb_insert pg t1)))"

text \<open>Pages in use by region of two megabytes, in the order the regions first appear.\<close>

definition regions_2m :: "CXLController \<Rightarrow> u64 list" where
  "regions_2m c = remdups (map (page_base 21) (local_addresses c))"

definition region_addresses :: "CXLController \<Rightarrow> u64 \<Rightarrow> u64 list" where
  "region_addresses c r = filter (\<lambda>a. page_base 21 a = r) (local_addresses c)"

definition hp_compute_once :: "CXLController \<Rightarrow> int \<times> CXLController" where
  "hp_compute_once c =
     (let potential = length (filter (\<lambda>r. 64 < card (set (map (page_base 12) (region_addresses c r)))) (regions_2m c));
          gb_usage = (\<lambda>g. sum_list (map (\<lambda>r. length (region_addresses c r)) (filter (\<lambda>r. page_base 30 r = g) (regions_2m c)))) in
      if 3 < potential then (1, c\<lparr>ct_page_type := HUGEPAGE_2M\<rparr>)
      else if list_ex (\<lambda>g. 16384 < gb_usage g) (map (page_base 30) (regions_2m c)) then (2, c\<lparr>ct_page_type := HUGEPAGE_1G\<rparr>)
      else (0, c))"

definition hit_rate :: "u64 \<Rightarrow> u64 \<Rightarrow> double" where
  "hit_rate hits misses =
     (if 0 < hits + misses then double_of_u64 hits / double_of_u64 (hits + misses) else 0)"

definition hp_get_stats :: "HugePagePolicy \<Rightarrow> double \<times> double \<times> double \<times> u64" where
  "hp_get_stats p = (let e = hp_stats p in
     (hit_rate (tlb_hits_4k e) (tlb_misses_4k e), hit_rate (tlb_hits_2m e) (tlb_misses_2m e),
      hit_rate (tlb_hits_1g e) (tlb_misses_1g e), ptw_count e))"

record CXLPageTableEvent =
  pt_hit :: u64
  pt_miss :: u64
  pt_total :: u64

record PageTableAwarePolicy =
  pa_va_pa_cache :: "(u64 \<times> u64) list"
  pa_latency_local :: u64
  pa_latency_remote :: u64
  pa_cache_stats :: CXLPageTableEvent
  pa_last_cleanup :: u64
  pa_cleanup_interval :: u64

definition pa_hit_rate :: "PageTableAwarePolicy \<Rightarrow> double" where
  "pa_hit_rate p = (let e = pa_cache_stats p in
     if 0 < pt_total e then double_of_u64 (pt_hit e) / double_of_u64 (pt_total e) else 0)"

text \<open>\<open>std::shuffle\<close> gives some order of the keys, the argument \<open>keys\<close>.\<close>

definition pa_compute_once :: "u64 list \<Rightarrow> CXLController \<Rightarrow> PageTableAwarePolicy \<Rightarrow> int \<times> PageTableAwarePolicy" where
  "pa_compute_once keys c p =
     (if pa_cleanup_interval p < ct_last_timestamp c - pa_last_cleanup p
      then (1, p\<lparr>pa_va_pa_cache := [], pa_last_cleanup := ct_last_timestamp c\<rparr>)
      else if pa_hit_rate p < 7/10 \<and> length (pa_va_pa_cache p) < 10000 then (0, p)
      else if 9/10 < pa_hit_rate p \<and> 1000 < length (pa_va_pa_cache p)
      then (2, p\<lparr>pa_va_pa_cache := fold AList.delete (take (length (pa_va_pa_cache p) div 10) keys) (pa_va_pa_cache p)\<rparr>)
      else (0, p))"

definition pa_check_page_table_walk ::
  "u64 \<Rightarrow> u64 \<Rightarrow> bool \<Rightarrow> PageTableAwarePolicy \<Rightarrow> u64 \<times> PageTableAwarePolicy" where
  "pa_check_page_table_walk virt_addr phys_addr is_remote p =
     (let e = (pa_cache_stats p)\<lparr>pt_total := pt_total (pa_cache_stats p) + 1\<rparr> in
      if map_of (pa_va_pa_cache p) virt_addr \<noteq> None
      then (0, p\<lparr>pa_cache_stats := e\<lparr>pt_hit := pt_hit e + 1\<rparr>\<rparr>)
      else (if is_remote then pa_latency_remote p else pa_latency_local p,
            p\<lparr>pa_cache_stats := e\<lparr>pt_miss := pt_miss e + 1\<rparr>,
              pa_va_pa_cache := AList.update virt_addr phys_addr (pa_va_pa_cache p)\<rparr>))"

definition pa_get_stats :: "PageTableAwarePolicy \<Rightarrow> u64 \<times> u64 \<times> double" where
  "pa_get_stats p = (pt_hit (pa_cache_stats p), pt_miss (pa_cache_stats p), pa_hit_rate p)"

datatype PagingPolicy = Paging_base | HugePage HugePagePolicy | PageTableAware PageTableAwarePolicy

fun check_page_table_walk :: "u64 \<Rightarrow> u64 \<Rightarrow> bool \<Rightarrow> page_type \<Rightarrow> PagingPolicy \<Rightarrow> (u64 \<times> PagingPolicy) option" where
  "check_page_table_walk virt phys is_remote pt Paging_base = Some (0, Paging_base)"
| "check_page_table_walk virt phys is_remote pt (HugePage p) =
     map_option (\<lambda>(n, p1). (n, HugePage p1)) (hp_check_page_table_walk virt phys is_remote pt p)"
| "check_page_table_walk virt phys is_remote pt (PageTableAware p) =
     (let (n, p1) = pa_check_page_table_walk virt phys is_remote p in Some (n, PageTableAware p1))"


section \<open>Caching\<close>

record FrequencyBasedInvalidationPolicy =
  fi_access_count :: counts
  fi_access_threshold :: u64
  fi_last_cleanup :: u64
  fi_cleanup_interval :: u64

datatype CachingPolicy = Caching_base | FIFO | FrequencyInvalidation FrequencyBasedInvalidationPolicy

text \<open>The oldest entry; address 0 stands for none.\<close>

definition oldest_entry :: "(u64 \<times> LRUCacheEntry) list \<Rightarrow> u64 \<times> u64" where
  "oldest_entry entries = fold (\<lambda>(a, e) (ts, best). if e_timestamp e < ts then (e_timestamp e, a) else (ts, best))
     entries (UINT64_MAX, 0)"

definition fifo_compute_once :: "CXLController \<Rightarrow> (int \<times> CXLController) option" where
  "fifo_compute_once c =
     (if word_of_int (ct_capacity c) \<le> lru_size (ct_lru_cache c) * word_of_int (per_size (ct_page_type c)) div 1024 div 1024 then
        let oldest = snd (oldest_entry (lru_cache (ct_lru_cache c))) in
        if oldest \<noteq> 0 then map_option (\<lambda>(b, l). (1, c\<lparr>ct_lru_cache := l\<rparr>)) (lru_remove oldest (ct_lru_cache c))
        else Some (0, c)
      else Some (0, c))"

definition fi_should_invalidate :: "u64 \<Rightarrow> FrequencyBasedInvalidationPolicy \<Rightarrow> bool" where
  "fi_should_invalidate addr p = (case map_of (fi_access_count p) addr of None \<Rightarrow> False | Some n \<Rightarrow> n < fi_access_threshold p)"

definition fi_get_invalidation_list ::
  "CXLController \<Rightarrow> FrequencyBasedInvalidationPolicy \<Rightarrow> u64 list \<times> FrequencyBasedInvalidationPolicy" where
  "fi_get_invalidation_list c p =
     (filter (\<lambda>a. fi_should_invalidate a p) (map fst (lru_cache (ct_lru_cache c))),
      if fi_cleanup_interval p < ct_last_timestamp c - fi_last_cleanup p
      then p\<lparr>fi_access_count := [], fi_last_cleanup := ct_last_timestamp c\<rparr> else p)"

fun should_cache :: "u64 \<Rightarrow> CachingPolicy \<Rightarrow> bool \<times> CachingPolicy" where
  "should_cache addr Caching_base = (True, Caching_base)"
| "should_cache addr FIFO = (False, FIFO)"
| "should_cache addr (FrequencyInvalidation p) =
     (True, FrequencyInvalidation (p\<lparr>fi_access_count := count_inc addr (fi_access_count p)\<rparr>))"

fun get_invalidation_list :: "CXLController \<Rightarrow> CachingPolicy \<Rightarrow> u64 list \<times> CachingPolicy" where
  "get_invalidation_list c Caching_base = ([], Caching_base)"
| "get_invalidation_list c FIFO = (local_addresses c, FIFO)"
| "get_invalidation_list c (FrequencyInvalidation p) =
     (let (as, p1) = fi_get_invalidation_list c p in (as, FrequencyInvalidation p1))"

fun cache_compute_once :: "CXLController \<Rightarrow> CachingPolicy \<Rightarrow> (int \<times> CXLController \<times> CachingPolicy) option" where
  "cache_compute_once c Caching_base = Some (0, c, Caching_base)"
| "cache_compute_once c FIFO = map_option (\<lambda>(r, c1). (r, c1, FIFO)) (fifo_compute_once c)"
| "cache_compute_once c (FrequencyInvalidation p) =
     (let (as, p1) = fi_get_invalidation_list c p in Some (if as \<noteq> [] then 1 else 0, c, FrequencyInvalidation p1))"



section \<open>Interleaving is fair and returns when it can\<close>

lemma pick_ge: "pick ps ticket below i = Some k \<Longrightarrow> i \<le> k"
  by (induction ps ticket below i rule: pick.induct) (auto split: if_splits)

lemma pick_Some:
  assumes "list_all (\<lambda>p. 0 \<le> p) ps" "below \<le> ticket"
  shows "pick ps ticket below i = Some (i + k) \<longleftrightarrow>
           k < length ps \<and> below + sum_list (take k ps) \<le> ticket \<and> ticket < below + sum_list (take (Suc k) ps)"
  using assms
proof (induction ps arbitrary: below i k)
  case (Cons p ps)
  have nn: "0 \<le> sum_list (take n ps)" for n
    using Cons.prems(1) by (auto intro!: sum_list_nonneg simp: list_all_iff dest: in_set_takeD)
  show ?case
  proof (cases k)
    case 0
    then show ?thesis
      using Cons.prems(2) pick_ge [of ps ticket "below + p" "Suc i" i] by auto
  next
    case (Suc m)
    show ?thesis
    proof (cases "ticket < below + p")
      case True
      then show ?thesis
        using Suc nn [of m] by simp
    next
      case False
      then show ?thesis
        using Suc Cons.IH [of "below + p" "Suc i" m] Cons.prems(1) by (simp add: add.assoc)
    qed
  qed
qed simp

lemma pick_tickets:
  assumes "list_all (\<lambda>p. 0 \<le> p) ps"
  shows "{t. 0 \<le> t \<and> t < sum_list ps \<and> pick ps t 0 0 = Some k}
       = (if k < length ps then {sum_list (take k ps) ..< sum_list (take k ps) + ps ! k} else {})"
proof -
  have nn: "0 \<le> sum_list (take n ps)" "0 \<le> sum_list (drop n ps)" for n
    using assms by (auto intro!: sum_list_nonneg simp: list_all_iff dest: in_set_takeD in_set_dropD)
  have "sum_list (take (Suc k) ps) \<le> sum_list ps"
    using nn(2) [of "Suc k"] by (metis append_take_drop_id le_add_same_cancel1 sum_list_append)
  then show ?thesis
    using pick_Some [OF assms, of 0 _ 0 k] nn(1) [of k] by (auto simp: take_Suc_conv_app_nth)
qed

lemma pick_total:
  assumes "list_all (\<lambda>p. 0 \<le> p) ps" "0 \<le> ticket" "ticket < sum_list ps"
  shows "\<exists>k < length ps. pick ps ticket 0 0 = Some k"
proof -
  have "\<exists>k. pick ps ticket below i = Some k" if "below \<le> ticket" "ticket < below + sum_list ps" for below i
    using that by (induction ps arbitrary: below i) (auto simp: add.assoc)
  then obtain k where "pick ps ticket 0 0 = Some k"
    using assms by (metis add_0)
  then show ?thesis
    using pick_Some [OF assms(1), of 0 ticket 0 k] assms(2) by auto
qed

text \<open>A call from ticket \<open>l\<close> returns the first of the next tickets whose expander has room.\<close>

lemma interleave_result:
  assumes "interleave_next ps all_size room l = Some y"
  shows "all_size = 0 \<or> (\<exists>k u. fst y = int k \<and> room k \<and> pick ps (u mod all_size) 0 0 = Some k \<and> snd y = u mod all_size)"
  using assms
proof (rule interleave_next.raw_induct [where P = "\<lambda>ps all_size room l y. all_size = 0 \<or>
     (\<exists>k u. fst y = int k \<and> room k \<and> pick ps (u mod all_size) 0 0 = Some k \<and> snd y = u mod all_size)", rotated])
  fix loop :: "int list \<Rightarrow> int \<Rightarrow> (nat \<Rightarrow> bool) \<Rightarrow> int \<Rightarrow> (int \<times> int) option"
  fix ps all_size room l y
  assume IH: "\<And>ps all_size room l y. loop ps all_size room l = Some y \<Longrightarrow> all_size = 0 \<or>
       (\<exists>k u. fst y = int k \<and> room k \<and> pick ps (u mod all_size) 0 0 = Some k \<and> snd y = u mod all_size)"
    and eq: "(if all_size = 0 then Some (- 1, l)
      else
        let ticket = (l + 1) mod all_size in
        case pick ps ticket 0 0 of
          None \<Rightarrow> None
        | Some i \<Rightarrow> if room i then Some (int i, ticket) else loop ps all_size room ticket) = Some y"
  show "all_size = 0 \<or> (\<exists>k u. fst y = int k \<and> room k \<and> pick ps (u mod all_size) 0 0 = Some k \<and> snd y = u mod all_size)"
  proof (cases "all_size = 0")
    case False
    then obtain k where k: "pick ps ((l + 1) mod all_size) 0 0 = Some k"
      using eq by (auto simp: Let_def split: option.splits)
    show ?thesis
    proof (cases "room k")
      case True
      then show ?thesis
        using eq False k by auto
    next
      case no: False
      then have "loop ps all_size room ((l + 1) mod all_size) = Some y"
        using eq False k by simp
      then show ?thesis
        by (rule IH)
    qed
  qed simp
qed

lemma interleave_step:
  assumes "all_size \<noteq> 0" "pick ps ((l + 1) mod all_size) 0 0 = Some k" "room k"
  shows "interleave_next ps all_size room l = Some (int k, (l + 1) mod all_size)"
  using assms by (subst interleave_next.simps) simp

lemma interleave_reaches:
  assumes "list_all (\<lambda>p. 0 \<le> p) ps" "pick ps t 0 0 = Some k" "room k" "0 \<le> t" "t < sum_list ps"
  shows "\<exists>y. interleave_next ps (sum_list ps) room l = Some y"
proof (induction "nat ((t - (l + 1)) mod sum_list ps)" arbitrary: l)
  case 0
  have "(t - (l + 1)) mod sum_list ps = 0"
    using 0 assms(5) assms(4) by (metis nat_0_iff pos_mod_sign le_less_trans order_antisym)
  then have "(l + 1) mod sum_list ps = t"
    using assms(4,5) by (metis mod_eq_dvd_iff mod_0_imp_dvd mod_pos_pos_trivial)
  then show ?case
    using interleave_step [of "sum_list ps" ps l k room] assms by auto
next
  case (Suc n)
  let ?u = "(l + 1) mod sum_list ps"
  have A: "0 < sum_list ps"
    using assms(4,5) by simp
  obtain j where j: "pick ps ?u 0 0 = Some j"
    using pick_total [OF assms(1), of ?u] A by (auto simp: pos_mod_bound)
  have m: "(t - (l + 1)) mod sum_list ps = int n + 1"
    using Suc(2) by linarith
  have "(t - (?u + 1)) mod sum_list ps = (t - (l + 1) - 1) mod sum_list ps"
    by (metis (no_types, opaque_lifting) diff_diff_eq mod_diff_left_eq mod_diff_right_eq)
  also have "\<dots> = ((t - (l + 1)) mod sum_list ps - 1) mod sum_list ps"
    by (simp add: mod_diff_left_eq)
  also have "\<dots> = int n"
    using m A pos_mod_bound [OF A, of "t - (l + 1)"] by simp
  finally have "\<exists>y. interleave_next ps (sum_list ps) room ?u = Some y"
    using Suc(1) [of ?u] by simp
  then show ?case
    using j A by (subst interleave_next.simps) (auto simp: Let_def)
qed

lemma interleave_returns:
  assumes "list_all (\<lambda>p. 0 \<le> p) ps"
  shows "interleave_next ps (sum_list ps) room l \<noteq> None \<longleftrightarrow> sum_list ps = 0 \<or> (\<exists>k < length ps. 0 < ps ! k \<and> room k)"
proof
  assume "interleave_next ps (sum_list ps) room l \<noteq> None"
  then obtain y where y: "interleave_next ps (sum_list ps) room l = Some y"
    by auto
  have "0 \<le> sum_list ps"
    using assms by (auto intro!: sum_list_nonneg simp: list_all_iff)
  then consider "sum_list ps = 0" | "0 < sum_list ps"
    by linarith
  then show "sum_list ps = 0 \<or> (\<exists>k < length ps. 0 < ps ! k \<and> room k)"
  proof cases
    case 2
    then obtain k u where k: "room k" "pick ps (u mod sum_list ps) 0 0 = Some k"
      using interleave_result [OF y] by auto
    then have "u mod sum_list ps \<in> {t. 0 \<le> t \<and> t < sum_list ps \<and> pick ps t 0 0 = Some k}"
      using pos_mod_bound [OF 2, of u] pos_mod_sign [OF 2, of u] by simp
    then have "k < length ps \<and> 0 < ps ! k"
      unfolding pick_tickets [OF assms] by (auto split: if_splits)
    then show ?thesis
      using k(1) by blast
  qed simp
next
  assume "sum_list ps = 0 \<or> (\<exists>k < length ps. 0 < ps ! k \<and> room k)"
  then show "interleave_next ps (sum_list ps) room l \<noteq> None"
  proof
    assume "\<exists>k < length ps. 0 < ps ! k \<and> room k"
    then obtain k where k: "k < length ps" "0 < ps ! k" "room k"
      by blast
    then have "sum_list (take k ps) \<in> {t. 0 \<le> t \<and> t < sum_list ps \<and> pick ps t 0 0 = Some k}"
      using pick_tickets [OF assms, of k] by simp
    then show ?thesis
      using interleave_reaches [OF assms, of "sum_list (take k ps)" k room l] k(3) by auto
  qed (simp add: interleave_next.simps)
qed

text \<open>A run of calls while nothing is allocated or freed.\<close>

fun ip_run :: "nat \<Rightarrow> CXLController \<Rightarrow> InterleavePolicy \<Rightarrow> (int list \<times> InterleavePolicy) option" where
  "ip_run 0 c p = Some ([], p)"
| "ip_run (Suc n) c p = Option.bind (ip_compute_once c p) (\<lambda>(r, p1). map_option (\<lambda>(rs, p2). (r # rs, p2)) (ip_run n c p1))"

abbreviation ct_expanders :: "CXLController \<Rightarrow> CXLMemExpander list" where
  "ct_expanders c \<equiv> map (ct_exp c) (ct_cur_expanders c)"

definition positive_latencies :: "CXLMemExpander list \<Rightarrow> bool" where
  "positive_latencies xs \<longleftrightarrow> list_all (\<lambda>x. 0 < ex_latency_read x \<and> 0 < ex_latency_write x) xs"

text \<open>A policy that has not computed its shares yet, or has computed those of this controller.\<close>

definition ip_ready :: "CXLController \<Rightarrow> InterleavePolicy \<Rightarrow> bool" where
  "ip_ready c p \<longleftrightarrow> ip_percentage p = [] \<or>
     ip_percentage p = write_shares (ct_expanders c) \<and> ip_all_size p = sum_list (ip_percentage p)"

lemma trunc_int_nonneg: "0 \<le> r \<Longrightarrow> 0 \<le> trunc_int r"
  by (simp add: trunc_int_def)

lemma write_shares_nonneg:
  assumes "positive_latencies xs" shows "list_all (\<lambda>p. 0 \<le> p) (write_shares xs)"
proof -
  have pos: "\<And>r. r \<in> set (map (\<lambda>x. 1 / ex_latency_write x) xs) \<Longrightarrow> 0 \<le> r"
    using assms by (auto simp: positive_latencies_def list_all_iff intro: less_imp_le)
  then have "0 \<le> sum_list (map (\<lambda>x. 1 / ex_latency_write x) xs)"
    by (intro sum_list_nonneg)
  then have "0 \<le> r / sum_list (map (\<lambda>x. 1 / ex_latency_write x) xs) * 10" if "r \<in> set (map (\<lambda>x. 1 / ex_latency_write x) xs)" for r
    using pos [OF that] by (intro mult_nonneg_nonneg divide_nonneg_nonneg) simp_all
  then show ?thesis
    unfolding write_shares_def Let_def list_all_iff set_map [of "\<lambda>i. trunc_int (i / _ * 10)"] by (blast intro: trunc_int_nonneg)
qed

lemma length_write_shares [simp]: "length (write_shares xs) = length xs"
  by (simp add: write_shares_def Let_def)

lemma ip_prepare_ready:
  assumes "ip_ready c p"
  shows "ip_percentage (ip_prepare c p) = write_shares (ct_expanders c)"
    and "ip_all_size (ip_prepare c p) = sum_list (write_shares (ct_expanders c))"
    and "ip_last_remote (ip_prepare c p) = ip_last_remote p"
  using assms by (auto simp: ip_ready_def ip_prepare_def Let_def)

text \<open>
  C33: The interleaving policy returns exactly when it can. Above the local limit, a call returns if
  and only if no expander has a share, or some expander with a share has room: when all of them are
  full the loop around the label \<open>next\<close> never ends. What it returns is -1 or the number of an
  expander with a share and with room.
\<close>

theorem interleave_returns_iff:
  assumes "positive_latencies (ct_expanders c)" "ip_ready c p"
  defines "shares \<equiv> write_shares (ct_expanders c)"
  shows "(ip_compute_once c p \<noteq> None \<longleftrightarrow> local_room c \<or> sum_list shares = 0
            \<or> (\<exists>i < length shares. 0 < shares ! i \<and> has_room (ct_page_type c) (ct_expanders c ! i)))
       \<and> (\<forall>r p1. ip_compute_once c p = Some (r, p1) \<longrightarrow> r = - 1
            \<or> (\<exists>i < length shares. r = int i \<and> 0 < shares ! i \<and> has_room (ct_page_type c) (ct_expanders c ! i)))"
proof -
  let ?room = "\<lambda>i. has_room (ct_page_type c) (ct_exp c (ct_cur_expanders c ! i))"
  have nn: "list_all (\<lambda>p. 0 \<le> p) shares"
    using write_shares_nonneg [OF assms(1)] by (simp add: shares_def)
  have room: "i < length shares \<Longrightarrow> ?room i = has_room (ct_page_type c) (ct_expanders c ! i)" for i
    by (simp add: shares_def)
  have comp: "ip_compute_once c p = (if local_room c then Some (- 1, p) else
      map_option (\<lambda>(r, ticket). (r, (ip_prepare c p)\<lparr>ip_last_remote := ticket\<rparr>))
        (interleave_next shares (sum_list shares) ?room (ip_last_remote p)))"
    using ip_prepare_ready [OF assms(2)] by (simp add: ip_compute_once_def shares_def Let_def)
  have "r = - 1 \<or> (\<exists>i < length shares. r = int i \<and> 0 < shares ! i \<and> ?room i)"
    if y: "interleave_next shares (sum_list shares) ?room (ip_last_remote p) = Some (r, t)" for r t
  proof (cases "sum_list shares = 0")
    case True
    then show ?thesis
      using y by (simp add: interleave_next.simps)
  next
    case False
    then have A: "0 < sum_list shares"
      using nn by (metis list_all_iff order_le_less sum_list_nonneg)
    obtain k u where k: "r = int k" "?room k" "pick shares (u mod sum_list shares) 0 0 = Some k"
      using interleave_result [OF y] False by auto
    then have "u mod sum_list shares \<in> {t. 0 \<le> t \<and> t < sum_list shares \<and> pick shares t 0 0 = Some k}"
      using pos_mod_bound [OF A, of u] pos_mod_sign [OF A, of u] by simp
    then show ?thesis
      unfolding pick_tickets [OF nn] using k by (auto split: if_splits)
  qed
  then show ?thesis
    using interleave_returns [OF nn, of ?room "ip_last_remote p"] room comp by auto
qed

definition turn :: "int list \<Rightarrow> int \<Rightarrow> int" where
  "turn ps t = (case pick ps t 0 0 of None \<Rightarrow> - 1 | Some k \<Rightarrow> int k)"

lemma ip_run_turns:
  assumes lat: "positive_latencies (ct_expanders c)" and "\<not> local_room c"
    and room: "list_all (has_room (ct_page_type c)) (ct_expanders c)" and "0 < sum_list (write_shares (ct_expanders c))"
    and "ip_ready c p"
  shows "\<exists>p1. ip_run n c p = Some (map (\<lambda>k. turn (write_shares (ct_expanders c))
           ((ip_last_remote p + 1 + int k) mod sum_list (write_shares (ct_expanders c)))) [0..<n], p1)"
  using assms(5)
proof (induction n arbitrary: p)
  case (Suc n)
  let ?ps = "write_shares (ct_expanders c)" and ?l = "ip_last_remote p"
  let ?A = "sum_list ?ps"
  have nn: "list_all (\<lambda>p. 0 \<le> p) ?ps"
    by (rule write_shares_nonneg [OF lat])
  obtain k where k: "k < length ?ps" "pick ?ps ((?l + 1) mod ?A) 0 0 = Some k"
    using pick_total [OF nn, of "(?l + 1) mod ?A"] assms(4) by (auto simp: pos_mod_bound)
  then have "has_room (ct_page_type c) (ct_exp c (ct_cur_expanders c ! k))"
    using room by (simp add: list_all_length)
  then have "interleave_next ?ps ?A (\<lambda>i. has_room (ct_page_type c) (ct_exp c (ct_cur_expanders c ! i))) ?l
      = Some (int k, (?l + 1) mod ?A)"
    using interleave_step k(2) assms(4) by auto
  then have comp: "ip_compute_once c p = Some (turn ?ps ((?l + 1) mod ?A), (ip_prepare c p)\<lparr>ip_last_remote := (?l + 1) mod ?A\<rparr>)"
    using ip_prepare_ready [OF Suc.prems] assms(2) k(2) by (simp add: ip_compute_once_def turn_def Let_def)
  let ?p = "(ip_prepare c p)\<lparr>ip_last_remote := (?l + 1) mod ?A\<rparr>"
  have "ip_ready c ?p"
    using ip_prepare_ready [OF Suc.prems] by (simp add: ip_ready_def)
  then obtain p1 where "ip_run n c ?p = Some (map (\<lambda>k. turn ?ps (((?l + 1) mod ?A + 1 + int k) mod ?A)) [0..<n], p1)"
    using Suc.IH [of ?p] by auto
  moreover have "((?l + 1) mod ?A + 1 + int j) mod ?A = (?l + 1 + int (Suc j)) mod ?A" for j
    using mod_add_left_eq [of "?l + 1" ?A "1 + int j"] by (simp add: ac_simps)
  ultimately show ?case
    using comp by (simp add: upt_conv_Cons map_Suc_upt [symmetric] o_def del: upt_Suc)
qed simp

text \<open>The tickets of one round are all tickets, starting anywhere.\<close>

lemma round_tickets:
  assumes "0 < (a :: int)"
  shows "card {k. k < nat a \<and> P ((b + int k) mod a)} = card {t. 0 \<le> t \<and> t < a \<and> P t}"
proof (rule bij_betw_same_card [of "\<lambda>k. (b + int k) mod a"])
  let ?f = "\<lambda>k. (b + int k) mod a"
  have "inj_on ?f {k. k < nat a}"
  proof (rule inj_onI)
    fix x y assume xy: "x \<in> {k. k < nat a}" "y \<in> {k. k < nat a}" "?f x = ?f y"
    then have "int x mod a = int y mod a"
      by (metis add_diff_cancel_left' mod_diff_left_eq)
    then show "x = y"
      using xy(1,2) by (simp add: mod_pos_pos_trivial)
  qed
  then have inj: "inj_on ?f {k. k < nat a \<and> P (?f k)}"
    by (rule inj_on_subset) auto
  have "\<exists>k. k < nat a \<and> ?f k = t" if "0 \<le> t" "t < a" for t
  proof
    have "(b + int (nat ((t - b) mod a))) mod a = t"
      using that assms by (simp add: mod_add_right_eq)
    then show "nat ((t - b) mod a) < nat a \<and> ?f (nat ((t - b) mod a)) = t"
      using assms by simp
  qed
  then have "?f ` {k. k < nat a \<and> P (?f k)} = {t. 0 \<le> t \<and> t < a \<and> P t}"
    using assms by (auto simp: image_iff)
  then show "bij_betw ?f {k. k < nat a \<and> P (?f k)} {t. 0 \<le> t \<and> t < a \<and> P t}"
    using inj by (simp add: bij_betw_def)
qed

lemma count_turns:
  "0 < a \<Longrightarrow> length (filter (\<lambda>k. P ((b + int k) mod a)) [0..<m * nat a]) = m * card {t. 0 \<le> t \<and> t < a \<and> P t}"
proof (induction m)
  case (Suc m)
  have "[0..<Suc m * nat a] = [0..<m * nat a] @ map (\<lambda>k. k + m * nat a) [0..<nat a]"
    using upt_add_eq_append [of 0 "m * nat a" "nat a"] by (simp add: map_add_upt add.commute)
  moreover have "(b + int (k + m * nat a)) mod a = (b + int k) mod a" for k
    using Suc.prems by (simp add: add.assoc [symmetric])
  moreover have "length (filter (\<lambda>k. P ((b + int k) mod a)) [0..<nat a]) = card {k. k < nat a \<and> P ((b + int k) mod a)}"
    by (simp add: length_filter_conv_card cong: conj_cong)
  ultimately show ?case
    using Suc.IH [OF Suc.prems] round_tickets [OF Suc.prems, of P b] by (simp add: filter_map o_def)
qed simp

lemma turn_eq: "turn ps t = int i \<longleftrightarrow> pick ps t 0 0 = Some i"
  by (auto simp: turn_def split: option.splits)

lemma count_list_map: "count_list (map f xs) y = length (filter (\<lambda>x. f x = y) xs)"
  by (induction xs) auto


text \<open>Two expanders, one twice as slow as the other, and no local memory.\<close>

definition example_controller :: CXLController where
  "example_controller = (new_CXLController 0 PAGE 100)\<lparr>
     ct_fabric := \<lparr>fa_heap = [Local (new_CXLMemExpander 20 20 100 100 0 16), Local (new_CXLMemExpander 20 20 200 200 1 16)],
                   fa_engines = Map.empty, fa_logp = new_LogPModel default_LogPConfig\<rparr>,
     ct_cur_expanders := [0, 1]\<rparr>"

lemma example_controller_facts:
  "positive_latencies (ct_expanders example_controller)" "\<not> local_room example_controller"
  "list_all (has_room (ct_page_type example_controller)) (ct_expanders example_controller)"
  "write_shares (ct_expanders example_controller) = [6, 3]" "ip_ready example_controller new_InterleavePolicy"
  "length (ct_cur_expanders example_controller) = 2"
proof -
  have "trunc_int (20 / 3) = 6" "trunc_int (10 / 3) = 3"
    by (simp_all add: trunc_int_def floor_eq_iff)
  then show "write_shares (ct_expanders example_controller) = [6, 3]"
    by (simp add: example_controller_def new_CXLMemExpander_def write_shares_def)
qed (simp_all add: example_controller_def new_CXLController_def new_CXLMemExpander_def positive_latencies_def local_room_def
      used_mb_def has_room_def double_of_u64_def ip_ready_def new_InterleavePolicy_def)

theorem interleave_returns_iff_witness:
  "positive_latencies (ct_expanders example_controller) \<and> ip_ready example_controller new_InterleavePolicy
   \<and> ip_compute_once example_controller new_InterleavePolicy \<noteq> None"
proof -
  have "\<exists>i < length (write_shares (ct_expanders example_controller)). 0 < write_shares (ct_expanders example_controller) ! i
      \<and> has_room (ct_page_type example_controller) (ct_expanders example_controller ! i)"
    using example_controller_facts(3,4,6) by (intro exI [of _ 0]) (simp add: list_all_length)
  then show ?thesis
    using interleave_returns_iff [OF example_controller_facts(1,5)] example_controller_facts(1,5) by blast
qed



section \<open>The NUMA policy picks the best expander with room\<close>

text \<open>Sizes in bytes that fit 64 bits.\<close>

definition sizes_fit :: "page_type \<Rightarrow> CXLMemExpander \<Rightarrow> bool" where
  "sizes_fit pt x \<longleftrightarrow> length (ex_occupation x) * nat (per_size pt) < 2 ^ 64 \<and> unat (ex_capacity x) < 2 ^ 44"

lemma numa_score_pos:
  assumes "has_room pt x" "sizes_fit pt x" "0 < s" shows "0 < numa_score pt s x"
proof -
  let ?n = "length (ex_occupation x) * nat (per_size pt)" and ?c = "unat (ex_capacity x)"
  have w: "word_of_int (per_size pt) = (of_nat (nat (per_size pt)) :: u64)"
    by (cases pt) simp_all
  have fit: "?n < 2 ^ 64" "?c < 2 ^ 44"
    using assms(2) by (simp_all add: sizes_fit_def)
  have n: "unat (of_nat (length (ex_occupation x)) * word_of_int (per_size pt) :: u64) = ?n"
    using fit(1) unfolding w of_nat_mult [symmetric] by (subst unat_of_nat) simp
  have c: "unat (ex_capacity x * 1024 * 1024) = ?c * 1048576"
    using fit(2) by (simp add: unat_word_ariths mult.assoc)
  have "?n div 1024 div 1024 < ?c"
    using assms(1) n by (simp add: has_room_def used_mb_def word_less_nat_alt unat_div)
  then have "?n < ?c * 1048576"
    by (simp add: div_mult2_eq [symmetric] div_less_iff_less_mult)
  then have "real ?n / real (?c * 1048576) < 1"
    by (simp only: divide_less_eq_1 of_nat_less_iff of_nat_0_less_iff) simp
  then show ?thesis
    using assms(3) unfolding numa_score_def double_of_u64_def n c by (simp del: of_nat_mult)
qed

lemma all_less_Suc_split: "(\<forall>j < Suc n. P j) \<longleftrightarrow> P 0 \<and> (\<forall>j < n. P (Suc j))"
  by (auto simp: less_Suc_eq_0_disj)

lemma ex_less_Suc_split: "(\<exists>j < Suc n. P j) \<longleftrightarrow> P 0 \<or> (\<exists>j < n. P (Suc j))"
  by (auto simp: less_Suc_eq_0_disj)

text \<open>What the loop returns: the index it started with, or one that beats every expander with room.\<close>

lemma numa_loop_best:
  "let r = numa_loop pt i scores xs node best in
     (r = node \<and> (\<forall>j < length xs. has_room pt (xs ! j) \<longrightarrow> numa_score pt (scores ! (i + j)) (xs ! j) \<le> best))
     \<or> (\<exists>k < length xs. r = int (i + k) \<and> has_room pt (xs ! k) \<and> best < numa_score pt (scores ! (i + k)) (xs ! k)
          \<and> (\<forall>j < length xs. has_room pt (xs ! j) \<longrightarrow>
               numa_score pt (scores ! (i + j)) (xs ! j) \<le> numa_score pt (scores ! (i + k)) (xs ! k)))"
proof (induction xs arbitrary: i node best)
  case (Cons x xs)
  let ?s = "numa_score pt (scores ! i) x"
  show ?case
  proof (cases "has_room pt x \<and> best < ?s")
    case True
    then have "numa_loop pt i scores (x # xs) node best = numa_loop pt (Suc i) scores xs (int i) ?s"
      by simp
    then show ?thesis
      using Cons.IH [of "Suc i" "int i" ?s] True
      unfolding Let_def all_less_Suc_split ex_less_Suc_split length_Cons by auto
  next
    case False
    then have "numa_loop pt i scores (x # xs) node best = numa_loop pt (Suc i) scores xs node best"
      by auto
    then show ?thesis
      using Cons.IH [of "Suc i" node best] False
      unfolding Let_def all_less_Suc_split ex_less_Suc_split length_Cons by auto
  qed
qed simp

definition np_ready :: "CXLController \<Rightarrow> NUMAPolicy \<Rightarrow> bool" where
  "np_ready c p \<longleftrightarrow> np_latency_scores p = [] \<or> np_latency_scores p = map latency_score (ct_expanders c)"

text \<open>
  Above the local limit the NUMA policy returns -1 exactly when every expander is full, and
  otherwise an expander with room whose score - its speed times its free fraction - no other expander
  with room exceeds. The fallback after its loop is never needed.
\<close>

lemma numa_picks_best:
  assumes "\<not> local_room c" "np_ready c p" "positive_latencies (ct_expanders c)"
    and "list_all (sizes_fit (ct_page_type c)) (ct_expanders c)"
  defines "xs \<equiv> ct_expanders c" and "score \<equiv> (\<lambda>x. numa_score (ct_page_type c) (latency_score x) x)"
  shows "(fst (np_compute_once c p) = - 1 \<longleftrightarrow> \<not> list_ex (has_room (ct_page_type c)) xs)
       \<and> (fst (np_compute_once c p) \<noteq> - 1 \<longrightarrow>
            (\<exists>k < length xs. fst (np_compute_once c p) = int k \<and> has_room (ct_page_type c) (xs ! k)
               \<and> list_all (\<lambda>x. has_room (ct_page_type c) x \<longrightarrow> score x \<le> score (xs ! k)) xs))"
proof -
  let ?pt = "ct_page_type c" and ?scores = "map latency_score xs"
  let ?r = "numa_loop ?pt 0 ?scores xs (- 1) (- 1)"
  have fst: "fst (np_compute_once c p) = (if ?r = - 1 then first_room ?pt xs else ?r)"
    using assms(1,2) by (auto simp: np_compute_once_def np_ready_def xs_def Let_def)
  have pos: "0 < score (xs ! j)" if "j < length xs" "has_room ?pt (xs ! j)" for j
    using that assms(3,4) unfolding score_def
    by (intro numa_score_pos) (auto simp: xs_def list_all_length positive_latencies_def latency_score_def add_pos_pos)
  show ?thesis
  proof (cases "?r = - 1")
    case True
    then have "\<not> has_room ?pt (xs ! j)" if "j < length xs" for j
      using numa_loop_best [of ?pt 0 ?scores xs "- 1" "- 1"] pos [of j] that by (fastforce simp: Let_def score_def)
    then have "\<not> list_ex (has_room ?pt) xs" "first_room ?pt xs = - 1"
      by (auto simp: list_ex_length first_room_def find_None_iff split: option.splits dest!: find_SomeD)
    then show ?thesis
      using True fst by simp
  next
    case False
    then obtain k where k: "k < length xs" "?r = int k" "has_room ?pt (xs ! k)"
        "\<And>j. j < length xs \<Longrightarrow> has_room ?pt (xs ! j) \<Longrightarrow> score (xs ! j) \<le> score (xs ! k)"
      using numa_loop_best [of ?pt 0 ?scores xs "- 1" "- 1"] by (auto simp: Let_def score_def)
    then show ?thesis
      using False fst by (auto simp: list_ex_length list_all_length)
  qed
qed

lemma numa_picks_best_witness:
  "\<exists>k < 2. fst (np_compute_once example_controller \<lparr>np_latency_scores = []\<rparr>) = int k"
proof -
  have fits: "list_all (sizes_fit (ct_page_type example_controller)) (ct_expanders example_controller)"
    by (simp add: example_controller_def new_CXLMemExpander_def sizes_fit_def)
  have ready: "np_ready example_controller \<lparr>np_latency_scores = []\<rparr>"
    by (simp add: np_ready_def)
  have "list_ex (has_room (ct_page_type example_controller)) (ct_expanders example_controller)"
    using example_controller_facts(3,6) by (auto simp: list_all_length list_ex_length intro: exI [of _ 0])
  then show ?thesis
    using numa_picks_best [OF example_controller_facts(2) ready example_controller_facts(1) fits]
      example_controller_facts(6) by auto
qed

end
