(* ===== verification/Topology.thy ===== *)
theory Topology
  imports Controller_State
begin

text \<open>
  Reading the topology string of the controller (src/src/cxlcontroller.cpp): \<open>tokenize\<close>,
  \<open>parse_size_token\<close>, \<open>skip_optional_branch_length\<close>, \<open>construct_topo\<close> and \<open>add_remote_endpoint\<close>.

  \<open>construct_topo\<close> is a machine with an explicit stack of pointers to switches. Switches are never
  moved or removed, so a pointer to a switch is its path from the root. The position \<open>t\<close> in the token
  vector is the list of tokens that are left. An exception ends the parser and leaves the controller
  as far as it got: the outcome is the exception, if any, together with the controller.

  Shown: printing a tree and reading it again gives the same tree, with the switches numbered and
  the endpoints entered in the device map in the order of the walk.
\<close>


section \<open>Tokens\<close>

text \<open>\<open>std::isspace\<close> in the default locale.\<close>

definition is_space :: "char \<Rightarrow> bool" where
  "is_space ch \<longleftrightarrow> of_char ch = (32 :: nat) \<or> (9 \<le> (of_char ch :: nat) \<and> of_char ch \<le> (13 :: nat))"

definition is_delim :: "char \<Rightarrow> bool" where
  "is_delim ch \<longleftrightarrow> ch = CHR ''('' \<or> ch = CHR '')'' \<or> ch = CHR '':'' \<or> ch = CHR '','' \<or> ch = CHR '';''"

fun tokenize_loop :: "string \<Rightarrow> string \<Rightarrow> string list \<Rightarrow> string list" where
  "tokenize_loop [] tmp res = (if tmp = [] then res else res @ [tmp])"
| "tokenize_loop (ch # s) tmp res =
     (let flushed = (if tmp = [] then res else res @ [tmp]) in
      if is_space ch then tokenize_loop s [] flushed
      else if is_delim ch then tokenize_loop s [] (flushed @ [[ch]])
      else tokenize_loop s (tmp @ [ch]) res)"

definition tokenize :: "string \<Rightarrow> string list" where
  "tokenize s = tokenize_loop s [] []"

text \<open>
  \<open>std::from_chars\<close> for an unsigned type: the longest run of decimal digits, with the error code
  and the characters that are left.
\<close>

datatype errc = No_error | Invalid_argument | Result_out_of_range

definition is_digit :: "char \<Rightarrow> bool" where
  "is_digit ch \<longleftrightarrow> 48 \<le> (of_char ch :: nat) \<and> of_char ch \<le> (57 :: nat)"

definition decimal_value :: "string \<Rightarrow> nat" where
  "decimal_value ds = foldl (\<lambda>n ch. 10 * n + (of_char ch - 48)) 0 ds"

definition from_chars :: "string \<Rightarrow> errc \<times> u64 \<times> string" where
  "from_chars s =
     (let ds = takeWhile is_digit s; rest = dropWhile is_digit s in
      if ds = [] then (Invalid_argument, 0, s)
      else if 2 ^ 64 \<le> decimal_value ds then (Result_out_of_range, 0, rest)
      else (No_error, of_nat (decimal_value ds), rest))"

definition parse_size_token :: "string \<Rightarrow> u64 option" where
  "parse_size_token token =
     (if token = [] then None
      else let (ec, parsed, rest) = from_chars token in if ec \<noteq> No_error \<or> rest \<noteq> [] then None else Some parsed)"

fun skip_optional_branch_length :: "string list \<Rightarrow> string list" where
  "skip_optional_branch_length (a # b # rest) = (if a = '':'' then rest else a # b # rest)"
| "skip_optional_branch_length rest = rest"


section \<open>Switches as paths\<close>

fun sw_at :: "nat list \<Rightarrow> CXLSwitch \<Rightarrow> CXLSwitch" where
  "sw_at [] sw = sw"
| "sw_at (i # p) sw = sw_at p (sw_switches sw ! i)"

fun valid_path :: "nat list \<Rightarrow> CXLSwitch \<Rightarrow> bool" where
  "valid_path [] sw \<longleftrightarrow> True"
| "valid_path (i # p) sw \<longleftrightarrow> i < length (sw_switches sw) \<and> valid_path p (sw_switches sw ! i)"

fun upd_path :: "nat list \<Rightarrow> (CXLSwitch \<Rightarrow> CXLSwitch) \<Rightarrow> CXLSwitch \<Rightarrow> CXLSwitch" where
  "upd_path [] f sw = f sw"
| "upd_path (i # p) f (CXLSwitch s es ws) = CXLSwitch s es (ws[i := upd_path p f (ws ! i)])"

definition push_expander :: "eptr \<Rightarrow> CXLSwitch \<Rightarrow> CXLSwitch" where
  "push_expander e sw = CXLSwitch (sw_data sw) (sw_expanders sw @ [e]) (sw_switches sw)"

definition push_switch :: "CXLSwitch \<Rightarrow> CXLSwitch \<Rightarrow> CXLSwitch" where
  "push_switch child sw = CXLSwitch (sw_data sw) (sw_expanders sw) (sw_switches sw @ [child])"


section \<open>The parser\<close>

definition insert_end_point :: "CXLMemExpander \<Rightarrow> CXLController \<Rightarrow> CXLController" where
  "insert_end_point x c = c\<lparr>ct_fabric := (ct_fabric c)\<lparr>fa_heap := ct_heap c @ [Local x]\<rparr>,
                            ct_cur_expanders := ct_cur_expanders c @ [length (ct_heap c)]\<rparr>"

definition add_remote_endpoint ::
  "u32 \<Rightarrow> u64 \<Rightarrow> u64 \<Rightarrow> FabricLinkConfig \<Rightarrow> CXLController \<Rightarrow> eptr \<times> CXLController" where
  "add_remote_endpoint remote_node base capacity link_cfg c =
     (let remote_id = ct_num_end_points c;
          (x, r) = new_RemoteCXLExpander remote_id remote_node (ct_local_node_id c) base capacity link_cfg;
          remote = length (ct_heap c) in
      (remote, c\<lparr>ct_num_end_points := remote_id + 1,
                 ct_fabric := (ct_fabric c)\<lparr>fa_heap := ct_heap c @ [Remote x (r\<lparr>rx_coherency_engine := ct_coherency c\<rparr>)]\<rparr>,
                 ct_tree := push_expander remote (ct_tree c),
                 ct_device_map := (ct_device_map c)(remote_id \<mapsto> remote),
                 ct_remote_expanders := ct_remote_expanders c @ [remote]\<rparr>))"

datatype topo_error =
    Endpoint_after_root string
  | Endpoint_out_of_range string
  | Child_after_root
  | Unbalanced_parentheses
  | Invalid_remote_node string
  | Too_many_leaves
  | Unsupported_token string
  | No_endpoints

text \<open>The local variables of \<open>construct_topo\<close>; the head of \<open>tp_stk\<close> is its \<open>back()\<close>.\<close>

record topo_state =
  tp_ctrl :: CXLController
  tp_stk :: "nat list list"
  tp_next_named_expander :: nat
  tp_topology_endpoints :: nat

definition add_local_expander :: "nat \<Rightarrow> string \<Rightarrow> topo_state \<Rightarrow> topo_error option \<times> topo_state" where
  "add_local_expander expander_number token st =
     (let c = tp_ctrl st in
      case tp_stk st of
        [] \<Rightarrow> (Some (Endpoint_after_root token), st)
      | innermost # _ \<Rightarrow>
          if expander_number = 0 \<or> length (ct_cur_expanders c) < expander_number
          then (Some (Endpoint_out_of_range token), st)
          else
            let expander = ct_cur_expanders c ! (expander_number - 1) in
            (None, st\<lparr>tp_ctrl := c\<lparr>ct_tree := upd_path innermost (push_expander expander) (ct_tree c),
                                   ct_device_map := (ct_device_map c)(ct_num_end_points c \<mapsto> expander),
                                   ct_num_end_points := ct_num_end_points c + 1\<rparr>,
                      tp_topology_endpoints := tp_topology_endpoints st + 1\<rparr>))"

definition open_switch :: "nat list \<Rightarrow> topo_state \<Rightarrow> topo_state" where
  "open_switch innermost st =
     (let c = tp_ctrl st; cur = new_CXLSwitch (ct_num_switches c) in
      st\<lparr>tp_ctrl := c\<lparr>ct_tree := upd_path innermost (push_switch cur) (ct_tree c), ct_num_switches := ct_num_switches c + 1\<rparr>,
         tp_stk := (innermost @ [length (sw_switches (sw_at innermost (ct_tree c)))]) # tp_stk st\<rparr>)"

text \<open>A remote endpoint always hangs at the root, and once more at the open switch if that is another one.\<close>

definition add_topology_remote :: "u64 \<Rightarrow> topo_state \<Rightarrow> topo_state" where
  "add_topology_remote remote_node_value st =
     (let remote_node = ucast remote_node_value :: u32;
          default_capacity = 1024 * 1024 * 1024;
          default_base = ucast remote_node * default_capacity;
          (remote, c) = add_remote_endpoint remote_node default_base default_capacity
            \<lparr>fl_latency_ns = 100, fl_bandwidth_gbps = 25, fl_max_credits = 32\<rparr> (tp_ctrl st);
          c1 = (case tp_stk st of
                  [] \<Rightarrow> c
                | innermost # _ \<Rightarrow> if innermost = [] then c else c\<lparr>ct_tree := upd_path innermost (push_expander remote) (ct_tree c)\<rparr>) in
      st\<lparr>tp_ctrl := c1, tp_topology_endpoints := tp_topology_endpoints st + 1\<rparr>)"

lemma length_skip: "length (skip_optional_branch_length ts) \<le> length ts"
  by (induction ts rule: skip_optional_branch_length.induct) auto

function topo_loop :: "string list \<Rightarrow> topo_state \<Rightarrow> topo_error option \<times> topo_state" where
  "topo_loop [] st = (None, st)"
| "topo_loop (token # rest) st =
     (let c = tp_ctrl st in
      if token = ''('' \<and> ct_num_switches c = 0
      then topo_loop rest (st\<lparr>tp_ctrl := c\<lparr>ct_num_switches := ct_num_switches c + 1\<rparr>\<rparr>)
      else if token = ''('' then
        (case tp_stk st of [] \<Rightarrow> (Some Child_after_root, st) | innermost # _ \<Rightarrow> topo_loop rest (open_switch innermost st))
      else if token = '')'' then
        (case tp_stk st of [] \<Rightarrow> (Some Unbalanced_parentheses, st) | _ # stk \<Rightarrow> topo_loop rest (st\<lparr>tp_stk := stk\<rparr>))
      else if token = '','' \<or> token = '';'' then topo_loop rest st
      else if token = ''R'' \<and> 4 \<le> length rest \<and> rest ! 0 = '':'' \<and> rest ! 2 = '':'' then
        (case parse_size_token (rest ! 1) of
           None \<Rightarrow> (Some (Invalid_remote_node (rest ! 1)), st)
         | Some v \<Rightarrow> topo_loop (drop 4 rest) (add_topology_remote v st))
      else if token = ''CPU'' then topo_loop (skip_optional_branch_length rest) st
      else if token = ''CXL'' then
        if length (ct_cur_expanders c) \<le> tp_next_named_expander st then (Some Too_many_leaves, st)
        else
          (case add_local_expander (tp_next_named_expander st + 1) token st of
             (Some e, st1) \<Rightarrow> (Some e, st1)
           | (None, st1) \<Rightarrow> topo_loop (skip_optional_branch_length rest)
                              (st1\<lparr>tp_next_named_expander := tp_next_named_expander st1 + 1\<rparr>))
      else
        (case parse_size_token token of
           None \<Rightarrow> (Some (Unsupported_token token), st)
         | Some n \<Rightarrow>
             (case add_local_expander (unat n) token st of
                (Some e, st1) \<Rightarrow> (Some e, st1)
              | (None, st1) \<Rightarrow> topo_loop (skip_optional_branch_length rest) st1)))"
  by pat_completeness auto
termination
  by (relation "measure (length \<circ> fst)") (auto simp: le_imp_less_Suc length_skip less_Suc_eq_le)

declare topo_loop.simps [simp del]

definition construct_topo :: "string \<Rightarrow> CXLController \<Rightarrow> topo_error option \<times> CXLController" where
  "construct_topo newick_tree c =
     (let (err, st) = topo_loop (tokenize newick_tree)
            \<lparr>tp_ctrl = c, tp_stk = [[]], tp_next_named_expander = 0, tp_topology_endpoints = 0\<rparr> in
      case err of
        Some e \<Rightarrow> (Some e, tp_ctrl st)
      | None \<Rightarrow> (if tp_topology_endpoints st = 0 \<and> ct_cur_expanders (tp_ctrl st) \<noteq> [] then Some No_endpoints else None,
                 tp_ctrl st))"



section \<open>Printing a tree\<close>

fun dec :: "nat \<Rightarrow> string" where
  "dec n = (if n < 10 then [char_of (48 + n)] else dec (n div 10) @ [char_of (48 + n mod 10)])"

declare dec.simps [simp del]

definition number_of :: "eptr list \<Rightarrow> eptr \<Rightarrow> nat" where
  "number_of cs p = Suc (length (takeWhile (\<lambda>q. q \<noteq> p) cs))"

fun join :: "'a list \<Rightarrow> 'a list list \<Rightarrow> 'a list" where
  "join sep [] = []"
| "join sep [x] = x"
| "join sep (x # y # xs) = x @ sep @ join sep (y # xs)"

fun newick :: "eptr list \<Rightarrow> CXLSwitch \<Rightarrow> string" where
  "newick cs (CXLSwitch s es ws) =
     ''('' @ join '','' (map (\<lambda>p. dec (number_of cs p)) es @ map (newick cs) ws) @ '')''"

fun newick_tokens :: "eptr list \<Rightarrow> CXLSwitch \<Rightarrow> string list" where
  "newick_tokens cs (CXLSwitch s es ws) =
     [''(''] @ join ['',''] (map (\<lambda>p. [dec (number_of cs p)]) es @ map (newick_tokens cs) ws) @ ['')'']"

lemma dec_digits: "list_all is_digit (dec n) \<and> dec n \<noteq> []"
proof (induction n rule: dec.induct)
  case (1 n)
  show ?case
  proof (cases "n < 10")
    case True
    then show ?thesis
      by (subst (1 2) dec.simps) (simp add: is_digit_def)
  next
    case False
    have "n mod 10 < 10"
      by simp
    then have "is_digit (char_of (48 + n mod 10))"
      by (simp add: is_digit_def)
    then show ?thesis
      using 1 False by (subst (1 2) dec.simps) simp
  qed
qed

lemma decimal_value_snoc: "decimal_value (ds @ [ch]) = 10 * decimal_value ds + (of_char ch - 48)"
  by (simp add: decimal_value_def)

lemma decimal_value_dec: "decimal_value (dec n) = n"
proof (induction n rule: dec.induct)
  case (1 n)
  show ?case
  proof (cases "n < 10")
    case True
    then show ?thesis
      by (subst dec.simps) (simp add: decimal_value_def)
  next
    case False
    then show ?thesis
      using 1 by (subst dec.simps) (simp add: decimal_value_snoc)
  qed
qed

lemma parse_dec: "n < 2 ^ 64 \<Longrightarrow> parse_size_token (dec n) = Some (of_nat n)"
  using dec_digits [of n] decimal_value_dec [of n]
  by (simp add: parse_size_token_def from_chars_def takeWhile_eq_all_conv [THEN iffD2] list_all_iff)

lemma digit_not_special: "is_digit ch \<Longrightarrow> \<not> is_space ch \<and> \<not> is_delim ch \<and> ch \<noteq> CHR ''R'' \<and> ch \<noteq> CHR ''C''"
  by (auto simp: is_digit_def is_space_def is_delim_def)


section \<open>The tokens of a printed tree\<close>

text \<open>A piece of the text that yields its tokens whenever a separator follows.\<close>

definition splits :: "string \<Rightarrow> string list \<Rightarrow> bool" where
  "splits s ts \<longleftrightarrow> (\<forall>ch rest. is_delim ch \<longrightarrow> tokenize (s @ ch # rest) = ts @ tokenize (ch # rest))"

lemma tokenize_loop_res: "tokenize_loop s tmp res = res @ tokenize_loop s tmp []"
proof (induction s arbitrary: tmp res)
  case (Cons ch s)
  show ?case
    unfolding tokenize_loop.simps Let_def
    by (subst (1 2 3 4 5) Cons.IH) simp
qed simp

lemma tokenize_delim: "is_delim ch \<Longrightarrow> tokenize (ch # s) = [ch] # tokenize s"
  using tokenize_loop_res [of s "[]" "[[ch]]"] by (auto simp: tokenize_def is_delim_def is_space_def)

lemma tokenize_loop_word:
  "list_all (\<lambda>ch. \<not> is_space ch \<and> \<not> is_delim ch) s \<Longrightarrow> tokenize_loop (s @ rest) tmp [] = tokenize_loop rest (tmp @ s) []"
  by (induction s arbitrary: tmp) auto

lemma splits_word:
  assumes "list_all (\<lambda>ch. \<not> is_space ch \<and> \<not> is_delim ch) s" "s \<noteq> []"
  shows "splits s [s]"
  unfolding splits_def
proof (intro allI impI)
  fix ch rest
  assume ch: "is_delim ch"
  then have "\<not> is_space ch"
    by (auto simp: is_delim_def is_space_def)
  then have "tokenize (s @ ch # rest) = tokenize_loop rest [] ([s] @ [[ch]])"
    using ch assms by (simp add: tokenize_def tokenize_loop_word)
  also have "\<dots> = [s] @ tokenize (ch # rest)"
    using tokenize_loop_res [of rest "[]" "[s] @ [[ch]]"] tokenize_delim [OF ch] by (simp add: tokenize_def)
  finally show "tokenize (s @ ch # rest) = [s] @ tokenize (ch # rest)" .
qed

lemma splits_join: "list_all2 splits xs tss \<Longrightarrow> splits (join '','' xs) (join ['',''] tss)"
proof (induction xs tss rule: list_all2_induct)
  case (Cons x xs ts tss)
  then show ?case
    by (cases xs; cases tss) (auto simp: splits_def tokenize_delim is_delim_def)
qed (simp add: splits_def)

lemma splits_newick: "splits (newick cs sw) (newick_tokens cs sw)"
proof (induction sw)
  case (CXLSwitch s es ws)
  have "list_all2 splits (map (\<lambda>p. dec (number_of cs p)) es @ map (newick cs) ws)
          (map (\<lambda>p. [dec (number_of cs p)]) es @ map (newick_tokens cs) ws)"
    using CXLSwitch dec_digits digit_not_special
    by (intro list_all2_appendI) (auto simp: list_all2_conv_all_nth list_all_iff intro!: splits_word)
  from splits_join [OF this] show ?case
    by (auto simp: splits_def tokenize_delim is_delim_def)
qed


section \<open>What the parser does with them\<close>

definition leaf_effect :: "eptr \<Rightarrow> topo_state \<Rightarrow> topo_state" where
  "leaf_effect e st =
     (let c = tp_ctrl st in
      st\<lparr>tp_ctrl := c\<lparr>ct_tree := upd_path (hd (tp_stk st)) (push_expander e) (ct_tree c),
                      ct_device_map := (ct_device_map c)(ct_num_end_points c \<mapsto> e),
                      ct_num_end_points := ct_num_end_points c + 1\<rparr>,
         tp_topology_endpoints := tp_topology_endpoints st + 1\<rparr>)"

fun tree_effect :: "CXLSwitch \<Rightarrow> topo_state \<Rightarrow> topo_state" where
  "tree_effect (CXLSwitch s es ws) st =
     (let st1 = fold tree_effect ws (fold leaf_effect es (open_switch (hd (tp_stk st)) st)) in
      st1\<lparr>tp_stk := tl (tp_stk st1)\<rparr>)"

definition parsing :: "eptr list \<Rightarrow> topo_state \<Rightarrow> bool" where
  "parsing cs st \<longleftrightarrow> tp_stk st \<noteq> [] \<and> 0 < ct_num_switches (tp_ctrl st) \<and> ct_cur_expanders (tp_ctrl st) = cs"

text \<open>Tokens that the parser reads as an effect, when the next one is not a branch length.\<close>

definition reads :: "eptr list \<Rightarrow> string list \<Rightarrow> (topo_state \<Rightarrow> topo_state) \<Rightarrow> bool" where
  "reads cs ts f \<longleftrightarrow> (\<forall>st. parsing cs st \<longrightarrow>
     parsing cs (f st) \<and> tp_stk (f st) = tp_stk st
     \<and> (\<forall>t rest. t \<noteq> '':'' \<longrightarrow> topo_loop (ts @ t # rest) st = topo_loop (t # rest) (f st)))"

lemma skip_none: "t \<noteq> '':'' \<Longrightarrow> skip_optional_branch_length (t # rest) = t # rest"
  by (cases rest) auto

lemma number_of_bounds:
  assumes "p \<in> set cs"
  shows "0 < number_of cs p" "number_of cs p \<le> length cs" "cs ! (number_of cs p - 1) = p"
proof -
  have "length (takeWhile (\<lambda>q. q \<noteq> p) cs) < length cs"
    using assms by (induction cs) auto
  moreover from this have "cs ! length (takeWhile (\<lambda>q. q \<noteq> p) cs) = p"
    using nth_length_takeWhile by fastforce
  ultimately show "0 < number_of cs p" "number_of cs p \<le> length cs" "cs ! (number_of cs p - 1) = p"
    by (simp_all add: number_of_def)
qed

lemma reads_leaf:
  assumes "p \<in> set cs" "length cs < 2 ^ 64"
  shows "reads cs [dec (number_of cs p)] (leaf_effect p)"
proof -
  let ?n = "number_of cs p"
  note n = number_of_bounds [OF assms(1)]
  obtain d ds where d: "dec ?n = d # ds" "is_digit d"
    using dec_digits [of ?n] by (cases "dec ?n") auto
  have parse: "parse_size_token (d # ds) = Some (of_nat ?n)" "unat (of_nat ?n :: u64) = ?n"
    using parse_dec [of ?n] n(2) assms(2) by (simp_all add: d unat_of_nat)
  have add: "add_local_expander ?n (d # ds) st = (None, leaf_effect p st)" if "parsing cs st" for st
    using that n by (cases "tp_stk st") (auto simp: add_local_expander_def leaf_effect_def parsing_def Let_def)
  have "topo_loop ((d # ds) # t # rest) st = topo_loop (t # rest) (leaf_effect p st)"
    if "parsing cs st" "t \<noteq> '':''" for st t rest
    using that add [OF that(1)] parse digit_not_special [OF d(2)]
    by (subst topo_loop.simps) (auto simp: is_delim_def skip_none)
  then show ?thesis
    by (simp add: reads_def d(1)) (simp add: leaf_effect_def parsing_def Let_def)
qed

lemma topo_loop_comma: "topo_loop ('','' # rest) st = topo_loop rest st"
  by (subst topo_loop.simps) simp

lemma reads_join: "list_all2 (reads cs) tss fs \<Longrightarrow> reads cs (join ['',''] tss) (fold (\<lambda>f. f) fs)"
proof (induction tss fs rule: list_all2_induct)
  case (Cons ts tss f fs)
  then show ?case
    by (cases tss; cases fs) (auto simp: reads_def topo_loop_comma)
qed (simp add: reads_def)

lemma fold_effects: "fold (\<lambda>f. f) (map leaf_effect es @ map tree_effect ws) st = fold tree_effect ws (fold leaf_effect es st)"
  by (simp add: fold_map comp_def)

lemma parsing_open: "parsing cs st \<Longrightarrow> parsing cs (open_switch innermost st)"
  by (auto simp: parsing_def open_switch_def Let_def)

lemma reads_tree:
  "set (sw_endpoints sw) \<subseteq> set cs \<Longrightarrow> length cs < 2 ^ 64 \<Longrightarrow> reads cs (newick_tokens cs sw) (tree_effect sw)"
proof (induction sw)
  case (CXLSwitch s es ws)
  let ?toks = "map (\<lambda>p. [dec (number_of cs p)]) es @ map (newick_tokens cs) ws"
  let ?effs = "map leaf_effect es @ map tree_effect ws"
  have "reads cs (newick_tokens cs w) (tree_effect w)" if "w \<in> set ws" for w
    using that CXLSwitch.prems by (intro CXLSwitch.IH) auto
  then have "list_all2 (reads cs) ?toks ?effs"
    using CXLSwitch.prems by (intro list_all2_appendI) (auto simp: list_all2_conv_all_nth intro!: reads_leaf)
  then have items: "reads cs (join ['',''] ?toks) (fold (\<lambda>f. f) ?effs)"
    by (rule reads_join)
  show ?case
    unfolding reads_def
  proof (intro allI impI)
    fix st
    assume st: "parsing cs st"
    let ?st1 = "open_switch (hd (tp_stk st)) st"
    let ?st2 = "fold tree_effect ws (fold leaf_effect es ?st1)"
    have 2: "parsing cs ?st2" "tp_stk ?st2 = tp_stk ?st1"
      and run: "\<And>t rest. t \<noteq> '':'' \<Longrightarrow> topo_loop (join ['',''] ?toks @ t # rest) ?st1 = topo_loop (t # rest) ?st2"
      using items parsing_open [OF st] unfolding reads_def fold_effects by blast+
    have stk: "tl (tp_stk ?st1) = tp_stk st" "tp_stk ?st1 \<noteq> []"
      by (simp_all add: open_switch_def Let_def)
    have "topo_loop (newick_tokens cs (CXLSwitch s es ws) @ t # rest) st
        = topo_loop (t # rest) (tree_effect (CXLSwitch s es ws) st)" for t rest
    proof -
      have "topo_loop (newick_tokens cs (CXLSwitch s es ws) @ t # rest) st
          = topo_loop (join ['',''] ?toks @ '')'' # t # rest) ?st1"
        using st by (cases "tp_stk st") (auto simp: parsing_def topo_loop.simps(2) [of "''(''"])
      also have "\<dots> = topo_loop ('')'' # t # rest) ?st2"
        by (rule run) simp
      also have "\<dots> = topo_loop (t # rest) (tree_effect (CXLSwitch s es ws) st)"
        using 2 stk by (auto simp: topo_loop.simps(2) [of "'')''"] split: list.split)
      finally show ?thesis .
    qed
    moreover have "parsing cs (tree_effect (CXLSwitch s es ws) st)" "tp_stk (tree_effect (CXLSwitch s es ws) st) = tp_stk st"
      using 2 stk st by (simp_all add: Let_def parsing_def)
    ultimately show "parsing cs (tree_effect (CXLSwitch s es ws) st)
        \<and> tp_stk (tree_effect (CXLSwitch s es ws) st) = tp_stk st
        \<and> (\<forall>t rest. t \<noteq> '':'' \<longrightarrow> topo_loop (newick_tokens cs (CXLSwitch s es ws) @ t # rest) st
                                 = topo_loop (t # rest) (tree_effect (CXLSwitch s es ws) st))"
      by blast
  qed
qed


section \<open>The tree that results\<close>

definition push_expanders :: "eptr list \<Rightarrow> CXLSwitch \<Rightarrow> CXLSwitch" where
  "push_expanders es sw = CXLSwitch (sw_data sw) (sw_expanders sw @ es) (sw_switches sw)"

definition push_switches :: "CXLSwitch list \<Rightarrow> CXLSwitch \<Rightarrow> CXLSwitch" where
  "push_switches ws sw = CXLSwitch (sw_data sw) (sw_expanders sw) (sw_switches sw @ ws)"

lemma upd_path_upd_path: "upd_path q f (upd_path q g sw) = upd_path q (f \<circ> g) sw"
proof (induction q arbitrary: sw)
  case (Cons i q)
  show ?case
    by (cases sw; cases "i < length (sw_switches sw)") (simp_all add: Cons.IH list_update_beyond)
qed simp

lemma upd_path_id: "upd_path q (\<lambda>sw. sw) sw = sw"
proof (induction q arbitrary: sw)
  case (Cons i q)
  show ?case
    by (cases sw) (simp add: Cons.IH)
qed simp

lemma valid_upd_path: "valid_path q sw \<Longrightarrow> length (sw_switches (sw_at q sw)) \<le> length (sw_switches (f (sw_at q sw)))
    \<Longrightarrow> valid_path q (upd_path q f sw) \<and> sw_at q (upd_path q f sw) = f (sw_at q sw)"
proof (induction q arbitrary: sw)
  case (Cons i q)
  then show ?case
    by (cases sw) simp
qed simp

lemma valid_path_snoc: "valid_path (q @ [k]) sw \<longleftrightarrow> valid_path q sw \<and> k < length (sw_switches (sw_at q sw))"
  by (induction q arbitrary: sw) simp_all

text \<open>An update of the child pushed last is an update of what is pushed.\<close>

lemma upd_pushed:
  "valid_path q sw \<Longrightarrow> upd_path (q @ [length (sw_switches (sw_at q sw))]) f (upd_path q (push_switch child) sw)
     = upd_path q (push_switch (f child)) sw"
proof (induction q arbitrary: sw)
  case Nil
  then show ?case
    by (simp add: push_switch_def)
next
  case (Cons i q)
  then show ?case
    by (cases sw) simp
qed

fun sw_count :: "CXLSwitch \<Rightarrow> nat" where
  "sw_count (CXLSwitch s es ws) = Suc (sum_list (map sw_count ws))"

text \<open>A tree fresh from the constructor, its switches numbered from \<open>i\<close> in the order of the walk.\<close>

fun fresh_tree :: "int \<Rightarrow> CXLSwitch \<Rightarrow> bool"
  and fresh_trees :: "int \<Rightarrow> CXLSwitch list \<Rightarrow> bool" where
  "fresh_tree i (CXLSwitch s es ws) \<longleftrightarrow> s = new_switch_data i \<and> fresh_trees (i + 1) ws"
| "fresh_trees i [] \<longleftrightarrow> True"
| "fresh_trees i (w # ws) \<longleftrightarrow> fresh_tree i w \<and> fresh_trees (i + int (sw_count w)) ws"

abbreviation tp_tree :: "topo_state \<Rightarrow> CXLSwitch" where
  "tp_tree st \<equiv> ct_tree (tp_ctrl st)"

definition focused :: "topo_state \<Rightarrow> bool" where
  "focused st \<longleftrightarrow> tp_stk st \<noteq> [] \<and> valid_path (hd (tp_stk st)) (tp_tree st)"

text \<open>A step that keeps the stack and applies \<open>f\<close> to the switch at its top, opening \<open>n\<close> switches.\<close>

definition at_top :: "(topo_state \<Rightarrow> topo_state) \<Rightarrow> (CXLSwitch \<Rightarrow> CXLSwitch) \<Rightarrow> int \<Rightarrow> topo_state \<Rightarrow> bool" where
  "at_top step f n st \<longleftrightarrow> tp_stk (step st) = tp_stk st \<and> tp_tree (step st) = upd_path (hd (tp_stk st)) f (tp_tree st)
     \<and> ct_num_switches (tp_ctrl (step st)) = ct_num_switches (tp_ctrl st) + n \<and> focused (step st)"

lemma at_top_comp:
  "at_top step1 f n st \<Longrightarrow> at_top step2 g m (step1 st) \<Longrightarrow> at_top (step2 \<circ> step1) (g \<circ> f) (n + m) st"
  by (simp add: at_top_def upd_path_upd_path)

lemma at_top_leaf: "focused st \<Longrightarrow> at_top (leaf_effect e) (push_expander e) 0 st"
  using valid_upd_path [of "hd (tp_stk st)" "tp_tree st" "push_expander e"]
  by (auto simp: at_top_def leaf_effect_def focused_def push_expander_def Let_def)

lemma at_top_id: "focused st \<Longrightarrow> at_top (\<lambda>st. st) (\<lambda>sw. sw) 0 st"
  by (simp add: at_top_def upd_path_id)

lemma at_top_leaves: "focused st \<Longrightarrow> at_top (fold leaf_effect es) (push_expanders es) 0 st"
proof (induction es arbitrary: st)
  case Nil
  then show ?case
    using at_top_id by (simp add: push_expanders_def id_def)
next
  case (Cons e es)
  note 1 = at_top_leaf [OF Cons.prems, of e]
  then have "focused (leaf_effect e st)"
    by (simp add: at_top_def)
  from at_top_comp [OF 1 Cons.IH [OF this]] show ?case
    by (simp add: push_expanders_def push_expander_def comp_def)
qed

lemma at_top_trees:
  assumes "\<And>w st. w \<in> set ws \<Longrightarrow> focused st \<Longrightarrow> fresh_tree (ct_num_switches (tp_ctrl st)) w \<Longrightarrow>
      at_top (tree_effect w) (push_switch w) (int (sw_count w)) st"
    and "focused st" "fresh_trees (ct_num_switches (tp_ctrl st)) ws"
  shows "at_top (fold tree_effect ws) (push_switches ws) (int (sum_list (map sw_count ws))) st"
  using assms
proof (induction ws arbitrary: st)
  case Nil
  then show ?case
    using at_top_id by (simp add: push_switches_def id_def)
next
  case (Cons w ws)
  have 1: "at_top (tree_effect w) (push_switch w) (int (sw_count w)) st"
    using Cons.prems by simp
  then have "focused (tree_effect w st)" "fresh_trees (ct_num_switches (tp_ctrl (tree_effect w st))) ws"
    using Cons.prems(3) by (simp_all add: at_top_def)
  from at_top_comp [OF 1 Cons.IH [OF Cons.prems(1) this]] show ?case
    by (simp add: push_switches_def push_switch_def comp_def)
qed

lemma at_top_tree:
  "focused st \<Longrightarrow> fresh_tree (ct_num_switches (tp_ctrl st)) sw \<Longrightarrow>
     at_top (tree_effect sw) (push_switch sw) (int (sw_count sw)) st"
proof (induction sw arbitrary: st)
  case (CXLSwitch s es ws)
  let ?q = "hd (tp_stk st)" and ?i = "ct_num_switches (tp_ctrl st)"
  let ?k = "length (sw_switches (sw_at ?q (tp_tree st)))"
  let ?st1 = "open_switch ?q st"
  have valid: "valid_path ?q (tp_tree st)"
    using CXLSwitch.prems(1) by (simp add: focused_def)
  have open1: "tp_stk ?st1 = (?q @ [?k]) # tp_stk st" "tp_tree ?st1 = upd_path ?q (push_switch (new_CXLSwitch ?i)) (tp_tree st)"
      "ct_num_switches (tp_ctrl ?st1) = ?i + 1"
    by (simp_all add: open_switch_def Let_def)
  have pushed: "valid_path ?q (upd_path ?q (push_switch x) (tp_tree st))"
      "sw_at ?q (upd_path ?q (push_switch x) (tp_tree st)) = push_switch x (sw_at ?q (tp_tree st))" for x
    using valid_upd_path [OF valid, of "push_switch x"] by (simp_all add: push_switch_def)
  then have "focused ?st1"
    by (simp add: focused_def open1 valid_path_snoc push_switch_def)
  then have leaves: "at_top (fold leaf_effect es) (push_expanders es) 0 ?st1"
    by (rule at_top_leaves)
  then have "focused (fold leaf_effect es ?st1)" "ct_num_switches (tp_ctrl (fold leaf_effect es ?st1)) = ?i + 1"
    by (simp_all add: at_top_def open1)
  then have "at_top (fold tree_effect ws) (push_switches ws) (int (sum_list (map sw_count ws))) (fold leaf_effect es ?st1)"
    using CXLSwitch.IH CXLSwitch.prems(2) by (intro at_top_trees) auto
  from at_top_comp [OF leaves this]
  have all: "at_top (fold tree_effect ws \<circ> fold leaf_effect es) (push_switches ws \<circ> push_expanders es)
      (int (sum_list (map sw_count ws))) ?st1"
    by simp
  let ?st2 = "fold tree_effect ws (fold leaf_effect es ?st1)"
  have built: "(push_switches ws \<circ> push_expanders es) (new_CXLSwitch ?i) = CXLSwitch s es ws"
    using CXLSwitch.prems(2) by (simp add: push_switches_def push_expanders_def new_CXLSwitch_def)
  have "tp_tree ?st2 = upd_path ?q (push_switch (CXLSwitch s es ws)) (tp_tree st)"
    using all upd_pushed [OF valid, of "push_switches ws \<circ> push_expanders es" "new_CXLSwitch ?i"]
    by (simp add: at_top_def open1 built [unfolded comp_def] comp_def)
  moreover have "tp_stk ?st2 = (?q @ [?k]) # tp_stk st"
      "ct_num_switches (tp_ctrl ?st2) = ?i + 1 + int (sum_list (map sw_count ws))"
    using all by (simp_all add: at_top_def open1)
  ultimately show ?case
    using pushed(1) CXLSwitch.prems(1) by (simp add: at_top_def Let_def focused_def)
qed

text \<open>The device map gets the endpoints in the order of the walk.\<close>

definition enter :: "eptr \<Rightarrow> int \<times> (int \<rightharpoonup> eptr) \<Rightarrow> int \<times> (int \<rightharpoonup> eptr)" where
  "enter e d = (case d of (n, m) \<Rightarrow> (n + 1, m(n \<mapsto> e)))"

definition devices :: "topo_state \<Rightarrow> int \<times> (int \<rightharpoonup> eptr)" where
  "devices st = (ct_num_end_points (tp_ctrl st), ct_device_map (tp_ctrl st))"

lemma leaf_devices:
  "devices (fold leaf_effect es st) = fold enter es (devices st)"
  "tp_topology_endpoints (fold leaf_effect es st) = tp_topology_endpoints st + length es"
  by (induction es arbitrary: st) (simp_all add: leaf_effect_def devices_def enter_def Let_def)

lemma tree_devices:
  "devices (tree_effect sw st) = fold enter (sw_endpoints sw) (devices st)
   \<and> tp_topology_endpoints (tree_effect sw st) = tp_topology_endpoints st + length (sw_endpoints sw)"
proof (induction sw arbitrary: st)
  case (CXLSwitch s es ws)
  have "devices (fold tree_effect ws st) = fold enter (concat (map sw_endpoints ws)) (devices st)
     \<and> tp_topology_endpoints (fold tree_effect ws st) = tp_topology_endpoints st + length (concat (map sw_endpoints ws))" for st
    using CXLSwitch by (induction ws arbitrary: st) simp_all
  then show ?case
    using leaf_devices [of es "open_switch (hd (tp_stk st)) st"]
    by (simp add: Let_def) (simp add: devices_def open_switch_def Let_def)
qed

lemma enter_all:
  "fold enter ps (n, m) = (n + int (length ps), \<lambda>i. if n \<le> i \<and> i < n + int (length ps) then Some (ps ! nat (i - n)) else m i)"
proof (induction ps arbitrary: n m)
  case (Cons p ps)
  have "nat (i - n) = Suc (nat (i - (n + 1)))" if "n < i" for i
    using that by linarith
  moreover have "fold enter (p # ps) (n, m) = fold enter ps (n + 1, m(n \<mapsto> p))"
    by (simp add: enter_def)
  ultimately show ?case
    by (auto simp: Cons.IH fun_eq_iff)
qed (auto simp: fun_eq_iff)


text \<open>
  C9: Printing a tree and reading it again is the identity. On a controller without topology, the
  text of any tree fresh from the constructor whose endpoints are configured expanders is accepted,
  and the controller then has that tree: the same nesting, switches numbered in the order of the walk,
  every endpoint in its place and entered under its number in the device map.
\<close>

theorem topology_roundtrip:
  assumes "fresh_tree 0 sw" "set (sw_endpoints sw) \<subseteq> set (ct_cur_expanders c)" "sw_endpoints sw \<noteq> []"
    and "length (ct_cur_expanders c) < 2 ^ 64"
    and "ct_tree c = new_CXLSwitch 0" "ct_num_switches c = 0" "ct_num_end_points c = 0" "ct_device_map c = Map.empty"
  shows "\<exists>c1. construct_topo (newick (ct_cur_expanders c) sw @ '';'') c = (None, c1)
          \<and> ct_tree c1 = sw \<and> ct_num_switches c1 = int (sw_count sw)
          \<and> ct_num_end_points c1 = int (length (sw_endpoints sw))
          \<and> ct_device_map c1 = (\<lambda>i. if 0 \<le> i \<and> i < int (length (sw_endpoints sw)) then Some (sw_endpoints sw ! nat i) else None)"
proof -
  obtain s es ws where sw: "sw = CXLSwitch s es ws"
    by (cases sw)
  let ?cs = "ct_cur_expanders c"
  let ?toks = "map (\<lambda>p. [dec (number_of ?cs p)]) es @ map (newick_tokens ?cs) ws"
  let ?st = "\<lparr>tp_ctrl = c\<lparr>ct_num_switches := 1\<rparr>, tp_stk = [[]], tp_next_named_expander = 0, tp_topology_endpoints = 0\<rparr>"
  let ?st2 = "fold tree_effect ws (fold leaf_effect es ?st)"
  have "reads ?cs (newick_tokens ?cs w) (tree_effect w)" if "w \<in> set ws" for w
    using that assms(2,4) by (intro reads_tree) (auto simp: sw)
  then have "list_all2 (reads ?cs) ?toks (map leaf_effect es @ map tree_effect ws)"
    using assms(2,4) by (intro list_all2_appendI) (auto simp: list_all2_conv_all_nth sw intro!: reads_leaf)
  from reads_join [OF this] have st2: "parsing ?cs ?st2" "tp_stk ?st2 = [[]]"
    and run: "\<And>t rest. t \<noteq> '':'' \<Longrightarrow> topo_loop (join ['',''] ?toks @ t # rest) ?st = topo_loop (t # rest) ?st2"
    unfolding reads_def fold_effects by (auto simp: parsing_def)
  have "tokenize (newick ?cs sw @ '';'') = newick_tokens ?cs sw @ ['';'']"
    using splits_newick [of ?cs sw] tokenize_delim [of "CHR '';''" "[]"]
    by (simp add: splits_def is_delim_def) (simp add: tokenize_def)
  then have "topo_loop (tokenize (newick ?cs sw @ '';''))
      \<lparr>tp_ctrl = c, tp_stk = [[]], tp_next_named_expander = 0, tp_topology_endpoints = 0\<rparr>
      = topo_loop (join ['',''] ?toks @ ['')'', '';'']) ?st"
    using assms(6) by (simp add: sw topo_loop.simps(2) [of "''(''"])
  also have "\<dots> = (None, ?st2\<lparr>tp_stk := []\<rparr>)"
    using run [of "'')''" "['';'']"] st2(2) by (simp add: topo_loop.simps)
  finally have loop: "topo_loop (tokenize (newick ?cs sw @ '';''))
      \<lparr>tp_ctrl = c, tp_stk = [[]], tp_next_named_expander = 0, tp_topology_endpoints = 0\<rparr> = (None, ?st2\<lparr>tp_stk := []\<rparr>)" .
  have foc: "focused ?st"
    by (simp add: focused_def)
  note leaves = at_top_leaves [OF foc, of es]
  then have "focused (fold leaf_effect es ?st)" "ct_num_switches (tp_ctrl (fold leaf_effect es ?st)) = 1"
    by (simp_all add: at_top_def)
  then have "at_top (fold tree_effect ws) (push_switches ws) (int (sum_list (map sw_count ws))) (fold leaf_effect es ?st)"
    using assms(1) by (intro at_top_trees at_top_tree) (auto simp: sw)
  from at_top_comp [OF leaves this]
  have tree: "tp_tree ?st2 = sw" "ct_num_switches (tp_ctrl ?st2) = int (sw_count sw)"
    using assms(1,5) by (simp_all add: at_top_def sw push_switches_def push_expanders_def new_CXLSwitch_def)
  have "devices (fold tree_effect ws st) = fold enter (concat (map sw_endpoints ws)) (devices st)
     \<and> tp_topology_endpoints (fold tree_effect ws st) = tp_topology_endpoints st + length (concat (map sw_endpoints ws))" for st
    by (induction ws arbitrary: st) (simp_all add: tree_devices)
  then have "devices ?st2 = fold enter (sw_endpoints sw) (devices ?st)"
    and ends: "tp_topology_endpoints ?st2 = length (sw_endpoints sw)"
    by (simp_all add: leaf_devices sw)
  then have "ct_num_end_points (tp_ctrl ?st2) = int (length (sw_endpoints sw))"
    and "ct_device_map (tp_ctrl ?st2)
      = (\<lambda>i. if 0 \<le> i \<and> i < int (length (sw_endpoints sw)) then Some (sw_endpoints sw ! nat i) else None)"
    using assms(7,8) by (simp_all add: devices_def enter_all cong: if_cong)
  then show ?thesis
    using tree loop ends assms(3) by (simp add: construct_topo_def)
qed

definition three_expanders :: CXLController where
  "three_expanders = fold insert_end_point
     [new_CXLMemExpander 20 20 100 100 0 16, new_CXLMemExpander 20 20 200 200 1 16, new_CXLMemExpander 20 20 300 300 2 16]
     (new_CXLController 4 PAGE 100)"

definition two_level_tree :: CXLSwitch where
  "two_level_tree = CXLSwitch (new_switch_data 0) [0] [CXLSwitch (new_switch_data 1) [2, 1] []]"

lemma three_expanders_facts:
  "ct_cur_expanders three_expanders = [0, 1, 2]" "ct_tree three_expanders = new_CXLSwitch 0"
  "ct_num_switches three_expanders = 0" "ct_num_end_points three_expanders = 0"
  "ct_device_map three_expanders = Map.empty"
  by (simp_all add: three_expanders_def insert_end_point_def new_CXLController_def)

lemma two_level_text: "newick [0, 1, 2] two_level_tree = ''(1,(3,2))''"
  by (simp add: two_level_tree_def number_of_def dec.simps numeral_eq_Suc) code_simp

theorem topology_roundtrip_witness:
  "\<exists>c1. construct_topo ''(1,(3,2));'' three_expanders = (None, c1) \<and> ct_tree c1 = two_level_tree
      \<and> ct_num_switches c1 = 2 \<and> ct_device_map c1 1 = Some 2"
proof -
  have "fresh_tree 0 two_level_tree" "sw_endpoints two_level_tree = [0, 2, 1]" "sw_count two_level_tree = 2"
    by (simp_all add: two_level_tree_def)
  then show ?thesis
    using topology_roundtrip [of two_level_tree three_expanders] by (auto simp: three_expanders_facts two_level_text [simplified])
qed

text \<open>
  What the parser also accepts: a list that is never closed, and a remote endpoint inside a child
  switch, which then hangs both there and at the root.
\<close>

lemma unclosed_topology_accepted:
  "fst (construct_topo ''((1,2'' three_expanders) = None"
proof -
  have "tokenize ''((1,2'' = [''('', ''('', ''1'', '','', ''2'']"
    by code_simp
  moreover have "parse_size_token ''1'' = Some 1" "parse_size_token ''2'' = Some 2"
    by (simp_all add: parse_size_token_def from_chars_def is_digit_def decimal_value_def)
  ultimately show ?thesis
    by (simp add: construct_topo_def topo_loop.simps add_local_expander_def open_switch_def three_expanders_facts)
qed

lemma nested_remote_hangs_twice:
  "sw_endpoints (ct_tree (snd (construct_topo ''(1,(R:7:0));'' three_expanders))) = [0, 3, 3]"
proof -
  have "tokenize ''(1,(R:7:0));'' = [''('', ''1'', '','', ''('', ''R'', '':'', ''7'', '':'', ''0'', '')'', '')'', '';'']"
    by code_simp
  moreover have "parse_size_token ''1'' = Some 1" "parse_size_token ''7'' = Some 7"
    by (simp_all add: parse_size_token_def from_chars_def is_digit_def decimal_value_def)
  moreover have "length (ct_heap three_expanders) = 3"
    by (simp add: three_expanders_def insert_end_point_def new_CXLController_def)
  ultimately show ?thesis
    by (simp add: construct_topo_def topo_loop.simps add_local_expander_def open_switch_def three_expanders_facts
        add_topology_remote_def add_remote_endpoint_def new_RemoteCXLExpander_def new_CXLSwitch_def push_expander_def
        push_switch_def Let_def)
qed

end
