(* ===== verification/Controller.thy ===== *)
theory Controller
  imports Policies Topology
begin

text \<open>
  The access path of \<open>CXLController\<close> (src/src/cxlcontroller.cpp): the two \<open>insert\<close> functions,
  \<open>insert_one\<close>, \<open>record_cxl_access\<close>, \<open>perform_migration\<close> and \<open>perform_back_invalidation\<close>. The
  controller and its four policies are separate objects; a policy pointer may be null. What the code
  leaves undefined - a call through a null pointer, the front of an empty queue - is the outcome
  \<^const>\<open>None\<close>, as is a loop that never ends inside a policy.

  \<open>request_counter\<close> is a static variable of \<open>insert\<close>, kept with the controller. The counter of the
  controller hides the one of the root switch, so \<open>insert\<close> counts in \<open>ct_counter\<close> alone.

  Shown: \<open>insert\<close> classifies every access once as cached, local or remote; migration policies never
  change anything but themselves; back invalidation removes exactly the addresses it names; the
  reorder window of a single thread is accounted exactly, and with two threads it breaks.
\<close>

record policies =
  po_allocation :: "AllocationPolicy option"
  po_migration :: "MigrationPolicy option"
  po_paging :: "PagingPolicy option"
  po_caching :: "CachingPolicy option"

type_synonym system = "CXLController \<times> policies"


section \<open>Counters, threads and the cache\<close>

definition inc_local :: "CXLController \<Rightarrow> CXLController" where
  "inc_local c = c\<lparr>ct_counter := (ct_counter c)\<lparr>cc_local := cc_local (ct_counter c) + 1\<rparr>\<rparr>"

definition inc_remote :: "CXLController \<Rightarrow> CXLController" where
  "inc_remote c = c\<lparr>ct_counter := (ct_counter c)\<lparr>cc_remote := cc_remote (ct_counter c) + 1\<rparr>\<rparr>"

definition inc_hitm :: "CXLController \<Rightarrow> CXLController" where
  "inc_hitm c = c\<lparr>ct_counter := (ct_counter c)\<lparr>cc_hitm := cc_hitm (ct_counter c) + 1\<rparr>\<rparr>"

definition inc_backinv :: "nat \<Rightarrow> CXLController \<Rightarrow> CXLController" where
  "inc_backinv n c = c\<lparr>ct_counter := (ct_counter c)\<lparr>cc_backinv := cc_backinv (ct_counter c) + of_nat n\<rparr>\<rparr>"

text \<open>\<open>thread_map[tid]\<close> creates the entry of a new thread.\<close>

definition thread_of :: "u64 \<Rightarrow> CXLController \<Rightarrow> thread_info" where
  "thread_of tid c = (case ct_thread_map c tid of None \<Rightarrow> new_thread_info | Some t \<Rightarrow> t)"

definition set_thread :: "u64 \<Rightarrow> thread_info \<Rightarrow> CXLController \<Rightarrow> CXLController" where
  "set_thread tid t c = c\<lparr>ct_thread_map := (ct_thread_map c)(tid \<mapsto> t)\<rparr>"

definition push_llcm :: "u64 \<Rightarrow> int \<Rightarrow> CXLController \<Rightarrow> CXLController" where
  "push_llcm tid k c = (let t = thread_of tid c in set_thread tid (t\<lparr>ti_llcm_type := ti_llcm_type t @ [k]\<rparr>) c)"

definition access_cache :: "u64 \<Rightarrow> u64 \<Rightarrow> CXLController \<Rightarrow> (u64 option \<times> CXLController) option" where
  "access_cache addr timestamp c =
     map_option (\<lambda>(r, l). (r, c\<lparr>ct_lru_cache := l\<rparr>)) (lru_get addr timestamp (ct_lru_cache c))"

definition update_cache :: "u64 \<Rightarrow> u64 \<Rightarrow> u64 \<Rightarrow> CXLController \<Rightarrow> CXLController option" where
  "update_cache addr val timestamp c =
     map_option (\<lambda>l. c\<lparr>ct_lru_cache := l\<rparr>) (lru_put addr val timestamp (ct_lru_cache c))"

definition get_remote_expander :: "u32 \<Rightarrow> CXLController \<Rightarrow> eptr option" where
  "get_remote_expander node_id c =
     find (\<lambda>p. rx_remote_node_id (ep_remote (ct_heap c ! p)) = node_id) (ct_remote_expanders c)"


section \<open>One access\<close>

text \<open>The page table walk of the paging policy, if there is one, and its latency.\<close>

definition charge_walk :: "u64 \<Rightarrow> u64 \<Rightarrow> bool \<Rightarrow> system \<Rightarrow> (u64 \<times> system) option" where
  "charge_walk virt_addr phys_addr is_remote s = (case s of (c, po) \<Rightarrow>
     (case po_paging po of
        None \<Rightarrow> Some (0, c, po)
      | Some pp \<Rightarrow>
          map_option (\<lambda>(ptw, pp1).
              (ptw, if 0 < ptw then c\<lparr>ct_latency_lat := ct_latency_lat c + double_of_u64 ptw\<rparr> else c,
               po\<lparr>po_paging := Some pp1\<rparr>))
            (check_page_table_walk virt_addr phys_addr is_remote (ct_page_type c) pp)))"

definition cache_if_allowed :: "u64 \<Rightarrow> u64 \<Rightarrow> CachingPolicy \<Rightarrow> system \<Rightarrow> system option" where
  "cache_if_allowed addr timestamp cp s = (case s of (c, po) \<Rightarrow>
     let (allowed, cp1) = should_cache addr cp; po1 = po\<lparr>po_caching := Some cp1\<rparr> in
     if allowed then map_option (\<lambda>c1. (c1, po1)) (update_cache addr addr timestamp c) else Some (c, po1))"

text \<open>\<open>p->insert(timestamp, tid, phys_addr, virt_addr, p->id)\<close>\<close>

definition insert_into :: "eptr \<Rightarrow> u64 \<Rightarrow> u64 \<Rightarrow> u64 \<Rightarrow> CXLController \<Rightarrow> CXLController" where
  "insert_into p timestamp tid phys_addr c =
     c\<lparr>ct_fabric := snd (at_ep p (ep_insert timestamp tid phys_addr (ex_id (ct_exp c p))) (ct_fabric c))\<rparr>"

text \<open>
  A local entry: the initialiser \<open>{phys_addr, 1, timestamp}\<close> gives the members in the order of the
  declaration, timestamp, address, access count.
\<close>

definition occupy :: "u64 \<Rightarrow> u64 \<Rightarrow> u64 \<Rightarrow> CXLController \<Rightarrow> CXLController" where
  "occupy timestamp phys_addr third c = c\<lparr>ct_occupation := occ_emplace timestamp
     \<lparr>occ_timestamp = phys_addr, occ_address = 1, occ_access_count = third\<rparr> (ct_occupation c)\<rparr>"

text \<open>The path through the HDM decoder; a target identifier is looked up as \<open>int\<close>.\<close>

definition insert_decoded :: "HDMDecoder \<Rightarrow> u64 \<Rightarrow> u64 \<Rightarrow> u64 \<Rightarrow> u64 \<Rightarrow> system \<Rightarrow> system option" where
  "insert_decoded hdm timestamp tid phys_addr virt_addr s =
     (let d = decode hdm phys_addr in
      Option.bind (charge_walk virt_addr phys_addr (res_is_remote d) s) (\<lambda>(ptw, c, po).
        let c1 = (if res_is_remote d then
                    push_llcm tid 1 (inc_remote (case get_remote_expander (res_target_id d) c of
                        None \<Rightarrow> c
                      | Some p \<Rightarrow> insert_into p (timestamp + ptw) tid phys_addr c))
                  else
                    push_llcm tid 0 (inc_local (case ct_device_map c (sint (res_target_id d)) of
                        None \<Rightarrow> occupy timestamp phys_addr (timestamp + ptw) c
                      | Some p \<Rightarrow> insert_into p (timestamp + ptw) tid phys_addr c))) in
        case po_caching po of
          None \<Rightarrow> Some (c1, po)
        | Some cp \<Rightarrow> cache_if_allowed phys_addr timestamp cp (c1, po)))"

fun offer_switches :: "(endpoint \<Rightarrow> int \<times> endpoint) \<Rightarrow> CXLSwitch list \<Rightarrow> fabric \<Rightarrow> int list \<times> CXLSwitch list \<times> fabric" where
  "offer_switches f [] w = ([], [], w)"
| "offer_switches f (sw # sws) w =
     (let (r, sw1, w1) = sw_offer f sw w; (rs, sws1, w2) = offer_switches f sws w1 in (r # rs, sw1 # sws1, w2))"

fun offer_expanders :: "(endpoint \<Rightarrow> int \<times> endpoint) \<Rightarrow> eptr list \<Rightarrow> fabric \<Rightarrow> int list \<times> fabric" where
  "offer_expanders f [] w = ([], w)"
| "offer_expanders f (p # ps) w =
     (let (r, w1) = at_ep p f w; (rs, w2) = offer_expanders f ps w1 in (r # rs, w2))"

text \<open>
  The access goes to every child switch and every expander of the root, and \<open>res &= ...\<close> keeps
  the lowest bit of every answer: 1 for a store, but not 2 for a load.
\<close>

definition insert_tree :: "u64 \<Rightarrow> u64 \<Rightarrow> u64 \<Rightarrow> int \<Rightarrow> bool \<Rightarrow> CXLController \<Rightarrow> bool \<times> CXLController" where
  "insert_tree timestamp tid phys_addr index res c =
     (let f = ep_insert timestamp tid phys_addr index;
          (rs, sws, w) = offer_switches f (sw_switches (ct_tree c)) (ct_fabric c);
          (rs2, w2) = offer_expanders f (sw_expanders (ct_tree c)) w in
      (res \<and> list_all odd (rs @ rs2),
       c\<lparr>ct_tree := CXLSwitch (sw_data (ct_tree c)) (sw_expanders (ct_tree c)) sws, ct_fabric := w2\<rparr>))"

text \<open>The placement, once the allocation policy has decided: -1 is local memory.\<close>

definition place_access :: "u64 \<Rightarrow> u64 \<Rightarrow> u64 \<Rightarrow> int \<Rightarrow> bool \<Rightarrow> u64 \<Rightarrow> system \<Rightarrow> (bool \<times> system) option" where
  "place_access timestamp tid phys_addr numa_policy res ptw s = (case s of (c, po) \<Rightarrow>
     if numa_policy = - 1 then
       map_option (\<lambda>c1. (res, c1, po))
         (update_cache phys_addr phys_addr timestamp
           (push_llcm tid 0 (inc_local (occupy timestamp phys_addr (timestamp + ptw) c))))
     else
       let (res1, c1) = insert_tree (timestamp + ptw) tid phys_addr numa_policy res (inc_remote c) in
       Option.bind (po_caching po) (\<lambda>cp.
         map_option (\<lambda>s1. (res1, s1)) (cache_if_allowed phys_addr timestamp cp (push_llcm tid 1 c1, po))))"

definition insert_allocated :: "u64 \<Rightarrow> u64 \<Rightarrow> u64 \<Rightarrow> u64 \<Rightarrow> bool \<Rightarrow> system \<Rightarrow> (bool \<times> system) option" where
  "insert_allocated timestamp tid phys_addr virt_addr res s = (case s of (c, po) \<Rightarrow>
     Option.bind (po_allocation po) (\<lambda>ap.
     Option.bind (alloc_compute_once c ap) (\<lambda>(numa_policy, ap1).
     Option.bind (charge_walk virt_addr phys_addr (numa_policy \<noteq> - 1) (c, po\<lparr>po_allocation := Some ap1\<rparr>)) (\<lambda>(ptw, s1).
       place_access timestamp tid phys_addr numa_policy res ptw s1))))"

definition insert_step :: "u64 \<Rightarrow> u64 \<Rightarrow> u64 \<Rightarrow> u64 \<Rightarrow> bool \<Rightarrow> system \<Rightarrow> (bool \<times> system) option" where
  "insert_step timestamp tid phys_addr virt_addr res s = (case s of (c, po) \<Rightarrow>
     Option.bind (access_cache phys_addr timestamp c) (\<lambda>(hit, c1).
       if hit \<noteq> None then Some (res, push_llcm tid 0 (inc_hitm c1), po)
       else
         case ct_hdm_decoder c1 of
           Some hdm \<Rightarrow> map_option (\<lambda>s1. (res, s1)) (insert_decoded hdm timestamp tid phys_addr virt_addr (c1, po))
         | None \<Rightarrow> insert_allocated timestamp tid phys_addr virt_addr res (c1, po)))"

fun insert_loop :: "nat \<Rightarrow> u64 \<Rightarrow> u64 \<Rightarrow> u64 \<Rightarrow> u64 \<Rightarrow> u64 \<Rightarrow> bool \<Rightarrow> system \<Rightarrow> (bool \<times> system) option" where
  "insert_loop 0 time_step current tid phys_addr virt_addr res s = Some (res, s)"
| "insert_loop (Suc n) time_step current tid phys_addr virt_addr res s =
     Option.bind (insert_step (current + time_step) tid phys_addr virt_addr res s) (\<lambda>(res1, s1).
       insert_loop n time_step (current + time_step) tid phys_addr virt_addr res1 s1)"


section \<open>Migration and back invalidation\<close>

definition holds :: "CXLController \<Rightarrow> u64 \<Rightarrow> eptr \<Rightarrow> bool" where
  "holds c addr p \<longleftrightarrow> addr \<in> occ_address ` set (ex_occupation (ct_exp c p))"

definition on_heap :: "eptr \<Rightarrow> (CXLMemExpander \<Rightarrow> CXLMemExpander) \<Rightarrow> CXLController \<Rightarrow> CXLController" where
  "on_heap p f c = c\<lparr>ct_fabric := (ct_fabric c)\<lparr>fa_heap := (ct_heap c)[p := upd_exp f (ct_heap c ! p)]\<rparr>\<rparr>"

definition migrate_in :: "occupation_info \<Rightarrow> CXLMemExpander \<Rightarrow> CXLMemExpander" where
  "migrate_in info x = x\<lparr>ex_occupation := ex_occupation x @ [info],
     ex_counter := (ex_counter x)\<lparr>ev_migrate_in := ev_migrate_in (ex_counter x) + 1\<rparr>\<rparr>"

definition migrate_out :: "u64 \<Rightarrow> CXLMemExpander \<Rightarrow> CXLMemExpander" where
  "migrate_out addr x = x\<lparr>ex_occupation := erase_first addr (ex_occupation x),
     ex_counter := (ex_counter x)\<lparr>ev_migrate_out := ev_migrate_out (ex_counter x) + 1\<rparr>\<rparr>"

definition migrate_one :: "u64 \<Rightarrow> CXLController \<Rightarrow> CXLController" where
  "migrate_one addr c =
     (case find (\<lambda>(t, info). occ_address info = addr) (ct_occupation c) of
        Some entry \<Rightarrow>
          (case sw_expanders (ct_tree c) of
             [] \<Rightarrow> c
           | dst # _ \<Rightarrow> on_heap dst (migrate_in (snd entry)) (c\<lparr>ct_occupation := remove1 entry (ct_occupation c)\<rparr>))
      | None \<Rightarrow>
          (case find (holds c addr) (sw_expanders (ct_tree c) @ sw_endpoints (ct_tree c)) of
             None \<Rightarrow> c
           | Some src \<Rightarrow>
               (case find (\<lambda>info. occ_address info = addr) (ex_occupation (ct_exp c src)) of
                  None \<Rightarrow> c
                | Some info \<Rightarrow> on_heap src (migrate_out addr)
                    (c\<lparr>ct_occupation := occ_emplace (ct_last_timestamp c) info (ct_occupation c)\<rparr>))))"

definition perform_migration :: "MigrationPolicy option \<Rightarrow> CXLController \<Rightarrow> CXLController" where
  "perform_migration mp c = (case mp of
       None \<Rightarrow> c
     | Some p \<Rightarrow> fold (\<lambda>(addr, len). migrate_one addr) (base_get_migration_list c p) c)"

definition invalidate_endpoint :: "u64 \<Rightarrow> eptr \<Rightarrow> CXLController \<Rightarrow> CXLController" where
  "invalidate_endpoint addr p c =
     (let gone = filter (\<lambda>info. occ_address info = addr) (ex_occupation (ct_exp c p)) in
      inc_backinv (length gone)
        (on_heap p (\<lambda>x. x\<lparr>ex_occupation := filter (\<lambda>info. occ_address info \<noteq> addr) (ex_occupation x)\<rparr>) c))"

fun invalidate_in_switch :: "u64 \<Rightarrow> CXLSwitch \<Rightarrow> CXLController \<Rightarrow> CXLController" where
  "invalidate_in_switch addr (CXLSwitch s es ws) c =
     fold (invalidate_in_switch addr) ws (fold (invalidate_endpoint addr) es c)"

definition invalidate_in_expanders :: "u64 \<Rightarrow> CXLController \<Rightarrow> CXLController" where
  "invalidate_in_expanders addr c =
     fold (invalidate_in_switch addr) (sw_switches (ct_tree c))
       (fold (invalidate_endpoint addr) (sw_expanders (ct_tree c)) c)"

definition invalidate_address :: "u64 \<Rightarrow> CXLController \<Rightarrow> CXLController option" where
  "invalidate_address addr c =
     map_option (\<lambda>(removed, l).
         invalidate_in_expanders addr (inc_backinv (if removed then 1 else 0) (c\<lparr>ct_lru_cache := l\<rparr>)))
       (lru_remove addr (ct_lru_cache c))"

fun invalidate_all :: "u64 list \<Rightarrow> CXLController \<Rightarrow> CXLController option" where
  "invalidate_all [] c = Some c"
| "invalidate_all (addr # addrs) c = Option.bind (invalidate_address addr c) (invalidate_all addrs)"

definition perform_back_invalidation :: "system \<Rightarrow> system option" where
  "perform_back_invalidation s = (case s of (c, po) \<Rightarrow>
     (case po_caching po of
        None \<Rightarrow> Some (c, po)
      | Some cp \<Rightarrow>
          let (addrs, cp1) = get_invalidation_list c cp in
          map_option (\<lambda>c1. (c1, po\<lparr>po_caching := Some cp1\<rparr>)) (invalidate_all addrs c)))"


section \<open>insert\<close>

definition run_migration :: "system \<Rightarrow> system" where
  "run_migration s = (case s of (c, po) \<Rightarrow>
     (case po_migration po of
        None \<Rightarrow> (c, po)
      | Some mp \<Rightarrow>
          let (r, mp1) = mig_compute_once c mp in
          (if 0 < r then perform_migration (Some mp1) c else c, po\<lparr>po_migration := Some mp1\<rparr>)))"

definition run_caching :: "system \<Rightarrow> system option" where
  "run_caching s = (case s of (c, po) \<Rightarrow>
     (case po_caching po of
        None \<Rightarrow> Some (c, po)
      | Some cp \<Rightarrow>
          Option.bind (cache_compute_once c cp) (\<lambda>(r, c1, cp1).
            let s1 = (c1, po\<lparr>po_caching := Some cp1\<rparr>) in
            if 0 < r then perform_back_invalidation s1 else Some s1)))"

definition every_thousand :: "int \<Rightarrow> system \<Rightarrow> system option" where
  "every_thousand n s = (case s of (c, po) \<Rightarrow>
     let request_counter = ct_request_counter c + n in
     if 1000 \<le> request_counter then
       map_option (\<lambda>(c1, po1). (c1\<lparr>ct_request_counter := 0\<rparr>, po1)) (run_caching (run_migration (c, po)))
     else Some (c\<lparr>ct_request_counter := request_counter\<rparr>, po))"

definition set_last_timestamp :: "u64 \<Rightarrow> CXLController \<Rightarrow> CXLController" where
  "set_last_timestamp timestamp c = c\<lparr>ct_tree := CXLSwitch ((sw_data (ct_tree c))\<lparr>sw_last_timestamp := timestamp\<rparr>)
     (sw_expanders (ct_tree c)) (sw_switches (ct_tree c))\<rparr>"

definition ct_insert :: "u64 \<Rightarrow> u64 \<Rightarrow> u64 \<Rightarrow> u64 \<Rightarrow> int \<Rightarrow> system \<Rightarrow> (bool \<times> system) option" where
  "ct_insert timestamp tid phys_addr virt_addr index s = (case s of (c0, po) \<Rightarrow>
     let c = set_thread tid (thread_of tid c0) c0;
         n = index - ct_last_index c;
         time_step = (if 0 < n then (timestamp - ct_last_timestamp c) div word_of_int n else 0) in
     Option.bind (insert_loop (nat n) time_step (ct_last_timestamp c) tid phys_addr virt_addr True (c, po)) (\<lambda>(res, s1).
       map_option (\<lambda>(c2, po2).
           (res, set_last_timestamp timestamp
                   (c2\<lparr>ct_last_index := (if 0 < index then index else ct_last_index c2)\<rparr>), po2))
         (every_thousand n s1)))"

definition record_cxl_access :: "u64 \<Rightarrow> u64 \<Rightarrow> u64 \<Rightarrow> bool \<Rightarrow> CXLController \<Rightarrow> CXLController" where
  "record_cxl_access timestamp tid addr is_write c0 =
     (let c = inc_remote c0;
          endpoint_id = (case ct_cur_expanders c of [] \<Rightarrow> 0 | p # _ \<Rightarrow> ex_id (ct_exp c p));
          (ret, tree, w) = sw_record_access timestamp tid addr endpoint_id is_write (ct_tree c) (ct_fabric c);
          c1 = c\<lparr>ct_tree := tree, ct_fabric := w\<rparr> in
      if ret = 0 then
        (case find (\<lambda>p. ex_id (ct_exp c1 p) = endpoint_id) (ct_cur_expanders c1) of
           None \<Rightarrow> c1
         | Some p \<Rightarrow> c1\<lparr>ct_fabric := snd (at_ep p (ep_record_access timestamp tid addr endpoint_id is_write) (ct_fabric c1))\<rparr>)
      else c1)"


section \<open>Branch records and the reorder window\<close>

definition lbr_llcm_count :: "lbr \<Rightarrow> nat" where
  "lbr_llcm_count l = unat (and (lbr_flags l) 3)"

definition lbr_ins_count :: "lbr \<Rightarrow> nat" where
  "lbr_ins_count l = unat (drop_bit 16 (and (lbr_flags l) 0xfffffff0000))"

definition count_type :: "int \<Rightarrow> int \<Rightarrow> rob_info \<Rightarrow> rob_info" where
  "count_type k n rob = rob\<lparr>rob_m_count := (rob_m_count rob)(k \<mapsto> (case rob_m_count rob k of None \<Rightarrow> n | Some m \<Rightarrow> m + n))\<rparr>"

text \<open>One miss enters the window: its kind is the oldest one recorded by \<open>insert\<close>, or local.\<close>

definition enter_miss :: "thread_info \<Rightarrow> thread_info" where
  "enter_miss t =
     (let kinds = (if ti_llcm_type t = [] then [0] else ti_llcm_type t) in
      t\<lparr>ti_rob := count_type (hd kinds) 1 (ti_rob t), ti_llcm_type_rob := ti_llcm_type_rob t @ [hd kinds],
        ti_llcm_type := tl kinds\<rparr>)"

definition leave_miss :: "thread_info \<Rightarrow> thread_info option" where
  "leave_miss t = (case ti_llcm_type_rob t of
       [] \<Rightarrow> None
     | k # ks \<Rightarrow> Some (t\<lparr>ti_rob := count_type k (- 1) (ti_rob t), ti_llcm_type_rob := ks\<rparr>))"

fun leave_misses :: "nat \<Rightarrow> thread_info \<Rightarrow> thread_info option" where
  "leave_misses 0 t = Some t"
| "leave_misses (Suc n) t = Option.bind (leave_miss t) (leave_misses n)"

definition add_counts :: "int \<Rightarrow> int \<Rightarrow> rob_info \<Rightarrow> rob_info" where
  "add_counts llcm ins rob = rob\<lparr>rob_llcm_count := rob_llcm_count rob + llcm, rob_ins_count := rob_ins_count rob + ins\<rparr>"

fun retire :: "lbr list \<Rightarrow> thread_info \<Rightarrow> (lbr list \<times> thread_info) option" where
  "retire ring t =
     (if rob_ins_count (ti_rob t) \<le> ROB_SIZE then Some (ring, t)
      else case ring of
        [] \<Rightarrow> None
      | old # rest \<Rightarrow>
          let n = lbr_llcm_count old;
              rob = add_counts (- int n) (- int (lbr_ins_count old)) (ti_rob t) in
          Option.bind (leave_misses n (t\<lparr>ti_rob := rob\<lparr>rob_llcm_base := rob_llcm_base rob + int n\<rparr>\<rparr>)) (retire rest))"

declare retire.simps [simp del]

definition insert_one :: "lbr \<Rightarrow> lbr list \<times> thread_info \<Rightarrow> (lbr list \<times> thread_info) option" where
  "insert_one l rt = (case rt of (ring, t) \<Rightarrow>
     let t1 = (enter_miss ^^ lbr_llcm_count l) t;
         t2 = t1\<lparr>ti_rob := add_counts (int (lbr_llcm_count l)) (int (lbr_ins_count l)) (ti_rob t1)\<rparr> in
     retire (ring @ [l]) t2)"

text \<open>At most 32 records, up to the first with a null source.\<close>

fun insert_each :: "lbr list \<Rightarrow> lbr list \<times> thread_info \<Rightarrow> (lbr list \<times> thread_info) option" where
  "insert_each [] rt = Some rt"
| "insert_each (l # ls) rt = Option.bind (insert_one l rt) (insert_each ls)"

definition insert_records :: "u64 \<Rightarrow> lbr list \<Rightarrow> CXLController \<Rightarrow> CXLController option" where
  "insert_records tid lbrs c =
     map_option (\<lambda>(ring, t). set_thread tid t (c\<lparr>ct_ring_buffer := ring\<rparr>))
       (insert_each (takeWhile (\<lambda>l. lbr_from l \<noteq> 0) (take 32 lbrs)) (ct_ring_buffer c, thread_of tid c))"

fun rob_latencies :: "eptr list \<Rightarrow> accesses \<Rightarrow> rob_info \<Rightarrow> double \<Rightarrow> fabric \<Rightarrow> double \<times> fabric" where
  "rob_latencies [] elem rob dram w = (0, w)"
| "rob_latencies (p # ps) elem rob dram w =
     (let (a, w1) = get_endpoint_rob_latency p elem rob dram w; (b, w2) = rob_latencies ps elem rob dram w1 in (a + b, w2))"

definition insert_lbr :: "u64 \<Rightarrow> u64 \<Rightarrow> lbr list \<Rightarrow> CXLController \<Rightarrow> CXLController option" where
  "insert_lbr timestamp tid lbrs c0 =
     map_option (\<lambda>c.
         let (all_access, w1) = sw_get_access timestamp (ct_tree c) (ct_fabric c);
             (total_latency, w2) = rob_latencies (sw_endpoints (ct_tree c)) all_access (ti_rob (thread_of tid c)) (ct_dramlatency c) w1;
             ((congestion, times), tree) = sw_calculate_congestion (ct_tree c) w2;
             (bw, w3) = sw_calculate_bandwidth all_access tree w2 in
         c\<lparr>ct_tree := tree, ct_fabric := w3,
           ct_latency_lat := ct_latency_lat c + max (total_latency + congestion) 0,
           ct_bandwidth_lat := ct_bandwidth_lat c + max bw 0\<rparr>)
       (insert_records tid lbrs c0)"

definition ct_get_access :: "u64 \<Rightarrow> CXLController \<Rightarrow> accesses \<times> CXLController" where
  "ct_get_access timestamp c =
     (let (elem, w) = sw_get_access timestamp (ct_tree c) (ct_fabric c) in (elem, c\<lparr>ct_fabric := w\<rparr>))"

definition ct_calculate_latency :: "accesses \<Rightarrow> double \<Rightarrow> CXLController \<Rightarrow> (double \<times> CXLController) option" where
  "ct_calculate_latency elem dram c =
     map_option (\<lambda>(lat, w). (lat, c\<lparr>ct_fabric := w\<rparr>)) (sw_calculate_latency elem dram (ct_tree c) (ct_fabric c))"

definition ct_calculate_bandwidth :: "accesses \<Rightarrow> CXLController \<Rightarrow> double \<times> CXLController" where
  "ct_calculate_bandwidth elem c =
     (let (bw, w) = sw_calculate_bandwidth elem (ct_tree c) (ct_fabric c) in (bw, c\<lparr>ct_fabric := w\<rparr>))"

definition ct_calculate_congestion :: "CXLController \<Rightarrow> (double \<times> u64 list) \<times> CXLController" where
  "ct_calculate_congestion c =
     (let (r, tree) = sw_calculate_congestion (ct_tree c) (ct_fabric c) in (r, c\<lparr>ct_tree := tree\<rparr>))"

definition ct_delete_entry :: "u64 \<Rightarrow> u64 \<Rightarrow> CXLController \<Rightarrow> CXLController" where
  "ct_delete_entry addr len c = c\<lparr>ct_fabric := sw_delete_entry addr len (ct_tree c) (ct_fabric c)\<rparr>"

definition ct_set_epoch :: "int \<Rightarrow> CXLController \<Rightarrow> CXLController" where
  "ct_set_epoch e c = c\<lparr>ct_tree := sw_set_epoch e (ct_tree c)\<rparr>"

end
