(* ===== verification/Reorder_Window.thy ===== *)
theory Reorder_Window
  imports Controller
begin

text \<open>
  The reorder window that \<open>insert_one\<close> of the controller keeps: branch records enter at the end of
  \<open>ring_buffer\<close>, and the oldest ones leave as long as the thread has more than 512 instructions in
  flight. The counts of a thread are redundant: they must agree with the records in the ring.

  Shown: with a single thread the ring always is the longest run of recent records that fits the
  window and the counts agree with it, and no queue is ever read empty. The ring is one for all
  threads while the counts are one per thread, and two threads are enough to break both.
\<close>


definition ring_ins :: "lbr list \<Rightarrow> nat" where
  "ring_ins ring = sum_list (map lbr_ins_count ring)"

definition ring_llcm :: "lbr list \<Rightarrow> nat" where
  "ring_llcm ring = sum_list (map lbr_llcm_count ring)"

lemma ring_simps [simp]:
  "ring_ins [] = 0" "ring_llcm [] = 0"
  "ring_ins (l # ls) = lbr_ins_count l + ring_ins ls" "ring_llcm (l # ls) = lbr_llcm_count l + ring_llcm ls"
  "ring_ins (ls @ ls') = ring_ins ls + ring_ins ls'" "ring_llcm (ls @ ls') = ring_llcm ls + ring_llcm ls'"
  by (simp_all add: ring_ins_def ring_llcm_def)

text \<open>The longest run of recent records with at most 512 instructions.\<close>

fun window :: "lbr list \<Rightarrow> lbr list" where
  "window [] = []"
| "window (l # ls) = (if ring_ins (l # ls) \<le> 512 then l # ls else window ls)"

lemma window_fits: "ring_ins (window ls) \<le> 512"
  by (induction ls) simp_all

lemma window_id: "ring_ins ls \<le> 512 \<Longrightarrow> window ls = ls"
  by (cases ls) simp_all

text \<open>Records that have left the window never matter again.\<close>

lemma window_snoc: "window (window ls @ [l]) = window (ls @ [l])"
proof (induction ls)
  case (Cons k ls)
  show ?case
  proof (cases "ring_ins (k # ls) \<le> 512")
    case False
    then have "window ((k # ls) @ [l]) = window (ls @ [l])"
      by simp
    then show ?thesis
      using False Cons.IH by simp
  qed simp
qed simp


section \<open>The counts agree with the ring\<close>

definition kind_count :: "rob_info \<Rightarrow> int \<Rightarrow> int" where
  "kind_count rob k = (case rob_m_count rob k of None \<Rightarrow> 0 | Some n \<Rightarrow> n)"

definition counts_kinds :: "thread_info \<Rightarrow> bool" where
  "counts_kinds t \<longleftrightarrow> (\<forall>k. kind_count (ti_rob t) k = int (count_list (ti_llcm_type_rob t) k))"

definition window_ok :: "lbr list \<Rightarrow> thread_info \<Rightarrow> bool" where
  "window_ok ring t \<longleftrightarrow> rob_ins_count (ti_rob t) = int (ring_ins ring) \<and> rob_llcm_count (ti_rob t) = int (ring_llcm ring)
     \<and> length (ti_llcm_type_rob t) = ring_llcm ring \<and> counts_kinds t"

lemma kind_count_type [simp]: "kind_count (count_type k n rob) j = kind_count rob j + (if j = k then n else 0)"
  by (simp add: kind_count_def count_type_def split: option.split)

lemma count_type_counts [simp]:
  "rob_ins_count (count_type k n rob) = rob_ins_count rob" "rob_llcm_count (count_type k n rob) = rob_llcm_count rob"
  by (simp_all add: count_type_def)

lemma add_counts_simps [simp]:
  "rob_ins_count (add_counts a b rob) = rob_ins_count rob + b" "rob_llcm_count (add_counts a b rob) = rob_llcm_count rob + a"
  "kind_count (add_counts a b rob) = kind_count rob"
  by (simp_all add: add_counts_def kind_count_def fun_eq_iff)

lemma enter_miss_effect:
  "counts_kinds t \<Longrightarrow> counts_kinds (enter_miss t)"
  "length (ti_llcm_type_rob (enter_miss t)) = Suc (length (ti_llcm_type_rob t))"
  "rob_ins_count (ti_rob (enter_miss t)) = rob_ins_count (ti_rob t)"
  "rob_llcm_count (ti_rob (enter_miss t)) = rob_llcm_count (ti_rob t)"
  by (simp_all add: enter_miss_def counts_kinds_def Let_def)

lemma enter_misses_effect:
  "counts_kinds t \<Longrightarrow> counts_kinds ((enter_miss ^^ n) t)
     \<and> length (ti_llcm_type_rob ((enter_miss ^^ n) t)) = n + length (ti_llcm_type_rob t)
     \<and> rob_ins_count (ti_rob ((enter_miss ^^ n) t)) = rob_ins_count (ti_rob t)
     \<and> rob_llcm_count (ti_rob ((enter_miss ^^ n) t)) = rob_llcm_count (ti_rob t)"
  by (induction n) (simp_all add: enter_miss_effect)

lemma leave_misses_effect:
  "counts_kinds t \<Longrightarrow> n \<le> length (ti_llcm_type_rob t) \<Longrightarrow>
     \<exists>t1. leave_misses n t = Some t1 \<and> counts_kinds t1 \<and> ti_llcm_type_rob t1 = drop n (ti_llcm_type_rob t)
        \<and> rob_ins_count (ti_rob t1) = rob_ins_count (ti_rob t) \<and> rob_llcm_count (ti_rob t1) = rob_llcm_count (ti_rob t)"
proof (induction n arbitrary: t)
  case (Suc n)
  then obtain k ks where ks: "ti_llcm_type_rob t = k # ks"
    by (cases "ti_llcm_type_rob t") auto
  let ?t = "t\<lparr>ti_rob := count_type k (- 1) (ti_rob t), ti_llcm_type_rob := ks\<rparr>"
  have "counts_kinds ?t"
    using Suc.prems(1) by (auto simp: counts_kinds_def ks)
  moreover have "n \<le> length (ti_llcm_type_rob ?t)"
    using Suc.prems(2) ks by simp
  ultimately show ?case
    using Suc.IH [of ?t] by (simp add: leave_miss_def ks)
qed simp

lemma retire_window:
  "window_ok ring t \<Longrightarrow> \<exists>t1. retire ring t = Some (window ring, t1) \<and> window_ok (window ring) t1"
proof (induction ring arbitrary: t)
  case Nil
  then show ?case
    by (subst retire.simps) (simp add: window_ok_def)
next
  case (Cons l ring)
  show ?case
  proof (cases "ring_ins (l # ring) \<le> 512")
    case True
    then show ?thesis
      using Cons.prems by (subst retire.simps) (simp add: window_ok_def)
  next
    case False
    let ?n = "lbr_llcm_count l"
    define rob where "rob = add_counts (- int ?n) (- int (lbr_ins_count l)) (ti_rob t)"
    define t0 where "t0 = t\<lparr>ti_rob := rob\<lparr>rob_llcm_base := rob_llcm_base rob + int ?n\<rparr>\<rparr>"
    have "counts_kinds t0" "?n \<le> length (ti_llcm_type_rob t0)"
      using Cons.prems by (simp_all add: window_ok_def t0_def rob_def counts_kinds_def kind_count_def add_counts_def)
    then obtain t1 where t1: "leave_misses ?n t0 = Some t1" "counts_kinds t1"
        "ti_llcm_type_rob t1 = drop ?n (ti_llcm_type_rob t0)"
        "rob_ins_count (ti_rob t1) = rob_ins_count (ti_rob t0)" "rob_llcm_count (ti_rob t1) = rob_llcm_count (ti_rob t0)"
      using leave_misses_effect by blast
    then have "window_ok ring t1"
      using Cons.prems by (simp add: window_ok_def t0_def rob_def)
    then obtain t2 where "retire ring t1 = Some (window ring, t2)" "window_ok (window ring) t2"
      using Cons.IH by blast
    moreover have "retire (l # ring) t = retire ring t1"
      using False Cons.prems t1(1)
      by (subst retire.simps) (simp add: window_ok_def t0_def rob_def Let_def)
    ultimately show ?thesis
      using False by simp
  qed
qed

lemma insert_one_window:
  assumes "window_ok ring t"
  shows "\<exists>t1. insert_one l (ring, t) = Some (window (ring @ [l]), t1) \<and> window_ok (window (ring @ [l])) t1"
proof -
  let ?t1 = "(enter_miss ^^ lbr_llcm_count l) t"
  let ?t2 = "?t1\<lparr>ti_rob := add_counts (int (lbr_llcm_count l)) (int (lbr_ins_count l)) (ti_rob ?t1)\<rparr>"
  have "window_ok (ring @ [l]) ?t2"
    using enter_misses_effect [of t "lbr_llcm_count l"] assms
    by (simp add: window_ok_def counts_kinds_def)
  from retire_window [OF this] show ?thesis
    by (simp add: insert_one_def Let_def)
qed

lemma insert_each_window:
  "window_ok (window done) t \<Longrightarrow> \<exists>t1. insert_each ls (window done, t) = Some (window (done @ ls), t1)
     \<and> window_ok (window (done @ ls)) t1"
proof (induction ls arbitrary: "done" t)
  case (Cons l ls)
  obtain t1 where "insert_one l (window done, t) = Some (window (done @ [l]), t1)" "window_ok (window (done @ [l])) t1"
    using insert_one_window [OF Cons.prems, of l] by (auto simp: window_snoc)
  then show ?case
    using Cons.IH [of "done @ [l]" t1] by simp
qed simp

lemma window_ok_new: "window_ok [] new_thread_info"
  by (simp add: window_ok_def new_thread_info_def counts_kinds_def kind_count_def)



section \<open>Two threads\<close>

text \<open>500 instructions with three misses, and 600 instructions without a miss.\<close>

definition record_a :: lbr where
  "record_a = \<lparr>lbr_from = 1, lbr_to = 2, lbr_flags = 500 * 65536 + 3\<rparr>"

definition record_b :: lbr where
  "record_b = \<lparr>lbr_from = 1, lbr_to = 2, lbr_flags = 600 * 65536\<rparr>"

lemma record_counts:
  "lbr_ins_count record_a = 500" "lbr_llcm_count record_a = 3" "lbr_ins_count record_b = 600" "lbr_llcm_count record_b = 0"
  by (simp_all add: record_a_def record_b_def lbr_ins_count_def lbr_llcm_count_def drop_bit_eq_div)

text \<open>
  C39: The ring buffer is shared while the counts are per thread. After one thread has entered a
  record with three misses, a record of another thread makes the controller retire the first one
  against the counts of the second thread, whose queue of misses is empty: the front of an empty queue
  is read.
\<close>

theorem shared_ring_underflows:
  assumes "ct_ring_buffer c = []" "ct_thread_map c = Map.empty" "tid \<noteq> tid'"
  shows "\<exists>c1. insert_records tid [record_a] c = Some c1 \<and> insert_records tid' [record_b] c1 = None"
proof -
  have a: "insert_each [record_a] ([], new_thread_info) = Some ([record_a], snd (the (insert_one record_a ([], new_thread_info))))"
    using insert_one_window [OF window_ok_new, of record_a] record_counts by (auto simp: window_id)
  have b: "insert_each [record_b] ([record_a], new_thread_info) = None"
    using record_counts
    by (simp add: insert_one_def new_thread_info_def add_counts_def retire.simps leave_miss_def eval_nat_numeral)
  have "lbr_from record_a \<noteq> 0" "lbr_from record_b \<noteq> 0"
    by (simp_all add: record_a_def record_b_def)
  then show ?thesis
    using assms a b by (simp add: insert_records_def thread_of_def set_thread_def)
qed

theorem shared_ring_underflows_witness:
  "\<exists>c1. insert_records 1 [record_a] (new_CXLController 4 PAGE 100) = Some c1 \<and> insert_records 2 [record_b] c1 = None"
  using shared_ring_underflows [of "new_CXLController 4 PAGE 100" 1 2] by (simp add: new_CXLController_def)

end
