(* ===== verification/Controller_Access.thy ===== *)
theory Controller_Access
  imports Controller
begin

text \<open>
  Properties of the access path of the controller, over the definitions of the theory Controller:
  what \<open>insert\<close> counts, what the migration policy can change, and what back invalidation removes.
\<close>

named_theorems ct_frame

section \<open>Every access is classified once\<close>

definition core :: "CXLController \<Rightarrow> CXLCounter \<times> (u64 \<rightharpoonup> thread_info) \<times> int" where
  "core c = (ct_counter c, ct_thread_map c, ct_last_index c)"

lemma core_frame [ct_frame]:
  "core (c\<lparr>ct_lru_cache := l\<rparr>) = core c" "core (c\<lparr>ct_latency_lat := x\<rparr>) = core c" "core (c\<lparr>ct_fabric := w\<rparr>) = core c"
  "core (c\<lparr>ct_tree := tr\<rparr>) = core c" "core (c\<lparr>ct_occupation := oc\<rparr>) = core c" "core (c\<lparr>ct_request_counter := n\<rparr>) = core c"
  "core (insert_into p ts tid a c) = core c" "core (occupy ts a k c) = core c" "core (on_heap p f c) = core c"
  "core (set_last_timestamp ts c) = core c"
  by (simp_all add: core_def insert_into_def occupy_def on_heap_def set_last_timestamp_def)

lemma charge_walk_core: "charge_walk v a b (c, po) = Some (ptw, c1, po1) \<Longrightarrow> core c1 = core c"
  by (auto simp: charge_walk_def ct_frame split: option.splits if_splits)

lemma update_cache_core: "update_cache a v ts c = Some c1 \<Longrightarrow> core c1 = core c"
  by (auto simp: update_cache_def ct_frame)

lemma access_cache_core: "access_cache a ts c = Some (hit, c1) \<Longrightarrow> core c1 = core c"
  by (auto simp: access_cache_def ct_frame)

lemma cache_if_allowed_core: "cache_if_allowed a ts cp (c, po) = Some (c1, po1) \<Longrightarrow> core c1 = core c"
  by (auto simp: cache_if_allowed_def Let_def split: prod.splits if_splits dest: update_cache_core)

lemma insert_tree_core: "insert_tree ts tid a i res c = (r, c1) \<Longrightarrow> core c1 = core c"
  by (auto simp: insert_tree_def Let_def core_def split: prod.splits)

text \<open>An access of kind \<open>k\<close>, 1 for a remote one, counted and queued for its thread.\<close>

definition classified :: "u64 \<Rightarrow> int \<Rightarrow> CXLController \<Rightarrow> CXLController \<Rightarrow> bool" where
  "classified tid k c c1 \<longleftrightarrow> (k = 0 \<or> k = 1) \<and> ct_last_index c1 = ct_last_index c
     \<and> ti_llcm_type (thread_of tid c1) = ti_llcm_type (thread_of tid c) @ [k]
     \<and> (\<forall>t. t \<noteq> tid \<longrightarrow> ct_thread_map c1 t = ct_thread_map c t)
     \<and> cc_remote (ct_counter c1) = cc_remote (ct_counter c) + of_bool (k = 1)
     \<and> cc_local (ct_counter c1) + cc_hitm (ct_counter c1) = cc_local (ct_counter c) + cc_hitm (ct_counter c) + of_bool (k = 0)"

lemma classified_core:
  "core c1 = core c \<Longrightarrow> classified tid k c1 c2 = classified tid k c c2"
  "core c2 = core c1 \<Longrightarrow> classified tid k c c2 = classified tid k c c1"
  by (auto simp: classified_def core_def thread_of_def)

lemma classified_push:
  "classified tid 0 c (push_llcm tid 0 (inc_local c))" "classified tid 0 c (push_llcm tid 0 (inc_hitm c))"
  "classified tid 1 c (push_llcm tid 1 (inc_remote c))"
  by (simp_all add: classified_def push_llcm_def inc_local_def inc_hitm_def inc_remote_def set_thread_def thread_of_def Let_def)

text \<open>Counting and queueing commute with what does not touch counters and threads.\<close>

lemma push_core:
  "core c1 = core c \<Longrightarrow> core (push_llcm tid k (inc_remote c1)) = core (push_llcm tid k (inc_remote c))"
  "core c1 = core c \<Longrightarrow> core (push_llcm tid k (inc_local c1)) = core (push_llcm tid k (inc_local c))"
  "core c1 = core c \<Longrightarrow> core (push_llcm tid k c1) = core (push_llcm tid k c)"
  "core c1 = core c \<Longrightarrow> core (inc_remote c1) = core (inc_remote c)"
  by (simp_all add: core_def push_llcm_def inc_local_def inc_remote_def set_thread_def thread_of_def Let_def)

lemma insert_decoded_classified:
  assumes "insert_decoded hdm ts tid a v (c, po) = Some (c1, po1)"
  shows "\<exists>k. classified tid k c c1"
proof -
  let ?d = "decode hdm a"
  obtain ptw cw pw where w: "charge_walk v a (res_is_remote ?d) (c, po) = Some (ptw, cw, pw)"
    using assms by (auto simp: insert_decoded_def Let_def bind_eq_Some_conv)
  define cr where "cr = (case get_remote_expander (res_target_id ?d) cw of None \<Rightarrow> cw | Some p \<Rightarrow> insert_into p (ts + ptw) tid a cw)"
  define cl where "cl = (case ct_device_map cw (sint (res_target_id ?d)) of
      None \<Rightarrow> occupy ts a (ts + ptw) cw | Some p \<Rightarrow> insert_into p (ts + ptw) tid a cw)"
  define c2 where "c2 = (if res_is_remote ?d then push_llcm tid 1 (inc_remote cr) else push_llcm tid 0 (inc_local cl))"
  have same: "core cr = core c" "core cl = core c"
    using charge_walk_core [OF w] by (auto simp: cr_def cl_def ct_frame split: option.split)
  have "\<exists>k. classified tid k c c2"
    using classified_push(1) [of tid cl] classified_push(3) [of tid cr] same
    by (auto simp: c2_def classified_core(1) [of cr c] classified_core(1) [of cl c])
  moreover have "core c1 = core c2"
    using assms w cache_if_allowed_core
    by (auto simp: insert_decoded_def Let_def c2_def cr_def cl_def split: option.splits)
  ultimately show ?thesis
    by (simp add: classified_core(2) [of c1 c2])
qed

lemma insert_allocated_classified:
  assumes "insert_allocated ts tid a v res (c, po) = Some (r, c1, po1)"
  shows "\<exists>k. classified tid k c c1"
proof -
  obtain ap numa ap1 ptw cw pw where al: "po_allocation po = Some ap" "alloc_compute_once c ap = Some (numa, ap1)"
    and w: "charge_walk v a (numa \<noteq> - 1) (c, po\<lparr>po_allocation := Some ap1\<rparr>) = Some (ptw, cw, pw)"
    using assms by (auto simp: insert_allocated_def bind_eq_Some_conv)
  have cw: "core cw = core c"
    by (rule charge_walk_core [OF w])
  show ?thesis
  proof (cases "numa = - 1")
    case True
    then have "core c1 = core (push_llcm tid 0 (inc_local (occupy ts a (ts + ptw) cw)))"
      using assms al w by (auto simp: insert_allocated_def place_access_def dest!: update_cache_core)
    then show ?thesis
      using classified_push(1) [of tid "occupy ts a (ts + ptw) cw"] cw
      by (auto simp: classified_core(2) [of c1] classified_core(1) [of "occupy ts a (ts + ptw) cw" c] ct_frame)
  next
    case False
    obtain res1 c2 where t: "insert_tree (ts + ptw) tid a numa res (inc_remote cw) = (res1, c2)"
      by fastforce
    then have "core c1 = core (push_llcm tid 1 c2)"
      using assms al w False by (auto simp: insert_allocated_def place_access_def bind_eq_Some_conv dest!: cache_if_allowed_core)
    also have "\<dots> = core (push_llcm tid 1 (inc_remote c))"
      using insert_tree_core [OF t] cw push_core(1,3) by metis
    finally show ?thesis
      using classified_push(3) [of tid c] by (auto simp: classified_core(2) [of c1])
  qed
qed

lemma insert_step_classified:
  assumes "insert_step ts tid a v res (c, po) = Some (r, c1, po1)"
  shows "\<exists>k. classified tid k c c1"
proof -
  obtain hit c0 where h: "access_cache a ts c = Some (hit, c0)"
    using assms by (auto simp: insert_step_def bind_eq_Some_conv)
  have "\<exists>k. classified tid k c0 c1"
    using assms h classified_push(2) [of tid c0] insert_decoded_classified insert_allocated_classified
    by (auto simp: insert_step_def split: if_splits option.splits)
  then show ?thesis
    by (simp add: classified_core(1) [OF access_cache_core [OF h]])
qed

definition classifies :: "u64 \<Rightarrow> int list \<Rightarrow> CXLController \<Rightarrow> CXLController \<Rightarrow> bool" where
  "classifies tid ks c c1 \<longleftrightarrow> set ks \<subseteq> {0, 1} \<and> ct_last_index c1 = ct_last_index c
     \<and> ti_llcm_type (thread_of tid c1) = ti_llcm_type (thread_of tid c) @ ks
     \<and> (\<forall>t. t \<noteq> tid \<longrightarrow> ct_thread_map c1 t = ct_thread_map c t)
     \<and> cc_remote (ct_counter c1) = cc_remote (ct_counter c) + of_nat (count_list ks 1)
     \<and> cc_local (ct_counter c1) + cc_hitm (ct_counter c1)
       = cc_local (ct_counter c) + cc_hitm (ct_counter c) + of_nat (count_list ks 0)"

lemma classifies_Cons: "classified tid k c c1 \<Longrightarrow> classifies tid ks c1 c2 \<Longrightarrow> classifies tid (k # ks) c c2"
  by (auto simp: classified_def classifies_def)

lemma insert_loop_classifies:
  "insert_loop n dt now tid a v res (c, po) = Some (r, c1, po1) \<Longrightarrow> \<exists>ks. length ks = n \<and> classifies tid ks c c1"
proof (induction n arbitrary: now res c po)
  case 0
  then show ?case
    by (auto simp: classifies_def)
next
  case (Suc n)
  then obtain r' c' po' where s: "insert_step (now + dt) tid a v res (c, po) = Some (r', c', po')"
    and rest: "insert_loop n dt (now + dt) tid a v r' (c', po') = Some (r, c1, po1)"
    by (auto simp: bind_eq_Some_conv)
  obtain k where "classified tid k c c'"
    using insert_step_classified [OF s] by blast
  moreover obtain ks where "length ks = n" "classifies tid ks c' c1"
    using Suc.IH [OF rest] by blast
  ultimately show ?case
    using classifies_Cons by (intro exI [of _ "k # ks"]) auto
qed

text \<open>Migration and invalidation count only what they remove.\<close>

definition quiet :: "CXLController \<Rightarrow> CXLController \<Rightarrow> bool" where
  "quiet c c1 \<longleftrightarrow> ct_thread_map c1 = ct_thread_map c \<and> ct_last_index c1 = ct_last_index c
     \<and> (\<exists>n. ct_counter c1 = (ct_counter c)\<lparr>cc_backinv := n\<rparr>)"

lemma quiet_core: "core c1 = core c \<Longrightarrow> quiet c c1"
  by (auto simp: quiet_def core_def intro: exI [of _ "cc_backinv (ct_counter c)"])

lemma quiet_trans: "quiet c c1 \<Longrightarrow> quiet c1 c2 \<Longrightarrow> quiet c c2"
  by (auto simp: quiet_def)

lemma quiet_fold: "(\<And>x c. quiet c (f x c)) \<Longrightarrow> quiet c (fold f xs c)"
proof (induction xs arbitrary: c)
  case (Cons x xs)
  then show ?case
    using quiet_trans by (metis fold_simps(2))
qed (simp add: quiet_core)

lemma quiet_inc_backinv: "quiet c (inc_backinv n c)"
  by (auto simp: quiet_def inc_backinv_def)

lemma quiet_invalidate_endpoint: "quiet c (invalidate_endpoint a p c)"
  unfolding invalidate_endpoint_def Let_def
  by (rule quiet_trans [OF quiet_core quiet_inc_backinv]) (simp add: ct_frame)

lemma quiet_invalidate_endpoints: "quiet c (fold (invalidate_endpoint a) es c)"
  by (rule quiet_fold) (rule quiet_invalidate_endpoint)

lemma quiet_invalidate_in_switch: "quiet c (invalidate_in_switch a sw c)"
proof (induction sw arbitrary: c)
  case (CXLSwitch s es ws)
  have "quiet c (fold (invalidate_in_switch a) ws c)" for c
    using CXLSwitch
  proof (induction ws arbitrary: c)
    case (Cons w ws)
    have "quiet c (invalidate_in_switch a w c)"
      using Cons.prems by simp
    moreover have "quiet (invalidate_in_switch a w c) (fold (invalidate_in_switch a) ws (invalidate_in_switch a w c))"
      using Cons.prems by (intro Cons.IH) simp
    ultimately show ?case
      using quiet_trans by simp
  qed (simp add: quiet_core)
  then show ?case
    using quiet_trans [OF quiet_invalidate_endpoints [of c a es]] by simp
qed

lemma quiet_invalidate_in_expanders: "quiet c (invalidate_in_expanders a c)"
  unfolding invalidate_in_expanders_def
  by (rule quiet_trans [OF quiet_invalidate_endpoints quiet_fold]) (rule quiet_invalidate_in_switch)

lemma quiet_invalidate_address:
  assumes "invalidate_address a c = Some c1" shows "quiet c c1"
proof -
  obtain b l where "c1 = invalidate_in_expanders a (inc_backinv (if b then 1 else 0) (c\<lparr>ct_lru_cache := l\<rparr>))"
    using assms by (auto simp: invalidate_address_def)
  then show ?thesis
    using quiet_trans [OF quiet_trans [OF quiet_core quiet_inc_backinv] quiet_invalidate_in_expanders] by (simp add: ct_frame)
qed

lemma quiet_invalidate_all: "invalidate_all as c = Some c1 \<Longrightarrow> quiet c c1"
proof (induction as arbitrary: c)
  case (Cons a as)
  then obtain c2 where "invalidate_address a c = Some c2" "invalidate_all as c2 = Some c1"
    by (auto simp: bind_eq_Some_conv)
  then show ?case
    using quiet_trans [OF quiet_invalidate_address] Cons.IH by blast
qed (simp add: quiet_core)

lemma perform_migration_id [simp]: "perform_migration mp c = c"
  by (simp add: perform_migration_def base_get_migration_list_def split: option.split)

lemma quiet_cache_compute_once:
  assumes "cache_compute_once c cp = Some (r, c1, cp1)" shows "quiet c c1"
proof (cases cp)
  case FIFO
  then show ?thesis
    using assms by (auto simp: fifo_compute_once_def Let_def ct_frame intro!: quiet_core split: if_splits prod.splits option.splits)
qed (use assms in \<open>auto simp: quiet_core Let_def split: prod.splits\<close>)

lemma quiet_back_invalidation: "perform_back_invalidation (c, po) = Some (c1, po1) \<Longrightarrow> quiet c c1"
  by (auto simp: perform_back_invalidation_def Let_def quiet_core quiet_invalidate_all split: option.splits prod.splits)

lemma quiet_run_caching:
  assumes "run_caching (c, po) = Some (c1, po1)" shows "quiet c c1"
proof (cases "po_caching po")
  case None
  then show ?thesis
    using assms by (simp add: run_caching_def quiet_core)
next
  case (Some cp)
  then obtain r c' cp' where cc: "cache_compute_once c cp = Some (r, c', cp')"
    and "if 0 < r then perform_back_invalidation (c', po\<lparr>po_caching := Some cp'\<rparr>) = Some (c1, po1) else c1 = c'"
    using assms by (auto simp: run_caching_def bind_eq_Some_conv Let_def split: if_splits)
  then have "quiet c' c1"
    using quiet_back_invalidation quiet_core [of c' c'] by (auto split: if_splits)
  then show ?thesis
    using quiet_trans [OF quiet_cache_compute_once [OF cc]] by simp
qed

lemma quiet_every_thousand:
  assumes "every_thousand n (c, po) = Some (c1, po1)" shows "quiet c c1"
proof -
  have mig: "run_migration (c, po) = (c, snd (run_migration (c, po)))"
    by (simp add: run_migration_def Let_def split: option.split prod.split)
  show ?thesis
  proof (cases "1000 \<le> ct_request_counter c + n")
    case True
    then obtain c' p' where r: "run_caching (c, snd (run_migration (c, po))) = Some (c', p')" "core c1 = core c'"
      using assms mig by (auto simp: every_thousand_def Let_def ct_frame)
    then show ?thesis
      using quiet_run_caching [OF r(1)] quiet_trans [OF _ quiet_core [of c1 c']] by simp
  next
    case False
    then show ?thesis
      using assms by (auto simp: every_thousand_def Let_def ct_frame intro!: quiet_core)
  qed
qed

text \<open>
  C11: What \<open>insert\<close> counts. When it returns, it has classified every index since the last call
  exactly once: the thread's queue of miss kinds has grown by one entry per index, the remote counter
  by the number of remote entries, the local and the hit counter together by the number of the
  others, and no other thread has changed.
\<close>

theorem insert_classifies_once:
  assumes "ct_insert timestamp tid phys_addr virt_addr index (c, po) = Some (res, c1, po1)"
  shows "\<exists>ks. length ks = nat (index - ct_last_index c) \<and> set ks \<subseteq> {0, 1}
     \<and> ti_llcm_type (thread_of tid c1) = ti_llcm_type (thread_of tid c) @ ks
     \<and> (\<forall>t. t \<noteq> tid \<longrightarrow> ct_thread_map c1 t = ct_thread_map c t)
     \<and> cc_remote (ct_counter c1) = cc_remote (ct_counter c) + of_nat (count_list ks 1)
     \<and> cc_local (ct_counter c1) + cc_hitm (ct_counter c1)
       = cc_local (ct_counter c) + cc_hitm (ct_counter c) + of_nat (count_list ks 0)
     \<and> ct_last_index c1 = (if 0 < index then index else ct_last_index c)"
proof -
  let ?c = "set_thread tid (thread_of tid c) c"
  let ?n = "index - ct_last_index c"
  have li: "ct_last_index ?c = ct_last_index c" "ct_last_timestamp ?c = ct_last_timestamp c"
    by (simp_all add: set_thread_def)
  obtain r c2 p2 c3 p3 dt where loop: "insert_loop (nat ?n) dt (ct_last_timestamp c) tid phys_addr virt_addr True (?c, po) = Some (r, c2, p2)"
    and every: "every_thousand ?n (c2, p2) = Some (c3, p3)"
    and c1: "c1 = set_last_timestamp timestamp (c3\<lparr>ct_last_index := (if 0 < index then index else ct_last_index c3)\<rparr>)"
    using assms unfolding ct_insert_def Let_def li prod.case by (auto simp: bind_eq_Some_conv)
  obtain ks where ks: "length ks = nat ?n" "classifies tid ks ?c c2"
    using insert_loop_classifies [OF loop] by blast
  have q: "quiet c2 c3"
    by (rule quiet_every_thousand [OF every])
  show ?thesis
    using ks q unfolding c1
    by (intro exI [of _ ks]) (auto simp: classifies_def quiet_def set_last_timestamp_def thread_of_def set_thread_def split: option.split)
qed

definition plain_policies :: policies where
  "plain_policies = \<lparr>po_allocation = Some (Interleave new_InterleavePolicy), po_migration = None, po_paging = None,
     po_caching = Some FIFO\<rparr>"

lemma plain_insert:
  "ct_insert 1000 7 64 64 1 (new_CXLController 4 PAGE 100, plain_policies) \<noteq> None"
proof -
  define c where "c = set_thread 7 new_thread_info (new_CXLController 4 PAGE 100)"
  have lru: "lru_get 64 t (ct_lru_cache c) = Some (None, ct_lru_cache c)" "ct_hdm_decoder c = None" for t
    by (simp_all add: c_def set_thread_def new_CXLController_def new_LRUCache_def lru_get_def)
  have "lru_inv (ct_lru_cache c)"
    using lru_inv_new [of 524288] by (simp add: c_def set_thread_def new_CXLController_def)
  then obtain l where l: "lru_put 64 64 1000 (ct_lru_cache c) = Some l"
    using lru_sim_put [of "ct_lru_cache c" 64 64 1000] by (auto simp: lru_sim_def)
  have zero: "ct_request_counter c = 0" "ct_last_index c = 0" "ct_last_timestamp c = 0"
    by (simp_all add: c_def set_thread_def new_CXLController_def new_CXLSwitch_def new_switch_data_def)
  have "local_room c"
    by (simp add: local_room_def c_def set_thread_def new_CXLController_def used_mb_def double_of_u64_def)
  then have "\<exists>c2 p2. insert_allocated 1000 7 64 64 True (c, plain_policies) = Some (True, c2, p2) \<and> ct_request_counter c2 = 0"
    using l zero by (simp add: insert_allocated_def place_access_def plain_policies_def charge_walk_def update_cache_def occupy_def
        inc_local_def push_llcm_def set_thread_def Let_def ip_compute_once_def)
  then obtain c2 p2 where "insert_step 1000 7 64 64 True (c, plain_policies) = Some (True, c2, p2)" "ct_request_counter c2 = 0"
    using lru by (auto simp: insert_step_def access_cache_def)
  moreover have "thread_of 7 (new_CXLController 4 PAGE 100) = new_thread_info"
    by (simp add: thread_of_def new_CXLController_def)
  ultimately show ?thesis
    using zero by (simp add: ct_insert_def Let_def c_def [symmetric] every_thousand_def)
qed

theorem insert_classifies_once_witness:
  "\<exists>res c1 po1 ks. ct_insert 1000 7 64 64 1 (new_CXLController 4 PAGE 100, plain_policies) = Some (res, c1, po1)
     \<and> length ks = 1 \<and> ti_llcm_type (thread_of 7 c1) = ks"
proof -
  obtain res c1 po1 where i: "ct_insert 1000 7 64 64 1 (new_CXLController 4 PAGE 100, plain_policies) = Some (res, c1, po1)"
    using plain_insert by auto
  then show ?thesis
    using insert_classifies_once [OF i] by (auto simp: new_CXLController_def thread_of_def new_thread_info_def)
qed


section \<open>Migration policies change nothing\<close>

text \<open>
  \<open>get_migration_list\<close> is not virtual: through the base class pointer of the controller it always
  returns the empty list of the base class.
\<close>

definition same_but_migration :: "system \<Rightarrow> system \<Rightarrow> bool" where
  "same_but_migration s t \<longleftrightarrow> fst s = fst t \<and> po_allocation (snd s) = po_allocation (snd t)
     \<and> po_paging (snd s) = po_paging (snd t) \<and> po_caching (snd s) = po_caching (snd t)"

abbreviation agrees :: "('r \<times> system) option \<Rightarrow> ('r \<times> system) option \<Rightarrow> bool" where
  "agrees \<equiv> rel_option (rel_prod (=) same_but_migration)"

lemma rel_option_bind:
  "rel_option R x y \<Longrightarrow> (\<And>a b. R a b \<Longrightarrow> rel_option S (f a) (g b)) \<Longrightarrow> rel_option S (Option.bind x f) (Option.bind y g)"
  by (cases rule: option.rel_cases [of R x y]) auto

lemma rel_option_same: "(\<And>z. x = Some z \<Longrightarrow> R (f z) (g z)) \<Longrightarrow> rel_option R (map_option f x) (map_option g x)"
  by (cases x) auto

lemma rel_option_map:
  "rel_option R x y \<Longrightarrow> (\<And>a b. R a b \<Longrightarrow> S (f a) (g b)) \<Longrightarrow> rel_option S (map_option f x) (map_option g y)"
  by (cases rule: option.rel_cases [of R x y]) auto

lemma charge_walk_agrees: "same_but_migration s t \<Longrightarrow> agrees (charge_walk v a b s) (charge_walk v a b t)"
  by (cases s; cases t) (auto simp: charge_walk_def same_but_migration_def intro!: rel_option_same split: option.split)

lemma cache_if_allowed_agrees:
  "same_but_migration s t \<Longrightarrow> rel_option same_but_migration (cache_if_allowed a ts cp s) (cache_if_allowed a ts cp t)"
  by (cases s; cases t) (auto simp: cache_if_allowed_def same_but_migration_def Let_def intro!: rel_option_same split: prod.split)

lemma insert_decoded_agrees:
  "same_but_migration s t \<Longrightarrow>
     rel_option same_but_migration (insert_decoded hdm ts tid a v s) (insert_decoded hdm ts tid a v t)"
  unfolding insert_decoded_def Let_def
  by (rule rel_option_bind [OF charge_walk_agrees], assumption)
    (auto simp: same_but_migration_def intro!: cache_if_allowed_agrees split: option.split)

lemma place_access_agrees:
  assumes "same_but_migration s t"
  shows "agrees (place_access ts tid a numa res ptw s) (place_access ts tid a numa res ptw t)"
proof -
  obtain c po po' where s: "s = (c, po)" "t = (c, po')" and po: "po_caching po' = po_caching po"
    using assms by (cases s; cases t) (simp add: same_but_migration_def)
  have same: "same_but_migration (c1, po) (c1, po')" for c1
    using assms s by (simp add: same_but_migration_def)
  show ?thesis
    unfolding place_access_def s prod.case Let_def po
    using same
    by (cases "numa = - 1")
      (auto intro!: rel_option_same rel_option_bind [where R = "(=)"] rel_option_map [OF cache_if_allowed_agrees [OF same]]
        simp: option.rel_eq split: prod.split)
qed

lemma insert_allocated_agrees:
  assumes "same_but_migration s t"
  shows "agrees (insert_allocated ts tid a v res s) (insert_allocated ts tid a v res t)"
proof -
  obtain c po po' where s: "s = (c, po)" "t = (c, po')" and po: "po_allocation po' = po_allocation po"
      "po_paging po' = po_paging po" "po_caching po' = po_caching po"
    using assms by (cases s; cases t) (simp add: same_but_migration_def)
  have "same_but_migration (c, po\<lparr>po_allocation := x\<rparr>) (c, po'\<lparr>po_allocation := x\<rparr>)" for x
    using po by (simp add: same_but_migration_def)
  then have "agrees (Option.bind (charge_walk v a b (c, po\<lparr>po_allocation := x\<rparr>)) (\<lambda>(ptw, s1). place_access ts tid a numa res ptw s1))
      (Option.bind (charge_walk v a b (c, po'\<lparr>po_allocation := x\<rparr>)) (\<lambda>(ptw, s1). place_access ts tid a numa res ptw s1))" for b x numa
    by (intro rel_option_bind [OF charge_walk_agrees]) (auto intro: place_access_agrees)
  then show ?thesis
    unfolding insert_allocated_def s prod.case po
    by (intro rel_option_bind [where R = "(=)"]) (auto simp: option.rel_eq split: prod.split)
qed

lemma insert_step_agrees:
  assumes "same_but_migration s t"
  shows "agrees (insert_step ts tid a v res s) (insert_step ts tid a v res t)"
proof -
  obtain c po po' where s: "s = (c, po)" "t = (c, po')"
    using assms by (cases s; cases t) (simp add: same_but_migration_def)
  have same: "same_but_migration (c1, po) (c1, po')" for c1
    using assms s by (simp add: same_but_migration_def)
  show ?thesis
    unfolding insert_step_def s prod.case
    using same insert_decoded_agrees [OF same] insert_allocated_agrees [OF same]
    by (intro rel_option_bind [where R = "(=)"]) (auto simp: option.rel_eq option.rel_map split: prod.split option.split)
qed

lemma insert_loop_agrees:
  "same_but_migration s t \<Longrightarrow> agrees (insert_loop n dt now tid a v res s) (insert_loop n dt now tid a v res t)"
proof (induction n arbitrary: now res s t)
  case (Suc n)
  then show ?case
    unfolding insert_loop.simps by (intro rel_option_bind [OF insert_step_agrees]) auto
qed simp

lemma run_caching_agrees:
  assumes "same_but_migration s t" shows "rel_option same_but_migration (run_caching s) (run_caching t)"
proof -
  obtain c po po' where s: "s = (c, po)" "t = (c, po')" and po: "po_allocation po' = po_allocation po"
      "po_paging po' = po_paging po" "po_caching po' = po_caching po"
    using assms by (cases s; cases t) (simp add: same_but_migration_def)
  have "rel_option same_but_migration (perform_back_invalidation (c1, po\<lparr>po_caching := x\<rparr>))
      (perform_back_invalidation (c1, po'\<lparr>po_caching := x\<rparr>))" for c1 x
    using po by (auto simp: perform_back_invalidation_def same_but_migration_def Let_def
        intro!: rel_option_same split: option.split prod.split)
  then show ?thesis
    using po assms unfolding run_caching_def s prod.case
    by (cases "po_caching po")
      (auto simp: same_but_migration_def Let_def option.rel_eq intro!: rel_option_bind [where R = "(=)"] split: prod.split)
qed

lemma every_thousand_agrees:
  assumes "same_but_migration s t" shows "rel_option same_but_migration (every_thousand n s) (every_thousand n t)"
proof -
  obtain c po po' where s: "s = (c, po)" "t = (c, po')"
    using assms by (cases s; cases t) (simp add: same_but_migration_def)
  have "same_but_migration (run_migration s) (run_migration t)"
    using assms by (auto simp: s run_migration_def same_but_migration_def Let_def split: option.split prod.split)
  then have "rel_option same_but_migration (run_caching (run_migration s)) (run_caching (run_migration t))"
    by (rule run_caching_agrees)
  then show ?thesis
    using assms unfolding every_thousand_def s prod.case Let_def
    by (auto simp: same_but_migration_def option.rel_map split_beta elim!: option.rel_mono_strong)
qed

lemma ct_insert_agrees:
  assumes "same_but_migration s t" shows "agrees (ct_insert ts tid a v i s) (ct_insert ts tid a v i t)"
proof -
  obtain c po po' where s: "s = (c, po)" "t = (c, po')"
    using assms by (cases s; cases t) (simp add: same_but_migration_def)
  have same: "same_but_migration (c1, po) (c1, po')" for c1
    using assms s by (simp add: same_but_migration_def)
  show ?thesis
    unfolding ct_insert_def s prod.case Let_def
  proof (rule rel_option_bind [OF insert_loop_agrees [OF same]], clarsimp)
    fix c1 p1 c2 p2 res
    assume "same_but_migration (c1, p1) (c2, p2)"
    from every_thousand_agrees [OF this]
    show "agrees
        (map_option (\<lambda>(c2, po2). (res, set_last_timestamp ts (c2\<lparr>ct_last_index := if 0 < i then i else ct_last_index c2\<rparr>), po2))
          (every_thousand (i - ct_last_index (set_thread tid (thread_of tid c) c)) (c1, p1)))
        (map_option (\<lambda>(c2, po2). (res, set_last_timestamp ts (c2\<lparr>ct_last_index := if 0 < i then i else ct_last_index c2\<rparr>), po2))
          (every_thousand (i - ct_last_index (set_thread tid (thread_of tid c) c)) (c2, p2)))"
      by (rule rel_option_map) (auto simp: same_but_migration_def)
  qed
qed

fun insert_run :: "(u64 \<times> u64 \<times> u64 \<times> u64 \<times> int) list \<Rightarrow> system \<Rightarrow> (bool list \<times> system) option" where
  "insert_run [] s = Some ([], s)"
| "insert_run ((ts, tid, a, v, i) # xs) s =
     Option.bind (ct_insert ts tid a v i s) (\<lambda>(r, s1). map_option (\<lambda>(rs, s2). (r # rs, s2)) (insert_run xs s1))"

text \<open>
  C37: No migration policy migrates anything. Two systems that differ in the migration policy alone -
  any policy, in any state, or none - give the same answers to every sequence of inserts, stay
  undefined on the same ones and leave the same controller, down to every page and counter.
\<close>

theorem migration_policy_irrelevant:
  "rel_option (rel_prod (=) (\<lambda>(c1, _) (c2, _). c1 = c2))
     (insert_run xs (c, po)) (insert_run xs (c, po\<lparr>po_migration := m\<rparr>))"
proof -
  have run: "agrees (insert_run xs s) (insert_run xs t)" if "same_but_migration s t" for xs s t
    using that
  proof (induction xs arbitrary: s t)
    case (Cons x xs)
    obtain ts tid a v i where x: "x = (ts, tid, a, v, i)"
      using prod_cases5 by blast
    show ?case
      unfolding insert_run.simps x
    proof (rule rel_option_bind [OF ct_insert_agrees [OF Cons.prems]], clarsimp)
      fix r c1 p1 c2 p2
      assume "same_but_migration (c1, p1) (c2, p2)"
      from Cons.IH [OF this]
      show "agrees (map_option (\<lambda>(rs, y). (r # rs, y)) (insert_run xs (c1, p1)))
          (map_option (\<lambda>(rs, y). (r # rs, y)) (insert_run xs (c2, p2)))"
        by (rule rel_option_map) auto
    qed
  qed simp
  have "agrees (insert_run xs (c, po)) (insert_run xs (c, po\<lparr>po_migration := m\<rparr>))"
    by (rule run) (simp add: same_but_migration_def)
  then show ?thesis
    by (rule option.rel_mono_strong) (auto simp: same_but_migration_def rel_prod_sel)
qed


section \<open>Back invalidation\<close>

definition drop_addresses :: "u64 set \<Rightarrow> endpoint \<Rightarrow> endpoint" where
  "drop_addresses A = upd_exp (\<lambda>x. x\<lparr>ex_occupation := filter (\<lambda>info. occ_address info \<notin> A) (ex_occupation x)\<rparr>)"

definition held :: "CXLController \<Rightarrow> nat" where
  "held c = sum_list (map (\<lambda>e. length (ex_occupation (ep_exp e))) (ct_heap c))"

text \<open>
  The addresses \<open>A\<close> are gone from the endpoints \<open>P\<close>, and the invalidations counted are the entries
  that are gone.
\<close>

definition cleared :: "u64 set \<Rightarrow> eptr set \<Rightarrow> CXLController \<Rightarrow> CXLController \<Rightarrow> bool" where
  "cleared A P c c1 \<longleftrightarrow> ct_tree c1 = ct_tree c \<and> ct_lru_cache c1 = ct_lru_cache c \<and> length (ct_heap c1) = length (ct_heap c)
     \<and> (\<forall>p < length (ct_heap c). ct_heap c1 ! p = (if p \<in> P then drop_addresses A (ct_heap c ! p) else ct_heap c ! p))
     \<and> cc_backinv (ct_counter c1) + of_nat (held c1) = cc_backinv (ct_counter c) + of_nat (held c)"

lemma drop_addresses_twice: "drop_addresses A (drop_addresses B e) = drop_addresses (A \<union> B) e"
  by (cases e) (simp_all add: drop_addresses_def filter_filter conj_commute)

lemma drop_addresses_again [simp]: "drop_addresses A (drop_addresses A e) = drop_addresses A e"
  by (simp add: drop_addresses_twice)

lemma drop_addresses_none: "drop_addresses {} e = e"
  by (cases e) (simp_all add: drop_addresses_def)

lemma cleared_refl: "cleared A {} c c"
  by (simp add: cleared_def)

lemma cleared_trans: "cleared A P c c1 \<Longrightarrow> cleared A Q c1 c2 \<Longrightarrow> cleared A (P \<union> Q) c c2"
  by (simp add: cleared_def)

lemma cleared_tree: "cleared A P c c1 \<Longrightarrow> ct_tree c1 = ct_tree c \<and> length (ct_heap c1) = length (ct_heap c)"
  by (simp add: cleared_def)

lemma sum_list_update_nat:
  "p < length xs \<Longrightarrow> sum_list (map f (xs[p := y])) + f (xs ! p) = sum_list (map f xs) + (f y :: nat)"
  by (induction xs arbitrary: p) (auto split: nat.split)

lemma cleared_endpoint:
  assumes "p < length (ct_heap c)" shows "cleared {a} {p} c (invalidate_endpoint a p c)"
proof -
  let ?e = "ct_heap c ! p"
  let ?len = "\<lambda>e. length (ex_occupation (ep_exp e))"
  define gone where "gone = length (filter (\<lambda>info. occ_address info = a) (ex_occupation (ep_exp ?e)))"
  have c1: "invalidate_endpoint a p c = c\<lparr>ct_fabric := (ct_fabric c)\<lparr>fa_heap := (ct_heap c)[p := drop_addresses {a} ?e]\<rparr>,
      ct_counter := (ct_counter c)\<lparr>cc_backinv := cc_backinv (ct_counter c) + of_nat gone\<rparr>\<rparr>"
    by (simp add: invalidate_endpoint_def inc_backinv_def on_heap_def drop_addresses_def gone_def Let_def)
  have "?len ?e = gone + ?len (drop_addresses {a} ?e)"
    using sum_length_filter_compl [of "\<lambda>info. occ_address info = a" "ex_occupation (ep_exp ?e)"]
    by (simp add: gone_def drop_addresses_def)
  then have "held (invalidate_endpoint a p c) + gone = held c"
    using sum_list_update_nat [OF assms, of ?len "drop_addresses {a} ?e"] by (simp add: held_def c1)
  then have "of_nat (held c) = (of_nat (held (invalidate_endpoint a p c)) + of_nat gone :: u64)"
    by (metis of_nat_add)
  then show ?thesis
    by (simp add: cleared_def c1 nth_list_update)
qed

lemma cleared_endpoints:
  "list_all (\<lambda>p. p < length (ct_heap c)) ps \<Longrightarrow> cleared {a} (set ps) c (fold (invalidate_endpoint a) ps c)"
proof (induction ps arbitrary: c)
  case (Cons p ps)
  then have 1: "cleared {a} {p} c (invalidate_endpoint a p c)"
    by (simp add: cleared_endpoint)
  then have "cleared {a} (set ps) (invalidate_endpoint a p c) (fold (invalidate_endpoint a) ps (invalidate_endpoint a p c))"
    using Cons.prems cleared_tree by (intro Cons.IH) fastforce
  from cleared_trans [OF 1 this] show ?case
    by simp
qed (simp add: cleared_refl)

lemma cleared_switches:
  assumes "\<And>w c. w \<in> set ws \<Longrightarrow> list_all (\<lambda>p. p < length (ct_heap c)) (sw_endpoints w) \<Longrightarrow>
      cleared {a} (set (sw_endpoints w)) c (invalidate_in_switch a w c)"
    and "list_all (\<lambda>p. p < length (ct_heap c)) (concat (map sw_endpoints ws))"
  shows "cleared {a} (set (concat (map sw_endpoints ws))) c (fold (invalidate_in_switch a) ws c)"
  using assms
proof (induction ws arbitrary: c)
  case (Cons w ws)
  have 1: "cleared {a} (set (sw_endpoints w)) c (invalidate_in_switch a w c)"
    using Cons.prems by simp
  have "cleared {a} (set (concat (map sw_endpoints ws))) (invalidate_in_switch a w c)
      (fold (invalidate_in_switch a) ws (invalidate_in_switch a w c))"
    using Cons.prems cleared_tree [OF 1] by (intro Cons.IH) simp_all
  from cleared_trans [OF 1 this] show ?case
    by simp
qed (simp add: cleared_refl)

lemma cleared_switch:
  "list_all (\<lambda>p. p < length (ct_heap c)) (sw_endpoints sw) \<Longrightarrow>
     cleared {a} (set (sw_endpoints sw)) c (invalidate_in_switch a sw c)"
proof (induction sw arbitrary: c)
  case (CXLSwitch s es ws)
  then have 1: "cleared {a} (set es) c (fold (invalidate_endpoint a) es c)"
    by (intro cleared_endpoints) simp
  have "cleared {a} (set (concat (map sw_endpoints ws))) (fold (invalidate_endpoint a) es c)
      (fold (invalidate_in_switch a) ws (fold (invalidate_endpoint a) es c))"
    using CXLSwitch cleared_tree [OF 1] by (intro cleared_switches) simp_all
  from cleared_trans [OF 1 this] show ?case
    by simp
qed

lemma invalidate_in_expanders_switch: "invalidate_in_expanders a c = invalidate_in_switch a (ct_tree c) c"
  by (cases "ct_tree c") (simp add: invalidate_in_expanders_def)

text \<open>The same for a set of addresses, with the cache.\<close>

definition footprint :: "CXLController \<Rightarrow> u64" where
  "footprint c = cc_backinv (ct_counter c) + of_nat (held c + length (lru_abs (ct_lru_cache c)))"

definition invalidated :: "u64 set \<Rightarrow> CXLController \<Rightarrow> CXLController \<Rightarrow> bool" where
  "invalidated A c c1 \<longleftrightarrow> ct_tree c1 = ct_tree c \<and> length (ct_heap c1) = length (ct_heap c)
     \<and> (\<forall>p < length (ct_heap c). ct_heap c1 ! p
          = (if p \<in> set (sw_endpoints (ct_tree c)) then drop_addresses A (ct_heap c ! p) else ct_heap c ! p))
     \<and> lru_inv (ct_lru_cache c1)
     \<and> lru_abs (ct_lru_cache c1) = filter (\<lambda>e. fst e \<notin> A) (lru_abs (ct_lru_cache c))
     \<and> footprint c1 = footprint c"

lemma invalidated_trans: "invalidated A c c1 \<Longrightarrow> invalidated B c1 c2 \<Longrightarrow> invalidated (B \<union> A) c c2"
  by (simp add: invalidated_def drop_addresses_twice conj_commute)

definition pointers_ok :: "CXLController \<Rightarrow> bool" where
  "pointers_ok c \<longleftrightarrow> list_all (\<lambda>p. p < length (ct_heap c)) (sw_endpoints (ct_tree c))"

lemma length_without:
  assumes "distinct (map fst es)"
  shows "length es = length (without k es) + (if k \<in> fst ` set es then 1 else 0)"
proof -
  have "length (removeAll k (map fst es)) = length (remove1 k (map fst es))"
    using assms by (simp only: distinct_remove1_removeAll)
  then have len: "length (removeAll k (map fst es)) + (if k \<in> fst ` set es then 1 else 0) = length es"
    using length_pos_if_in_set [of k "map fst es"] by (auto simp: length_remove1)
  have "removeAll k (map fst es) = map fst (without k es)"
    by (simp add: map_fst_without)
  then show ?thesis
    using len by (simp only: length_map)
qed

lemma footprint_sum:
  fixes b b0 b1 h h1 l l1 :: u64
  assumes "b1 + h1 = b0 + h" "b0 + l1 = b + l"
  shows "b1 + (h1 + l1) = b + (h + l)"
proof -
  have "b1 + (h1 + l1) = (b1 + h1) + l1"
    by (simp only: add.assoc)
  also have "\<dots> = (b0 + l1) + h"
    by (simp only: assms(1) ac_simps)
  also have "\<dots> = b + (h + l)"
    by (simp only: assms(2) ac_simps)
  finally show ?thesis .
qed

lemma invalidate_address_effect:
  assumes "lru_inv (ct_lru_cache c)" "pointers_ok c"
  shows "\<exists>c1. invalidate_address a c = Some c1 \<and> invalidated {a} c c1"
proof -
  obtain b l where l: "lru_remove a (ct_lru_cache c) = Some (b, l)" "lru_inv l"
      "lru_abs l = without a (lru_abs (ct_lru_cache c))" "b \<longleftrightarrow> a \<in> fst ` set (lru_abs (ct_lru_cache c))"
    using lru_sim_remove [OF assms(1), of a] by (auto simp: lru_sim_def)
  let ?c0 = "inc_backinv (if b then 1 else 0) (c\<lparr>ct_lru_cache := l\<rparr>)"
  have c0: "ct_tree ?c0 = ct_tree c" "ct_heap ?c0 = ct_heap c" "ct_lru_cache ?c0 = l" "held ?c0 = held c"
    by (simp_all add: inc_backinv_def held_def)
  have "distinct (map fst (lru_abs (ct_lru_cache c)))"
    using assms(1) by (simp add: lru_abs_keys lru_inv_def il_inv_def)
  note len = length_without [OF this, of a]
  have "cleared {a} (set (sw_endpoints (ct_tree c))) ?c0 (invalidate_in_expanders a ?c0)"
    using cleared_switch [of ?c0 "ct_tree ?c0" a] assms(2) c0 by (simp add: invalidate_in_expanders_switch pointers_ok_def)
  note cl = this [unfolded cleared_def c0]
  have "cc_backinv (ct_counter ?c0) + of_nat (length (lru_abs l)) = cc_backinv (ct_counter c) + of_nat (length (lru_abs (ct_lru_cache c)))"
    using len l(3,4) by (simp add: inc_backinv_def)
  then have "footprint (invalidate_in_expanders a ?c0) = footprint c"
    using cl footprint_sum unfolding footprint_def of_nat_add by (metis c0(4))
  then have "invalidated {a} c (invalidate_in_expanders a ?c0)"
    using cl l(2,3) unfolding invalidated_def by (simp add: without_def)
  then show ?thesis
    using l(1) by (simp add: invalidate_address_def)
qed

lemma invalidated_refl: "lru_inv (ct_lru_cache c) \<Longrightarrow> invalidated {} c c"
  by (simp add: invalidated_def drop_addresses_none)

lemma invalidate_all_effect:
  "lru_inv (ct_lru_cache c) \<Longrightarrow> pointers_ok c \<Longrightarrow> \<exists>c1. invalidate_all as c = Some c1 \<and> invalidated (set as) c c1"
proof (induction as arbitrary: c)
  case Nil
  then show ?case
    by (simp add: invalidated_refl)
next
  case (Cons a as)
  obtain c1 where 1: "invalidate_address a c = Some c1" "invalidated {a} c c1"
    using invalidate_address_effect [OF Cons.prems] by blast
  have "lru_inv (ct_lru_cache c1)" "pointers_ok c1"
    using 1(2) Cons.prems by (simp_all add: invalidated_def pointers_ok_def)
  then obtain c2 where "invalidate_all as c1 = Some c2" "invalidated (set as) c1 c2"
    using Cons.IH by blast
  then show ?case
    using 1 invalidated_trans [OF 1(2)] by auto
qed

text \<open>
  C6: Back invalidation removes exactly what the caching policy names. It always returns; the cache
  then holds the same entries in the same order without the named addresses, every endpoint of the
  tree has lost its entries with these addresses and no other entry, endpoints outside the tree are as
  they were, and the invalidation counter has grown by the number of entries removed.
\<close>

theorem back_invalidation_exact:
  assumes "lru_inv (ct_lru_cache c)" "pointers_ok c" "po_caching po = Some cp" "get_invalidation_list c cp = (addrs, cp1)"
  shows "\<exists>c1. perform_back_invalidation (c, po) = Some (c1, po\<lparr>po_caching := Some cp1\<rparr>)
     \<and> lru_abs (ct_lru_cache c1) = filter (\<lambda>e. fst e \<notin> set addrs) (lru_abs (ct_lru_cache c))
     \<and> (\<forall>p < length (ct_heap c). ct_heap c1 ! p
          = (if p \<in> set (sw_endpoints (ct_tree c)) then drop_addresses (set addrs) (ct_heap c ! p) else ct_heap c ! p))
     \<and> cc_backinv (ct_counter c1) + of_nat (held c1 + length (lru_abs (ct_lru_cache c1)))
       = cc_backinv (ct_counter c) + of_nat (held c + length (lru_abs (ct_lru_cache c)))"
  using invalidate_all_effect [OF assms(1,2), of addrs] assms(3,4)
  by (auto simp: perform_back_invalidation_def invalidated_def footprint_def)

theorem back_invalidation_exact_witness:
  "\<exists>c1. perform_back_invalidation (three_expanders, plain_policies) = Some (c1, plain_policies\<lparr>po_caching := Some FIFO\<rparr>)
     \<and> lru_abs (ct_lru_cache c1) = []"
proof -
  have lru: "lru_inv (ct_lru_cache three_expanders)" "lru_abs (ct_lru_cache three_expanders) = []"
    using lru_inv_new [of 524288] by (simp_all add: three_expanders_def insert_end_point_def new_CXLController_def)
  have tree: "pointers_ok three_expanders"
    by (simp add: pointers_ok_def three_expanders_facts new_CXLSwitch_def)
  have pol: "po_caching plain_policies = Some FIFO" "get_invalidation_list three_expanders FIFO = ([], FIFO)"
    by (simp_all add: plain_policies_def local_addresses_def three_expanders_def insert_end_point_def new_CXLController_def)
  show ?thesis
    using back_invalidation_exact [OF lru(1) tree pol] lru(2) by auto
qed

end
