(* ===== verification/Controller_Devices.thy ===== *)
theory Controller_Devices
  imports Controller
begin

text \<open>
  The devices the controller owns (src/src/cxlcontroller.cpp): the LogP model, the MH-SLD device,
  dynamic capacity and GFAM, and the distributed configuration with its coherency engines. An
  operation on a device that is not enabled has a fixed answer. \<open>enable_dcd\<close> frees the capacity
  device it replaces: a GFAM device created before still points to it, and every later use of that
  pointer is undefined, the outcome \<^const>\<open>None\<close>. In the same way \<open>configure_distributed\<close> frees the
  coherency engine that existing remote expanders point to.

  Shown: capacity released through the controller in the size it was granted leaves no host with
  access, and how an unaligned size leaves a mapping behind.
\<close>


section \<open>LogP\<close>

abbreviation ct_logp :: "CXLController \<Rightarrow> LogPModel" where
  "ct_logp c \<equiv> fa_logp (ct_fabric c)"

definition set_logp :: "LogPModel \<Rightarrow> CXLController \<Rightarrow> CXLController" where
  "set_logp m c = c\<lparr>ct_fabric := (ct_fabric c)\<lparr>fa_logp := m\<rparr>\<rparr>"

definition configure_logp :: "LogPConfig \<Rightarrow> CXLController \<Rightarrow> CXLController" where
  "configure_logp cfg c = set_logp (reconfigure cfg (ct_logp c)) c"

record TCPCalibrationResult =
  cal_L :: double
  cal_o_s :: double
  cal_o_r :: double
  cal_g :: double
  cal_samples :: u64
  cal_valid :: bool

definition calibrate_logp_from_tcp :: "TCPCalibrationResult \<Rightarrow> CXLController \<Rightarrow> CXLController" where
  "calibrate_logp_from_tcp result c =
     (if \<not> cal_valid result then c
      else set_logp (reconfigure
             \<lparr>lp_L = max (5/10) (min (cal_L result) 500) * 1000,
              lp_o_s = max (1/10) (min (cal_o_s result) 100) * 1000,
              lp_o_r = max (1/10) (min (cal_o_r result) 100) * 1000,
              lp_g = max (1/100) (min (cal_g result) 50) * 1000,
              lp_P = lp_P (lp_config (ct_logp c))\<rparr> (ct_logp c)) c)"

definition calculate_logp_latency :: "u32 \<Rightarrow> u32 \<Rightarrow> u64 \<Rightarrow> CXLController \<Rightarrow> double \<times> CXLController" where
  "calculate_logp_latency src_node dst_node timestamp c =
     (if src_node = dst_node then (0, c)
      else let (lat, m) = message_latency timestamp dst_node (ct_logp c) in (lat, set_logp m c))"

definition calculate_logp_broadcast_latency :: "CXLController \<Rightarrow> double" where
  "calculate_logp_broadcast_latency c = broadcast_latency (ct_logp c)"


section \<open>MH-SLD\<close>

definition expander_bytes :: "CXLController \<Rightarrow> u64" where
  "expander_bytes c = sum_list (map (\<lambda>p. ex_capacity (ct_exp c p) * 1024 * 1024) (ct_cur_expanders c))"

definition enable_mhsld :: "u32 \<Rightarrow> double \<Rightarrow> CXLController \<Rightarrow> CXLController" where
  "enable_mhsld num_heads bandwidth_gbps c =
     (let (read_lat, write_lat) = (case ct_cur_expanders c of
            [] \<Rightarrow> (100, 150)
          | p # _ \<Rightarrow> (ex_latency_read (ct_exp c p), ex_latency_write (ct_exp c p))) in
      c\<lparr>ct_mhsld_device := Some (new_MHSLDDevice (expander_bytes c) num_heads read_lat write_lat bandwidth_gbps
                                   (lp_config (ct_logp c)))\<rparr>)"

definition with_mhsld :: "(MHSLDDevice \<Rightarrow> double \<times> MHSLDDevice) \<Rightarrow> CXLController \<Rightarrow> double \<times> CXLController" where
  "with_mhsld f c = (case ct_mhsld_device c of
       None \<Rightarrow> (0, c)
     | Some d \<Rightarrow> let (lat, d1) = f d in (lat, c\<lparr>ct_mhsld_device := Some d1\<rparr>))"

definition mhsld_read :: "u32 \<Rightarrow> u64 \<Rightarrow> u64 \<Rightarrow> CXLController \<Rightarrow> double \<times> CXLController" where
  "mhsld_read head_id addr timestamp = with_mhsld (read_with_coherency head_id addr timestamp)"

definition mhsld_write :: "u32 \<Rightarrow> u64 \<Rightarrow> u64 \<Rightarrow> CXLController \<Rightarrow> double \<times> CXLController" where
  "mhsld_write head_id addr timestamp = with_mhsld (write_with_coherency head_id addr timestamp)"

definition mhsld_atomic :: "u32 \<Rightarrow> u64 \<Rightarrow> u64 \<Rightarrow> CXLController \<Rightarrow> double \<times> CXLController" where
  "mhsld_atomic head_id addr timestamp = with_mhsld (atomic_with_coherency head_id addr timestamp)"


section \<open>Dynamic capacity and GFAM\<close>

definition enable_dcd :: "u64 \<Rightarrow> u64 \<Rightarrow> u64 \<Rightarrow> u64 \<Rightarrow> CXLController \<Rightarrow> CXLController" where
  "enable_dcd total_capacity_bytes granularity_bytes initial_capacity_bytes initial_tag c =
     (let d = new_DCD total_capacity_bytes granularity_bytes;
          d1 = (if 0 < initial_capacity_bytes
                then snd (add_capacity 0 (min initial_capacity_bytes total_capacity_bytes) initial_tag 0 d) else d) in
      c\<lparr>ct_dcd_device := Some d1, ct_gfam_stale := ct_gfam_device c \<noteq> None\<rparr>)"

definition dcd_add_capacity ::
  "u64 \<Rightarrow> u64 \<Rightarrow> u64 \<Rightarrow> u64 \<Rightarrow> CXLController \<Rightarrow> DCDAllocationResult \<times> CXLController" where
  "dcd_add_capacity requested_base len tag timestamp c = (case ct_dcd_device c of
       None \<Rightarrow> (\<lparr>alloc_status = INVALID_REQUEST, alloc_base = 0, alloc_size = 0, alloc_tag = tag\<rparr>, c)
     | Some d \<Rightarrow> let (r, d1) = add_capacity requested_base len tag timestamp d in (r, c\<lparr>ct_dcd_device := Some d1\<rparr>))"

definition dcd_release_capacity :: "u64 \<Rightarrow> u64 \<Rightarrow> u64 \<Rightarrow> u64 \<Rightarrow> CXLController \<Rightarrow> DCDStatus \<times> CXLController" where
  "dcd_release_capacity base len tag timestamp c = (case ct_dcd_device c of
       None \<Rightarrow> (INVALID_REQUEST, c)
     | Some d \<Rightarrow>
         let (status, d1) = release_capacity base len tag timestamp d;
             c1 = c\<lparr>ct_dcd_device := Some d1\<rparr> in
         (status, if status = DCD_OK
                  then c1\<lparr>ct_gfam_device := map_option (revoke_extent base len) (ct_gfam_device c1)\<rparr> else c1))"

definition dcd_is_allocated :: "u64 \<Rightarrow> u64 \<Rightarrow> CXLController \<Rightarrow> bool" where
  "dcd_is_allocated addr len c = (case ct_dcd_device c of None \<Rightarrow> True | Some d \<Rightarrow> is_allocated d addr len)"

definition DCD_PERM_ALL :: u32 where
  "DCD_PERM_ALL = or DCD_PERM_READ (or DCD_PERM_WRITE (or DCD_PERM_ATOMIC DCD_PERM_SHARED))"

definition enable_gfam :: "u32 \<Rightarrow> double \<Rightarrow> double \<Rightarrow> CXLController \<Rightarrow> CXLController" where
  "enable_gfam num_hosts fabric_latency_ns bandwidth_gbps c0 =
     (let c = (case ct_dcd_device c0 of
            Some d \<Rightarrow> c0
          | None \<Rightarrow>
              let total_bytes = (if expander_bytes c0 = 0 then word_of_int (ct_capacity c0) * 1024 * 1024 else expander_bytes c0) in
              enable_dcd total_bytes (1024 * 1024) total_bytes 1 c0);
          hosts = map of_nat [0..<unat num_hosts];
          g = fold (\<lambda>host. register_host host (''host'' @ dec (unat host))) hosts (new_GFAM fabric_latency_ns bandwidth_gbps);
          extents = (case ct_dcd_device c of None \<Rightarrow> [] | Some d \<Rightarrow> active_extents d);
          g1 = fold (\<lambda>e. fold (\<lambda>host g. snd (grant_access (ct_dcd_device c) host (ext_base e) (ext_size e) DCD_PERM_ALL g)) hosts)
                 extents g in
      c\<lparr>ct_gfam_device := Some g1, ct_gfam_stale := False\<rparr>)"

definition ct_grant_access :: "u32 \<Rightarrow> u64 \<Rightarrow> u64 \<Rightarrow> u32 \<Rightarrow> CXLController \<Rightarrow> (DCDStatus \<times> CXLController) option" where
  "ct_grant_access host base len permissions c = (case ct_gfam_device c of
       None \<Rightarrow> Some (INVALID_REQUEST, c)
     | Some g \<Rightarrow>
         if ct_gfam_stale c then None
         else let (status, g1) = grant_access (ct_dcd_device c) host base len permissions g in
              Some (status, c\<lparr>ct_gfam_device := Some g1\<rparr>))"

definition ct_revoke_access :: "u32 \<Rightarrow> u64 \<Rightarrow> u64 \<Rightarrow> CXLController \<Rightarrow> DCDStatus \<times> CXLController" where
  "ct_revoke_access host base len c = (case ct_gfam_device c of
       None \<Rightarrow> (INVALID_REQUEST, c)
     | Some g \<Rightarrow> let (status, g1) = revoke_access host base len g in (status, c\<lparr>ct_gfam_device := Some g1\<rparr>))"

definition ct_record_access ::
  "u32 \<Rightarrow> u64 \<Rightarrow> u64 \<Rightarrow> bool \<Rightarrow> bool \<Rightarrow> CXLController \<Rightarrow> (GFAMAccessResult \<times> CXLController) option" where
  "ct_record_access host addr len is_write is_atomic c = (case ct_gfam_device c of
       None \<Rightarrow> Some (\<lparr>acc_allowed = True, acc_status = DCD_OK, acc_latency_ns = 0\<rparr>, c)
     | Some g \<Rightarrow>
         if ct_gfam_stale c then None
         else let (r, g1) = gfam_record_access (ct_dcd_device c) host addr len is_write is_atomic g in
              Some (r, c\<lparr>ct_gfam_device := Some g1\<rparr>))"


section \<open>Distributed configuration\<close>

definition configure_distributed :: "u32 \<Rightarrow> HDMDecoderMode \<Rightarrow> CXLController \<Rightarrow> CXLController" where
  "configure_distributed local_node_id mode c =
     (let freed = (case ct_coherency c of None \<Rightarrow> fa_engines (ct_fabric c) | Some i \<Rightarrow> (fa_engines (ct_fabric c))(i := None));
          engine = new_CoherencyEngine local_node_id (Some (ct_logp c)) 16 25 in
      c\<lparr>ct_local_node_id := local_node_id, ct_hdm_decoder := Some (new_HDMDecoder mode),
        ct_coherency := Some (ct_next_engine c), ct_next_engine := ct_next_engine c + 1,
        ct_fabric := (ct_fabric c)\<lparr>fa_engines := freed(ct_next_engine c \<mapsto> engine)\<rparr>\<rparr>)"

text \<open>The decoder is reached through the controller and configured by its users.\<close>

definition configure_decoder :: "(HDMDecoder \<Rightarrow> HDMDecoder) \<Rightarrow> CXLController \<Rightarrow> CXLController" where
  "configure_decoder f c = c\<lparr>ct_hdm_decoder := map_option f (ct_hdm_decoder c)\<rparr>"

fun mhsld_reads :: "u32 \<Rightarrow> accesses \<Rightarrow> MHSLDDevice \<Rightarrow> double \<times> MHSLDDevice" where
  "mhsld_reads head_id [] d = (0, d)"
| "mhsld_reads head_id ((ts, addr) # rest) d =
     (let (a, d1) = read_with_coherency head_id addr ts d; (b, d2) = mhsld_reads head_id rest d1 in (a + b, d2))"

definition calculate_distributed_latency ::
  "accesses \<Rightarrow> u32 \<Rightarrow> u32 \<Rightarrow> CXLController \<Rightarrow> (double \<times> CXLController) option" where
  "calculate_distributed_latency elem head_id target_node c0 =
     (if elem = [] then Some (0, c0)
      else map_option (\<lambda>(base_latency, c).
        let timestamp = fst (last elem);
            (network_latency, c1) =
              (if target_node \<noteq> head_id then
                 let (lat, c') = calculate_logp_latency head_id target_node timestamp c in
                 (lat, set_logp (record_message target_node (u64_of_double lat) (ct_logp c')) c')
               else (0, c));
            (coherency_latency, c2) =
              (case ct_mhsld_device c1 of
                 None \<Rightarrow> (0, c1)
               | Some d \<Rightarrow>
                   let (total_mhsld, d1) = mhsld_reads head_id elem d in
                   (max 0 (total_mhsld / real (length elem) - md_base_read_latency d1), c1\<lparr>ct_mhsld_device := Some d1\<rparr>)) in
        (base_latency + network_latency + coherency_latency, c2))
      (ct_calculate_latency elem (ct_dramlatency c0) c0))"


section \<open>Capacity and access rights together\<close>

datatype cap_op =
    Cap_add u64 u64 u64 u64
  | Cap_release u64 u64 u64 u64
  | Cap_grant u32 u64 u64 u32
  | Cap_revoke u32 u64 u64
  | Cap_access u32 u64 u64 bool bool

fun cap_step :: "cap_op \<Rightarrow> CXLController \<Rightarrow> CXLController option" where
  "cap_step (Cap_add b len tag ts) c = Some (snd (dcd_add_capacity b len tag ts c))"
| "cap_step (Cap_release b len tag ts) c = Some (snd (dcd_release_capacity b len tag ts c))"
| "cap_step (Cap_grant host b len perms) c = map_option snd (ct_grant_access host b len perms c)"
| "cap_step (Cap_revoke host b len) c = Some (snd (ct_revoke_access host b len c))"
| "cap_step (Cap_access host addr len is_write is_atomic) c = map_option snd (ct_record_access host addr len is_write is_atomic c)"

text \<open>
  Callers that name whole extents: a grant is for an extent that is active, and a release gives the
  size as the device rounds it.
\<close>

fun whole_extent :: "cap_op \<Rightarrow> CXLController \<Rightarrow> bool" where
  "whole_extent (Cap_release b len tag ts) c \<longleftrightarrow> (case ct_dcd_device c of None \<Rightarrow> True | Some d \<Rightarrow> request_size d len = len)"
| "whole_extent (Cap_grant host b len perms) c \<longleftrightarrow> (case ct_dcd_device c of None \<Rightarrow> True
     | Some d \<Rightarrow> list_ex (\<lambda>e. ext_base e = b \<and> ext_size e = len) (active_list d))"
| "whole_extent _ c \<longleftrightarrow> True"

fun cap_run :: "cap_op list \<Rightarrow> CXLController \<Rightarrow> CXLController option" where
  "cap_run [] c = Some c"
| "cap_run (x # xs) c = Option.bind (cap_step x c) (cap_run xs)"

fun whole_extents :: "cap_op list \<Rightarrow> CXLController \<Rightarrow> bool" where
  "whole_extents [] c \<longleftrightarrow> True"
| "whole_extents (x # xs) c \<longleftrightarrow> whole_extent x c \<and> (case cap_step x c of None \<Rightarrow> True | Some c1 \<Rightarrow> whole_extents xs c1)"

definition exact_mapping :: "DynamicCapacityDevice \<Rightarrow> GFAMMapping \<Rightarrow> bool" where
  "exact_mapping d m \<longleftrightarrow> list_ex (\<lambda>e. ext_base e = map_base m \<and> ext_size e = map_size m) (active_list d)"

definition capacity_ok :: "CXLController \<Rightarrow> bool" where
  "capacity_ok c \<longleftrightarrow> \<not> ct_gfam_stale c \<and> (\<exists>d g. ct_dcd_device c = Some d \<and> ct_gfam_device c = Some g \<and> dcd_inv d
     \<and> (\<forall>m \<in> set (gfam_mappings g). exact_mapping d m))"

lemma exact_mapping_bytes: "exact_mapping d m \<Longrightarrow> range_set (map_base m) (map_size m) \<subseteq> allocated_bytes d"
  by (auto simp: exact_mapping_def list_ex_iff allocated_bytes_def ext_bytes_def)

lemma exact_mappingI:
  "list_ex (\<lambda>e. ext_base e = b \<and> ext_size e = len) (active_list d) \<Longrightarrow> map_base m = b \<Longrightarrow> map_size m = len \<Longrightarrow> exact_mapping d m"
  by (simp add: exact_mapping_def)

lemma exact_mapping_cong: "map_base m0 = map_base m \<Longrightarrow> map_size m0 = map_size m \<Longrightarrow> exact_mapping d m0 = exact_mapping d m"
  by (simp add: exact_mapping_def)

lemma exact_mapping_mono: "set (active_list d) \<subseteq> set (active_list d1) \<Longrightarrow> exact_mapping d m \<Longrightarrow> exact_mapping d1 m"
  unfolding exact_mapping_def list_ex_iff by blast

lemma range_set_ne: "k \<noteq> 0 \<Longrightarrow> range_set addr k \<noteq> {}"
  using unat_gt_0 [of k] by (auto simp: range_set_def)

lemma update_first_keeps: "x \<in> set xs \<Longrightarrow> \<not> P x \<Longrightarrow> x \<in> set (update_first P f xs)"
  by (induction xs) auto

lemma add_keeps_active:
  assumes "add_capacity b len tag ts d = (r, d1)" "dcd_inv d" shows "set (active_list d) \<subseteq> set (active_list d1)"
proof -
  have "dcd_granularity d \<noteq> 0"
    using assms(2) by (simp add: dcd_inv_def)
  then show ?thesis
    using add_capacity_effect [OF assms(1)] by (auto simp: same_capacity_def granted_def)
qed

lemma release_keeps_active:
  assumes "release_capacity b len tag ts d = (st, d1)" "exact_mapping d m" "st = DCD_OK"
    and "\<not> (map_base m = b \<and> map_size m = request_size d len)"
  shows "exact_mapping d1 m"
proof -
  have size: "request_size (d\<lparr>dcd_release_requests := n\<rparr>) len = request_size d len" for n
    by (simp add: request_size_def align_up_def Let_def)
  obtain e where e: "e \<in> set (dcd_extents d)" "ext_active e" "ext_base e = map_base m" "ext_size e = map_size m"
    using assms(2) by (auto simp: exact_mapping_def list_ex_iff)
  have "\<not> release_match b (request_size d len) tag e"
    using e assms(4) by (auto simp: release_match_def)
  then have "e \<in> set (dcd_extents d1)"
    using assms(1,3) e(1) by (auto simp: release_capacity_def Let_def size intro!: update_first_keeps split: if_splits)
  then show ?thesis
    using e by (auto simp: exact_mapping_def list_ex_iff)
qed

lemma release_failed_keeps:
  "release_capacity b len tag ts d = (st, d1) \<Longrightarrow> st \<noteq> DCD_OK \<Longrightarrow> dcd_extents d1 = dcd_extents d"
  by (auto simp: release_capacity_def Let_def split: if_splits)

lemma grant_mappings:
  assumes "grant_access dcd host b len perms g = (st, g1)" "m \<in> set (gfam_mappings g1)"
  shows "(map_base m = b \<and> map_size m = len) \<or> (\<exists>m0 \<in> set (gfam_mappings g). map_base m0 = map_base m \<and> map_size m0 = map_size m)"
  using assms by (auto simp: grant_access_def Let_def split: if_splits dest!: set_update_first_cases)

lemma gfam_record_access_mappings: "gfam_mappings (snd (gfam_record_access dcd host a n w x g)) = gfam_mappings g"
  by (simp add: gfam_record_access_def access_denied_def Let_def)

lemma cap_step_ok:
  assumes "capacity_ok c" "whole_extent x c"
  shows "\<exists>c1. cap_step x c = Some c1 \<and> capacity_ok c1"
proof -
  obtain d g where dg: "ct_dcd_device c = Some d" "ct_gfam_device c = Some g" "dcd_inv d" "\<not> ct_gfam_stale c"
      "\<And>m. m \<in> set (gfam_mappings g) \<Longrightarrow> exact_mapping d m"
    using assms(1) by (auto simp: capacity_ok_def)
  show ?thesis
  proof (cases x)
    case (Cap_add b len tag ts)
    obtain r d1 where a: "add_capacity b len tag ts d = (r, d1)"
      by fastforce
    then have "dcd_inv d1" "\<And>m. m \<in> set (gfam_mappings g) \<Longrightarrow> exact_mapping d1 m"
      using add_capacity_inv [OF dg(3) a] exact_mapping_mono [OF add_keeps_active [OF a dg(3)]] dg(5) by auto
    then show ?thesis
      using dg a by (simp add: Cap_add dcd_add_capacity_def capacity_ok_def)
  next
    case (Cap_release b len tag ts)
    obtain st d1 where r: "release_capacity b len tag ts d = (st, d1)"
      by fastforce
    have inv: "dcd_inv d1"
      by (rule release_capacity_inv [OF dg(3) r])
    have len: "request_size d len = len"
      using assms(2) dg(1) by (simp add: Cap_release)
    show ?thesis
    proof (cases "st = DCD_OK")
      case True
      have "exact_mapping d1 m" if "m \<in> set (gfam_mappings (revoke_extent b len g))" for m
        using release_keeps_active [OF r _ True] that dg(5) len by (auto simp: revoke_extent_def)
      then show ?thesis
        using dg r True inv by (simp add: Cap_release dcd_release_capacity_def capacity_ok_def)
    next
      case False
      then have "exact_mapping d1 m" if "exact_mapping d m" for m
        using release_failed_keeps [OF r] that by (simp add: exact_mapping_def)
      then show ?thesis
        using dg r False inv by (simp add: Cap_release dcd_release_capacity_def capacity_ok_def)
    qed
  next
    case (Cap_grant host b len perms)
    obtain st g1 where gr: "grant_access (Some d) host b len perms g = (st, g1)"
      by fastforce
    have "exact_mapping d m" if "m \<in> set (gfam_mappings g1)" for m
      using grant_mappings [OF gr that] exact_mappingI [of b len d] assms(2) dg(1,5) by (auto simp: Cap_grant dest: exact_mapping_cong)
    then show ?thesis
      using dg gr by (simp add: Cap_grant ct_grant_access_def capacity_ok_def)
  next
    case (Cap_revoke host b len)
    then show ?thesis
      using dg by (auto simp: ct_revoke_access_def revoke_access_def capacity_ok_def Let_def)
  next
    case (Cap_access host addr len is_write is_atomic)
    then show ?thesis
      using dg by (auto simp: ct_record_access_def capacity_ok_def split_beta gfam_record_access_mappings)
  qed
qed

lemma cap_run_ok:
  "capacity_ok c \<Longrightarrow> whole_extents xs c \<Longrightarrow> \<exists>c1. cap_run xs c = Some c1 \<and> capacity_ok c1"
proof (induction xs arbitrary: c)
  case (Cons x xs)
  then obtain c1 where "cap_step x c = Some c1" "capacity_ok c1"
    using cap_step_ok [of c x] by auto
  then show ?case
    using Cons by simp
qed simp

lemma grants_exact:
  assumes "list_ex (\<lambda>e. ext_base e = b \<and> ext_size e = len) (active_list d)" "\<forall>m \<in> set (gfam_mappings g). exact_mapping d m"
  shows "\<forall>m \<in> set (gfam_mappings (snd (grant_access dcd host b len perms g))). exact_mapping d m"
proof
  fix m
  assume "m \<in> set (gfam_mappings (snd (grant_access dcd host b len perms g)))"
  then consider "map_base m = b" "map_size m = len"
    | m0 where "m0 \<in> set (gfam_mappings g)" "map_base m0 = map_base m" "map_size m0 = map_size m"
    using grant_mappings [OF prod.collapse [symmetric]] by blast
  then show "exact_mapping d m"
    using assms exact_mappingI exact_mapping_cong by cases blast+
qed

lemma register_hosts_mappings: "gfam_mappings (fold (\<lambda>h. register_host h (f h)) hs g) = gfam_mappings g"
  by (induction hs arbitrary: g) (simp_all add: register_host_def Let_def)

lemma grant_hosts_exact:
  assumes "e \<in> set (active_list d)" "\<forall>m \<in> set (gfam_mappings g). exact_mapping d m"
  shows "\<forall>m \<in> set (gfam_mappings (fold (\<lambda>host g. snd (grant_access dcd host (ext_base e) (ext_size e) perms g)) hs g)).
    exact_mapping d m"
  using assms(2)
proof (induction hs arbitrary: g)
  case (Cons h hs)
  have "list_ex (\<lambda>e'. ext_base e' = ext_base e \<and> ext_size e' = ext_size e) (active_list d)"
    using assms(1) unfolding list_ex_iff by blast
  then show ?case
    unfolding fold_Cons comp_apply by (intro Cons.IH grants_exact Cons.prems)
qed simp

lemma grant_extents_exact:
  assumes "set es \<subseteq> set (active_list d)" "\<forall>m \<in> set (gfam_mappings g). exact_mapping d m"
  shows "\<forall>m \<in> set (gfam_mappings
      (fold (\<lambda>e. fold (\<lambda>host g. snd (grant_access dcd host (ext_base e) (ext_size e) perms g)) hs) es g)). exact_mapping d m"
  using assms
proof (induction es arbitrary: g)
  case (Cons e es)
  have "e \<in> set (active_list d)" "set es \<subseteq> set (active_list d)"
    using Cons.prems(1) by auto
  then show ?case
    unfolding fold_Cons comp_apply by (intro Cons.IH grant_hosts_exact Cons.prems(2))
qed simp

lemma enable_gfam_ok:
  assumes "ct_dcd_device c = Some d" "dcd_inv d"
  shows "capacity_ok (enable_gfam n lat bw c)"
proof -
  have none: "\<forall>m \<in> set (gfam_mappings (fold (\<lambda>host. register_host host (f host)) hs (new_GFAM lat bw))). exact_mapping d m" for f hs
    by (simp add: register_hosts_mappings new_GFAM_def)
  have active: "set (active_extents d) \<subseteq> set (active_list d)"
    by (simp add: active_extents_def)
  show ?thesis
    using assms grant_extents_exact [OF active none] by (simp add: enable_gfam_def capacity_ok_def Let_def)
qed

definition shared_capacity :: "u64 \<Rightarrow> CXLController" where
  "shared_capacity n = enable_gfam 1 100 32 (enable_dcd 4096 64 n 1 (new_CXLController 4 PAGE 100))"

lemma enable_dcd_inv: "\<exists>d. ct_dcd_device (enable_dcd tot gran init tag c) = Some d \<and> dcd_inv d"
  using add_capacity_inv [OF dcd_inv_new] by (auto simp: enable_dcd_def Let_def dcd_inv_new) (metis prod.collapse)

text \<open>
  C5: Fresh capacity is private. Once GFAM is enabled, and as long as callers grant and release whole
  extents, none of the controller's calls is undefined; and when capacity is added afterwards, no host
  may access any part of it, not even one that had access to the same addresses before they were
  released.
\<close>

theorem fresh_capacity_private:
  assumes "whole_extents xs (enable_gfam n lat bw (enable_dcd tot gran init tag0 c))"
  shows "\<exists>c1. cap_run xs (enable_gfam n lat bw (enable_dcd tot gran init tag0 c)) = Some c1
     \<and> (\<forall>b len tag ts r c2 host addr k w x. dcd_add_capacity b len tag ts c1 = (r, c2) \<longrightarrow> alloc_status r = DCD_OK \<longrightarrow>
          range_contains (alloc_base r) (alloc_size r) addr k \<longrightarrow>
          (\<exists>acc c3. ct_record_access host addr k w x c2 = Some (acc, c3) \<and> \<not> acc_allowed acc))"
proof -
  obtain c1 where run: "cap_run xs (enable_gfam n lat bw (enable_dcd tot gran init tag0 c)) = Some c1" "capacity_ok c1"
    using cap_run_ok [OF enable_gfam_ok assms] enable_dcd_inv by blast
  obtain d g where dg: "ct_dcd_device c1 = Some d" "ct_gfam_device c1 = Some g" "dcd_inv d" "\<not> ct_gfam_stale c1"
      "\<And>m. m \<in> set (gfam_mappings g) \<Longrightarrow> exact_mapping d m"
    using run(2) by (auto simp: capacity_ok_def)
  have "\<exists>acc c3. ct_record_access host addr k w x c2 = Some (acc, c3) \<and> \<not> acc_allowed acc"
    if add: "dcd_add_capacity b len tag ts c1 = (r, c2)" "alloc_status r = DCD_OK"
      and inside: "range_contains (alloc_base r) (alloc_size r) addr k" for b len tag ts r c2 host addr k w x
  proof -
    obtain d1 where a: "add_capacity b len tag ts d = (r, d1)" and c2: "c2 = c1\<lparr>ct_dcd_device := Some d1\<rparr>"
      using add(1) dg(1) by (auto simp: dcd_add_capacity_def split: prod.splits)
    have "dcd_granularity d \<noteq> 0"
      using dg(3) by (simp add: dcd_inv_def)
    then have "range_set (alloc_base r) (alloc_size r) \<inter> allocated_bytes d = {}"
      using add_capacity_effect [OF a] add(2) by (auto simp: granted_def)
    then have "\<not> range_contains (map_base m) (map_size m) addr k" if "m \<in> set (gfam_mappings g)" for m
      using exact_mapping_bytes [OF dg(5) [OF that]] inside range_set_ne [of k addr] unfolding range_contains_iff by blast
    then have "\<not> mapping_allows g host addr k w x"
      by (auto simp: mapping_allows_def mapping_covers_def list_ex_iff Let_def)
    then show ?thesis
      using dg c2 by (simp add: ct_record_access_def gfam_record_access_def access_denied_def)
  qed
  then show ?thesis
    using run(1) by blast
qed

theorem fresh_capacity_private_witness:
  "\<exists>c1 acc c3. cap_run [Cap_access 0 0 64 True False, Cap_release 0 128 1 0] (shared_capacity 128) = Some c1
     \<and> alloc_status (fst (dcd_add_capacity 0 128 2 0 c1)) = DCD_OK
     \<and> ct_record_access 0 0 64 True False (snd (dcd_add_capacity 0 128 2 0 c1)) = Some (acc, c3) \<and> \<not> acc_allowed acc"
proof -
  have whole: "whole_extents [Cap_access 0 0 64 True False, Cap_release 0 128 1 0] (shared_capacity 128)"
    by code_simp
  have added: "map_option (\<lambda>c1. let r = fst (dcd_add_capacity 0 128 2 0 c1) in (alloc_status r, alloc_base r, alloc_size r))
      (cap_run [Cap_access 0 0 64 True False, Cap_release 0 128 1 0] (shared_capacity 128)) = Some (DCD_OK, 0, 128)"
    by code_simp
  then obtain c1 where c1: "cap_run [Cap_access 0 0 64 True False, Cap_release 0 128 1 0] (shared_capacity 128) = Some c1"
      "alloc_status (fst (dcd_add_capacity 0 128 2 0 c1)) = DCD_OK"
      "alloc_base (fst (dcd_add_capacity 0 128 2 0 c1)) = 0" "alloc_size (fst (dcd_add_capacity 0 128 2 0 c1)) = 128"
    unfolding Let_def map_option_eq_Some prod.inject by blast
  have inside: "range_contains (alloc_base (fst (dcd_add_capacity 0 128 2 0 c1)))
      (alloc_size (fst (dcd_add_capacity 0 128 2 0 c1))) 0 64"
    unfolding c1(3,4) by code_simp
  obtain acc c3 where "ct_record_access 0 0 64 True False (snd (dcd_add_capacity 0 128 2 0 c1)) = Some (acc, c3)" "\<not> acc_allowed acc"
    using fresh_capacity_private [OF whole [unfolded shared_capacity_def]] c1(1) [unfolded shared_capacity_def]
      prod.collapse [of "dcd_add_capacity 0 128 2 0 c1", symmetric] c1(2) inside by (metis option.inject)
  then show ?thesis
    using c1(1,2) by blast
qed

text \<open>
  What whole extents are needed for: the device rounds a request up to its granularity, the
  controller revokes the grants of the size the caller gives. Capacity of 100 bytes is granted as
  128; released as 100 it goes away, but the grants stay, and when the addresses are allocated
  again the old host may write to them.
\<close>

lemma unaligned_release_keeps_grants:
  "map_option (map_option (acc_allowed \<circ> fst) \<circ> (\<lambda>c1. ct_record_access 0 0 64 True False (snd (dcd_add_capacity 0 128 2 0 c1))))
      (cap_run [Cap_release 0 100 1 0] (shared_capacity 100)) = Some (Some True)"
  "fst (dcd_release_capacity 0 100 1 0 (shared_capacity 100)) = DCD_OK"
  by code_simp+

end
