(* ===== verification/Controller_Safety.thy ===== *)
theory Controller_Safety
  imports Controller_Access Controller_Devices
begin

text \<open>
  Pointers and dynamic types of the controller. The controller, its tree, its device map and its
  lists hold pointers to expanders of two classes, and remote expanders point to a coherency engine
  that the controller owns and may replace. The type of the store is the class of every object, with
  the node and the engine of a remote expander, and the set of live engines. Every operation of the
  controller is listed in \<open>ctrl_op\<close>; all but the configuration keep the type of the store, and all of
  them keep the controller well typed.
\<close>

section \<open>The type of the store\<close>

fun ep_type :: "endpoint \<Rightarrow> (u32 \<times> nat option) option" where
  "ep_type (Local x) = None"
| "ep_type (Remote x r) = Some (rx_remote_node_id r, rx_coherency_engine r)"

definition fab_type :: "fabric \<Rightarrow> (u32 \<times> nat option) option list \<times> nat set" where
  "fab_type w = (map ep_type (fa_heap w), dom (fa_engines w))"

named_theorems fab

lemma ep_type_upd_exp [simp]: "ep_type (upd_exp f e) = ep_type e"
  by (cases e) simp_all

lemma ep_type_on_exp [fab]: "ep_type (snd (on_exp f e)) = ep_type e"
  by (simp add: on_exp_def split_beta)

lemma ep_type_insert [fab]: "ep_type (snd (ep_insert ts tid a i e)) = ep_type e"
  by (cases e) (auto simp: ep_insert_def rx_insert_def update_shadow_def fab Let_def)

lemma ep_type_record [fab]: "ep_type (snd (ep_record_access ts tid a i b e)) = ep_type e"
  by (simp add: ep_record_access_def fab)

lemma ep_type_bandwidth [fab]: "ep_type (snd (ep_calculate_bandwidth el e)) = ep_type e"
  by (cases e) (simp_all add: ep_calculate_bandwidth_def ep_type_on_exp [of _ "Local _", simplified])

lemma map_update_same: "f y = f (xs ! p) \<Longrightarrow> map f (xs[p := y]) = map f xs"
  by (cases "p < length xs") (simp_all add: map_update list_update_same_conv list_update_beyond)

lemma fab_type_at_ep: "ep_type (snd (f (fa_heap w ! p))) = ep_type (fa_heap w ! p) \<Longrightarrow> fab_type (snd (at_ep p f w)) = fab_type w"
  by (simp add: fab_type_def at_ep_def split_beta map_update_same)

lemma fab_type_on_exp [fab]: "fab_type (snd (at_ep p (on_exp f) w)) = fab_type w"
  by (rule fab_type_at_ep) (rule ep_type_on_exp)

lemma fab_type_fold: "(\<And>x w. fab_type (f x w) = fab_type w) \<Longrightarrow> fab_type (fold f xs w) = fab_type w"
  by (induction xs arbitrary: w) simp_all

section \<open>Walks over the tree keep it\<close>

lemma fab_type_offer:
  assumes "\<And>e. ep_type (snd (f e)) = ep_type e" shows "fab_type (snd (offer f ps w)) = fab_type w"
  by (induction ps arbitrary: w) (simp_all add: split_beta fab_type_at_ep assms)

lemma fab_type_sw_offer:
  assumes "\<And>e. ep_type (snd (f e)) = ep_type e" "sw_offer f sw w = (ret, sw1, w1)"
  shows "fab_type w1 = fab_type w" "sw_endpoints sw1 = sw_endpoints sw"
  using sw_offer_flat [of f sw w] assms(2) fab_type_offer [of f, OF assms(1)] by auto

lemma fab_type_offer_expanders:
  assumes "\<And>e. ep_type (snd (f e)) = ep_type e" shows "fab_type (snd (offer_expanders f ps w)) = fab_type w"
  by (induction ps arbitrary: w) (simp_all add: split_beta fab_type_at_ep assms)

lemma fab_type_offer_switches:
  assumes "\<And>e. ep_type (snd (f e)) = ep_type e" "offer_switches f sws w = (rs, sws1, w1)"
  shows "fab_type w1 = fab_type w \<and> map sw_endpoints sws1 = map sw_endpoints sws"
  using assms(2)
proof (induction sws arbitrary: w rs sws1 w1)
  case (Cons sw sws)
  obtain r sw1 w2 where o: "sw_offer f sw w = (r, sw1, w2)"
    by (metis prod_cases3)
  obtain rs2 sws2 w3 where os: "offer_switches f sws w2 = (rs2, sws2, w3)"
    by (metis prod_cases3)
  show ?case
    using Cons.IH [OF os] fab_type_sw_offer [OF assms(1) o] Cons.prems o os by auto
qed simp

lemma fab_type_delete [fab]: "fab_type (sw_delete_entry a n sw w) = fab_type w"
proof (induction sw arbitrary: w)
  case (CXLSwitch s es ws)
  have "fab_type (fold (sw_delete_entry a n) ws w) = fab_type w" for w
    using CXLSwitch by (induction ws arbitrary: w) simp_all
  then show ?case
    by (simp add: fab_type_fold fab)
qed

lemma fab_type_eps_get_access [fab]: "fab_type (snd (eps_get_access ts ps w)) = fab_type w"
  by (induction ps arbitrary: w) (simp_all add: split_beta fab)

lemma fab_type_get_access_list:
  assumes "\<And>sw w. sw \<in> set sws \<Longrightarrow> fab_type (snd (sw_get_access ts sw w)) = fab_type w"
  shows "fab_type (snd (sws_get_access ts sws w)) = fab_type w"
  using assms by (induction sws arbitrary: w) (simp_all add: split_beta)

lemma fab_type_get_access [fab]: "fab_type (snd (sw_get_access ts sw w)) = fab_type w"
proof (induction sw arbitrary: w)
  case (CXLSwitch s es ws)
  then show ?case
    using fab_type_get_access_list [of ws ts] by (simp add: split_beta fab)
qed

lemma fab_type_eps_contain [fab]: "fab_type (snd (eps_contain a ps w)) = fab_type w"
  by (induction ps arbitrary: w) (simp_all add: split_beta fab)

lemma fab_type_contains_list:
  assumes "\<And>sw w. sw \<in> set sws \<Longrightarrow> fab_type (snd (contains_address a sw w)) = fab_type w"
  shows "fab_type (snd (any_contains a sws w)) = fab_type w"
  using assms by (induction sws arbitrary: w) (simp_all add: split_beta)

lemma fab_type_contains [fab]: "fab_type (snd (contains_address a sw w)) = fab_type w"
proof (induction sw arbitrary: w)
  case (CXLSwitch s es ws)
  then show ?case
    using fab_type_contains_list [of ws a] by (simp add: split_beta fab)
qed

lemma fab_type_access_window [fab]:
  "fab_type (snd (access_window (\<lambda>a. contains_address a sw) el n lo hi w)) = fab_type w"
proof (induction el arbitrary: n lo hi w)
  case (Cons x el)
  then show ?case
    by (cases x) (simp add: split_beta fab)
qed simp

lemma fab_type_penalty [fab]: "fab_type (snd (switch_penalty el sw w)) = fab_type w"
  by (simp add: switch_penalty_def split_beta Let_def fab)

lemma fab_type_eps_bandwidth [fab]: "fab_type (snd (eps_calculate_bandwidth el ps w)) = fab_type w"
  by (induction ps arbitrary: w) (simp_all add: split_beta fab fab_type_at_ep)

lemma fab_type_bandwidth_list:
  assumes "\<And>sw w. sw \<in> set sws \<Longrightarrow> fab_type (snd (sw_calculate_bandwidth el sw w)) = fab_type w"
  shows "fab_type (snd (sws_calculate_bandwidth el sws w)) = fab_type w"
  using assms by (induction sws arbitrary: w) (simp_all add: split_beta)

lemma fab_type_bandwidth [fab]: "fab_type (snd (sw_calculate_bandwidth el sw w)) = fab_type w"
proof (induction sw arbitrary: w)
  case (CXLSwitch s es ws)
  then show ?case
    using fab_type_bandwidth_list [of ws el] by (simp add: split_beta fab)
qed

lemma fab_type_rob [fab]: "fab_type (snd (get_endpoint_rob_latency p el rob d w)) = fab_type w"
  by (simp add: get_endpoint_rob_latency_def Let_def split_beta fab)

lemma fab_type_robs [fab]: "fab_type (snd (rob_latencies ps el rob d w)) = fab_type w"
  by (induction ps arbitrary: w) (simp_all add: split_beta fab)

lemma congestion_endpoints [fab]:
  "sw_endpoints (snd (sw_calculate_congestion sw w)) = sw_endpoints sw"
  "map sw_endpoints (snd (sws_calculate_congestion sws w)) = map sw_endpoints sws"
  by (induction sw w and sws w rule: sw_calculate_congestion_sws_calculate_congestion.induct)
    (simp_all add: split_beta, metis prod.collapse)


section \<open>Latency needs live engines\<close>

text \<open>Every remote expander that has an engine has one that still exists.\<close>

fun live :: "(u32 \<times> nat option) option list \<times> nat set \<Rightarrow> bool" where
  "live (ts, engines) \<longleftrightarrow> list_all (\<lambda>t. case t of Some (n, Some i) \<Rightarrow> i \<in> engines | _ \<Rightarrow> True) ts"

lemma engine_read_type: "engine_read i req w = Some (resp, w1) \<Longrightarrow> fab_type w1 = fab_type w"
  by (auto simp: engine_read_def fab_type_def Let_def split: option.splits prod.splits if_splits)

lemma engine_read_live: "i \<in> dom (fa_engines w) \<Longrightarrow> engine_read i req w \<noteq> None"
  by (auto simp: engine_read_def Let_def split: prod.split)

lemma rx_coherency_type: "rx_coherency_latency ts a r w = Some (v, w1) \<Longrightarrow> fab_type w1 = fab_type w"
  by (auto simp: rx_coherency_latency_def split: option.splits dest: engine_read_type)

lemma rx_coherency_live:
  "\<forall>i. rx_coherency_engine r = Some i \<longrightarrow> i \<in> snd (fab_type w) \<Longrightarrow> rx_coherency_latency ts a r w \<noteq> None"
  using engine_read_live [of _ w] unfolding rx_coherency_latency_def fab_type_def by (auto simp del: not_None_eq split: option.splits)

lemma rx_latency_loop_type:
  "rx_latency_loop el lat n x r w = Some (lat1, n1, r1, w1) \<Longrightarrow>
     fab_type w1 = fab_type w \<and> rx_remote_node_id r1 = rx_remote_node_id r \<and> rx_coherency_engine r1 = rx_coherency_engine r"
proof (induction el arbitrary: lat n r w)
  case (Cons e el)
  obtain ts a where e: "e = (ts, a)"
    by fastforce
  obtain link l1 where l: "calculate_traversal_latency ts 64 (rx_fabric_link r) = (link, l1)"
    by fastforce
  show ?case
  proof (cases "in_remote_range r a")
    case True
    then obtain v w2 lat2 where c: "rx_coherency_latency ts a (r\<lparr>rx_fabric_link := l1\<rparr>) w = Some (v, w2)"
        "rx_latency_loop el lat2 (Suc n) x (r\<lparr>rx_fabric_link := l1\<rparr>) w2 = Some (lat1, n1, r1, w1)"
      using Cons.prems by (auto simp: e l Let_def split: option.splits)
    then show ?thesis
      using Cons.IH [OF c(2)] rx_coherency_type [OF c(1)] by simp
  next
    case False
    then show ?thesis
      using Cons by (simp add: e)
  qed
qed simp

lemma rx_latency_loop_live:
  "\<forall>i. rx_coherency_engine r = Some i \<longrightarrow> i \<in> snd (fab_type w) \<Longrightarrow> rx_latency_loop el lat n x r w \<noteq> None"
proof (induction el arbitrary: lat n r w)
  case (Cons e el)
  obtain ts a where e: "e = (ts, a)"
    by fastforce
  obtain link l1 where l: "calculate_traversal_latency ts 64 (rx_fabric_link r) = (link, l1)"
    by fastforce
  let ?r = "r\<lparr>rx_fabric_link := l1\<rparr>"
  obtain v w2 where c: "rx_coherency_latency ts a ?r w = Some (v, w2)"
    using rx_coherency_live [of ?r w ts a] Cons.prems by fastforce
  have "rx_latency_loop el lat' n' x ?r w2 \<noteq> None" for lat' n'
    using Cons.prems rx_coherency_type [OF c] by (intro Cons.IH) simp
  then show ?case
    using Cons.IH [OF Cons.prems] c by (simp add: e l Let_def)
qed simp

lemma ep_latency_type:
  assumes "ep_calculate_latency el d p w = Some (v, w1)" shows "fab_type w1 = fab_type w"
proof (cases "fa_heap w ! p")
  case (Local x)
  then show ?thesis
    using assms fab_type_on_exp [of p "ex_calculate_latency el d" w] by (simp add: ep_calculate_latency_def)
next
  case (Remote x r)
  then obtain lat n r1 w2 where loop: "rx_latency_loop el 0 0 x r w = Some (lat, n, r1, w2)"
    and w1: "w1 = w2\<lparr>fa_heap := (fa_heap w2)[p := Remote x r1]\<rparr>"
    using assms by (auto simp: ep_calculate_latency_def rx_calculate_latency_def)
  have t: "fab_type w2 = fab_type w" "ep_type (Remote x r1) = ep_type (Remote x r)"
    using rx_latency_loop_type [OF loop] by simp_all
  then have "map ep_type (fa_heap w2) = map ep_type (fa_heap w)"
    by (simp add: fab_type_def)
  then have "map ep_type ((fa_heap w2)[p := Remote x r1]) = map ep_type (fa_heap w2)"
    using t(2) Remote unfolding map_update by (metis list_update_id list_update_beyond length_map not_le nth_map)
  then show ?thesis
    using t(1) by (simp add: w1 fab_type_def)
qed

lemma ep_latency_live:
  assumes "live (fab_type w)" "p < length (fst (fab_type w))" shows "ep_calculate_latency el d p w \<noteq> None"
proof (cases "fa_heap w ! p")
  case (Local x)
  then show ?thesis
    by (simp add: ep_calculate_latency_def)
next
  case (Remote x r)
  then have "\<forall>i. rx_coherency_engine r = Some i \<longrightarrow> i \<in> snd (fab_type w)"
    using assms by (auto simp: fab_type_def list_all_length split: option.splits)
  then show ?thesis
    using rx_latency_loop_live Remote by (simp add: ep_calculate_latency_def rx_calculate_latency_def)
qed

text \<open>A walk is well behaved when it keeps the type, and returns on live engines and valid pointers.\<close>

definition sound :: "nat set \<Rightarrow> (fabric \<Rightarrow> (double \<times> fabric) option) \<Rightarrow> bool" where
  "sound P f \<longleftrightarrow> (\<forall>w. (\<forall>v w1. f w = Some (v, w1) \<longrightarrow> fab_type w1 = fab_type w)
     \<and> (live (fab_type w) \<longrightarrow> P \<subseteq> {..<length (fst (fab_type w))} \<longrightarrow> f w \<noteq> None))"

lemma sound_seq:
  assumes "sound P f" "sound Q g"
  shows "sound (P \<union> Q) (\<lambda>w. case f w of None \<Rightarrow> None | Some (a, w1) \<Rightarrow> map_option (\<lambda>(b, w2). (a + b, w2)) (g w1))"
  using assms unfolding sound_def by (auto split: option.splits) (metis option.distinct(1))+

lemma sound_done: "sound {} (\<lambda>w. Some (0, w))"
  by (simp add: sound_def)

lemma sound_ep: "sound {p} (ep_calculate_latency el d p)"
  using ep_latency_type ep_latency_live by (simp add: sound_def)

lemma sound_eps: "sound (set ps) (eps_calculate_latency el d ps)"
proof (induction ps)
  case Nil
  then show ?case
    by (simp add: sound_done)
next
  case (Cons p ps)
  show ?case
    using sound_seq [OF sound_ep Cons.IH] by simp
qed

lemma sound_list:
  "(\<And>sw. sw \<in> set sws \<Longrightarrow> sound (set (sw_endpoints sw)) (sw_calculate_latency el d sw)) \<Longrightarrow>
     sound (set (concat (map sw_endpoints sws))) (sws_calculate_latency el d sws)"
proof (induction sws)
  case Nil
  then show ?case
    by (simp add: sound_done)
next
  case (Cons sw sws)
  then have "sound (set (sw_endpoints sw)) (sw_calculate_latency el d sw)"
      "sound (set (concat (map sw_endpoints sws))) (sws_calculate_latency el d sws)"
    by simp_all
  from sound_seq [OF this] show ?case
    by simp
qed

lemma sound_latency: "sound (set (sw_endpoints sw)) (sw_calculate_latency el d sw)"
proof (induction sw)
  case (CXLSwitch s es ws)
  then show ?case
    using sound_seq [OF sound_eps sound_list] by simp
qed


section \<open>Operations that keep the shape of the controller\<close>

definition shape :: "CXLController \<Rightarrow> ((u32 \<times> nat option) option list \<times> nat set) \<times> eptr set \<times> eptr list
    \<times> (int \<rightharpoonup> eptr) \<times> int \<times> eptr list \<times> nat option \<times> nat" where
  "shape c = (fab_type (ct_fabric c), set (sw_endpoints (ct_tree c)), ct_cur_expanders c, ct_device_map c,
     ct_num_end_points c, ct_remote_expanders c, ct_coherency c, ct_next_engine c)"

text \<open>The cache and the ordered map of local entries are consistent.\<close>

definition data_ok :: "CXLController \<Rightarrow> bool" where
  "data_ok c \<longleftrightarrow> lru_inv (ct_lru_cache c) \<and> sorted (map fst (ct_occupation c)) \<and> distinct (map fst (ct_occupation c))"

definition calm :: "CXLController \<Rightarrow> CXLController \<Rightarrow> bool" where
  "calm c c1 \<longleftrightarrow> shape c1 = shape c \<and> (data_ok c \<longrightarrow> data_ok c1)"

lemma calm_refl [simp]: "calm c c"
  by (simp add: calm_def)

lemma calm_trans: "calm c c1 \<Longrightarrow> calm c1 c2 \<Longrightarrow> calm c c2"
  by (simp add: calm_def)

lemma calmI: "shape c1 = shape c \<Longrightarrow> ct_lru_cache c1 = ct_lru_cache c \<Longrightarrow> ct_occupation c1 = ct_occupation c \<Longrightarrow> calm c c1"
  by (simp add: calm_def data_ok_def)

lemma calm_fields [ct_frame]:
  "calm c (c\<lparr>ct_latency_lat := x\<rparr>)" "calm c (c\<lparr>ct_counter := k\<rparr>)" "calm c (c\<lparr>ct_request_counter := n\<rparr>)"
  "calm c (c\<lparr>ct_last_index := n\<rparr>)" "calm c (c\<lparr>ct_thread_map := m\<rparr>)" "calm c (c\<lparr>ct_hdm_decoder := h\<rparr>)"
  "calm c (c\<lparr>ct_mhsld_device := d\<rparr>)" "calm c (c\<lparr>ct_dcd_device := dc\<rparr>)" "calm c (c\<lparr>ct_gfam_device := g\<rparr>)"
  "calm c (c\<lparr>ct_gfam_stale := b\<rparr>)" "calm c (c\<lparr>ct_ring_buffer := rb\<rparr>)" "calm c (c\<lparr>ct_bandwidth_lat := x\<rparr>)"
  by (simp_all add: calmI shape_def)

lemma calm_count [ct_frame]:
  "calm c (inc_local c)" "calm c (inc_remote c)" "calm c (inc_hitm c)" "calm c (inc_backinv k c)" "calm c (set_thread tid t c)"
  "calm c (push_llcm tid n c)"
  by (simp_all add: inc_local_def inc_remote_def inc_hitm_def inc_backinv_def set_thread_def push_llcm_def Let_def calm_fields)

lemma calm_fabric: "fab_type w = fab_type (ct_fabric c) \<Longrightarrow> calm c (c\<lparr>ct_fabric := w\<rparr>)"
  by (simp add: calmI shape_def)

lemma calm_tree_fabric:
  "fab_type w = fab_type (ct_fabric c) \<Longrightarrow> set (sw_endpoints tr) = set (sw_endpoints (ct_tree c)) \<Longrightarrow>
     calm c (c\<lparr>ct_tree := tr, ct_fabric := w\<rparr>)"
  by (simp add: calmI shape_def)

lemma endpoints_parts: "sw_endpoints sw = sw_expanders sw @ concat (map sw_endpoints (sw_switches sw))"
  by (cases sw) simp

lemma calm_set_last_timestamp [ct_frame]: "calm c (set_last_timestamp ts c)"
  by (simp add: calmI shape_def set_last_timestamp_def endpoints_parts [of "ct_tree c"])

lemma distinct_map_insort: "distinct (map f (insort_key f x xs)) \<longleftrightarrow> f x \<notin> f ` set xs \<and> distinct (map f xs)"
  by (induction xs) (auto simp: set_insort_key)

lemma occ_emplace_ok:
  "sorted (map fst oc) \<Longrightarrow> distinct (map fst oc) \<Longrightarrow>
     sorted (map fst (occ_emplace k v oc)) \<and> distinct (map fst (occ_emplace k v oc))"
  by (auto simp: occ_emplace_def sorted_insort_key distinct_map_insort)

lemma calm_occupy [ct_frame]: "calm c (occupy ts a k c)"
  using occ_emplace_ok by (simp add: calm_def shape_def data_ok_def occupy_def)

lemma calm_insert_into [ct_frame]: "calm c (insert_into p ts tid a c)"
  by (simp add: insert_into_def calm_fabric fab_type_at_ep fab)

lemma calm_charge_walk: "charge_walk v a b (c, po) = Some (ptw, c1, po1) \<Longrightarrow> calm c c1"
  by (auto simp: charge_walk_def ct_frame split: option.splits if_splits)

lemma calm_lru: "lru_step x (ct_lru_cache c) = Some (r, l) \<Longrightarrow> calm c (c\<lparr>ct_lru_cache := l\<rparr>)"
  using lru_step_sim [of "ct_lru_cache c" x] by (auto simp: calm_def shape_def data_ok_def lru_sim_def)

lemma calm_update_cache: "update_cache a v ts c = Some c1 \<Longrightarrow> calm c c1"
  using calm_lru [of "Lru_put a v ts" c Done] by (auto simp: update_cache_def)

lemma calm_access_cache: "access_cache a ts c = Some (hit, c1) \<Longrightarrow> calm c c1"
  using calm_lru [of "Lru_get a ts" c "Value hit"] by (auto simp: access_cache_def)

lemma calm_cache_if_allowed: "cache_if_allowed a ts cp (c, po) = Some (c1, po1) \<Longrightarrow> calm c c1"
  by (auto simp: cache_if_allowed_def Let_def split: prod.splits if_splits dest: calm_update_cache)

lemma calm_insert_tree:
  assumes "insert_tree ts tid a i res c = (r, c1)" shows "calm c c1"
proof -
  let ?f = "ep_insert ts tid a i"
  obtain rs sws w rs2 w2 where 1: "offer_switches ?f (sw_switches (ct_tree c)) (ct_fabric c) = (rs, sws, w)"
    and 2: "offer_expanders ?f (sw_expanders (ct_tree c)) w = (rs2, w2)"
    by (metis prod_cases3 surj_pair)
  have "fab_type w2 = fab_type (ct_fabric c)" "map sw_endpoints sws = map sw_endpoints (sw_switches (ct_tree c))"
    using fab_type_offer_switches [OF ep_type_insert 1] fab_type_offer_expanders [of ?f "sw_expanders (ct_tree c)" w] 2 fab by auto
  then show ?thesis
    using assms 1 2 by (auto simp: insert_tree_def endpoints_parts [of "ct_tree c"] intro!: calm_tree_fabric)
qed

lemma calm_insert_decoded:
  assumes "insert_decoded hdm ts tid a v (c, po) = Some (c1, po1)" shows "calm c c1"
proof -
  let ?d = "decode hdm a"
  obtain ptw cw pw where w: "charge_walk v a (res_is_remote ?d) (c, po) = Some (ptw, cw, pw)"
    using assms by (auto simp: insert_decoded_def Let_def bind_eq_Some_conv)
  define cr where "cr = (case get_remote_expander (res_target_id ?d) cw of None \<Rightarrow> cw | Some p \<Rightarrow> insert_into p (ts + ptw) tid a cw)"
  define cl where "cl = (case ct_device_map cw (sint (res_target_id ?d)) of
      None \<Rightarrow> occupy ts a (ts + ptw) cw | Some p \<Rightarrow> insert_into p (ts + ptw) tid a cw)"
  define c2 where "c2 = (if res_is_remote ?d then push_llcm tid 1 (inc_remote cr) else push_llcm tid 0 (inc_local cl))"
  have "calm cw cr" "calm cw cl"
    by (auto simp: cr_def cl_def ct_frame split: option.split)
  then have "calm cw c2"
    using calm_trans [OF calm_trans [OF _ calm_count(2)] calm_count(6)] calm_trans [OF calm_trans [OF _ calm_count(1)] calm_count(6)]
    by (auto simp: c2_def)
  moreover have "calm c2 c1"
    using assms w calm_cache_if_allowed
    by (auto simp: insert_decoded_def Let_def c2_def cr_def cl_def split: option.splits)
  ultimately show ?thesis
    using calm_trans [OF calm_charge_walk [OF w]] calm_trans by blast
qed

lemma calm_insert_allocated:
  assumes "insert_allocated ts tid a v res (c, po) = Some (r, c1, po1)" shows "calm c c1"
proof -
  obtain ap numa ap1 ptw cw pw where al: "po_allocation po = Some ap" "alloc_compute_once c ap = Some (numa, ap1)"
    and w: "charge_walk v a (numa \<noteq> - 1) (c, po\<lparr>po_allocation := Some ap1\<rparr>) = Some (ptw, cw, pw)"
    and pl: "place_access ts tid a numa res ptw (cw, pw) = Some (r, c1, po1)"
    using assms by (auto simp: insert_allocated_def bind_eq_Some_conv)
  have "calm cw c1"
  proof (cases "numa = - 1")
    case True
    then have "update_cache a a ts (push_llcm tid 0 (inc_local (occupy ts a (ts + ptw) cw))) = Some c1"
      using pl by (auto simp: place_access_def)
    from calm_update_cache [OF this] show ?thesis
      using calm_trans [OF calm_trans [OF calm_trans [OF calm_occupy calm_count(1)] calm_count(6)]] by blast
  next
    case False
    obtain res1 c2 where t: "insert_tree (ts + ptw) tid a numa res (inc_remote cw) = (res1, c2)"
      by fastforce
    then have "\<exists>cp. cache_if_allowed a ts cp (push_llcm tid 1 c2, pw) = Some (c1, po1)"
      using pl False by (auto simp: place_access_def bind_eq_Some_conv)
    then have "calm (push_llcm tid 1 c2) c1"
      using calm_cache_if_allowed by blast
    then show ?thesis
      using calm_trans [OF calm_trans [OF calm_trans [OF calm_count(2) calm_insert_tree [OF t]] calm_count(6)]] by blast
  qed
  then show ?thesis
    using calm_trans [OF calm_charge_walk [OF w]] by blast
qed

lemma calm_insert_step:
  assumes "insert_step ts tid a v res (c, po) = Some (r, c1, po1)" shows "calm c c1"
proof -
  obtain hit c0 where h: "access_cache a ts c = Some (hit, c0)"
    using assms by (auto simp: insert_step_def bind_eq_Some_conv)
  have "calm c0 c1"
    using assms h calm_trans [OF calm_count(3) calm_count(6)] calm_insert_decoded calm_insert_allocated
    by (auto simp: insert_step_def split: if_splits option.splits)
  then show ?thesis
    using calm_trans [OF calm_access_cache [OF h]] by blast
qed

lemma calm_insert_loop: "insert_loop n dt now tid a v res (c, po) = Some (r, c1, po1) \<Longrightarrow> calm c c1"
proof (induction n arbitrary: now res c po)
  case (Suc n)
  then obtain r' c' po' where s: "insert_step (now + dt) tid a v res (c, po) = Some (r', c', po')"
    and rest: "insert_loop n dt (now + dt) tid a v r' (c', po') = Some (r, c1, po1)"
    by (auto simp: bind_eq_Some_conv)
  show ?case
    by (rule calm_trans [OF calm_insert_step [OF s] Suc.IH [OF rest]])
qed simp


section \<open>Invalidation and the policies\<close>

lemma calm_fold: "(\<And>x c. calm c (f x c)) \<Longrightarrow> calm c (fold f xs c)"
proof (induction xs arbitrary: c)
  case (Cons x xs)
  then show ?case
    using calm_trans by (metis fold_simps(2))
qed simp

lemma calm_invalidate_endpoint [ct_frame]: "calm c (invalidate_endpoint a p c)"
proof -
  have "calm c (on_heap p f c)" for f
    by (simp add: on_heap_def calm_fabric fab_type_def map_update_same)
  from calm_trans [OF this calm_count(4)] show ?thesis
    by (simp add: invalidate_endpoint_def Let_def)
qed

lemma calm_invalidate_in_switch: "calm c (invalidate_in_switch a sw c)"
proof (induction sw arbitrary: c)
  case (CXLSwitch s es ws)
  have "calm c (fold (invalidate_in_switch a) ws c)" for c
    using CXLSwitch
  proof (induction ws arbitrary: c)
    case (Cons w ws)
    have "calm c (invalidate_in_switch a w c)"
      using Cons.prems by simp
    moreover have "calm (invalidate_in_switch a w c) (fold (invalidate_in_switch a) ws (invalidate_in_switch a w c))"
      using Cons.prems by (intro Cons.IH) simp
    ultimately show ?case
      using calm_trans by simp
  qed simp
  then show ?case
    using calm_trans [OF calm_fold [of "invalidate_endpoint a" c es]] by (simp add: calm_invalidate_endpoint)
qed

lemma calm_invalidate_all: "invalidate_all as c = Some c1 \<Longrightarrow> calm c c1"
proof (induction as arbitrary: c)
  case (Cons a as)
  then obtain c2 b l where r: "lru_remove a (ct_lru_cache c) = Some (b, l)" "invalidate_all as c2 = Some c1"
      "c2 = invalidate_in_expanders a (inc_backinv (if b then 1 else 0) (c\<lparr>ct_lru_cache := l\<rparr>))"
    by (auto simp: bind_eq_Some_conv invalidate_address_def)
  have "calm c (c\<lparr>ct_lru_cache := l\<rparr>)"
    using calm_lru [of "Lru_remove a" c "Flag b" l] r(1) by simp
  from calm_trans [OF calm_trans [OF this calm_count(4)] calm_invalidate_in_switch] have "calm c c2"
    by (simp add: r(3) invalidate_in_expanders_switch)
  then show ?case
    using calm_trans Cons.IH [OF r(2)] by blast
qed simp

lemma calm_cache_compute_once:
  assumes "cache_compute_once c cp = Some (r, c1, cp1)" shows "calm c c1"
proof (cases cp)
  case FIFO
  then have "fifo_compute_once c = Some (r, c1)"
    using assms by auto
  then have "c1 = c \<or> (\<exists>oldest b l. lru_remove oldest (ct_lru_cache c) = Some (b, l) \<and> c1 = c\<lparr>ct_lru_cache := l\<rparr>)"
    unfolding fifo_compute_once_def Let_def map_option_eq_Some by (simp split: if_splits) blast
  then consider "c1 = c" | oldest b l where "lru_remove oldest (ct_lru_cache c) = Some (b, l)" "c1 = c\<lparr>ct_lru_cache := l\<rparr>"
    by blast
  then show ?thesis
  proof cases
    case (2 oldest b l)
    then show ?thesis
      using calm_lru [of "Lru_remove oldest" c "Flag b" l] by simp
  qed simp
qed (use assms in \<open>auto simp: Let_def split: prod.splits\<close>)

lemma calm_back_invalidation: "perform_back_invalidation (c, po) = Some (c1, po1) \<Longrightarrow> calm c c1"
  by (auto simp: perform_back_invalidation_def Let_def calm_invalidate_all split: option.splits prod.splits)

lemma calm_run_caching:
  assumes "run_caching (c, po) = Some (c1, po1)" shows "calm c c1"
proof (cases "po_caching po")
  case None
  then show ?thesis
    using assms by (simp add: run_caching_def)
next
  case (Some cp)
  then obtain r c' cp' where cc: "cache_compute_once c cp = Some (r, c', cp')"
    and "if 0 < r then perform_back_invalidation (c', po\<lparr>po_caching := Some cp'\<rparr>) = Some (c1, po1) else c1 = c'"
    using assms by (auto simp: run_caching_def bind_eq_Some_conv Let_def split: if_splits)
  then have "calm c' c1"
    using calm_back_invalidation by (auto split: if_splits)
  then show ?thesis
    by (rule calm_trans [OF calm_cache_compute_once [OF cc]])
qed

lemma calm_every_thousand:
  assumes "every_thousand n (c, po) = Some (c1, po1)" shows "calm c c1"
proof -
  have mig: "run_migration (c, po) = (c, snd (run_migration (c, po)))"
    by (simp add: run_migration_def Let_def split: option.split prod.split)
  show ?thesis
  proof (cases "1000 \<le> ct_request_counter c + n")
    case True
    then obtain c' p' where r: "run_caching (c, snd (run_migration (c, po))) = Some (c', p')" "c1 = c'\<lparr>ct_request_counter := 0\<rparr>"
      using assms mig by (auto simp: every_thousand_def Let_def)
    then show ?thesis
      using calm_trans [OF calm_run_caching [OF r(1)] calm_fields(3)] by simp
  next
    case False
    then show ?thesis
      using assms by (auto simp: every_thousand_def Let_def ct_frame)
  qed
qed

lemma calm_insert:
  assumes "ct_insert ts tid a v i (c, po) = Some (res, c1, po1)" shows "calm c c1"
proof -
  let ?c = "set_thread tid (thread_of tid c) c"
  obtain r c2 p2 c3 p3 n dt where loop: "insert_loop (nat n) dt (ct_last_timestamp ?c) tid a v True (?c, po) = Some (r, c2, p2)"
    and every: "every_thousand n (c2, p2) = Some (c3, p3)"
    and c1: "c1 = set_last_timestamp ts (c3\<lparr>ct_last_index := (if 0 < i then i else ct_last_index c3)\<rparr>)"
    using assms unfolding ct_insert_def Let_def prod.case by (auto simp: bind_eq_Some_conv)
  have "calm c c3"
    by (rule calm_trans [OF calm_trans [OF calm_count(5) calm_insert_loop [OF loop]] calm_every_thousand [OF every]])
  then show ?thesis
    unfolding c1 by (rule calm_trans [OF calm_trans [OF _ calm_fields(4)] calm_set_last_timestamp])
qed

lemma calm_record: "calm c (record_cxl_access ts tid a b c)"
proof -
  let ?c = "inc_remote c"
  let ?id = "case ct_cur_expanders ?c of [] \<Rightarrow> 0 | p # _ \<Rightarrow> ex_id (ct_exp ?c p)"
  obtain ret tr w where o: "sw_offer (ep_record_access ts tid a ?id b) (ct_tree ?c) (ct_fabric ?c) = (ret, tr, w)"
    by (metis prod_cases3)
  have t: "fab_type w = fab_type (ct_fabric ?c)" "sw_endpoints tr = sw_endpoints (ct_tree ?c)"
    using fab_type_sw_offer [OF ep_type_record o] by simp_all
  have "fab_type (snd (at_ep p (ep_record_access ts tid a ?id b) w)) = fab_type (ct_fabric ?c)" for p
    by (simp add: t fab_type_at_ep fab)
  then have "calm ?c (record_cxl_access ts tid a b c)"
    using t by (simp add: record_cxl_access_def Let_def sw_record_access_def o calm_tree_fabric split: option.split)
  then show ?thesis
    by (rule calm_trans [OF calm_count(2)])
qed


section \<open>All operations\<close>

datatype ctrl_op =
    Op_end_point CXLMemExpander
  | Op_topo string
  | Op_remote u32 u64 u64 FabricLinkConfig
  | Op_distributed u32 HDMDecoderMode
  | Op_decoder "HDMDecoder \<Rightarrow> HDMDecoder"
  | Op_insert u64 u64 u64 u64 int
  | Op_record u64 u64 u64 bool
  | Op_lbr u64 u64 "lbr list"
  | Op_get_access u64
  | Op_latency accesses double
  | Op_bandwidth accesses
  | Op_congestion
  | Op_delete u64 u64
  | Op_epoch int
  | Op_logp LogPConfig
  | Op_calibrate TCPCalibrationResult
  | Op_logp_latency u32 u32 u64
  | Op_enable_mhsld u32 double
  | Op_mhsld_read u32 u64 u64
  | Op_mhsld_write u32 u64 u64
  | Op_mhsld_atomic u32 u64 u64
  | Op_enable_dcd u64 u64 u64 u64
  | Op_enable_gfam u32 double double
  | Op_cap cap_op
  | Op_distributed_latency accesses u32 u32

text \<open>A topology that is rejected throws after what it has already built.\<close>

fun ctrl_step :: "ctrl_op \<Rightarrow> system \<Rightarrow> system option" where
  "ctrl_step (Op_end_point x) (c, po) = Some (insert_end_point x c, po)"
| "ctrl_step (Op_topo tree) (c, po) = Some (snd (construct_topo tree c), po)"
| "ctrl_step (Op_remote node base cap link) (c, po) = Some (snd (add_remote_endpoint node base cap link c), po)"
| "ctrl_step (Op_distributed node mode) (c, po) = Some (configure_distributed node mode c, po)"
| "ctrl_step (Op_decoder f) (c, po) = Some (configure_decoder f c, po)"
| "ctrl_step (Op_insert ts tid a v i) (c, po) = map_option snd (ct_insert ts tid a v i (c, po))"
| "ctrl_step (Op_record ts tid a is_write) (c, po) = Some (record_cxl_access ts tid a is_write c, po)"
| "ctrl_step (Op_lbr ts tid lbrs) (c, po) = map_option (\<lambda>c1. (c1, po)) (insert_lbr ts tid lbrs c)"
| "ctrl_step (Op_get_access ts) (c, po) = Some (snd (ct_get_access ts c), po)"
| "ctrl_step (Op_latency elem dram) (c, po) = map_option (\<lambda>(lat, c1). (c1, po)) (ct_calculate_latency elem dram c)"
| "ctrl_step (Op_bandwidth elem) (c, po) = Some (snd (ct_calculate_bandwidth elem c), po)"
| "ctrl_step Op_congestion (c, po) = Some (snd (ct_calculate_congestion c), po)"
| "ctrl_step (Op_delete a len) (c, po) = Some (ct_delete_entry a len c, po)"
| "ctrl_step (Op_epoch e) (c, po) = Some (ct_set_epoch e c, po)"
| "ctrl_step (Op_logp conf) (c, po) = Some (configure_logp conf c, po)"
| "ctrl_step (Op_calibrate r) (c, po) = Some (calibrate_logp_from_tcp r c, po)"
| "ctrl_step (Op_logp_latency src dst ts) (c, po) = Some (snd (calculate_logp_latency src dst ts c), po)"
| "ctrl_step (Op_enable_mhsld n bw) (c, po) = Some (enable_mhsld n bw c, po)"
| "ctrl_step (Op_mhsld_read h a ts) (c, po) = Some (snd (mhsld_read h a ts c), po)"
| "ctrl_step (Op_mhsld_write h a ts) (c, po) = Some (snd (mhsld_write h a ts c), po)"
| "ctrl_step (Op_mhsld_atomic h a ts) (c, po) = Some (snd (mhsld_atomic h a ts c), po)"
| "ctrl_step (Op_enable_dcd tot gran init tag) (c, po) = Some (enable_dcd tot gran init tag c, po)"
| "ctrl_step (Op_enable_gfam n lat bw) (c, po) = Some (enable_gfam n lat bw c, po)"
| "ctrl_step (Op_cap x) (c, po) = map_option (\<lambda>c1. (c1, po)) (cap_step x c)"
| "ctrl_step (Op_distributed_latency elem h n) (c, po) =
     map_option (\<lambda>(lat, c1). (c1, po)) (calculate_distributed_latency elem h n c)"

fun ctrl_run :: "ctrl_op list \<Rightarrow> system \<Rightarrow> system option" where
  "ctrl_run [] s = Some s"
| "ctrl_run (x # xs) s = Option.bind (ctrl_step x s) (ctrl_run xs)"

fun builds :: "ctrl_op \<Rightarrow> bool" where
  "builds (Op_end_point x) = True"
| "builds (Op_topo tree) = True"
| "builds (Op_remote node base cap link) = True"
| "builds (Op_distributed node mode) = True"
| "builds _ = False"

lemma calm_lbr: "insert_lbr ts tid lbrs c = Some c1 \<Longrightarrow> calm c c1"
  by (auto simp: insert_lbr_def insert_records_def Let_def split_beta set_thread_def fab intro!: calmI simp: shape_def)

lemma calm_queries [ct_frame]:
  "calm c (snd (ct_get_access ts c))" "calm c (snd (ct_calculate_bandwidth el c))" "calm c (snd (ct_calculate_congestion c))"
  "calm c (ct_delete_entry a n c)" "calm c (ct_set_epoch e c)"
  by (auto simp: ct_get_access_def ct_calculate_bandwidth_def ct_calculate_congestion_def ct_delete_entry_def ct_set_epoch_def
      sw_set_epoch_def split_beta fab shape_def endpoints_parts [of "ct_tree c"] intro!: calmI split: CXLSwitch.split)

lemma calm_latency: "ct_calculate_latency el d c = Some (v, c1) \<Longrightarrow> calm c c1"
  using sound_latency [of "ct_tree c" el d] by (auto simp: ct_calculate_latency_def sound_def intro!: calm_fabric)

lemma calm_set_logp [ct_frame]: "calm c (set_logp m c)"
  by (simp add: set_logp_def calm_fabric fab_type_def)

lemma calm_logp [ct_frame]:
  "calm c (configure_logp conf c)" "calm c (calibrate_logp_from_tcp r c)" "calm c (snd (calculate_logp_latency h n ts c))"
  by (simp_all add: configure_logp_def calibrate_logp_from_tcp_def calculate_logp_latency_def Let_def split_beta ct_frame)

lemma calm_mhsld [ct_frame]:
  "calm c (enable_mhsld n bw c)" "calm c (snd (mhsld_read h a ts c))" "calm c (snd (mhsld_write h a ts c))"
  "calm c (snd (mhsld_atomic h a ts c))"
  by (simp_all add: enable_mhsld_def mhsld_read_def mhsld_write_def mhsld_atomic_def with_mhsld_def split_beta ct_frame Let_def
      split: option.split)


lemma calm_enable_dcd [ct_frame]: "calm c (enable_dcd tot gran init tag c)"
  unfolding enable_dcd_def Let_def by (rule calm_trans [OF calm_fields(8) calm_fields(10)])

lemma calm_enable_gfam: "calm c (enable_gfam n lat bw c)"
proof -
  have "calm c (case ct_dcd_device c of Some d \<Rightarrow> c | None \<Rightarrow> enable_dcd tot gran init tag c)" for tot gran init tag
    by (simp add: ct_frame split: option.split)
  from calm_trans [OF calm_trans [OF this calm_fields(9)] calm_fields(10)] show ?thesis
    unfolding enable_gfam_def Let_def by blast
qed

lemma calm_cap: "cap_step x c = Some c1 \<Longrightarrow> calm c c1"
  by (cases x) (auto simp: dcd_add_capacity_def dcd_release_capacity_def ct_grant_access_def ct_revoke_access_def
      ct_record_access_def ct_frame Let_def split_beta calmI shape_def split: option.splits if_splits)

lemma calm_distributed_latency:
  assumes "calculate_distributed_latency el h n c = Some (v, c1)" shows "calm c c1"
proof (cases "el = []")
  case False
  then obtain base c2 where b: "ct_calculate_latency el (ct_dramlatency c) c = Some (base, c2)"
    using assms by (auto simp: calculate_distributed_latency_def)
  have "calm c2 (set_logp m (snd (calculate_logp_latency h n ts c2)))" for m ts
    by (rule calm_trans [OF calm_logp(3) calm_set_logp])
  then have "calm c2 c1"
    using assms False b calm_trans [OF _ calm_fields(7)]
    by (auto simp: calculate_distributed_latency_def Let_def split_beta split: option.splits if_splits)
  then show ?thesis
    by (rule calm_trans [OF calm_latency [OF b]])
qed (use assms in \<open>simp add: calculate_distributed_latency_def\<close>)

lemma calm_step: "ctrl_step x (c, po) = Some (c1, po1) \<Longrightarrow> \<not> builds x \<Longrightarrow> calm c c1"
  using calm_insert calm_lbr calm_latency calm_cap calm_distributed_latency
  by (cases x) (auto simp: ct_frame configure_decoder_def calm_record calm_enable_gfam)


section \<open>Well-typed controllers\<close>

definition ct_types :: "CXLController \<Rightarrow> (u32 \<times> nat option) option list" where
  "ct_types c = map ep_type (ct_heap c)"

lemma length_ct_types: "length (ct_types c) = length (ct_heap c)"
  by (simp add: ct_types_def)

definition remotes :: "'t option list \<Rightarrow> eptr list" where
  "remotes ts = filter (\<lambda>p. ts ! p \<noteq> None) [0..<length ts]"

lemma remotes_snoc: "remotes (ts @ [t]) = remotes ts @ (if t = None then [] else [length ts])"
proof -
  have "filter (\<lambda>p. (ts @ [t]) ! p \<noteq> None) [0..<length ts] = filter (\<lambda>p. ts ! p \<noteq> None) [0..<length ts]"
    by (rule filter_cong) (simp_all add: nth_append)
  then show ?thesis
    by (simp add: remotes_def del: not_None_eq)
qed

lemma remotes_Nil: "remotes ts = [] \<longleftrightarrow> set ts \<subseteq> {None}"
  unfolding remotes_def by (auto simp: filter_empty_conv in_set_conv_nth) (metis nth_mem option.exhaust insertE singletonD subsetD)

text \<open>
  Every pointer of the tree, of the list of configured endpoints and of the device map points to an
  object; the configured endpoints are local expanders, the list of remote expanders holds exactly
  the remote ones, in the order of their creation; devices are numbered below \<open>num_end_points\<close>; an
  engine has been created before anything points to it, and the current engine is live.
\<close>

definition well_typed :: "CXLController \<Rightarrow> bool" where
  "well_typed c \<longleftrightarrow> data_ok c
     \<and> set (sw_endpoints (ct_tree c)) \<union> set (ct_cur_expanders c) \<union> ran (ct_device_map c) \<subseteq> {..<length (ct_types c)}
     \<and> (\<forall>p \<in> set (ct_cur_expanders c). ct_types c ! p = None)
     \<and> ct_remote_expanders c = remotes (ct_types c)
     \<and> 0 \<le> ct_num_end_points c \<and> dom (ct_device_map c) \<subseteq> {0..<ct_num_end_points c}
     \<and> (\<forall>n i. Some (n, Some i) \<in> set (ct_types c) \<longrightarrow> i < ct_next_engine c)
     \<and> dom (fa_engines (ct_fabric c)) \<subseteq> {..<ct_next_engine c}
     \<and> (\<forall>i. ct_coherency c = Some i \<longrightarrow> i \<in> dom (fa_engines (ct_fabric c)))"

abbreviation ct_live :: "CXLController \<Rightarrow> bool" where
  "ct_live c \<equiv> live (fab_type (ct_fabric c))"

lemma shapeD:
  assumes "shape c1 = shape c"
  shows "ct_types c1 = ct_types c" "dom (fa_engines (ct_fabric c1)) = dom (fa_engines (ct_fabric c))"
    "set (sw_endpoints (ct_tree c1)) = set (sw_endpoints (ct_tree c))" "ct_cur_expanders c1 = ct_cur_expanders c"
    "ct_device_map c1 = ct_device_map c" "ct_num_end_points c1 = ct_num_end_points c"
    "ct_remote_expanders c1 = ct_remote_expanders c" "ct_coherency c1 = ct_coherency c" "ct_next_engine c1 = ct_next_engine c"
  using assms by (simp_all add: shape_def fab_type_def ct_types_def)

lemma calm_well_typed:
  assumes "calm c c1" "well_typed c" shows "well_typed c1"
proof -
  have same: "shape c1 = shape c" and "data_ok c1"
    using assms by (simp_all add: calm_def well_typed_def)
  then show ?thesis
    using assms(2) unfolding well_typed_def shapeD [OF same] by blast
qed

lemma live_iff: "live (ts, E) \<longleftrightarrow> (\<forall>n i. Some (n, Some i) \<in> set ts \<longrightarrow> i \<in> E)"
  unfolding live.simps list_all_iff by (auto split: option.splits)

lemma no_remotes_live: "well_typed c \<Longrightarrow> ct_remote_expanders c = [] \<Longrightarrow> ct_live c"
  unfolding well_typed_def fab_type_def live_iff ct_types_def [symmetric] by (metis option.distinct(1) remotes_Nil singletonD subsetD)

lemma well_typed_new: "well_typed (new_CXLController cap pt dram)"
  using lru_inv_new [of 524288] by (simp add: well_typed_def data_ok_def ct_types_def remotes_def new_CXLController_def new_CXLSwitch_def)

text \<open>A new object, at the end of the store.\<close>

lemma allocate_typed:
  assumes "well_typed c" "ct_types c1 = ct_types c @ [t]" "fa_engines (ct_fabric c1) = fa_engines (ct_fabric c)"
    and "ct_lru_cache c1 = ct_lru_cache c" "ct_occupation c1 = ct_occupation c"
    and "ct_coherency c1 = ct_coherency c" "ct_next_engine c1 = ct_next_engine c"
    and "ct_remote_expanders c1 = ct_remote_expanders c @ (if t = None then [] else [length (ct_types c)])"
    and "\<And>n i. t = Some (n, Some i) \<Longrightarrow> ct_coherency c = Some i"
    and "set (sw_endpoints (ct_tree c1)) \<subseteq> insert (length (ct_types c)) (set (sw_endpoints (ct_tree c)))"
    and "ran (ct_device_map c1) \<subseteq> insert (length (ct_types c)) (ran (ct_device_map c))"
    and "ct_cur_expanders c1 = ct_cur_expanders c @ (if t = None then [length (ct_types c)] else [])"
    and "0 \<le> ct_num_end_points c1" "dom (ct_device_map c1) \<subseteq> {0..<ct_num_end_points c1}"
  shows "well_typed c1" "ct_live c \<Longrightarrow> ct_live c1"
proof -
  note wt = assms(1) [unfolded well_typed_def]
  let ?n = "length (ct_types c)"
  have new: "i \<in> dom (fa_engines (ct_fabric c))" if "t = Some (n, Some i)" for n i
    using assms(9) [OF that] wt by blast
  have pointers: "set (sw_endpoints (ct_tree c1)) \<union> set (ct_cur_expanders c1) \<union> ran (ct_device_map c1) \<subseteq> {..<Suc ?n}"
    using wt assms(10,11,12) by (fastforce simp: less_Suc_eq split: if_splits)
  have locals: "(ct_types c @ [t]) ! p = None" if "p \<in> set (ct_cur_expanders c1)" for p
    using wt assms(12) that by (fastforce simp: nth_append subset_iff split: if_splits)
  have engines: "i < ct_next_engine c" if "Some (n, Some i) \<in> set (ct_types c @ [t])" for n i
    using wt that new [of n i] unfolding set_append list.set by blast
  show "well_typed c1"
    unfolding well_typed_def assms(2-8) remotes_snoc data_ok_def
    using pointers locals engines wt assms(13,14) by (simp add: data_ok_def)
  show "ct_live c1" if "ct_live c"
    using that new unfolding fab_type_def live_iff ct_types_def [symmetric] assms(2,3) set_append list.set by blast
qed

lemma insert_end_point_typed:
  assumes "well_typed c"
  shows "well_typed (insert_end_point x c)" "ct_live c \<Longrightarrow> ct_live (insert_end_point x c)"
proof -
  have d: "0 \<le> ct_num_end_points c" "dom (ct_device_map c) \<subseteq> {0..<ct_num_end_points c}"
    using assms by (simp_all add: well_typed_def)
  show "well_typed (insert_end_point x c)" "ct_live c \<Longrightarrow> ct_live (insert_end_point x c)"
    by (rule allocate_typed [OF assms, of _ None]; use d in \<open>auto simp: insert_end_point_def ct_types_def\<close>)+
qed

lemma add_remote_typed:
  assumes "well_typed c"
    and c1_def: "c1 = snd (add_remote_endpoint node base cap link c)"
  shows "well_typed c1" "ct_live c \<Longrightarrow> ct_live c1"
proof -
  have wt: "0 \<le> ct_num_end_points c" "dom (ct_device_map c) \<subseteq> {0..<ct_num_end_points c}"
    using assms(1) by (simp_all add: well_typed_def)
  then have dom: "dom (ct_device_map c1) \<subseteq> {0..<ct_num_end_points c1}" "0 \<le> ct_num_end_points c1"
    by (auto simp: c1_def add_remote_endpoint_def Let_def new_RemoteCXLExpander_def)
  have ran: "ran (ct_device_map c1) \<subseteq> insert (length (ct_types c)) (ran (ct_device_map c))"
    by (auto simp: c1_def add_remote_endpoint_def Let_def new_RemoteCXLExpander_def ran_def length_ct_types split: if_splits)
  have rest: "ct_types c1 = ct_types c @ [Some (node, ct_coherency c)]" "fa_engines (ct_fabric c1) = fa_engines (ct_fabric c)"
    "ct_lru_cache c1 = ct_lru_cache c" "ct_occupation c1 = ct_occupation c"
    "ct_coherency c1 = ct_coherency c" "ct_next_engine c1 = ct_next_engine c" "ct_cur_expanders c1 = ct_cur_expanders c"
    "ct_remote_expanders c1 = ct_remote_expanders c @ [length (ct_types c)]"
    "set (sw_endpoints (ct_tree c1)) \<subseteq> insert (length (ct_types c)) (set (sw_endpoints (ct_tree c)))"
    by (auto simp: c1_def add_remote_endpoint_def Let_def new_RemoteCXLExpander_def push_expander_def endpoints_parts [of "ct_tree c"] length_ct_types)
      (auto simp: ct_types_def)
  show "well_typed c1" "ct_live c \<Longrightarrow> ct_live c1"
    by (rule allocate_typed [OF assms(1) rest(1)]; use rest ran dom in auto)+
qed


lemma configure_distributed_typed:
  assumes "well_typed c" shows "well_typed (configure_distributed node mode c)"
proof -
  let ?c = "configure_distributed node mode c"
  note wt = assms [unfolded well_typed_def]
  have same: "ct_types ?c = ct_types c" "ct_tree ?c = ct_tree c" "ct_cur_expanders ?c = ct_cur_expanders c"
      "ct_device_map ?c = ct_device_map c" "ct_remote_expanders ?c = ct_remote_expanders c"
      "ct_num_end_points ?c = ct_num_end_points c" "data_ok ?c = data_ok c"
      "ct_next_engine ?c = Suc (ct_next_engine c)" "ct_coherency ?c = Some (ct_next_engine c)"
    by (simp_all add: configure_distributed_def ct_types_def data_ok_def Let_def)
  have "dom (fa_engines (ct_fabric ?c)) \<subseteq> insert (ct_next_engine c) (dom (fa_engines (ct_fabric c)))"
      "ct_next_engine c \<in> dom (fa_engines (ct_fabric ?c))"
    by (auto simp: configure_distributed_def Let_def split: option.splits if_splits)
  then have "dom (fa_engines (ct_fabric ?c)) \<subseteq> {..<Suc (ct_next_engine c)}" "ct_next_engine c \<in> dom (fa_engines (ct_fabric ?c))"
    using wt unfolding lessThan_Suc by blast+
  moreover have "i < Suc (ct_next_engine c)" if "Some (n, Some i) \<in> set (ct_types c)" for n i
    using wt that less_SucI by blast
  ultimately show ?thesis
    unfolding well_typed_def same using wt by blast
qed

text \<open>A predicate that the steps of the parser keep holds of what the parser leaves, also when it fails.\<close>

definition leaves :: "(CXLController \<Rightarrow> bool) \<Rightarrow> topo_error option \<times> topo_state \<Rightarrow> bool" where
  "leaves Q r \<longleftrightarrow> Q (tp_ctrl (snd r))"

lemma leaves_cases:
  "(b \<Longrightarrow> leaves Q r1) \<Longrightarrow> (\<not> b \<Longrightarrow> leaves Q r2) \<Longrightarrow> leaves Q (if b then r1 else r2)"
  "(xs = [] \<Longrightarrow> leaves Q r1) \<Longrightarrow> (\<And>y ys. xs = y # ys \<Longrightarrow> leaves Q (f y ys)) \<Longrightarrow> leaves Q (case xs of [] \<Rightarrow> r1 | y # ys \<Rightarrow> f y ys)"
  "(v = None \<Longrightarrow> leaves Q r1) \<Longrightarrow> (\<And>y. v = Some y \<Longrightarrow> leaves Q (g y)) \<Longrightarrow> leaves Q (case v of None \<Rightarrow> r1 | Some y \<Rightarrow> g y)"
  "(\<And>e st1. pr = (e, st1) \<Longrightarrow> leaves Q (h e st1)) \<Longrightarrow> leaves Q (case pr of (e, st1) \<Rightarrow> h e st1)"
  "Q (tp_ctrl st) \<Longrightarrow> leaves Q (e, st)"
  by (auto simp: leaves_def split: list.split option.split prod.split)

lemma topo_loop_leaves:
  assumes count: "\<And>c n. Q c \<Longrightarrow> Q (c\<lparr>ct_num_switches := n\<rparr>)"
    and child: "\<And>p st. Q (tp_ctrl st) \<Longrightarrow> Q (tp_ctrl (open_switch p st))"
    and remote: "\<And>v st. Q (tp_ctrl st) \<Longrightarrow> Q (tp_ctrl (add_topology_remote v st))"
    and leaf: "\<And>n t st. Q (tp_ctrl st) \<Longrightarrow> Q (tp_ctrl (snd (add_local_expander n t st)))"
  shows "Q (tp_ctrl st) \<Longrightarrow> leaves Q (topo_loop ts st)"
proof (induction "length ts" arbitrary: ts st rule: less_induct)
  case less
  show ?case
  proof (cases ts)
    case Nil
    then show ?thesis
      using less.prems by (simp add: topo_loop.simps leaves_def)
  next
    case (Cons token rest)
    have rest: "leaves Q (topo_loop rest st1)" if "Q (tp_ctrl st1)" for st1
      using less.hyps [of rest] that Cons by simp
    have drop: "leaves Q (topo_loop (drop 4 rest) st1)" if "Q (tp_ctrl st1)" for st1
      using less.hyps [of "drop 4 rest"] that Cons by simp
    have skip: "leaves Q (topo_loop (skip_optional_branch_length rest) st1)" if "Q (tp_ctrl st1)" for st1
      using less.hyps [of "skip_optional_branch_length rest"] length_skip [of rest] that Cons by simp
    have leaf: "Q (tp_ctrl st1)" if "add_local_expander n t st = (e, st1)" for n t e st1
      using leaf [OF less.prems, of n t] that by simp
    show ?thesis
      unfolding Cons topo_loop.simps Let_def
      by (intro leaves_cases rest drop skip remote child; simp add: less.prems count leaf)
  qed
qed


lemma well_typedD:
  assumes "well_typed c"
  shows "set (sw_endpoints (ct_tree c)) \<subseteq> {..<length (ct_types c)}" "set (ct_cur_expanders c) \<subseteq> {..<length (ct_types c)}"
    "0 \<le> ct_num_end_points c" "dom (ct_device_map c) \<subseteq> {0..<ct_num_end_points c}" "ran (ct_device_map c) \<subseteq> {..<length (ct_types c)}"
  using assms by (simp_all add: well_typed_def)

text \<open>Hanging an object of the store into the tree or the device map.\<close>

lemma endpoints_upd_path:
  assumes "\<And>sw. set (sw_endpoints (f sw)) \<subseteq> insert p (set (sw_endpoints sw))"
  shows "set (sw_endpoints (upd_path is f sw)) \<subseteq> insert p (set (sw_endpoints sw))"
proof (induction "is" arbitrary: sw)
  case (Cons i "is")
  show ?case
  proof (cases sw)
    case (CXLSwitch s es ws)
    have "set (sw_endpoints x) \<subseteq> insert p (set (sw_endpoints sw))" if "x \<in> set (ws[i := upd_path is f (ws ! i)])" for x
    proof (cases "x \<in> set ws")
      case False
      then have "x = upd_path is f (ws ! i)" "i < length ws"
        using that set_update_subset_insert [of ws i] by (auto simp: list_update_beyond not_le [symmetric])
      then show ?thesis
        using Cons.IH [of "ws ! i"] CXLSwitch nth_mem [of i ws] by fastforce
    qed (auto simp: CXLSwitch)
    then show ?thesis
      using CXLSwitch by auto
  qed
qed (simp add: assms)

lemma endpoints_push:
  "set (sw_endpoints (push_expander p sw)) = insert p (set (sw_endpoints sw))"
  "set (sw_endpoints (push_switch child sw)) = set (sw_endpoints child) \<union> set (sw_endpoints sw)"
  by (cases sw; auto simp: push_expander_def push_switch_def)+

lemma hang_typed:
  assumes "well_typed c" "p < length (ct_types c)" "shape c1 = shape (c\<lparr>ct_tree := tr, ct_device_map := dm, ct_num_end_points := n\<rparr>)"
    and "ct_lru_cache c1 = ct_lru_cache c" "ct_occupation c1 = ct_occupation c"
    and "set (sw_endpoints tr) \<subseteq> insert p (set (sw_endpoints (ct_tree c)))"
    and "ran dm \<subseteq> insert p (ran (ct_device_map c))" "0 \<le> n" "dom dm \<subseteq> {0..<n}"
  shows "well_typed c1" "ct_live c1 = ct_live c"
proof -
  let ?c = "c\<lparr>ct_tree := tr, ct_device_map := dm, ct_num_end_points := n\<rparr>"
  note wt = assms(1) [unfolded well_typed_def]
  have t: "ct_types ?c = ct_types c" "data_ok ?c = data_ok c"
    by (simp_all add: ct_types_def data_ok_def)
  have "set (sw_endpoints tr) \<union> set (ct_cur_expanders c) \<union> ran dm \<subseteq> {..<length (ct_types c)}"
    using well_typedD(1,2,5) [OF assms(1)] assms(2,6,7) by auto
  then have "well_typed ?c"
    unfolding well_typed_def t using wt assms(8,9) by (intro conjI) simp_all
  then show "well_typed c1"
    using calm_well_typed [of ?c c1] assms(3,4,5) by (simp add: calm_def data_ok_def)
  show "ct_live c1 = ct_live c"
    using assms(3) by (simp add: shape_def)
qed

lemma local_typed:
  assumes "well_typed (tp_ctrl st)"
  shows "well_typed (tp_ctrl (snd (add_local_expander n t st)))" "ct_live (tp_ctrl (snd (add_local_expander n t st))) = ct_live (tp_ctrl st)"
proof -
  let ?c = "tp_ctrl st" and ?c1 = "tp_ctrl (snd (add_local_expander n t st))"
  note wt = well_typedD [OF assms]
  have "well_typed ?c1 \<and> ct_live ?c1 = ct_live ?c"
  proof (cases "tp_stk st = [] \<or> n = 0 \<or> length (ct_cur_expanders ?c) < n")
    case True
    then show ?thesis
      using assms by (auto simp: add_local_expander_def Let_def split: list.split)
  next
    case False
    then obtain path stk where stk: "tp_stk st = path # stk"
      by (cases "tp_stk st") auto
    let ?p = "ct_cur_expanders ?c ! (n - 1)"
    have c1: "?c1 = ?c\<lparr>ct_tree := upd_path path (push_expander ?p) (ct_tree ?c),
        ct_device_map := (ct_device_map ?c)(ct_num_end_points ?c \<mapsto> ?p), ct_num_end_points := ct_num_end_points ?c + 1\<rparr>"
      using False stk by (simp add: add_local_expander_def Let_def)
    have p: "?p < length (ct_types ?c)"
    proof -
      have "?p \<in> set (ct_cur_expanders ?c)"
        using False by (intro nth_mem) auto
      then show ?thesis
        using wt(2) by blast
    qed
    have tree: "set (sw_endpoints (upd_path path (push_expander ?p) (ct_tree ?c))) \<subseteq> insert ?p (set (sw_endpoints (ct_tree ?c)))"
      by (rule endpoints_upd_path) (simp add: endpoints_push)
    have ran: "ran ((ct_device_map ?c)(ct_num_end_points ?c \<mapsto> ?p)) \<subseteq> insert ?p (ran (ct_device_map ?c))"
      by (auto simp: ran_def split: if_splits)
    have dom: "0 \<le> ct_num_end_points ?c + 1" "dom ((ct_device_map ?c)(ct_num_end_points ?c \<mapsto> ?p)) \<subseteq> {0..<ct_num_end_points ?c + 1}"
      using wt(3,4) by (simp, fastforce)
    show ?thesis
      using hang_typed [OF assms p _ _ _ tree ran dom, of ?c1] by (simp add: c1)
  qed
  then show "well_typed ?c1" "ct_live ?c1 = ct_live ?c"
    by simp_all
qed


lemma retree_typed:
  assumes "well_typed c" "p < length (ct_types c)" "set (sw_endpoints tr) \<subseteq> insert p (set (sw_endpoints (ct_tree c)))"
  shows "well_typed (c\<lparr>ct_tree := tr\<rparr>)" "ct_live (c\<lparr>ct_tree := tr\<rparr>) = ct_live c"
  using hang_typed [OF assms(1,2) _ _ _ assms(3) _ well_typedD(3,4) [OF assms(1)], of "c\<lparr>ct_tree := tr\<rparr>"]
  by (auto simp: shape_def)

lemma topology_remote_typed:
  assumes "well_typed (tp_ctrl st)"
  shows "well_typed (tp_ctrl (add_topology_remote v st))" "ct_live (tp_ctrl st) \<Longrightarrow> ct_live (tp_ctrl (add_topology_remote v st))"
proof -
  let ?c = "tp_ctrl st" and ?node = "ucast v :: u32"
  define c1 where "c1 = snd (add_remote_endpoint ?node (ucast ?node * (1024 * 1024 * 1024)) (1024 * 1024 * 1024)
      \<lparr>fl_latency_ns = 100, fl_bandwidth_gbps = 25, fl_max_credits = 32\<rparr> ?c)"
  let ?p = "length (ct_heap ?c)"
  have wt: "well_typed c1" "ct_live ?c \<Longrightarrow> ct_live c1"
    using add_remote_typed [OF assms c1_def] by simp_all
  have p: "?p < length (ct_types c1)"
    by (simp add: c1_def add_remote_endpoint_def new_RemoteCXLExpander_def length_ct_types Let_def)
  have tree: "set (sw_endpoints (upd_path path (push_expander ?p) (ct_tree c1))) \<subseteq> insert ?p (set (sw_endpoints (ct_tree c1)))" for path
    by (rule endpoints_upd_path) (simp add: endpoints_push)
  have "tp_ctrl (add_topology_remote v st) = c1
      \<or> (\<exists>path. tp_ctrl (add_topology_remote v st) = c1\<lparr>ct_tree := upd_path path (push_expander ?p) (ct_tree c1)\<rparr>)"
    by (auto simp: add_topology_remote_def c1_def add_remote_endpoint_def new_RemoteCXLExpander_def Let_def split: list.split)
  then show "well_typed (tp_ctrl (add_topology_remote v st))" "ct_live ?c \<Longrightarrow> ct_live (tp_ctrl (add_topology_remote v st))"
    using wt retree_typed [OF wt(1) p tree] by auto
qed

lemma calm_open_switch: "calm (tp_ctrl st) (tp_ctrl (open_switch path st))"
proof -
  let ?f = "push_switch (new_CXLSwitch (ct_num_switches (tp_ctrl st)))"
  have "set (sw_endpoints (upd_path path ?f sw)) = set (sw_endpoints sw)" for sw
  proof (induction path arbitrary: sw)
    case (Cons i path)
    obtain s es ws where sw: "sw = CXLSwitch s es ws"
      by (cases sw)
    have "map (set \<circ> sw_endpoints) (ws[i := upd_path path ?f (ws ! i)]) = map (set \<circ> sw_endpoints) ws"
      by (rule map_update_same) (simp add: Cons.IH)
    then have "(\<Union>w \<in> set (ws[i := upd_path path ?f (ws ! i)]). set (sw_endpoints w)) = (\<Union>w \<in> set ws. set (sw_endpoints w))"
      by (metis (no_types, lifting) comp_apply image_cong image_set)
    then show ?case
      by (simp add: sw)
  qed (simp add: endpoints_push new_CXLSwitch_def)
  then show ?thesis
    by (simp add: open_switch_def Let_def calmI shape_def)
qed

lemma calm_live: "calm c c1 \<Longrightarrow> ct_live c1 = ct_live c"
  by (simp add: calm_def shape_def)

lemma construct_topo_typed:
  assumes "well_typed c"
  shows "well_typed (snd (construct_topo tree c))" "ct_live c \<Longrightarrow> ct_live (snd (construct_topo tree c))"
proof -
  let ?st = "\<lparr>tp_ctrl = c, tp_stk = [[]], tp_next_named_expander = 0, tp_topology_endpoints = 0\<rparr>"
  have snd: "snd (construct_topo tree c) = tp_ctrl (snd (topo_loop (tokenize tree) ?st))"
    by (auto simp: construct_topo_def split: prod.split option.split)
  have num: "calm c1 (c1\<lparr>ct_num_switches := n\<rparr>)" for c1 n
    by (simp add: calmI shape_def)
  have "leaves well_typed (topo_loop (tokenize tree) ?st)"
    by (rule topo_loop_leaves)
      (use assms in \<open>auto intro: calm_well_typed [OF num] calm_well_typed [OF calm_open_switch] topology_remote_typed local_typed\<close>)
  then show "well_typed (snd (construct_topo tree c))"
    by (simp add: snd leaves_def)
  have "leaves (\<lambda>c. well_typed c \<and> ct_live c) (topo_loop (tokenize tree) ?st)" if "ct_live c"
    by (rule topo_loop_leaves)
      (use assms that in \<open>auto intro: calm_well_typed [OF num] calm_well_typed [OF calm_open_switch] topology_remote_typed local_typed
        simp: calm_live [OF num] calm_live [OF calm_open_switch] local_typed(2)\<close>)
  then show "ct_live (snd (construct_topo tree c))" if "ct_live c"
    using that by (simp add: snd leaves_def)
qed


section \<open>Type safety\<close>

lemma ctrl_step_typed:
  assumes "ctrl_step x (c, po) = Some (c1, po1)" "well_typed c" shows "well_typed c1"
proof (cases "builds x")
  case True
  then show ?thesis
    using assms insert_end_point_typed(1) construct_topo_typed(1) add_remote_typed(1) configure_distributed_typed by (cases x) auto
qed (use calm_step [OF assms(1)] calm_well_typed assms(2) in blast)

fun reconfigures :: "ctrl_op \<Rightarrow> bool" where
  "reconfigures (Op_distributed node mode) = True"
| "reconfigures _ = False"

fun may_add_remote :: "ctrl_op \<Rightarrow> bool" where
  "may_add_remote (Op_topo tree) = True"
| "may_add_remote (Op_remote node base cap link) = True"
| "may_add_remote _ = False"

lemma ctrl_step_live:
  assumes "ctrl_step x (c, po) = Some (c1, po1)" "well_typed c" "ct_live c" "\<not> reconfigures x" shows "ct_live c1"
proof (cases "builds x")
  case True
  then show ?thesis
    using assms insert_end_point_typed(2) construct_topo_typed(2) add_remote_typed(2) by (cases x) auto
qed (use calm_step [OF assms(1)] calm_live assms(3) in blast)

lemma ctrl_step_remotes:
  assumes "ctrl_step x (c, po) = Some (c1, po1)" "\<not> may_add_remote x" shows "ct_remote_expanders c1 = ct_remote_expanders c"
proof (cases "builds x")
  case True
  then show ?thesis
    using assms by (cases x) (auto simp: insert_end_point_def configure_distributed_def Let_def)
next
  case False
  then show ?thesis
    using calm_step [OF assms(1)] by (simp add: calm_def shape_def)
qed


lemma ctrl_run_typed: "ctrl_run xs (c, po) = Some (c1, po1) \<Longrightarrow> well_typed c \<Longrightarrow> well_typed c1"
proof (induction xs arbitrary: c po)
  case (Cons x xs)
  then obtain c2 po2 where s: "ctrl_step x (c, po) = Some (c2, po2)" and "ctrl_run xs (c2, po2) = Some (c1, po1)"
    by (auto simp: bind_eq_Some_conv)
  then show ?case
    using Cons.IH ctrl_step_typed [OF s Cons.prems(2)] by blast
qed simp

lemma ctrl_run_live:
  "ctrl_run xs (c, po) = Some (c1, po1) \<Longrightarrow> well_typed c \<Longrightarrow> ct_live c \<Longrightarrow> list_all (\<lambda>x. \<not> reconfigures x) xs \<Longrightarrow> ct_live c1"
proof (induction xs arbitrary: c po)
  case (Cons x xs)
  then obtain c2 po2 where s: "ctrl_step x (c, po) = Some (c2, po2)" and "ctrl_run xs (c2, po2) = Some (c1, po1)"
    by (auto simp: bind_eq_Some_conv)
  then show ?case
    using Cons.IH ctrl_step_typed [OF s] ctrl_step_live [OF s] Cons.prems(2-4) by simp
qed simp

text \<open>The distributed mode is configured before the first remote expander may appear, if at all.\<close>

definition configured_first :: "ctrl_op list \<Rightarrow> bool" where
  "configured_first xs \<longleftrightarrow> list_all (\<lambda>x. \<not> reconfigures x) (dropWhile (\<lambda>x. \<not> may_add_remote x) xs)"

lemma configured_first_live:
  "ctrl_run xs (c, po) = Some (c1, po1) \<Longrightarrow> well_typed c \<Longrightarrow> ct_remote_expanders c = [] \<Longrightarrow> configured_first xs \<Longrightarrow> ct_live c1"
proof (induction xs arbitrary: c po)
  case Nil
  then show ?case
    using no_remotes_live by simp
next
  case (Cons x xs)
  show ?case
  proof (cases "may_add_remote x")
    case True
    then show ?thesis
      using ctrl_run_live [OF Cons.prems(1,2) no_remotes_live] Cons.prems by (simp add: configured_first_def)
  next
    case False
    obtain c2 po2 where s: "ctrl_step x (c, po) = Some (c2, po2)" and r: "ctrl_run xs (c2, po2) = Some (c1, po1)"
      using Cons.prems(1) by (auto simp: bind_eq_Some_conv)
    show ?thesis
      using Cons.IH [OF r] ctrl_step_typed [OF s] ctrl_step_remotes [OF s False] Cons.prems False by (simp add: configured_first_def)
  qed
qed

lemma latency_defined:
  assumes "well_typed c" "ct_live c" shows "ct_calculate_latency el d c \<noteq> None"
proof -
  have "set (sw_endpoints (ct_tree c)) \<subseteq> {..<length (fst (fab_type (ct_fabric c)))}"
    using well_typedD(1) [OF assms(1)] by (simp add: fab_type_def ct_types_def)
  then show ?thesis
    using sound_latency [of "ct_tree c" el d] assms(2) by (simp add: sound_def ct_calculate_latency_def)
qed

text \<open>
  C3: Type safety of the controller. Whatever sequence of its operations a new controller has been
  through, rejected topologies and replaced engines included, all its pointers lead to objects of the
  class they are used at, as \<open>well_typed\<close> states. And when the distributed mode was configured before
  the first remote expander could appear, no latency calculation uses a coherency engine that is gone.
\<close>

theorem controller_type_safe:
  assumes "ctrl_run ops (new_CXLController cap pt dram, po) = Some (c, po1)"
  shows "well_typed c \<and> (configured_first ops \<longrightarrow> (\<forall>elem d. ct_calculate_latency elem d c \<noteq> None))"
proof -
  have none: "ct_remote_expanders (new_CXLController cap pt dram) = []"
    by (simp add: new_CXLController_def)
  show ?thesis
    using ctrl_run_typed [OF assms well_typed_new] latency_defined configured_first_live [OF assms well_typed_new none] by blast
qed

theorem controller_type_safe_witness:
  "\<exists>c. ctrl_run [Op_distributed 0 RANGE_BASED, Op_remote 1 0 1048576 \<lparr>fl_latency_ns = 100, fl_bandwidth_gbps = 25, fl_max_credits = 32\<rparr>]
       (new_CXLController 4 PAGE 100, plain_policies) = Some (c, plain_policies)
     \<and> ct_remote_expanders c = [0] \<and> well_typed c \<and> ct_calculate_latency [(0, 64)] 100 c \<noteq> None"
proof -
  let ?ops = "[Op_distributed 0 RANGE_BASED, Op_remote 1 0 1048576 \<lparr>fl_latency_ns = 100, fl_bandwidth_gbps = 25, fl_max_credits = 32\<rparr>]"
  obtain c where c: "ctrl_run ?ops (new_CXLController 4 PAGE 100, plain_policies) = Some (c, plain_policies)"
    by simp
  moreover have "ct_remote_expanders c = [0]"
    using c by (auto simp: add_remote_endpoint_def configure_distributed_def new_CXLController_def new_RemoteCXLExpander_def Let_def)
  moreover have "configured_first ?ops"
    by (simp add: configured_first_def)
  ultimately show ?thesis
    using controller_type_safe [OF c] by blast
qed

text \<open>Configured again afterwards, the remote expander asks an engine that has been freed.\<close>

lemma reconfigured_engine_gone:
  "\<exists>c. ctrl_run [Op_distributed 0 RANGE_BASED, Op_remote 1 0 1048576 \<lparr>fl_latency_ns = 100, fl_bandwidth_gbps = 25, fl_max_credits = 32\<rparr>,
        Op_distributed 0 RANGE_BASED] (new_CXLController 4 PAGE 100, plain_policies) = Some (c, plain_policies)
     \<and> ct_calculate_latency [(0, 64)] 100 c = None"
  by (simp add: add_remote_endpoint_def configure_distributed_def new_CXLController_def new_RemoteCXLExpander_def Let_def split_beta
      ct_calculate_latency_def push_expander_def new_CXLSwitch_def ep_calculate_latency_def rx_calculate_latency_def
      in_remote_range_def rx_coherency_latency_def engine_read_def)

end
