(* ===== verification/Spec2Isabelle.thy ===== *)
theory Spec2Isabelle
  imports HDM_Decoder DCD GFAM LogP Fabric_Link Coherency_Engine MHSLD CXL_Expander SSD_Progress GPU_Driver Policies
    Reorder_Window Controller_Safety
begin

text \<open>
  CXLMemSim simulates CXL memory: a controller owns a tree of switches with memory expanders as
  leaves, classifies the memory accesses of traced threads, decides where pages live, and charges the
  latency of the devices, of the links between nodes and of coherence. Around it stand devices it
  can enable (a multi-headed device, dynamic capacity with fabric-attached sharing), a backend that
  streams memory from an SSD, and a replacement of the CUDA driver library for guests, which talks to
  an emulated GPU through a mapped window. This library models these parts as functions on explicit
  states, one theory per component, and proves what each of them promises. All paths below are
  relative to the directory src/ of the repository.

  \<^bold>\<open>Conventions\<close> (theory Prelude). \<open>uint64_t\<close>, \<open>uint32_t\<close> and \<open>uint8_t\<close> are words and wrap;
  \<open>int\<close> is unbounded where the code stays far from its limits; \<open>double\<close> is \<^typ>\<open>real\<close>, so rounding is
  not modelled, and the conversion to \<open>uint64_t\<close> truncates. An exception, an error code or a null
  result is a value; undefined behaviour and a loop that never ends are \<^const>\<open>None\<close> or a value of
  their own. A method that holds a mutex throughout is one step. A hash map is a map, or an association
  list where its iteration order shows.

  \<^bold>\<open>Address map and capacity.\<close>
  \<^item> HDM_Decoder (include/hdm_decoder.h, src/hdm_decoder.cpp): range, interleaved and hybrid decoding.
    The binary search over the sorted table gives what the linear scan gives; interleaving is a
    bijection, and through the locale \<open>routing\<close>, interpreted for both modes, memory spread over the
    targets reads as one flat memory.
  \<^item> DCD (include/dcd_gfam.h, src/dcd_gfam.cpp): extents of dynamic capacity. They stay disjoint,
    aligned and inside the device for any requests; add and release implement an allocator on
    sets of bytes. The locale \<open>capacity_provider\<close> is what GFAM relies on.
  \<^item> GFAM (same files): hosts, shares, mappings and access control, exact with respect to grants
    and allocated bytes.

  \<^bold>\<open>Links and coherence.\<close>
  \<^item> LogP and Fabric_Link (include/cxlendpoint.h, src/cxlendpoint.cpp): message and traversal latency
    with bounds, and the credits of a link, under every interleaving of the threads' atomic steps.
  \<^item> MOESI: the abstract line protocol and the locale \<open>moesi_directory\<close>, the contract of a directory,
    interpreted for Coherency_Engine (include/coherency_engine.h, src/coherency_engine.cpp) and for
    MHSLD (\<open>MHSLDDevice\<close> of src/cxlendpoint.cpp). Both refine the protocol and stay coherent; a
    remote invalidation leaves sharers behind that later writes miss. MHSLD also has the pool
    allocator and the loop of \<open>release_pool\<close>, which ends exactly below the top of the address space.

  \<^bold>\<open>Expanders, switches, controller.\<close>
  \<^item> CXL_Expander (\<open>CXLMemExpander\<close>): access table, address caches, request queue and credits,
    latency and bandwidth. Remote_Expander (\<open>RemoteCXLExpander\<close>) adds the store: expanders are
    objects, a pointer is an index, an engine that has been freed is missing. CXL_Switch
    (\<open>CXLSwitch\<close>): the tree and all its walks; its counters add up.
  \<^item> LRU_Cache (\<open>LRUCache\<close> of include/cxlcontroller.h, \<open>TLBCache\<close> of include/policy.h): caches as
    lists with an index of iterators, refining a bounded recency list, both instances of the locale
    \<open>recency_cache\<close>. Policies (include/policy.h, src/policy.cpp): placement, migration, paging and
    caching policies.
  \<^item> Controller_State, Topology, Controller, Controller_Devices (include/cxlcontroller.h,
    src/cxlcontroller.cpp): the state; the parser of topology strings, inverse to a printer of trees;
    both \<open>insert\<close> functions, migration, back invalidation and the queries; the devices the
    controller owns. Controller_Access shows what \<open>insert\<close> counts, that migration policies change
    nothing, and what back invalidation removes; Reorder_Window that the window of one thread is
    exact and that two threads break it; Controller_Devices that capacity added after a release is
    private as long as whole extents are granted and released, and what an unaligned release leaves.
    Controller_Safety lists every operation in \<open>ctrl_op\<close> and shows that any sequence of them leaves the
    controller well typed, and when latency calculations are defined.

  \<^bold>\<open>SSD streaming\<close> (include/ssd_streaming_backend.h, src/ssd_streaming_backend.cpp). SSD_Backend has the
    page cache with clock eviction, read-ahead, pinning and flushing, over an environment in which
    every system call may fail. SSD_Refinement shows that it is a flat memory and that a successful
    flush survives a restart; SSD_Progress that accesses succeed while system calls do.

  \<^bold>\<open>Guest GPU library\<close> (qemu_integration/guest_libcuda). GPU_Transport (cxl_gpu_transport.c): registers,
    windows, submission and polling against an arbitrary device; commands return when the clock
    runs and are answered in order by a device that follows the protocol. GPU_Context
    (cxl_gpu_context_state.c): a depth per thread refines context stacks. GPU_Launch (libcuda.c):
    parameter layouts and kernel launch, memory safe whatever the device answers. GPU_Driver
    (libcuda.c): context calls and context-local storage, a map of 128 keys; the locale \<open>keyed_store\<close>
    covers this table and the layout cache.

  \<^bold>\<open>Bounds and loops.\<close> No definition uses fuel. Loops over data are structural or have a measure:
  the lists they consume, the length of the vector minus the index, the pages still to evict. Three
  loops need not end and are partial functions with the value \<^const>\<open>None\<close> for not ending: the polling
  loop of the transport, the line loop of \<open>release_pool\<close> and \<open>goto next\<close> of the interleaving policy;
  for each a theorem says exactly or sufficiently when it returns. The examples that show hypotheses
  satisfiable use small devices (a few pages, extents or expanders) so that they can be computed.

  \<^bold>\<open>Parameters.\<close> The GPU behind the window and the clock (GPU_Transport), the outcome of system calls
  (SSD_Backend) and of allocations (GPU_Launch), the coins of random ageing (CXL_Expander): arguments
  of the model, with what a theorem needs of them among its hypotheses.

  \<^bold>\<open>Not modelled.\<close> Interleavings inside the SSD backend while I/O drops its mutex, and inside other
  methods that use atomics without a lock, except the credits of a link and the context calls of
  the GPU library. Rounding of \<open>double\<close>. Logging, formatting and the getters of the controller that
  only forward statistics. The message transports of the coherency engine, TCP and RDMA
  communication, the memory server and the distributed server: sockets, verbs, threads and shared
  memory of the operating system around the modelled controller. Shared memory manager and shared
  memory rings: mappings of the operating system. Hardware monitoring, the command line drivers, the
  trace tools of the reorder buffer, scripts, benchmarks and workloads. The rest of libcuda.c: wrappers
  that marshal one command each over the modelled transport. include/vmlinux.h: generated.
\<close>

end
